(* ===== verification/Prelude.thy ===== *)
theory Prelude
  imports Main "HOL-Library.AList" "HOL-Library.Code_Target_Nat"
begin

text \<open>
  What every component shares: Python dictionaries as association lists in insertion
  order, sums over the values of a dictionary, clamping, and the contract of a step
  machine (an initial predicate, a step relation, an invariant) with the one induction
  that turns preservation by a step into a property of every reachable state.
\<close>

section \<open>Collections of rules\<close>

named_theorems dict_simps \<open>rewrite rules of dictionary updates and sums\<close>

section \<open>Dictionaries\<close>

text \<open>
  A Python \<open>dict\<close> keeps its insertion order: assigning an existing key replaces the value
  in place, a new key goes to the end. \<open>AList.update\<close> does exactly that, \<open>map_of\<close> is
  \<open>d.get(k)\<close>, \<open>AList.delete\<close> is \<open>d.pop(k, None)\<close>.
\<close>

type_synonym ('k, 'v) dict = "('k \<times> 'v) list"

definition dict_ok :: "('k, 'v) dict \<Rightarrow> bool" where
  "dict_ok d \<longleftrightarrow> distinct (map fst d)"

definition dmod :: "'k \<Rightarrow> ('v \<Rightarrow> 'v) \<Rightarrow> ('k, 'v) dict \<Rightarrow> ('k, 'v) dict" where
  "dmod k f d = (case map_of d k of None \<Rightarrow> d | Some v \<Rightarrow> AList.update k (f v) d)"

definition dsum :: "('v \<Rightarrow> int) \<Rightarrow> ('k, 'v) dict \<Rightarrow> int" where
  "dsum f d = sum_list (map (f \<circ> snd) d)"

lemma dict_ok_Nil [simp]: "dict_ok []"
  by (simp add: dict_ok_def)

lemma dict_ok_update [simp]: "dict_ok d \<Longrightarrow> dict_ok (AList.update k v d)"
  by (simp add: dict_ok_def distinct_update)

lemma dict_ok_delete [simp]: "dict_ok d \<Longrightarrow> dict_ok (AList.delete k d)"
  by (simp add: dict_ok_def distinct_delete)

lemma dict_ok_dmod [simp]: "dict_ok d \<Longrightarrow> dict_ok (dmod k f d)"
  by (simp add: dmod_def split: option.split)

lemma update_get [simp, dict_simps]: "map_of (AList.update k v d) = (map_of d)(k \<mapsto> v)"
  by (rule update_conv')

lemma delete_get [simp, dict_simps]: "map_of (AList.delete k d) = (map_of d)(k := None)"
  by (rule delete_conv')

lemma dmod_get [simp, dict_simps]: "map_of (dmod k f d) = (map_of d)(k := map_option f (map_of d k))"
  by (auto simp: dmod_def split: option.split)

lemma map_of_map_snd: "map_of (map (\<lambda>(k, v). (k, f k v)) d) x = map_option (f x) (map_of d x)"
  by (induction d) auto

lemma dsum_Nil [simp]: "dsum f [] = 0"
  by (simp add: dsum_def)

lemma dsum_Cons [simp]: "dsum f (p # d) = f (snd p) + dsum f d"
  by (simp add: dsum_def)

lemma dsum_new [dict_simps]: "map_of d k = None \<Longrightarrow> dsum f (AList.update k v d) = dsum f d + f v"
  by (induction d) auto

lemma dsum_old [dict_simps]: "map_of d k = Some w \<Longrightarrow>
   dsum f (AList.update k v d) = dsum f d - f w + f v"
  by (induction d) auto

lemma dsum_zero: "(\<And>p. p \<in> set d \<Longrightarrow> f (snd p) = 0) \<Longrightarrow> dsum f d = 0"
  by (induction d) auto

lemma dsum_nonneg: "(\<And>v. 0 \<le> f v) \<Longrightarrow> 0 \<le> dsum f d"
  by (induction d) (auto simp: add_nonneg_nonneg)

lemma dsum_cong: "(\<And>p. p \<in> set d \<Longrightarrow> f (snd p) = g (snd p)) \<Longrightarrow> dsum f d = dsum g d"
  by (induction d) auto

lemma map_of_values: "map_of d k = Some v \<Longrightarrow> (k, v) \<in> set d"
  by (rule map_of_SomeD)

lemma dict_ok_get: "dict_ok d \<Longrightarrow> (k, v) \<in> set d \<longleftrightarrow> map_of d k = Some v"
  by (auto simp: dict_ok_def intro: map_of_is_SomeI dest: map_of_SomeD)

lemma set_map_filter: "set (List.map_filter f xs) = {y. \<exists>x \<in> set xs. f x = Some y}"
  by (induction xs) (auto simp: List.map_filter_def split: option.splits)

section \<open>Clamping\<close>

text \<open>\<open>max(low, min(high, value))\<close>, the bound of every environment integer of the program.\<close>

definition clamp :: "int \<Rightarrow> int \<Rightarrow> int \<Rightarrow> int" where
  "clamp low high v = max low (min high v)"

lemma clamp_bounds: "low \<le> high \<Longrightarrow> low \<le> clamp low high v \<and> clamp low high v \<le> high"
  by (auto simp: clamp_def)

lemma clamp_id: "low \<le> v \<Longrightarrow> v \<le> high \<Longrightarrow> clamp low high v = v"
  by (simp add: clamp_def)

section \<open>Results\<close>

text \<open>
  A call that can raise is a sum: \<open>Inl\<close> the error, \<open>Inr\<close> the value. \<open>and_then\<close> is the next
  statement after such a call, \<open>ok_value\<close> the \<open>try\<close> that turns any error into \<open>None\<close>.
\<close>

fun and_then :: "'e + 'a \<Rightarrow> ('a \<Rightarrow> 'e + 'b) \<Rightarrow> 'e + 'b" where
  "and_then (Inl e) f = Inl e"
| "and_then (Inr x) f = f x"

fun ok_value :: "'e + 'a \<Rightarrow> 'a option" where
  "ok_value (Inl e) = None"
| "ok_value (Inr x) = Some x"

lemma and_then_Inr: "and_then r f = Inr y \<longleftrightarrow> (\<exists>x. r = Inr x \<and> f x = Inr y)"
  by (cases r) auto

lemma and_then_Inl: "and_then r f = Inl e \<longleftrightarrow> r = Inl e \<or> (\<exists>x. r = Inr x \<and> f x = Inl e)"
  by (cases r) auto

lemma ok_value_Some [simp]: "ok_value r = Some x \<longleftrightarrow> r = Inr x"
  by (cases r) auto

lemma ok_value_None [simp]: "ok_value r = None \<longleftrightarrow> (\<exists>e. r = Inl e)"
  by (cases r) auto

text \<open>The values of a list that a partial function accepts, without duplicates, in order.\<close>

fun collect_new :: "('a \<Rightarrow> 'b option) \<Rightarrow> 'b list \<Rightarrow> 'a list \<Rightarrow> 'b list" where
  "collect_new f out [] = out"
| "collect_new f out (x # xs) = collect_new f
     (case f x of None \<Rightarrow> out | Some y \<Rightarrow> if y \<in> set out then out else out @ [y]) xs"

lemma collect_new_set: "set (collect_new f out xs) = set out \<union> {y. \<exists>x \<in> set xs. f x = Some y}"
  by (induction f out xs rule: collect_new.induct) (auto split: option.split)

lemma collect_new_distinct: "distinct out \<Longrightarrow> distinct (collect_new f out xs)"
  by (induction f out xs rule: collect_new.induct) (auto split: option.split)

section \<open>Step machines\<close>

inductive reaches :: "('s \<Rightarrow> bool) \<Rightarrow> ('s \<Rightarrow> 'l \<Rightarrow> 's \<Rightarrow> bool) \<Rightarrow> 's \<Rightarrow> bool"
  for start :: "'s \<Rightarrow> bool" and step :: "'s \<Rightarrow> 'l \<Rightarrow> 's \<Rightarrow> bool" where
  init: "start s \<Longrightarrow> reaches start step s"
| next_step: "reaches start step s \<Longrightarrow> step s l t \<Longrightarrow> reaches start step t"

text \<open>The contract: the invariant holds at the start and every step keeps it.\<close>

locale step_machine =
  fixes start :: "'s \<Rightarrow> bool"
    and step :: "'s \<Rightarrow> 'l \<Rightarrow> 's \<Rightarrow> bool"
    and inv :: "'s \<Rightarrow> bool"
  assumes inv_start: "start s \<Longrightarrow> inv s"
    and inv_step: "inv s \<Longrightarrow> step s l t \<Longrightarrow> inv t"
begin

lemma reaches_inv: "reaches start step s \<Longrightarrow> inv s"
  by (induction rule: reaches.induct) (auto intro: inv_start inv_step)

lemma reaches_weaken: "reaches start step s \<Longrightarrow> (\<And>t. inv t \<Longrightarrow> P t) \<Longrightarrow> P s"
  using reaches_inv by blast

end

end
