(* ===== verification/Store.thy ===== *)
theory Store
  imports Py_Text "HOL-Library.Option_ord"
begin

text \<open>
  The shop of \<open>telegram_bot.py\<close>: users with a wallet, orders, gift codes and discount codes, and
  every operation that runs under \<open>_state_lock\<close>. An operation returns its answer and the new
  store; the Persian text of an error is a constructor. Times are microseconds of the local
  clock. \<open>_finish_order\<close> is split where it lets other work in: \<open>finish_begin\<close> before the
  provisioning, then \<open>finish_commit\<close> or \<open>finish_rollback\<close>.
\<close>

section \<open>Data\<close>

record plan =
  pl_id :: string
  pl_name :: string
  pl_quota :: int
  pl_label :: string
  pl_days :: int
  pl_price :: int
  pl_trial :: bool
  pl_active :: bool

record user =
  u_id :: int
  u_username :: string
  u_first :: string
  u_balance :: int
  u_created :: int
  u_seen :: int
  u_sub :: "string option"
  u_gifts :: "string list"
  u_trial :: "int option"

datatype order_kind = Kind_New | Kind_Renew | Kind_Wallet
datatype pay_method = By_Card | By_Wallet | For_Free
datatype order_status =
    Draft | Cancelled | Awaiting_Receipt | Expired | Pending_Admin | Processing | Approved | Rejected

record order =
  o_id :: string
  o_user :: int
  o_kind :: order_kind
  o_plan :: "plan option"
  o_service :: "string option"
  o_base :: int
  o_discount :: int
  o_code :: "string option"
  o_reserved :: bool
  o_amount :: int
  o_method :: "pay_method option"
  o_status :: order_status
  o_created :: int
  o_started :: "int option"
  o_receipt :: "string option"
  o_receipt_at :: "int option"
  o_reviewer :: "int option"
  o_processing_at :: "int option"
  o_approved_at :: "int option"
  o_closed_at :: "int option"
  o_failed :: bool

record gift =
  g_amount :: int
  g_max :: int
  g_used :: "int list"
  g_active :: bool
  g_expires :: "int option"
  g_by :: int

datatype promo_kind = Percent | Fixed

record promo =
  d_kind :: promo_kind
  d_value :: int
  d_max :: int
  d_uses :: int
  d_used :: "int list"
  d_orders :: "string list"
  d_active :: bool
  d_expires :: "int option"
  d_by :: int

record settings =
  card_number :: string
  card_holder :: string
  support :: string

datatype audit =
    Audit_Gift string int int int
  | Audit_Assignment int string nat nat nat int

record store =
  users :: "(int, user) dict"
  orders :: "(string, order) dict"
  gifts :: "(string, gift) dict"
  promos :: "(string, promo) dict"
  redemptions :: "audit list"
  admin_audit :: "audit list"
  poll_offset :: int
  config :: settings

definition new_store :: "settings \<Rightarrow> store" where
  "new_store cfg = \<lparr>users = [], orders = [], gifts = [], promos = [], redemptions = [], admin_audit = [],
     poll_offset = 0, config = cfg\<rparr>"

datatype shop_error =
    Order_Missing | Already_Approved | Status_Forbids | User_Missing | Trial_Used | Not_Free | Free_Order
  | Code_Inactive | Code_Exhausted | Code_Used | Code_Format | Order_Not_Discountable
  | Wallet_Too_Low | No_Admin | No_Card | Order_Invalid | Nothing_To_Pay | No_Receipt_Order | Not_Pending
  | Gift_Format | Gift_Invalid | Gift_Used | Gift_Exhausted | Gift_Amount | Provision_Failed | Key_Error
  | Not_Admin | Target_Gone

section \<open>The catalogue and reading text\<close>

definition ECONOMIC :: plan where
  "ECONOMIC = \<lparr>pl_id = ''economic'', pl_name = ''economic'', pl_quota = 10 * 1024 ^ 3, pl_label = ''10 GB'', pl_days = 25,
     pl_price = 80000, pl_trial = False, pl_active = True\<rparr>"
definition STANDARD :: plan where
  "STANDARD = \<lparr>pl_id = ''standard'', pl_name = ''standard'', pl_quota = 20 * 1024 ^ 3, pl_label = ''20 GB'', pl_days = 30,
     pl_price = 100000, pl_trial = False, pl_active = True\<rparr>"
definition TRIAL :: plan where
  "TRIAL = \<lparr>pl_id = ''trial'', pl_name = ''trial'', pl_quota = 150 * 1024 ^ 2, pl_label = ''150 MB'', pl_days = 1,
     pl_price = 0, pl_trial = True, pl_active = True\<rparr>"
definition PLANS :: "plan list" where "PLANS = [ECONOMIC, STANDARD, TRIAL]"

definition MIN_TOPUP :: int where "MIN_TOPUP = 20000"
definition MAX_TOPUP :: int where "MAX_TOPUP = 20000000"

definition active_plan :: "string \<Rightarrow> plan option" where
  "active_plan plan_id = (case find (\<lambda>p. pl_id p = plan_id) PLANS of
     None \<Rightarrow> None | Some p \<Rightarrow> if pl_active p then Some p else None)"

text \<open>\<open>_parse_int\<close> with its bounds; the Persian and Arabic digits it also accepts lie outside the texts here.\<close>

definition read_amount :: "string \<Rightarrow> int \<Rightarrow> int \<Rightarrow> int option" where
  "read_amount text low high = (case parse_int (strip (filter (\<lambda>c. c \<noteq> CHR '','') text)) of
     None \<Rightarrow> None | Some v \<Rightarrow> if low \<le> v \<and> v \<le> high then Some v else None)"

definition code_char :: "char \<Rightarrow> bool" where
  "code_char c \<longleftrightarrow> (let n = ord c in 65 \<le> n \<and> n \<le> 90) \<or> is_decimal c \<or> c = CHR ''_'' \<or> c = CHR ''-''"

definition normalize_code :: "string \<Rightarrow> string option" where
  "normalize_code text = (let code = filter (\<lambda>c. c \<noteq> CHR '' '') (upper (strip text)) in
     if 3 \<le> length code \<and> length code \<le> 32 \<and> list_all code_char code then Some code else None)"

definition expired :: "int \<Rightarrow> int option \<Rightarrow> bool" where
  "expired now t = (case t of None \<Rightarrow> False | Some e \<Rightarrow> e \<le> now)"

fun new_order_id :: "string list \<Rightarrow> (string, order) dict \<Rightarrow> string option" where
  "new_order_id [] os = None"
| "new_order_id (t # ts) os = (let oid = ''O'' @ upper t in
     if map_of os oid = None then Some oid else new_order_id ts os)"

section \<open>Updating one entry\<close>

definition upd_order :: "string \<Rightarrow> (order \<Rightarrow> order) \<Rightarrow> store \<Rightarrow> store" where
  "upd_order oid f s = s\<lparr>orders := dmod oid f (orders s)\<rparr>"

definition upd_user :: "int \<Rightarrow> (user \<Rightarrow> user) \<Rightarrow> store \<Rightarrow> store" where
  "upd_user uid f s = s\<lparr>users := dmod uid f (users s)\<rparr>"

definition upd_promo :: "string \<Rightarrow> (promo \<Rightarrow> promo) \<Rightarrow> store \<Rightarrow> store" where
  "upd_promo c f s = s\<lparr>promos := dmod c f (promos s)\<rparr>"

definition pay_in :: "int \<Rightarrow> int \<Rightarrow> store \<Rightarrow> store" where
  "pay_in uid amount s = upd_user uid (\<lambda>u. u\<lparr>u_balance := u_balance u + amount\<rparr>) s"

section \<open>Users\<close>

definition ensure_user :: "int \<Rightarrow> int \<Rightarrow> string \<Rightarrow> string \<Rightarrow> store \<Rightarrow> store" where
  "ensure_user now uid username first s = (case map_of (users s) uid of
     None \<Rightarrow> s\<lparr>users := AList.update uid \<lparr>u_id = uid, u_username = username,
               u_first = (if first = [] then ''user'' else first), u_balance = 0, u_created = now, u_seen = now,
               u_sub = None, u_gifts = [], u_trial = None\<rparr> (users s)\<rparr>
   | Some u \<Rightarrow> upd_user uid (\<lambda>u. u\<lparr>u_username := username, u_first := (if first = [] then ''user'' else first), u_seen := now\<rparr>) s)"

section \<open>Prices and discounts\<close>

definition discount_valid :: "int \<Rightarrow> promo option \<Rightarrow> int \<Rightarrow> shop_error option" where
  "discount_valid now entry uid = (case entry of
     None \<Rightarrow> Some Code_Inactive
   | Some d \<Rightarrow>
      if \<not> d_active d \<or> expired now (d_expires d) then Some Code_Inactive
      else if d_max d \<le> d_uses d then Some Code_Exhausted
      else if uid \<in> set (d_used d) then Some Code_Used else None)"

definition calculate_payable :: "int \<Rightarrow> promo option \<Rightarrow> int \<times> int" where
  "calculate_payable base_amount entry = (let base = max 0 base_amount in
     case entry of
       None \<Rightarrow> (base, 0)
     | Some d \<Rightarrow>
        (let value = max 0 (d_value d);
             raw = (if d_kind d = Percent then (base * min 100 value) div 100 else min base value);
             discount = min base (max 0 raw)
         in (base - discount, discount)))"

definition apply_discount :: "int \<Rightarrow> string \<Rightarrow> int \<Rightarrow> string \<Rightarrow> store \<Rightarrow> (shop_error + order) \<times> store" where
  "apply_discount now oid uid text s = (case normalize_code text of
     None \<Rightarrow> (Inl Code_Format, s)
   | Some c \<Rightarrow>
      (case map_of (orders s) oid of
         None \<Rightarrow> (Inl Order_Not_Discountable, s)
       | Some od \<Rightarrow>
          if o_user od \<noteq> uid \<or> o_status od \<noteq> Draft \<or> o_kind od = Kind_Wallet then (Inl Order_Not_Discountable, s)
          else (case discount_valid now (map_of (promos s) c) uid of
              Some e \<Rightarrow> (Inl e, s)
            | None \<Rightarrow>
               (let (amount, discount) = calculate_payable (o_base od) (map_of (promos s) c);
                    od' = od\<lparr>o_code := Some c, o_discount := discount, o_amount := amount\<rparr>
                in (Inr od', upd_order oid (\<lambda>_. od') s)))))"

text \<open>\<open>_reserve_discount_locked\<close> and \<open>_release_discount_locked\<close>; the order is given by its identity.\<close>

definition reserve_discount :: "int \<Rightarrow> string \<Rightarrow> store \<Rightarrow> shop_error option \<times> store" where
  "reserve_discount now oid s = (case map_of (orders s) oid of
     None \<Rightarrow> (None, s)
   | Some od \<Rightarrow>
      (case o_code od of
         None \<Rightarrow> (None, s)
       | Some c \<Rightarrow>
          if o_reserved od then (None, s)
          else (case discount_valid now (map_of (promos s) c) (o_user od) of
              Some e \<Rightarrow> (Some e, s)
            | None \<Rightarrow> (None, upd_order oid (\<lambda>x. x\<lparr>o_reserved := True\<rparr>)
                (upd_promo c (\<lambda>d. d\<lparr>d_uses := d_uses d + 1, d_used := d_used d @ [o_user od],
                                    d_orders := d_orders d @ [o_id od]\<rparr>) s)))))"

definition release_discount :: "string \<Rightarrow> store \<Rightarrow> store" where
  "release_discount oid s = (case map_of (orders s) oid of
     None \<Rightarrow> s
   | Some od \<Rightarrow>
      (case o_code od of
         None \<Rightarrow> s
       | Some c \<Rightarrow>
          if \<not> o_reserved od then s
          else upd_order oid (\<lambda>x. x\<lparr>o_reserved := False\<rparr>)
            (upd_promo c (\<lambda>d. d\<lparr>d_uses := max 0 (d_uses d - 1), d_used := remove1 (o_user od) (d_used d),
                                d_orders := remove1 (o_id od) (d_orders d)\<rparr>) s)))"

section \<open>Orders\<close>

definition draft_order :: "int \<Rightarrow> string \<Rightarrow> int \<Rightarrow> order_kind \<Rightarrow> plan option \<Rightarrow> string option \<Rightarrow> int \<Rightarrow> order" where
  "draft_order now oid uid kind plan service base = \<lparr>o_id = oid, o_user = uid, o_kind = kind, o_plan = plan,
     o_service = service, o_base = base, o_discount = 0, o_code = None, o_reserved = False, o_amount = base,
     o_method = None, o_status = Draft, o_created = now, o_started = None, o_receipt = None, o_receipt_at = None,
     o_reviewer = None, o_processing_at = None, o_approved_at = None, o_closed_at = None, o_failed = False\<rparr>"

definition create_order :: "int \<Rightarrow> string list \<Rightarrow> int \<Rightarrow> order_kind \<Rightarrow> plan option \<Rightarrow> string option \<Rightarrow> int option \<Rightarrow> store \<Rightarrow>
    (shop_error + order) \<times> store" where
  "create_order now tokens uid kind plan service amount s = (case new_order_id tokens (orders s) of
     None \<Rightarrow> (Inl Key_Error, s)
   | Some oid \<Rightarrow>
      (let base = max 0 (case amount of Some a \<Rightarrow> a | None \<Rightarrow> (case plan of Some p \<Rightarrow> pl_price p | None \<Rightarrow> 0));
           od = draft_order now oid uid kind plan service base
       in (Inr od, s\<lparr>orders := AList.update oid od (orders s)\<rparr>)))"

definition cancel_order :: "int \<Rightarrow> string \<Rightarrow> int \<Rightarrow> store \<Rightarrow> bool \<times> store" where
  "cancel_order now oid uid s = (case map_of (orders s) oid of
     None \<Rightarrow> (False, s)
   | Some od \<Rightarrow>
      if o_user od \<noteq> uid \<or> o_status od \<noteq> Draft then (False, s)
      else (True, upd_order oid (\<lambda>x. x\<lparr>o_status := Cancelled, o_closed_at := Some now\<rparr>) s))"

definition close_waiting :: "int \<Rightarrow> order_status \<Rightarrow> string \<Rightarrow> store \<Rightarrow> store" where
  "close_waiting now why oid s = upd_order oid (\<lambda>x. x\<lparr>o_status := why, o_closed_at := Some now\<rparr>) (release_discount oid s)"

definition cancel_waiting_order :: "int \<Rightarrow> string \<Rightarrow> int \<Rightarrow> store \<Rightarrow> bool \<times> store" where
  "cancel_waiting_order now oid uid s = (case map_of (orders s) oid of
     None \<Rightarrow> (False, s)
   | Some od \<Rightarrow>
      if o_user od = uid \<and> o_status od = Awaiting_Receipt then (True, close_waiting now Cancelled oid s) else (False, s))"

definition stale :: "int \<Rightarrow> order \<Rightarrow> bool" where
  "stale cutoff od \<longleftrightarrow> o_status od = Awaiting_Receipt
     \<and> (case o_started od of Some t \<Rightarrow> t | None \<Rightarrow> o_created od) \<le> cutoff"

definition expire_stale_orders :: "int \<Rightarrow> int \<Rightarrow> store \<Rightarrow> store" where
  "expire_stale_orders now timeout s =
     fold (close_waiting now Expired) (map fst (filter (\<lambda>(oid, od). stale (now - timeout) od) (orders s))) s"

definition start_card_payment :: "int \<Rightarrow> int \<Rightarrow> bool \<Rightarrow> string \<Rightarrow> int \<Rightarrow> store \<Rightarrow> (shop_error + order) \<times> store" where
  "start_card_payment now timeout has_admins oid uid s0 = (let s = expire_stale_orders now timeout s0 in
     if \<not> has_admins then (Inl No_Admin, s)
     else if card_number (config s) = [] \<or> card_holder (config s) = [] then (Inl No_Card, s)
     else (case map_of (orders s) oid of
         None \<Rightarrow> (Inl Order_Invalid, s)
       | Some od \<Rightarrow>
          if o_user od \<noteq> uid \<or> o_status od \<noteq> Draft then (Inl Order_Invalid, s)
          else if o_amount od \<le> 0 then (Inl Nothing_To_Pay, s)
          else (case reserve_discount now oid s of
              (Some e, t) \<Rightarrow> (Inl e, t)
            | (None, t) \<Rightarrow>
               (let t' = upd_order oid (\<lambda>x. x\<lparr>o_method := Some By_Card, o_status := Awaiting_Receipt, o_started := Some now\<rparr>) t
                in (Inr (the (map_of (orders t') oid)), t')))))"

text \<open>\<open>_submit_receipt\<close>: the named order, or the latest waiting one of the user.\<close>

fun latest :: "order list \<Rightarrow> order option" where
  "latest [] = None"
| "latest (x # xs) = (case latest xs of
     None \<Rightarrow> Some x
   | Some y \<Rightarrow> if o_started y > o_started x then Some y else Some x)"

definition waiting_of :: "int \<Rightarrow> store \<Rightarrow> order list" where
  "waiting_of uid s = filter (\<lambda>od. o_user od = uid \<and> o_status od = Awaiting_Receipt) (map snd (orders s))"

definition submit_receipt :: "int \<Rightarrow> int \<Rightarrow> string \<Rightarrow> string option \<Rightarrow> store \<Rightarrow> (shop_error + order) \<times> store" where
  "submit_receipt now uid receipt oid s =
     (case (case oid of Some i \<Rightarrow> map_of (orders s) i | None \<Rightarrow> latest (waiting_of uid s)) of
        None \<Rightarrow> (Inl No_Receipt_Order, s)
      | Some od \<Rightarrow>
         if o_user od \<noteq> uid \<or> o_status od \<noteq> Awaiting_Receipt then (Inl No_Receipt_Order, s)
         else (let od' = od\<lparr>o_receipt := Some receipt, o_receipt_at := Some now, o_status := Pending_Admin\<rparr>
               in (Inr od', upd_order (o_id od) (\<lambda>_. od') s)))"

definition reject_order :: "int \<Rightarrow> string \<Rightarrow> int \<Rightarrow> store \<Rightarrow> (shop_error + order) \<times> store" where
  "reject_order now oid admin s = (case map_of (orders s) oid of
     None \<Rightarrow> (Inl Not_Pending, s)
   | Some od \<Rightarrow>
      if o_status od \<noteq> Pending_Admin then (Inl Not_Pending, s)
      else (let t = upd_order oid (\<lambda>x. x\<lparr>o_status := Rejected, o_reviewer := Some admin, o_closed_at := Some now\<rparr>)
                      (release_discount oid s)
            in (Inr (the (map_of (orders t) oid)), t)))"

section \<open>Finishing an order\<close>

datatype source = From_Card | From_Wallet | From_Free

definition is_trial :: "order \<Rightarrow> bool" where
  "is_trial od = (case o_plan od of None \<Rightarrow> False | Some p \<Rightarrow> pl_trial p)"

definition entry_status :: "source \<Rightarrow> order_status" where
  "entry_status src = (if src = From_Card then Pending_Admin else Draft)"

definition start_processing :: "int \<Rightarrow> string \<Rightarrow> int option \<Rightarrow> pay_method option \<Rightarrow> store \<Rightarrow> store" where
  "start_processing now oid reviewer meth s = upd_order oid (\<lambda>x. x\<lparr>
     o_method := (case meth of None \<Rightarrow> o_method x | Some m \<Rightarrow> Some m),
     o_status := Processing, o_reviewer := reviewer, o_processing_at := Some now\<rparr>) s"

definition finish_begin :: "int \<Rightarrow> string \<Rightarrow> int option \<Rightarrow> source \<Rightarrow> store \<Rightarrow> shop_error option \<times> store" where
  "finish_begin now oid reviewer src s = (case map_of (orders s) oid of
     None \<Rightarrow> (Some Order_Missing, s)
   | Some od \<Rightarrow>
      if o_status od = Approved then (Some Already_Approved, s)
      else if o_status od \<noteq> entry_status src then (Some Status_Forbids, s)
      else (case map_of (users s) (o_user od) of
          None \<Rightarrow> (Some User_Missing, s)
        | Some u \<Rightarrow>
           if is_trial od \<and> u_trial u \<noteq> None then (Some Trial_Used, s)
           else if src = From_Free \<and> o_amount od \<noteq> 0 then (Some Not_Free, s)
           else if src = From_Card \<and> o_amount od \<le> 0 then (Some Free_Order, s)
           else if src = From_Card then (None, start_processing now oid reviewer None s)
           else (case reserve_discount now oid s of
               (Some e, t) \<Rightarrow> (Some e, t)
             | (None, t) \<Rightarrow>
                if src = From_Wallet then
                  (if u_balance u < o_amount od then (Some Wallet_Too_Low, release_discount oid t)
                   else (None, start_processing now oid reviewer (Some By_Wallet) (pay_in (o_user od) (- o_amount od) t)))
                else (None, start_processing now oid reviewer (Some For_Free) t))))"

text \<open>The \<open>except\<close> branch: a failed provisioning.\<close>

definition finish_rollback :: "string \<Rightarrow> source \<Rightarrow> store \<Rightarrow> store" where
  "finish_rollback oid src s = (case map_of (orders s) oid of
     None \<Rightarrow> s
   | Some od \<Rightarrow>
      (let t = (case src of
           From_Wallet \<Rightarrow> upd_order oid (\<lambda>x. x\<lparr>o_status := Draft\<rparr>) (release_discount oid (pay_in (o_user od) (o_amount od) s))
         | From_Free \<Rightarrow> upd_order oid (\<lambda>x. x\<lparr>o_status := Draft\<rparr>) (release_discount oid s)
         | From_Card \<Rightarrow> upd_order oid (\<lambda>x. x\<lparr>o_status := Pending_Admin\<rparr>) s)
       in upd_order oid (\<lambda>x. x\<lparr>o_failed := True\<rparr>) t))"

text \<open>The successful end; a wallet top-up credits the balance here.\<close>

definition finish_commit :: "int \<Rightarrow> string \<Rightarrow> string option \<Rightarrow> store \<Rightarrow> store" where
  "finish_commit now oid service s = (case map_of (orders s) oid of
     None \<Rightarrow> s
   | Some od \<Rightarrow>
      (let t = upd_order oid (\<lambda>x. x\<lparr>o_status := Approved, o_approved_at := Some now,
                 o_service := (case service of None \<Rightarrow> o_service x | Some v \<Rightarrow> Some v)\<rparr>) s
       in if is_trial od then upd_user (o_user od) (\<lambda>u. u\<lparr>u_trial := Some now\<rparr>) t else t))"

definition credit_topup :: "string \<Rightarrow> store \<Rightarrow> store" where
  "credit_topup oid s = (case map_of (orders s) oid of
     None \<Rightarrow> s | Some od \<Rightarrow> if o_kind od = Kind_Wallet then pay_in (o_user od) (o_amount od) s else s)"

section \<open>Gift codes and new codes\<close>

definition redeem_gift :: "int \<Rightarrow> int \<Rightarrow> string \<Rightarrow> store \<Rightarrow> (shop_error + int) \<times> store" where
  "redeem_gift now uid text s = (case normalize_code text of
     None \<Rightarrow> (Inl Gift_Format, s)
   | Some c \<Rightarrow>
      (case (map_of (users s) uid, map_of (gifts s) c) of
         (Some u, Some g) \<Rightarrow>
           if \<not> g_active g \<or> expired now (g_expires g) then (Inl Gift_Invalid, s)
           else if uid \<in> set (g_used g) then (Inl Gift_Used, s)
           else if g_max g \<le> int (length (g_used g)) then (Inl Gift_Exhausted, s)
           else if g_amount g \<le> 0 then (Inl Gift_Amount, s)
           else (let red = redemptions s @ [Audit_Gift c uid (g_amount g) now] in
             (Inr (g_amount g),
              upd_user uid (\<lambda>u. u\<lparr>u_balance := u_balance u + g_amount g, u_gifts := u_gifts u @ [c]\<rparr>)
               (s\<lparr>gifts := dmod c (\<lambda>g. g\<lparr>g_used := g_used g @ [uid]\<rparr>) (gifts s),
                  redemptions := drop (length red - 5000) red\<rparr>)))
       | _ \<Rightarrow> (Inl Gift_Invalid, s)))"

definition code_expiry :: "int \<Rightarrow> int \<Rightarrow> int option" where
  "code_expiry now days = (if days = 0 then None else Some (now + days * 86400000000))"

definition put_gift :: "int \<Rightarrow> int \<Rightarrow> string \<Rightarrow> int \<Rightarrow> int \<Rightarrow> int \<Rightarrow> store \<Rightarrow> store" where
  "put_gift now admin c amount uses days s = s\<lparr>gifts := AList.update c \<lparr>g_amount = amount, g_max = uses, g_used = [],
     g_active = True, g_expires = code_expiry now days, g_by = admin\<rparr> (gifts s)\<rparr>"

definition put_promo :: "int \<Rightarrow> int \<Rightarrow> string \<Rightarrow> promo_kind \<Rightarrow> int \<Rightarrow> int \<Rightarrow> int \<Rightarrow> store \<Rightarrow> store" where
  "put_promo now admin c kind value uses days s = s\<lparr>promos := AList.update c \<lparr>d_kind = kind, d_value = value, d_max = uses,
     d_uses = 0, d_used = [], d_orders = [], d_active = True, d_expires = code_expiry now days, d_by = admin\<rparr> (promos s)\<rparr>"

definition put_card :: "string \<Rightarrow> string \<Rightarrow> store \<Rightarrow> store" where
  "put_card number holder s = s\<lparr>config := (config s)\<lparr>card_number := number, card_holder := holder\<rparr>\<rparr>"

definition group_user :: "int \<Rightarrow> string \<Rightarrow> store \<Rightarrow> store" where
  "group_user uid sid s = upd_user uid (\<lambda>u. u\<lparr>u_sub := Some sid\<rparr>) s"

definition put_audit :: "audit \<Rightarrow> store \<Rightarrow> store" where
  "put_audit a s = (let log = admin_audit s @ [a] in s\<lparr>admin_audit := drop (length log - 1000) log\<rparr>)"

definition put_offset :: "int \<Rightarrow> store \<Rightarrow> store" where
  "put_offset n s = s\<lparr>poll_offset := n\<rparr>"

end
