(* ===== verification/Store_Safety.thy ===== *)
theory Store_Safety
  imports Store
begin

text \<open>
  The money of the shop. \<open>shop_step\<close> is one operation under \<open>_state_lock\<close>; the order being
  provisioned (\<open>_provision_lock\<close> lets one at a time) is the \<open>flight\<close>. \<open>granted\<close> and \<open>credited\<close>
  are ghosts: what gift codes paid into each wallet, and which top-up orders were credited.
  The invariants relate the balances to the orders, and the uses of a discount code to the
  orders that hold it.
\<close>

section \<open>The machine\<close>

record shop =
  st :: store
  flight :: "(string \<times> source) option"
  credited :: "string set"
  granted :: "int \<Rightarrow> int"

datatype shop_event =
    Hello | Ordered | Discounted | Dropped | Withdrawn | Timed_Out | Card_Started | Receipt_Sent | Refused
  | Begun | Not_Begun | Credited_Topup | Committed | Rolled_Back | Interrupted | Gift_Taken | Gift_Made | Promo_Made | Card_Set
  | Grouped | Audited | Polled

definition shop_start :: "shop \<Rightarrow> bool" where
  "shop_start m \<longleftrightarrow> (\<exists>cfg. st m = new_store cfg) \<and> flight m = None \<and> credited m = {} \<and> granted m = (\<lambda>_. 0)"

text \<open>
  \<open>fresh_codes\<close> says that a discount code is created under an unused name; the bot asks for that
  in the first step of its dialogue only. \<open>interrupted\<close> is a cancelled task: \<open>except Exception\<close>
  does not catch \<open>CancelledError\<close>, so the order stays where it is.
\<close>

inductive shop_step :: "bool \<Rightarrow> shop \<Rightarrow> shop_event \<Rightarrow> shop \<Rightarrow> bool" for fresh_codes :: bool where
  hello: "shop_step fresh_codes m Hello (m\<lparr>st := ensure_user now uid name first (st m)\<rparr>)"
| ordered: "shop_step fresh_codes m Ordered (m\<lparr>st := snd (create_order now toks uid kind plan srv amount (st m))\<rparr>)"
| discounted: "shop_step fresh_codes m Discounted (m\<lparr>st := snd (apply_discount now oid uid text (st m))\<rparr>)"
| dropped: "shop_step fresh_codes m Dropped (m\<lparr>st := snd (cancel_order now oid uid (st m))\<rparr>)"
| withdrawn: "shop_step fresh_codes m Withdrawn (m\<lparr>st := snd (cancel_waiting_order now oid uid (st m))\<rparr>)"
| timed_out: "shop_step fresh_codes m Timed_Out (m\<lparr>st := expire_stale_orders now timeout (st m)\<rparr>)"
| card_started: "shop_step fresh_codes m Card_Started (m\<lparr>st := snd (start_card_payment now timeout adm oid uid (st m))\<rparr>)"
| receipt_sent: "shop_step fresh_codes m Receipt_Sent (m\<lparr>st := snd (submit_receipt now uid receipt which (st m))\<rparr>)"
| refused: "shop_step fresh_codes m Refused (m\<lparr>st := snd (reject_order now oid admin (st m))\<rparr>)"
| begun: "flight m = None \<Longrightarrow> finish_begin now oid reviewer src (st m) = (None, t) \<Longrightarrow>
    shop_step fresh_codes m Begun (m\<lparr>st := t, flight := Some (oid, src)\<rparr>)"
| not_begun: "flight m = None \<Longrightarrow> finish_begin now oid reviewer src (st m) = (Some e, t) \<Longrightarrow>
    shop_step fresh_codes m Not_Begun (m\<lparr>st := t\<rparr>)"
| credited_topup: "flight m = Some (oid, src) \<Longrightarrow> map_of (orders (st m)) oid = Some x \<Longrightarrow> o_kind x = Kind_Wallet \<Longrightarrow>
    oid \<notin> credited m \<Longrightarrow>
    shop_step fresh_codes m Credited_Topup (m\<lparr>st := credit_topup oid (st m), credited := insert oid (credited m)\<rparr>)"
| committed: "flight m = Some (oid, src) \<Longrightarrow> map_of (orders (st m)) oid = Some x \<Longrightarrow>
    (o_kind x = Kind_Wallet \<longrightarrow> oid \<in> credited m) \<Longrightarrow>
    shop_step fresh_codes m Committed (m\<lparr>st := finish_commit now oid service (st m), flight := None\<rparr>)"
| rolled_back: "flight m = Some (oid, src) \<Longrightarrow> oid \<notin> credited m \<Longrightarrow>
    shop_step fresh_codes m Rolled_Back (m\<lparr>st := finish_rollback oid src (st m), flight := None\<rparr>)"
| interrupted: "flight m = Some f \<Longrightarrow> shop_step fresh_codes m Interrupted (m\<lparr>flight := None\<rparr>)"
| gift_taken: "redeem_gift now uid text (st m) = (r, t) \<Longrightarrow>
    shop_step fresh_codes m Gift_Taken (m\<lparr>st := t,
      granted := (granted m)(uid := granted m uid + (case r of Inl _ \<Rightarrow> 0 | Inr amount \<Rightarrow> amount))\<rparr>)"
| gift_made: "shop_step fresh_codes m Gift_Made (m\<lparr>st := put_gift now admin c amount uses days (st m)\<rparr>)"
| promo_made: "fresh_codes \<longrightarrow> map_of (promos (st m)) c = None \<Longrightarrow>
    shop_step fresh_codes m Promo_Made (m\<lparr>st := put_promo now admin c pk v uses days (st m)\<rparr>)"
| card_set: "shop_step fresh_codes m Card_Set (m\<lparr>st := put_card number holder (st m)\<rparr>)"
| grouped: "shop_step fresh_codes m Grouped (m\<lparr>st := group_user uid sid (st m)\<rparr>)"
| audited: "shop_step fresh_codes m Audited (m\<lparr>st := put_audit a (st m)\<rparr>)"
| polled: "shop_step fresh_codes m Polled (m\<lparr>st := put_offset n (st m)\<rparr>)"

section \<open>The money invariant\<close>

definition closed :: "order_status set" where "closed = {Cancelled, Expired, Rejected}"

definition order_ok :: "string set \<Rightarrow> order \<Rightarrow> bool" where
  "order_ok cr x \<longleftrightarrow> 0 \<le> o_discount x \<and> o_discount x \<le> o_base x \<and> o_amount x = o_base x - o_discount x
     \<and> (o_status x \<in> {Awaiting_Receipt, Pending_Admin} \<longrightarrow> o_method x = Some By_Card)
     \<and> (o_reserved x \<longrightarrow> o_code x \<noteq> None \<and> o_status x \<notin> insert Draft closed)
     \<and> (o_id x \<in> cr \<longrightarrow> o_kind x = Kind_Wallet \<and> o_status x \<in> {Processing, Approved})
     \<and> (o_kind x = Kind_Wallet \<and> o_status x = Approved \<longrightarrow> o_id x \<in> cr)"

text \<open>What an order has moved in its owner's wallet.\<close>

definition paid :: "order \<Rightarrow> int" where
  "paid x = (if o_method x = Some By_Wallet \<and> o_status x \<in> {Processing, Approved} then o_amount x else 0)"

definition moved :: "string set \<Rightarrow> order \<Rightarrow> int" where
  "moved cr x = (if o_id x \<in> cr then o_amount x else 0) - paid x"

definition wallet_flow :: "string set \<Rightarrow> int \<Rightarrow> (string, order) dict \<Rightarrow> int" where
  "wallet_flow cr uid os = dsum (\<lambda>x. if o_user x = uid then moved cr x else 0) os"

definition balance :: "store \<Rightarrow> int \<Rightarrow> int" where
  "balance s uid = (case map_of (users s) uid of None \<Rightarrow> 0 | Some u \<Rightarrow> u_balance u)"

definition approved_trial :: "int \<Rightarrow> order \<Rightarrow> bool" where
  "approved_trial uid x \<longleftrightarrow> o_user x = uid \<and> o_status x = Approved \<and> is_trial x"

definition orders_ok :: "string set \<Rightarrow> (string, order) dict \<Rightarrow> bool" where
  "orders_ok cr os \<longleftrightarrow> dict_ok os \<and> (\<forall>oid x. map_of os oid = Some x \<longrightarrow> o_id x = oid \<and> order_ok cr x)"

definition trials_ok :: "store \<Rightarrow> bool" where
  "trials_ok s \<longleftrightarrow> (\<forall>i x uid. map_of (orders s) i = Some x \<and> approved_trial uid x \<longrightarrow>
      (\<exists>u. map_of (users s) uid = Some u \<and> u_trial u \<noteq> None)
      \<and> (\<forall>j y. map_of (orders s) j = Some y \<and> approved_trial uid y \<longrightarrow> i = j))"

definition method_of :: "source \<Rightarrow> pay_method" where
  "method_of src = (case src of From_Card \<Rightarrow> By_Card | From_Wallet \<Rightarrow> By_Wallet | From_Free \<Rightarrow> For_Free)"

definition flight_ok :: "store \<Rightarrow> (string \<times> source) option \<Rightarrow> bool" where
  "flight_ok s fl \<longleftrightarrow> (\<forall>oid src. fl = Some (oid, src) \<longrightarrow> (\<exists>x. map_of (orders s) oid = Some x
      \<and> o_status x = Processing \<and> o_method x = Some (method_of src) \<and> map_of (users s) (o_user x) \<noteq> None
      \<and> (is_trial x \<longrightarrow> (\<forall>j y. map_of (orders s) j = Some y \<longrightarrow> \<not> approved_trial (o_user x) y))))"

definition ledger_ok :: "shop \<Rightarrow> bool" where
  "ledger_ok m \<longleftrightarrow> (\<forall>uid. balance (st m) uid = granted m uid + wallet_flow (credited m) uid (orders (st m))
      \<and> 0 \<le> granted m uid + wallet_flow (credited m) uid (orders (st m)))"

definition money_inv :: "shop \<Rightarrow> bool" where
  "money_inv m \<longleftrightarrow> orders_ok (credited m) (orders (st m)) \<and> credited m \<subseteq> dom (map_of (orders (st m)))
     \<and> trials_ok (st m) \<and> flight_ok (st m) (flight m) \<and> ledger_ok m"

text \<open>An operation that touches one order, keeps the users and moves no money.\<close>

definition quiet :: "string set \<Rightarrow> order \<Rightarrow> order \<Rightarrow> bool" where
  "quiet cr x y \<longleftrightarrow> o_id y = o_id x \<and> o_user y = o_user x
     \<and> o_status x \<in> {Draft, Awaiting_Receipt, Pending_Admin} \<and> o_status y \<noteq> Approved
     \<and> (order_ok cr x \<longrightarrow> order_ok cr y \<and> moved cr y = moved cr x)"

inductive quiet_steps :: "string set \<Rightarrow> store \<Rightarrow> store \<Rightarrow> bool" for cr s where
  same: "users t = users s \<Longrightarrow> orders t = orders s \<Longrightarrow> quiet_steps cr s t"
| change: "quiet_steps cr s r \<Longrightarrow> map_of (orders r) oid = Some x \<Longrightarrow> quiet cr x y \<Longrightarrow>
    users t = users r \<Longrightarrow> orders t = AList.update oid y (orders r) \<Longrightarrow> quiet_steps cr s t"

lemma flow_change: "map_of os oid = Some x \<Longrightarrow> o_user y = o_user x \<Longrightarrow>
   wallet_flow cr uid (AList.update oid y os) =
     wallet_flow cr uid os + (if o_user x = uid then moved cr y - moved cr x else 0)"
  by (simp add: wallet_flow_def dsum_old)

lemma flow_new: "map_of os oid = None \<Longrightarrow>
   wallet_flow cr uid (AList.update oid y os) = wallet_flow cr uid os + (if o_user y = uid then moved cr y else 0)"
  by (simp add: wallet_flow_def dsum_new)

lemma balance_cong: "users t = users s \<Longrightarrow> balance t = balance s"
  by (simp add: balance_def fun_eq_iff)

lemma dsum_replace: "dict_ok d \<Longrightarrow> map_of d k = Some w \<Longrightarrow> (\<And>i z. (i, z) \<in> set d \<Longrightarrow> i \<noteq> k \<Longrightarrow> f z = g z) \<Longrightarrow>
   dsum f (AList.update k v d) = dsum g d - g w + f v"
proof (induction d)
  case (Cons p d)
  show ?case
  proof (cases "fst p = k")
    case True
    have "dsum f d = dsum g d"
    proof (rule dsum_cong)
      fix q assume q: "q \<in> set d"
      then have "fst q \<noteq> k" using Cons.prems(1) True by (auto simp: dict_ok_def image_iff)
      then show "f (snd q) = g (snd q)" using Cons.prems(3)[of "fst q" "snd q"] q by simp
    qed
    then show ?thesis using True Cons.prems by (cases p) auto
  next
    case False
    then have "dsum f (AList.update k v d) = dsum g d - g w + f v"
      using Cons by (intro Cons.IH) (auto simp: dict_ok_def)
    moreover have "f (snd p) = g (snd p)" using False Cons.prems(3)[of "fst p" "snd p"] by simp
    ultimately show ?thesis using False by (cases p) auto
  qed
qed simp

text \<open>One order changes, with the wallet of its owner and the ghosts: what keeps the invariant.\<close>

definition users_kept :: "store \<Rightarrow> store \<Rightarrow> bool" where
  "users_kept s t \<longleftrightarrow> (\<forall>uid u. map_of (users s) uid = Some u \<longrightarrow>
     (\<exists>v. map_of (users t) uid = Some v \<and> (u_trial u \<noteq> None \<longrightarrow> u_trial v \<noteq> None)))"

lemma change_inv:
  assumes inv: "money_inv m" and x: "map_of (orders (st m)) oid = Some x"
    and y: "o_id y = oid" "o_user y = o_user x" "order_ok cr y"
    and cr: "cr - {oid} = credited m - {oid}"
    and users: "users_kept (st m) t" and orders: "orders t = AList.update oid y (orders (st m))"
    and money: "\<And>uid. balance t uid = balance (st m) uid + (if o_user x = uid then moved cr y - moved (credited m) x else 0)"
      "0 \<le> balance t (o_user x)"
    and trial: "approved_trial (o_user y) y \<Longrightarrow> \<exists>u. map_of (users t) (o_user y) = Some u \<and> u_trial u \<noteq> None"
      "\<And>j z. approved_trial (o_user y) y \<Longrightarrow> j \<noteq> oid \<Longrightarrow> map_of (orders (st m)) j = Some z \<Longrightarrow> \<not> approved_trial (o_user y) z"
    and flight: "flight_ok t fl"
  shows "money_inv (m\<lparr>st := t, flight := fl, credited := cr\<rparr>)"
proof -
  have ok: "orders_ok (credited m) (orders (st m))" and tr: "trials_ok (st m)"
    and led: "ledger_ok m" and sub: "credited m \<subseteq> dom (map_of (orders (st m)))"
    using inv by (auto simp: money_inv_def)
  have other: "o_id z = i \<and> order_ok cr z \<and> moved cr z = moved (credited m) z"
    if "map_of (orders (st m)) i = Some z" "i \<noteq> oid" for i z
  proof -
    have "o_id z = i" "order_ok (credited m) z" using ok that by (auto simp: orders_ok_def)
    moreover have "i \<in> cr \<longleftrightarrow> i \<in> credited m" using cr that by blast
    ultimately show ?thesis by (simp add: order_ok_def moved_def)
  qed
  have "orders_ok cr (orders t)"
    using ok y other unfolding orders_ok_def orders by simp
  moreover have "cr \<subseteq> dom (map_of (orders t))" using cr sub by (auto simp: orders)
  moreover have "trials_ok t"
    unfolding trials_ok_def
  proof (intro allI impI conjI)
    fix i z uid assume z: "map_of (orders t) i = Some z \<and> approved_trial uid z"
    show "\<exists>u. map_of (users t) uid = Some u \<and> u_trial u \<noteq> None"
    proof (cases "i = oid")
      case True
      then show ?thesis using z trial(1) by (auto simp: orders approved_trial_def)
    next
      case False
      then obtain u where "map_of (users (st m)) uid = Some u" "u_trial u \<noteq> None"
        using z tr unfolding trials_ok_def by (simp add: orders) blast
      then show ?thesis using users unfolding users_kept_def by blast
    qed
    fix j w assume w: "map_of (orders t) j = Some w \<and> approved_trial uid w"
    have "o_user y = uid" if "approved_trial uid y" using that by (simp add: approved_trial_def)
    then show "i = j"
      using z w trial(2) tr unfolding orders trials_ok_def by (simp split: if_splits)
  qed
  moreover have "wallet_flow cr uid (orders t) =
      wallet_flow (credited m) uid (orders (st m)) + (if o_user x = uid then moved cr y - moved (credited m) x else 0)" for uid
    unfolding wallet_flow_def orders
    using ok other y(2)
    by (subst dsum_replace[OF _ x, where g = "\<lambda>x. if o_user x = uid then moved (credited m) x else 0"])
      (auto simp: orders_ok_def dict_ok_get)
  then have "ledger_ok (m\<lparr>st := t, flight := fl, credited := cr\<rparr>)"
    using led money by (auto simp: ledger_ok_def split: if_splits)
  ultimately show ?thesis using flight by (simp add: money_inv_def)
qed

lemma flight_ok_change:
  assumes "flight_ok s fl" "orders t = AList.update oid y (orders s)" "users_kept s t" "\<forall>src. fl \<noteq> Some (oid, src)"
    "\<And>uid. \<not> approved_trial uid y"
  shows "flight_ok t fl"
  unfolding flight_ok_def
proof (intro allI impI)
  fix i src assume f: "fl = Some (i, src)"
  obtain z where z: "map_of (orders s) i = Some z" "o_status z = Processing" "o_method z = Some (method_of src)"
      "map_of (users s) (o_user z) \<noteq> None"
      "is_trial z \<longrightarrow> (\<forall>j y. map_of (orders s) j = Some y \<longrightarrow> \<not> approved_trial (o_user z) y)"
    using assms(1) f by (auto simp: flight_ok_def)
  have "map_of (orders t) i = Some z" using z assms(2,4) f by auto
  moreover have "is_trial z \<longrightarrow> (\<forall>j y. map_of (orders t) j = Some y \<longrightarrow> \<not> approved_trial (o_user z) y)"
    using z(5) assms(2,5) by auto
  moreover have "map_of (users t) (o_user z) \<noteq> None"
    using z(4) assms(3) unfolding users_kept_def by blast
  ultimately show "\<exists>x. map_of (orders t) i = Some x \<and> o_status x = Processing \<and> o_method x = Some (method_of src)
      \<and> map_of (users t) (o_user x) \<noteq> None
      \<and> (is_trial x \<longrightarrow> (\<forall>j y. map_of (orders t) j = Some y \<longrightarrow> \<not> approved_trial (o_user x) y))"
    using z by blast
qed

lemma users_kept_same: "users t = users s \<Longrightarrow> users_kept s t"
  by (simp add: users_kept_def)

lemma shop_eta: "m\<lparr>st := t, flight := flight m, credited := credited m\<rparr> = m\<lparr>st := t\<rparr>"
  by (cases m) simp

lemma quiet_change_inv:
  assumes inv: "money_inv m" and x: "map_of (orders (st m)) oid = Some x" and q: "quiet (credited m) x y"
    and users: "users t = users (st m)" and orders: "orders t = AList.update oid y (orders (st m))"
  shows "money_inv (m\<lparr>st := t\<rparr>)"
proof -
  have ids: "o_id x = oid" "order_ok (credited m) x" and fl: "flight_ok (st m) (flight m)"
    using inv x by (auto simp: money_inv_def orders_ok_def)
  have noty: "\<not> approved_trial uid y" for uid using q by (simp add: quiet_def approved_trial_def)
  have "\<forall>src. flight m \<noteq> Some (oid, src)" using fl x q by (auto simp: flight_ok_def quiet_def)
  with fl orders users noty have flt: "flight_ok t (flight m)"
    by (blast intro: flight_ok_change users_kept_same)
  have bal: "0 \<le> balance t (o_user x)" using inv by (auto simp: money_inv_def ledger_ok_def balance_cong[OF users])
  have y: "o_id y = oid" "o_user y = o_user x" "order_ok (credited m) y" "moved (credited m) y = moved (credited m) x"
    using q ids by (auto simp: quiet_def)
  have "money_inv (m\<lparr>st := t, flight := flight m, credited := credited m\<rparr>)"
    by (rule change_inv[OF inv x y(1-3) refl users_kept_same[OF users] orders _ bal _ _ flt])
      (use y(4) noty in \<open>simp_all add: balance_cong[OF users]\<close>)
  then show ?thesis by (simp add: shop_eta)
qed

lemma trials_ok_cong: "users t = users s \<Longrightarrow> orders t = orders s \<Longrightarrow> trials_ok t = trials_ok s"
  by (simp add: trials_ok_def)

lemma flight_ok_cong: "users t = users s \<Longrightarrow> orders t = orders s \<Longrightarrow> flight_ok t = flight_ok s"
  by (simp add: flight_ok_def fun_eq_iff)

lemma money_inv_cong: "money_inv m \<Longrightarrow> users t = users (st m) \<Longrightarrow> orders t = orders (st m) \<Longrightarrow> money_inv (m\<lparr>st := t\<rparr>)"
  by (simp add: money_inv_def trials_ok_cong[of t "st m"] flight_ok_cong[of t "st m"] ledger_ok_def balance_cong[of t "st m"])

lemma quiet_steps_inv:
  assumes "quiet_steps (credited m) (st m) t" and inv: "money_inv m"
  shows "money_inv (m\<lparr>st := t\<rparr>)"
  using assms(1)
proof induction
  case (same t)
  then show ?case by (intro money_inv_cong[OF inv])
next
  case (change r oid x y t)
  from quiet_change_inv[OF change.IH, of oid x y t] change.hyps show ?case by simp
qed

lemma quiet_steps_same: "quiet_steps cr s r \<Longrightarrow> users t = users r \<Longrightarrow> orders t = orders r \<Longrightarrow> quiet_steps cr s t"
  by (erule quiet_steps.cases) (auto intro: quiet_steps.intros)

lemma quiet_steps_trans: "quiet_steps cr r t \<Longrightarrow> quiet_steps cr s r \<Longrightarrow> quiet_steps cr s t"
  by (induction rule: quiet_steps.induct) (auto intro: quiet_steps_same quiet_steps.change)

section \<open>The operations that move no money\<close>

lemma upd_order_at: "map_of (orders s) oid = Some x \<Longrightarrow>
   upd_order oid f s = s\<lparr>orders := AList.update oid (f x) (orders s)\<rparr>"
  by (simp add: upd_order_def dmod_def)

lemma quiet_upd: "map_of (orders s) oid = Some x \<Longrightarrow> quiet cr x (f x) \<Longrightarrow> quiet_steps cr s (upd_order oid f s)"
  by (rule quiet_steps.change[OF quiet_steps.same[OF refl refl]]) (auto simp: upd_order_at)

lemma quiet_refl [simp]: "quiet_steps cr s s"
  by (rule quiet_steps.same) simp_all

lemma quiet_apply_discount: "quiet_steps cr s (snd (apply_discount now oid uid text s))"
proof -
  have "quiet cr x (x\<lparr>o_code := Some c, o_discount := d, o_amount := a\<rparr>)"
    if "o_status x = Draft" "o_kind x \<noteq> Kind_Wallet" "calculate_payable (o_base x) e = (a, d)" for x c a d e
    using that
    by (auto simp: quiet_def order_ok_def moved_def paid_def calculate_payable_def Let_def closed_def max_def min_def
        split: option.splits if_splits)
  then show ?thesis
    by (auto simp: apply_discount_def upd_order_at Let_def intro!: quiet_steps.change[OF quiet_refl]
        split: option.splits prod.splits)
qed

lemma quiet_cancel_order: "quiet_steps cr s (snd (cancel_order now oid uid s))"
  by (auto simp: cancel_order_def quiet_def order_ok_def moved_def paid_def closed_def
      intro!: quiet_upd split: option.splits)

lemma update_twice [simp]: "AList.update k v (AList.update k w d) = AList.update k v d"
  by (induction d) auto

lemma update_same: "map_of d k = Some v \<Longrightarrow> AList.update k v d = d"
  by (induction d) auto

lemma reserved_eta: "o_reserved x = b \<Longrightarrow> x\<lparr>o_reserved := b\<rparr> = x"
  by (cases x) simp

lemma release_at: "map_of (orders s) oid = Some x \<Longrightarrow> order_ok cr x \<Longrightarrow> users (release_discount oid s) = users s \<and>
   orders (release_discount oid s) = AList.update oid (x\<lparr>o_reserved := False\<rparr>) (orders s)"
proof (cases "o_reserved x")
  case True
  assume x: "map_of (orders s) oid = Some x" and "order_ok cr x"
  then obtain c where "o_code x = Some c" using True by (auto simp: order_ok_def)
  then show ?thesis using x True by (simp add: release_discount_def upd_order_def upd_promo_def dmod_def)
next
  case False
  assume x: "map_of (orders s) oid = Some x"
  then show ?thesis using False
    by (simp add: release_discount_def reserved_eta update_same split: option.split)
qed

lemma reserve_at: "map_of (orders s) oid = Some x \<Longrightarrow> \<not> o_reserved x \<Longrightarrow> reserve_discount now oid s = (None, t) \<Longrightarrow>
   users t = users s \<and> orders t = AList.update oid (x\<lparr>o_reserved := o_code x \<noteq> None\<rparr>) (orders s)"
  by (auto simp: reserve_discount_def upd_order_def upd_promo_def dmod_def update_same reserved_eta
      split: option.splits if_splits)

lemma reserve_refused: "reserve_discount now oid s = (Some e, t) \<Longrightarrow> t = s"
  by (auto simp: reserve_discount_def split: option.splits if_splits)

lemma orders_ok_get: "orders_ok cr os \<Longrightarrow> map_of os oid = Some x \<Longrightarrow> order_ok cr x \<and> o_id x = oid"
  by (simp add: orders_ok_def)

lemma draft_free: "order_ok cr x \<Longrightarrow> o_status x = Draft \<Longrightarrow> \<not> o_reserved x"
  by (simp add: order_ok_def)

lemma close_at: "map_of (orders s) oid = Some x \<Longrightarrow> order_ok cr x \<Longrightarrow> users (close_waiting now why oid s) = users s \<and>
   orders (close_waiting now why oid s) =
     AList.update oid (x\<lparr>o_reserved := False, o_status := why, o_closed_at := Some now\<rparr>) (orders s)"
  using release_at[of s oid x cr] by (simp add: close_waiting_def upd_order_at)

lemma quiet_close: "map_of (orders s) oid = Some x \<Longrightarrow> order_ok cr x \<Longrightarrow> o_status x = Awaiting_Receipt \<Longrightarrow> why \<in> closed \<Longrightarrow>
   quiet_steps cr s (close_waiting now why oid s)"
  by (rule quiet_steps.change[OF quiet_refl, where oid = oid and x = x and y = "x\<lparr>o_reserved := False, o_status := why, o_closed_at := Some now\<rparr>"])
    (auto simp: close_at quiet_def order_ok_def moved_def paid_def closed_def)

lemma quiet_withdraw: "orders_ok cr (orders s) \<Longrightarrow> quiet_steps cr s (snd (cancel_waiting_order now oid uid s))"
  by (auto simp: cancel_waiting_order_def closed_def orders_ok_def intro!: quiet_close split: option.splits)

lemma quiet_fold_close:
  "distinct is \<Longrightarrow> (\<And>i. i \<in> set is \<Longrightarrow> \<exists>x. map_of (orders s) i = Some x \<and> order_ok cr x \<and> o_status x = Awaiting_Receipt) \<Longrightarrow>
   quiet_steps cr s (fold (close_waiting now Expired) is s)"
proof (induction "is" arbitrary: s)
  case (Cons i js)
  obtain x where x: "map_of (orders s) i = Some x" "order_ok cr x" "o_status x = Awaiting_Receipt"
    using Cons.prems(2)[of i] by auto
  have "quiet_steps cr (close_waiting now Expired i s) (fold (close_waiting now Expired) js (close_waiting now Expired i s))"
  proof (rule Cons.IH)
    show "distinct js" using Cons.prems(1) by simp
    show "\<exists>x. map_of (orders (close_waiting now Expired i s)) j = Some x \<and> order_ok cr x \<and> o_status x = Awaiting_Receipt"
      if "j \<in> set js" for j
      using that Cons.prems(1) Cons.prems(2)[of j] close_at[OF x(1,2), of now Expired] by auto
  qed
  from quiet_steps_trans[OF this quiet_close[OF x]] show ?case by (simp add: closed_def)
qed simp

lemma quiet_expire: "orders_ok cr (orders s) \<Longrightarrow> quiet_steps cr s (expire_stale_orders now timeout s)"
  unfolding expire_stale_orders_def
proof (rule quiet_fold_close)
  assume ok: "orders_ok cr (orders s)"
  show "distinct (map fst (filter (\<lambda>(oid, x). stale (now - timeout) x) (orders s)))"
    using ok by (simp add: orders_ok_def dict_ok_def distinct_map_filter)
  show "\<exists>x. map_of (orders s) i = Some x \<and> order_ok cr x \<and> o_status x = Awaiting_Receipt"
    if "i \<in> set (map fst (filter (\<lambda>(oid, x). stale (now - timeout) x) (orders s)))" for i
  proof -
    obtain x where "(i, x) \<in> set (orders s)" "stale (now - timeout) x" using \<open>i \<in> _\<close> by auto
    then show ?thesis using ok by (auto simp: orders_ok_def stale_def dict_ok_get)
  qed
qed

lemma orders_ok_dict: "orders_ok cr os \<Longrightarrow> dict_ok os"
  by (simp add: orders_ok_def)

lemma orders_ok_update: "orders_ok cr os \<Longrightarrow> o_id y = oid \<Longrightarrow> order_ok cr y \<Longrightarrow> orders_ok cr (AList.update oid y os)"
  by (simp add: orders_ok_def)

lemma quiet_steps_orders: "quiet_steps cr s t \<Longrightarrow> orders_ok cr (orders s) \<Longrightarrow> orders_ok cr (orders t)"
proof (induction rule: quiet_steps.induct)
  case (change r oid x y t)
  then have "orders_ok cr (orders r)" by simp
  from orders_ok_get[OF this change.hyps(2)] orders_ok_update[OF this, of y oid] change.hyps show ?case
    by (simp add: quiet_def)
qed simp

lemma card_cases: "r = expire_stale_orders now timeout s \<Longrightarrow>
   snd (start_card_payment now timeout adm oid uid s) = r \<or> (\<exists>x t. map_of (orders r) oid = Some x
      \<and> o_status x = Draft \<and> reserve_discount now oid r = (None, t)
      \<and> snd (start_card_payment now timeout adm oid uid s) = upd_order oid
         (\<lambda>x. x\<lparr>o_method := Some By_Card, o_status := Awaiting_Receipt, o_started := Some now\<rparr>) t)"
proof (cases "map_of (orders r) oid")
  case (Some x)
  assume r: "r = expire_stale_orders now timeout s"
  obtain e t where t: "reserve_discount now oid r = (e, t)" by (cases "reserve_discount now oid r")
  show ?thesis
  proof (cases "adm \<and> card_number (config r) \<noteq> [] \<and> card_holder (config r) \<noteq> [] \<and> o_user x = uid \<and> o_status x = Draft
      \<and> 0 < o_amount x")
    case True
    show ?thesis
    proof (cases e)
      case None
      then have "snd (start_card_payment now timeout adm oid uid s) = upd_order oid
          (\<lambda>x. x\<lparr>o_method := Some By_Card, o_status := Awaiting_Receipt, o_started := Some now\<rparr>) t"
        using True by (simp add: start_card_payment_def r[symmetric] Some t Let_def)
      then show ?thesis using Some t None True by blast
    next
      case (Some err)
      then have "snd (start_card_payment now timeout adm oid uid s) = t"
        using True \<open>map_of (orders r) oid = Some x\<close> by (simp add: start_card_payment_def r[symmetric] t Let_def)
      then show ?thesis using reserve_refused t Some by blast
    qed
  next
    case False
    then have "snd (start_card_payment now timeout adm oid uid s) = r"
      using Some by (auto simp: start_card_payment_def r[symmetric] Let_def not_less)
    then show ?thesis ..
  qed
qed (simp add: start_card_payment_def Let_def)

lemma quiet_card:
  assumes ok: "orders_ok cr (orders s)"
  shows "quiet_steps cr s (snd (start_card_payment now timeout adm oid uid s))" (is "quiet_steps cr s ?s'")
proof -
  define r where "r = expire_stale_orders now timeout s"
  have sr: "quiet_steps cr s r" unfolding r_def by (rule quiet_expire[OF ok])
  have okr: "orders_ok cr (orders r)" by (rule quiet_steps_orders[OF sr ok])
  consider "?s' = r"
    | x t where "map_of (orders r) oid = Some x" "o_status x = Draft" "reserve_discount now oid r = (None, t)"
      "?s' = upd_order oid (\<lambda>x. x\<lparr>o_method := Some By_Card, o_status := Awaiting_Receipt, o_started := Some now\<rparr>) t"
    using card_cases[OF r_def] by blast
  then show ?thesis
  proof cases
    case 1
    then show ?thesis using sr by simp
  next
    case 2
    define y where "y = x\<lparr>o_reserved := (o_code x \<noteq> None), o_method := Some By_Card, o_status := Awaiting_Receipt, o_started := Some now\<rparr>"
    have xok: "order_ok cr x" using orders_ok_get[OF okr 2(1)] by simp
    have free: "\<not> o_reserved x" by (rule draft_free[OF xok 2(2)])
    note res = reserve_at[OF 2(1) free 2(3)]
    have "quiet cr x y" using 2(2) xok
      by (simp add: quiet_def y_def order_ok_def moved_def paid_def closed_def)
    moreover have "users ?s' = users r" "orders ?s' = AList.update oid y (orders r)"
      using res by (simp_all add: 2(4) upd_order_def dmod_def y_def)
    ultimately have "quiet_steps cr r ?s'" by (rule quiet_steps.change[OF quiet_refl 2(1)])
    from quiet_steps_trans[OF this sr] show ?thesis .
  qed
qed

lemma latest_mem: "latest xs = Some x \<Longrightarrow> x \<in> set xs"
  by (induction xs arbitrary: x) (auto split: option.splits if_splits)

lemma quiet_receipt: "orders_ok cr (orders s) \<Longrightarrow> quiet_steps cr s (snd (submit_receipt now uid receipt which s))"
proof (cases "case which of Some i \<Rightarrow> map_of (orders s) i | None \<Rightarrow> latest (waiting_of uid s)")
  case (Some x)
  assume ok: "orders_ok cr (orders s)"
  have "(o_id x, x) \<in> set (orders s)"
  proof (cases which)
    case None
    then have "x \<in> set (waiting_of uid s)" using Some by (simp add: latest_mem)
    then obtain i where i: "(i, x) \<in> set (orders s)" by (auto simp: waiting_of_def)
    then have "map_of (orders s) i = Some x" using orders_ok_dict[OF ok] by (simp add: dict_ok_get)
    then show ?thesis using i orders_ok_get[OF ok] by metis
  next
    case (Some i)
    then have i: "map_of (orders s) i = Some x" using \<open>(case which of Some i \<Rightarrow> _ i | None \<Rightarrow> _) = Some x\<close> by simp
    then show ?thesis using orders_ok_get[OF ok i] map_of_SomeD[OF i] by simp
  qed
  then have x: "map_of (orders s) (o_id x) = Some x" using orders_ok_dict[OF ok] by (simp add: dict_ok_get)
  show ?thesis
  proof (cases "o_user x = uid \<and> o_status x = Awaiting_Receipt")
    case True
    define y where "y = x\<lparr>o_receipt := Some receipt, o_receipt_at := Some now, o_status := Pending_Admin\<rparr>"
    have "snd (submit_receipt now uid receipt which s) = upd_order (o_id x) (\<lambda>_. y) s"
      using True by (simp add: submit_receipt_def Some Let_def y_def)
    moreover have "quiet cr x y" using True by (simp add: quiet_def y_def order_ok_def moved_def paid_def closed_def)
    ultimately show ?thesis using quiet_upd[OF x, of cr "\<lambda>_. y"] by simp
  next
    case False
    then show ?thesis by (auto simp: submit_receipt_def Some)
  qed
qed (simp add: submit_receipt_def)

lemma quiet_reject: "orders_ok cr (orders s) \<Longrightarrow> quiet_steps cr s (snd (reject_order now oid admin s))"
proof (cases "map_of (orders s) oid")
  case (Some x)
  assume ok: "orders_ok cr (orders s)"
  define y where "y = x\<lparr>o_reserved := False, o_status := Rejected, o_reviewer := Some admin, o_closed_at := Some now\<rparr>"
  have xok: "order_ok cr x" using ok Some by (auto simp: orders_ok_def)
  show ?thesis
  proof (cases "o_status x = Pending_Admin")
    case True
    then have eq: "snd (reject_order now oid admin s) = upd_order oid
        (\<lambda>x. x\<lparr>o_status := Rejected, o_reviewer := Some admin, o_closed_at := Some now\<rparr>) (release_discount oid s)"
      by (simp add: reject_order_def Some Let_def)
    have "users (snd (reject_order now oid admin s)) = users s"
        "orders (snd (reject_order now oid admin s)) = AList.update oid y (orders s)"
      using release_at[OF Some xok] by (simp_all add: eq upd_order_def dmod_def y_def)
    moreover have "quiet cr x y" using True by (simp add: quiet_def y_def order_ok_def moved_def paid_def closed_def)
    ultimately show ?thesis by (blast intro: quiet_steps.change[OF quiet_refl Some])
  qed (simp add: reject_order_def Some)
qed (simp add: reject_order_def)

lemma quiet_refused_begin:
  assumes ok: "orders_ok cr (orders s)" and r: "finish_begin now oid reviewer src s = (Some e, t)"
  shows "quiet_steps cr s t"
proof (cases "map_of (orders s) oid")
  case (Some x)
  show ?thesis
  proof (cases "t = s")
    case False
    then obtain q where q: "reserve_discount now oid s = (None, q)" "t = release_discount oid q" "o_status x = Draft"
      using r Some
      by (auto simp: finish_begin_def entry_status_def dest: reserve_refused split: option.splits if_splits prod.splits)
    have xok: "order_ok cr x" using orders_ok_get[OF ok Some] by simp
    have free: "\<not> o_reserved x" by (rule draft_free[OF xok q(3)])
    note oq = reserve_at[OF Some free q(1)]
    define z where "z = x\<lparr>o_reserved := o_code x \<noteq> None\<rparr>"
    have zq: "map_of (orders q) oid = Some z" using oq by (simp add: z_def)
    have "users (release_discount oid q) = users q \<and>
       orders (release_discount oid q) = (if o_reserved z then AList.update oid (z\<lparr>o_reserved := False\<rparr>) (orders q) else orders q)"
      using zq by (auto simp: z_def release_discount_def upd_order_def upd_promo_def dmod_def split: option.splits)
    then have "users t = users s" "orders t = AList.update oid x (orders s)"
      using oq free by (auto simp: q(2) z_def reserved_eta)
    moreover have "quiet cr x x" using q(3) by (simp add: quiet_def)
    ultimately show ?thesis by (metis quiet_steps.change[OF quiet_refl Some])
  qed simp
qed (use r in \<open>simp add: finish_begin_def\<close>)

end
