(* ===== verification/Store_Ledger.thy ===== *)
theory Store_Ledger
  imports Store_Safety
begin

text \<open>
  The operations that move money keep the money invariant, so it holds in every reachable state
  of the shop: each wallet is what gift codes and credited top-ups paid in less what the orders
  took out, it never goes below zero, and one account has at most one approved trial.
\<close>

section \<open>Starting to process an order\<close>

lemma order_upd_upd: "upd_order oid f (s\<lparr>orders := AList.update oid x os\<rparr>) = s\<lparr>orders := AList.update oid (f x) os\<rparr>"
  by (simp add: upd_order_def dmod_def)

lemma balance_pay_in: "map_of (users s) uid = Some u \<Longrightarrow>
   balance (pay_in uid a s) v = balance s v + (if v = uid then a else 0)"
  by (simp add: balance_def pay_in_def upd_user_def split: option.split)

lemma users_kept_pay_in: "users_kept s (pay_in uid a s)"
  by (simp add: users_kept_def pay_in_def upd_user_def)

lemma orders_pay_in [simp]: "orders (pay_in uid a s) = orders s"
  by (simp add: pay_in_def upd_user_def)

lemma users_kept_trans: "users_kept s r \<Longrightarrow> users t = users r \<Longrightarrow> users_kept s t"
  by (simp add: users_kept_def)

lemma users_kept_dom: "users_kept s t \<Longrightarrow> map_of (users s) uid = Some u \<Longrightarrow> map_of (users t) uid \<noteq> None"
  unfolding users_kept_def by (metis option.distinct(1))

definition processed :: "int \<Rightarrow> int option \<Rightarrow> source \<Rightarrow> order \<Rightarrow> order" where
  "processed now reviewer src x = x\<lparr>o_reserved := (if src = From_Card then o_reserved x else o_code x \<noteq> None),
     o_method := (if src = From_Card then o_method x else Some (method_of src)),
     o_status := Processing, o_reviewer := reviewer, o_processing_at := Some now\<rparr>"

lemma begin_at:
  assumes ok: "orders_ok cr (orders s)" and r: "finish_begin now oid reviewer src s = (None, t)"
  obtains x u where "map_of (orders s) oid = Some x" "map_of (users s) (o_user x) = Some u"
    "o_status x = entry_status src" "is_trial x \<Longrightarrow> u_trial u = None" "src = From_Free \<Longrightarrow> o_amount x = 0"
    "src = From_Wallet \<Longrightarrow> o_amount x \<le> u_balance u"
    "orders t = AList.update oid (processed now reviewer src x) (orders s)"
    "users t = (if src = From_Wallet then users (pay_in (o_user x) (- o_amount x) s) else users s)"
proof -
  obtain x where x: "map_of (orders s) oid = Some x" using r by (auto simp: finish_begin_def split: option.splits)
  obtain u where u: "map_of (users s) (o_user x) = Some u"
    using r x by (auto simp: finish_begin_def split: option.splits if_splits)
  have st: "o_status x = entry_status src" using r x by (auto simp: finish_begin_def split: if_splits)
  have trial: "is_trial x \<Longrightarrow> u_trial u = None" using r x u by (auto simp: finish_begin_def split: if_splits)
  have free: "src = From_Free \<Longrightarrow> o_amount x = 0" using r x u by (auto simp: finish_begin_def split: if_splits)
  note xok = conjunct1[OF orders_ok_get[OF ok x]]
  show thesis
  proof (cases "src = From_Card")
    case True
    then have "t = start_processing now oid reviewer None s" using r x u by (auto simp: finish_begin_def split: if_splits)
    then have "orders t = AList.update oid (processed now reviewer src x) (orders s)" "users t = users s"
      using x True by (simp_all add: start_processing_def upd_order_at processed_def reserved_eta)
    then show thesis using that x u st trial free True by simp
  next
    case False
    then have "o_status x = Draft" using st by (simp add: entry_status_def)
    then have nres: "\<not> o_reserved x" using xok by (simp add: draft_free)
    obtain e q where q: "reserve_discount now oid s = (e, q)" by (cases "reserve_discount now oid s")
    have e: "e = None" using r x u False by (auto simp: finish_begin_def q split: if_splits option.splits)
    note res = reserve_at[OF x nres q[unfolded e]]
    show thesis
    proof (cases "src = From_Wallet")
      case True
      have t: "o_amount x \<le> u_balance u"
          "t = start_processing now oid reviewer (Some By_Wallet) (pay_in (o_user x) (- o_amount x) q)"
        using r x u True by (auto simp: finish_begin_def q e split: if_splits)
      then have "orders t = AList.update oid (processed now reviewer src x) (orders s)"
          "users t = users (pay_in (o_user x) (- o_amount x) s)"
        using res True
        by (simp_all add: start_processing_def upd_order_def dmod_def processed_def method_of_def pay_in_def upd_user_def)
      then show thesis using that[OF x u st trial free] True t(1) by simp
    next
      case nw: False
      have "t = start_processing now oid reviewer (Some For_Free) q"
        using r x u False nw by (auto simp: finish_begin_def q e split: if_splits)
      then have "orders t = AList.update oid (processed now reviewer src x) (orders s)" "users t = users s"
        using res False nw
        by (cases src; simp add: start_processing_def upd_order_def dmod_def processed_def method_of_def)+
      then show thesis using that[OF x u st trial free] nw by simp
    qed
  qed
qed

lemma processed_ok: "order_ok cr x \<Longrightarrow> o_status x = entry_status src \<Longrightarrow> order_ok cr (processed now reviewer src x)
   \<and> moved cr (processed now reviewer src x) = moved cr x - (if src = From_Wallet then o_amount x else 0)
   \<and> o_method (processed now reviewer src x) = Some (method_of src)"
  by (cases src) (simp_all add: processed_def order_ok_def moved_def paid_def closed_def entry_status_def method_of_def)

lemma processed_keys [simp]:
  "o_id (processed now reviewer src x) = o_id x" "o_user (processed now reviewer src x) = o_user x"
  "o_status (processed now reviewer src x) = Processing" "is_trial (processed now reviewer src x) = is_trial x"
  by (simp_all add: processed_def is_trial_def)

lemma begin_inv:
  assumes inv: "money_inv m" and nofl: "flight m = None"
    and r: "finish_begin now oid reviewer src (st m) = (None, t)"
  shows "money_inv (m\<lparr>st := t, flight := Some (oid, src)\<rparr>)"
proof -
  have ok: "orders_ok (credited m) (orders (st m))" and tr: "trials_ok (st m)" and led: "ledger_ok m"
    using inv by (auto simp: money_inv_def)
  obtain x u where x: "map_of (orders (st m)) oid = Some x" and u: "map_of (users (st m)) (o_user x) = Some u"
      and sx: "o_status x = entry_status src" and trial: "is_trial x \<Longrightarrow> u_trial u = None"
      and bal: "src = From_Wallet \<Longrightarrow> o_amount x \<le> u_balance u"
      and orders: "orders t = AList.update oid (processed now reviewer src x) (orders (st m))"
      and users: "users t = (if src = From_Wallet then users (pay_in (o_user x) (- o_amount x) (st m)) else users (st m))"
    using begin_at[OF ok r] by metis
  let ?y = "processed now reviewer src x"
  have xid: "o_id x = oid" "order_ok (credited m) x" using orders_ok_get[OF ok x] by auto
  note y = processed_ok[OF xid(2) sx, of now reviewer]
  have kept: "users_kept (st m) t"
    using users users_kept_pay_in[of "st m"] by (auto simp: users_kept_def split: if_splits)
  have balt: "balance t uid = balance (st m) uid + (if o_user x = uid then moved (credited m) ?y - moved (credited m) x else 0)" for uid
  proof -
    have "balance t uid = balance (st m) uid + (if src = From_Wallet \<and> uid = o_user x then - o_amount x else 0)"
      using users balance_pay_in[OF u, of "- o_amount x" uid] by (auto simp: balance_def split: if_splits)
    then show ?thesis using y by auto
  qed
  have bal0: "0 \<le> balance t (o_user x)"
  proof -
    have "balance (st m) (o_user x) = u_balance u" using u by (simp add: balance_def)
    moreover have "0 \<le> balance (st m) (o_user x)" using led by (simp add: ledger_ok_def)
    ultimately show ?thesis using balt[of "o_user x"] y bal by (auto split: if_splits)
  qed
  have notrial: "\<not> approved_trial (o_user x) z" if "is_trial x" "map_of (orders (st m)) j = Some z" for j z
    using tr that trial u unfolding trials_ok_def by fastforce
  have noty: "\<not> approved_trial uid ?y" for uid by (simp add: approved_trial_def)
  have "flight_ok t (Some (oid, src))"
    unfolding flight_ok_def
  proof (intro allI impI)
    fix i src' assume "Some (oid, src) = Some (i, src')"
    then have i: "i = oid" "src' = src" by auto
    have "map_of (users t) (o_user x) \<noteq> None" using users_kept_dom[OF kept u] .
    then show "\<exists>z. map_of (orders t) i = Some z \<and> o_status z = Processing \<and> o_method z = Some (method_of src')
        \<and> map_of (users t) (o_user z) \<noteq> None
        \<and> (is_trial z \<longrightarrow> (\<forall>j w. map_of (orders t) j = Some w \<longrightarrow> \<not> approved_trial (o_user z) w))"
      using y notrial noty by (intro exI[of _ ?y]) (auto simp: orders i)
  qed
  from change_inv[OF inv x _ _ _ refl kept orders balt bal0 _ _ this] y xid noty
  have "money_inv (m\<lparr>st := t, flight := Some (oid, src), credited := credited m\<rparr>)" by simp
  then show ?thesis by (cases m) simp
qed

section \<open>Ending it\<close>

lemma flight_get: "money_inv m \<Longrightarrow> flight m = Some (oid, src) \<Longrightarrow> \<exists>x u. map_of (orders (st m)) oid = Some x
   \<and> map_of (users (st m)) (o_user x) = Some u \<and> o_status x = Processing \<and> o_method x = Some (method_of src)
   \<and> o_id x = oid \<and> order_ok (credited m) x \<and> 0 \<le> u_balance u
   \<and> (is_trial x \<longrightarrow> (\<forall>j y. map_of (orders (st m)) j = Some y \<longrightarrow> \<not> approved_trial (o_user x) y))"
  unfolding money_inv_def flight_ok_def ledger_ok_def balance_def using orders_ok_get
  by (smt (verit, ccfv_threshold) not_None_eq option.simps(5))

lemma flight_ok_None [simp]: "flight_ok s None"
  by (simp add: flight_ok_def)

lemma credit_inv:
  assumes inv: "money_inv m" and fl: "flight m = Some (oid, src)"
    and kind: "map_of (orders (st m)) oid = Some x" "o_kind x = Kind_Wallet" and new: "oid \<notin> credited m"
  shows "money_inv (m\<lparr>st := credit_topup oid (st m), credited := insert oid (credited m)\<rparr>)"
proof -
  obtain u where x: "map_of (users (st m)) (o_user x) = Some u" "o_status x = Processing" "o_method x = Some (method_of src)"
      "o_id x = oid" "order_ok (credited m) x" "0 \<le> u_balance u"
    using flight_get[OF inv fl] kind by auto
  let ?t = "pay_in (o_user x) (o_amount x) (st m)"
  have eq: "credit_topup oid (st m) = ?t" using kind by (simp add: credit_topup_def)
  have bal: "balance ?t uid = balance (st m) uid + (if o_user x = uid then moved (insert oid (credited m)) x - moved (credited m) x else 0)" for uid
    using balance_pay_in[OF x(1), of "o_amount x" uid] x new by (simp add: moved_def)
  have bal0: "0 \<le> balance ?t (o_user x)"
  proof -
    have "balance (st m) (o_user x) = u_balance u" "0 \<le> o_amount x" using x by (simp_all add: balance_def order_ok_def)
    then show ?thesis using balance_pay_in[OF x(1), of "o_amount x" "o_user x"] x by simp
  qed
  have same: "AList.update oid x (orders (st m)) = orders (st m)" using kind by (simp add: update_same)
  have "flight_ok (st m) (flight m)" using inv by (simp add: money_inv_def)
  then have flt: "flight_ok ?t (flight m)"
    using users_kept_dom[OF users_kept_pay_in[of "st m"]] unfolding flight_ok_def by (simp, metis not_None_eq)
  have "order_ok (insert oid (credited m)) x" using x kind by (simp add: order_ok_def)
  from change_inv[OF inv kind(1) x(4) refl this _ users_kept_pay_in _ bal bal0 _ _ flt] same x(2)
  have "money_inv (m\<lparr>st := ?t, flight := flight m, credited := insert oid (credited m)\<rparr>)"
    by (simp add: approved_trial_def)
  then show ?thesis unfolding eq by (cases m) simp
qed

lemma commit_inv:
  assumes inv: "money_inv m" and fl: "flight m = Some (oid, src)"
    and kind: "map_of (orders (st m)) oid = Some x" "o_kind x = Kind_Wallet \<longrightarrow> oid \<in> credited m"
  shows "money_inv (m\<lparr>st := finish_commit now oid srv (st m), flight := None\<rparr>)"
proof -
  obtain u where x: "map_of (users (st m)) (o_user x) = Some u" "o_status x = Processing" "o_method x = Some (method_of src)"
      "o_id x = oid" "order_ok (credited m) x" "0 \<le> u_balance u"
      "is_trial x \<longrightarrow> (\<forall>j y. map_of (orders (st m)) j = Some y \<longrightarrow> \<not> approved_trial (o_user x) y)"
    using flight_get[OF inv fl] kind by auto
  let ?t = "finish_commit now oid srv (st m)"
  define y where "y = x\<lparr>o_status := Approved, o_approved_at := Some now,
      o_service := (case srv of None \<Rightarrow> o_service x | Some v \<Rightarrow> Some v)\<rparr>"
  have orders: "orders ?t = AList.update oid y (orders (st m))"
    using kind by (simp add: finish_commit_def upd_order_at upd_user_def y_def Let_def)
  have users: "users ?t = (if is_trial x then dmod (o_user x) (\<lambda>u. u\<lparr>u_trial := Some now\<rparr>) (users (st m)) else users (st m))"
    using kind by (simp add: finish_commit_def upd_order_at upd_user_def Let_def)
  have kept: "users_kept (st m) ?t" by (simp add: users_kept_def users)
  have bal: "balance ?t uid = balance (st m) uid + (if o_user x = uid then moved (credited m) y - moved (credited m) x else 0)" for uid
    using x by (simp add: balance_def users y_def moved_def paid_def split: option.split)
  have "balance ?t (o_user x) = u_balance u" using x by (simp add: balance_def users)
  then have bal0: "0 \<le> balance ?t (o_user x)" using x by simp
  have y: "o_id y = oid" "o_user y = o_user x" "order_ok (credited m) y" "is_trial y = is_trial x"
    using x kind by (simp_all add: y_def order_ok_def closed_def is_trial_def)
  have tr: "approved_trial (o_user y) y \<Longrightarrow> \<exists>u. map_of (users ?t) (o_user y) = Some u \<and> u_trial u \<noteq> None"
    using x y by (simp add: approved_trial_def users)
  from change_inv[OF inv kind(1) y(1-3) refl kept orders bal bal0 tr _ flight_ok_None] x(7) y
  have "money_inv (m\<lparr>st := ?t, flight := None, credited := credited m\<rparr>)" by (auto simp: approved_trial_def)
  then show ?thesis by (cases m) simp
qed

text \<open>The order after a failed provisioning.\<close>

definition restored :: "source \<Rightarrow> order \<Rightarrow> order" where
  "restored src x = x\<lparr>o_reserved := (if src = From_Card then o_reserved x else False),
     o_status := entry_status src, o_failed := True\<rparr>"

lemma rollback_at:
  assumes x: "map_of (orders s) oid = Some x" "order_ok cr x"
  shows "orders (finish_rollback oid src s) = AList.update oid (restored src x) (orders s)
    \<and> users (finish_rollback oid src s) = (if src = From_Wallet then users (pay_in (o_user x) (o_amount x) s) else users s)"
proof (cases src)
  case From_Card
  then show ?thesis using x
    by (simp add: finish_rollback_def upd_order_at order_upd_upd restored_def entry_status_def reserved_eta)
next
  case From_Wallet
  have "map_of (orders (pay_in (o_user x) (o_amount x) s)) oid = Some x" using x by simp
  note rel = release_at[OF this x(2)]
  show ?thesis using x rel From_Wallet
    by (simp add: finish_rollback_def upd_order_def dmod_def Let_def restored_def entry_status_def)
next
  case From_Free
  note rel = release_at[OF x]
  show ?thesis using x rel From_Free
    by (simp add: finish_rollback_def upd_order_def dmod_def Let_def restored_def entry_status_def)
qed

lemma rollback_inv:
  assumes inv: "money_inv m" and fl: "flight m = Some (oid, src)" and new: "oid \<notin> credited m"
  shows "money_inv (m\<lparr>st := finish_rollback oid src (st m), flight := None\<rparr>)"
proof -
  obtain x u where x: "map_of (orders (st m)) oid = Some x" "map_of (users (st m)) (o_user x) = Some u"
      "o_status x = Processing" "o_method x = Some (method_of src)" "o_id x = oid" "order_ok (credited m) x" "0 \<le> u_balance u"
    using flight_get[OF inv fl] by auto
  let ?t = "finish_rollback oid src (st m)" and ?y = "restored src x"
  note at = rollback_at[OF x(1,6), of src]
  have y: "o_id ?y = oid" "o_user ?y = o_user x" "order_ok (credited m) ?y" "o_status ?y \<noteq> Approved"
    using x new by (cases src; simp add: restored_def order_ok_def closed_def entry_status_def method_of_def)+
  have flow: "moved (credited m) ?y - moved (credited m) x = (if src = From_Wallet then o_amount x else 0)"
    using x new by (cases src; simp add: restored_def moved_def paid_def entry_status_def method_of_def)
  have kept: "users_kept (st m) ?t" using at users_kept_pay_in[of "st m"] by (auto simp: users_kept_def split: if_splits)
  have bal: "balance ?t uid = balance (st m) uid + (if o_user x = uid then moved (credited m) ?y - moved (credited m) x else 0)" for uid
    using at balance_pay_in[OF x(2), of "o_amount x" uid] flow by (auto simp: balance_def split: if_splits)
  have "balance (st m) (o_user x) = u_balance u" "0 \<le> o_amount x" using x by (simp_all add: balance_def order_ok_def)
  then have bal0: "0 \<le> balance ?t (o_user x)" using bal[of "o_user x"] flow x(7) by (auto split: if_splits)
  from change_inv[OF inv x(1) y(1-3) refl kept conjunct1[OF at] bal bal0 _ _ flight_ok_None] y(4)
  have "money_inv (m\<lparr>st := ?t, flight := None, credited := credited m\<rparr>)" by (auto simp: approved_trial_def)
  then show ?thesis by (cases m) simp
qed

section \<open>The other operations\<close>

lemma interrupt_inv: "money_inv m \<Longrightarrow> money_inv (m\<lparr>flight := None\<rparr>)"
  by (simp add: money_inv_def ledger_ok_def)

lemma flow_none: "orders_ok cr os \<Longrightarrow> cr \<subseteq> dom (map_of os) \<Longrightarrow> map_of os oid = None \<Longrightarrow> o_id y = oid \<Longrightarrow> o_status y = Draft \<Longrightarrow>
   wallet_flow cr uid (AList.update oid y os) = wallet_flow cr uid os"
  by (auto simp: flow_new moved_def paid_def)

lemma new_order_id_fresh: "new_order_id ts os = Some oid \<Longrightarrow> map_of os oid = None"
  by (induction ts) (auto simp: Let_def split: if_splits)

lemma ordered_inv:
  assumes inv: "money_inv m"
  shows "money_inv (m\<lparr>st := snd (create_order now toks uid kind plan srv amount (st m))\<rparr>)"
proof (cases "new_order_id toks (orders (st m))")
  case None
  then show ?thesis using inv by (cases m) (simp add: create_order_def)
next
  case (Some oid)
  let ?t = "snd (create_order now toks uid kind plan srv amount (st m))"
  define y where "y = draft_order now oid uid kind plan srv
      (max 0 (case amount of Some a \<Rightarrow> a | None \<Rightarrow> (case plan of Some p \<Rightarrow> pl_price p | None \<Rightarrow> 0)))"
  have t: "?t = (st m)\<lparr>orders := AList.update oid y (orders (st m))\<rparr>"
    by (simp add: create_order_def Some y_def Let_def)
  have fresh: "map_of (orders (st m)) oid = None" by (rule new_order_id_fresh[OF Some])
  have ok: "orders_ok (credited m) (orders (st m))" and sub: "credited m \<subseteq> dom (map_of (orders (st m)))"
    and fl: "flight_ok (st m) (flight m)" and tr: "trials_ok (st m)" and led: "ledger_ok m"
    using inv by (auto simp: money_inv_def)
  have new: "oid \<notin> credited m" using fresh sub by auto
  have y: "o_id y = oid" "o_status y = Draft" "order_ok (credited m) y" "\<And>v. \<not> approved_trial v y"
    using new by (auto simp: y_def draft_order_def order_ok_def approved_trial_def closed_def)
  have nofl: "\<forall>src. flight m \<noteq> Some (oid, src)" using fl fresh by (auto simp: flight_ok_def)
  have "flight_ok ?t (flight m)"
    by (rule flight_ok_change[OF fl _ users_kept_same nofl y(4)]) (simp_all add: t)
  moreover have "trials_ok ?t" using tr y(4) unfolding trials_ok_def t by (simp split: if_splits) blast
  moreover have "ledger_ok (m\<lparr>st := ?t\<rparr>)"
    using led flow_none[OF ok sub fresh y(1,2)] by (simp add: ledger_ok_def t balance_def)
  moreover have "orders_ok (credited m) (orders ?t)" using orders_ok_update[OF ok y(1,3)] by (simp add: t)
  moreover have "credited m \<subseteq> dom (map_of (orders ?t))" using sub by (auto simp: t)
  ultimately show ?thesis by (simp add: money_inv_def)
qed

text \<open>Only the users change, no order does.\<close>

lemma users_inv:
  assumes inv: "money_inv m" and kept: "users_kept (st m) t" and orders: "orders t = orders (st m)"
    and money: "\<And>uid. balance t uid = balance (st m) uid + (g uid - granted m uid)" "\<And>uid. granted m uid \<le> g uid"
  shows "money_inv (m\<lparr>st := t, granted := g\<rparr>)"
proof -
  have fl: "flight_ok (st m) (flight m)" and tr: "trials_ok (st m)" and led: "ledger_ok m"
    using inv by (auto simp: money_inv_def)
  have "flight_ok t (flight m)"
    using fl users_kept_dom[OF kept] unfolding flight_ok_def orders by (metis not_None_eq)
  moreover have "trials_ok t" using tr kept unfolding trials_ok_def orders users_kept_def by blast
  moreover have "ledger_ok (m\<lparr>st := t, granted := g\<rparr>)"
    using led money unfolding ledger_ok_def by (simp add: orders) (smt (verit))
  ultimately show ?thesis using inv orders by (simp add: money_inv_def)
qed

lemma hello_inv: "money_inv m \<Longrightarrow> money_inv (m\<lparr>st := ensure_user now uid name first (st m)\<rparr>)"
  using users_inv[of m "ensure_user now uid name first (st m)" "granted m"]
  by (cases m) (auto simp: ensure_user_def upd_user_def users_kept_def balance_def split: option.split)

lemma group_inv: "money_inv m \<Longrightarrow> money_inv (m\<lparr>st := group_user uid sid (st m)\<rparr>)"
  using users_inv[of m "group_user uid sid (st m)" "granted m"]
  by (cases m) (auto simp: group_user_def upd_user_def users_kept_def balance_def split: option.split)

lemma gift_cases: "redeem_gift now uid text s = (r, t) \<Longrightarrow>
   (\<exists>e. r = Inl e \<and> t = s) \<or> (\<exists>c u g. r = Inr (g_amount g) \<and> map_of (users s) uid = Some u \<and> map_of (gifts s) c = Some g
     \<and> 0 < g_amount g \<and> uid \<notin> set (g_used g) \<and> int (length (g_used g)) < g_max g \<and> g_active g \<and> \<not> expired now (g_expires g)
     \<and> users t = dmod uid (\<lambda>u. u\<lparr>u_balance := u_balance u + g_amount g, u_gifts := u_gifts u @ [c]\<rparr>) (users s)
     \<and> gifts t = dmod c (\<lambda>g. g\<lparr>g_used := g_used g @ [uid]\<rparr>) (gifts s) \<and> orders t = orders s \<and> promos t = promos s)"
proof -
  assume r: "redeem_gift now uid text s = (r, t)"
  show ?thesis
  proof (cases "\<exists>c u g. normalize_code text = Some c \<and> map_of (users s) uid = Some u \<and> map_of (gifts s) c = Some g
      \<and> g_active g \<and> \<not> expired now (g_expires g) \<and> uid \<notin> set (g_used g) \<and> int (length (g_used g)) < g_max g \<and> 0 < g_amount g")
    case True
    then obtain c u g where g: "normalize_code text = Some c" "map_of (users s) uid = Some u" "map_of (gifts s) c = Some g"
        "g_active g" "\<not> expired now (g_expires g)" "uid \<notin> set (g_used g)" "int (length (g_used g)) < g_max g" "0 < g_amount g" by blast
    show ?thesis
      by (rule disjI2, rule exI[of _ c], rule exI[of _ u], rule exI[of _ g])
        (use r g in \<open>auto simp: redeem_gift_def Let_def upd_user_def\<close>)
  next
    case False
    then show ?thesis using r by (auto simp: redeem_gift_def Let_def not_le not_less split: option.splits if_splits)
  qed
qed

lemma gift_inv:
  assumes inv: "money_inv m" and r: "redeem_gift now uid text (st m) = (r, t)"
  shows "money_inv (m\<lparr>st := t, granted := (granted m)(uid := granted m uid + (case r of Inl _ \<Rightarrow> 0 | Inr a \<Rightarrow> a))\<rparr>)"
  using gift_cases[OF r]
proof
  assume "\<exists>e. r = Inl e \<and> t = st m"
  then show ?thesis using inv by (cases m) auto
next
  assume "\<exists>c u g. r = Inr (g_amount g) \<and> map_of (users (st m)) uid = Some u \<and> map_of (gifts (st m)) c = Some g
     \<and> 0 < g_amount g \<and> uid \<notin> set (g_used g) \<and> int (length (g_used g)) < g_max g \<and> g_active g \<and> \<not> expired now (g_expires g)
     \<and> users t = dmod uid (\<lambda>u. u\<lparr>u_balance := u_balance u + g_amount g, u_gifts := u_gifts u @ [c]\<rparr>) (users (st m))
     \<and> gifts t = dmod c (\<lambda>g. g\<lparr>g_used := g_used g @ [uid]\<rparr>) (gifts (st m)) \<and> orders t = orders (st m) \<and> promos t = promos (st m)"
  then obtain c u a where g: "r = Inr a" "map_of (users (st m)) uid = Some u" "0 < a" "orders t = orders (st m)"
      "users t = dmod uid (\<lambda>u. u\<lparr>u_balance := u_balance u + a, u_gifts := u_gifts u @ [c]\<rparr>) (users (st m))" by blast
  then show ?thesis
    by (intro users_inv[OF inv]) (auto simp: users_kept_def balance_def)
qed

lemma quiet_simple:
  "quiet_steps cr s (put_gift now admin c amount uses days s)"
  "quiet_steps cr s (put_promo now admin c pk v uses days s)"
  "quiet_steps cr s (put_card number holder s)"
  "quiet_steps cr s (put_audit a s)"
  "quiet_steps cr s (put_offset n s)"
  by (auto simp: put_gift_def put_promo_def put_card_def put_audit_def put_offset_def Let_def intro: quiet_steps.same)

lemmas quiet_operations = quiet_apply_discount quiet_cancel_order quiet_simple

lemma money_inv_start: "shop_start m \<Longrightarrow> money_inv m"
  by (auto simp: shop_start_def new_store_def money_inv_def orders_ok_def trials_ok_def ledger_ok_def
      balance_def wallet_flow_def)

lemma money_inv_step: "money_inv m \<Longrightarrow> shop_step fc m l m' \<Longrightarrow> money_inv m'"
proof -
  assume inv: "money_inv m"
  then have ok: "orders_ok (credited m) (orders (st m))" by (simp add: money_inv_def)
  note quiet = quiet_operations quiet_withdraw[OF ok] quiet_expire[OF ok] quiet_card[OF ok] quiet_receipt[OF ok]
    quiet_reject[OF ok] quiet_refused_begin[OF ok]
  assume "shop_step fc m l m'"
  then show "money_inv m'"
    by cases (auto simp only: intro!: hello_inv[OF inv] group_inv[OF inv] ordered_inv[OF inv] begin_inv[OF inv] credit_inv[OF inv]
        commit_inv[OF inv] rollback_inv[OF inv] interrupt_inv[OF inv] gift_inv[OF inv] quiet_steps_inv[OF _ inv] quiet)
qed

interpretation money: step_machine shop_start "shop_step fc" money_inv for fc
  by unfold_locales (auto intro: money_inv_start money_inv_step)

end
