(* ===== verification/Store_Codes.thy ===== *)
theory Store_Codes
  imports Store_Ledger
begin

text \<open>
  Discount codes. As long as a code is created under an unused name, the uses counted on it are
  exactly the orders that hold it: one per customer, never more than its limit. Releasing a
  reservation gives back exactly what reserving took.
\<close>

section \<open>The invariant\<close>

definition held :: "order \<Rightarrow> string option" where
  "held x = (if o_reserved x then o_code x else None)"

definition holders :: "(string, order) dict \<Rightarrow> string \<Rightarrow> string set" where
  "holders os c = {oid. \<exists>x. map_of os oid = Some x \<and> held x = Some c}"

definition owner :: "(string, order) dict \<Rightarrow> string \<Rightarrow> int" where
  "owner os oid = (case map_of os oid of None \<Rightarrow> 0 | Some x \<Rightarrow> o_user x)"

definition promo_ok :: "(string, order) dict \<Rightarrow> string \<Rightarrow> promo \<Rightarrow> bool" where
  "promo_ok os c d \<longleftrightarrow> set (d_orders d) = holders os c \<and> distinct (d_orders d)
     \<and> d_used d = map (owner os) (d_orders d) \<and> distinct (map (owner os) (d_orders d))
     \<and> d_uses d = int (length (d_orders d)) \<and> int (length (d_orders d)) \<le> max 0 (d_max d)"

definition codes_ok :: "store \<Rightarrow> bool" where
  "codes_ok s \<longleftrightarrow> (\<forall>oid x. map_of (orders s) oid = Some x \<longrightarrow> o_id x = oid)
     \<and> (\<forall>c d. map_of (promos s) c = Some d \<longrightarrow> promo_ok (orders s) c d)
     \<and> (\<forall>c. map_of (promos s) c = None \<longrightarrow> holders (orders s) c = {})"

lemma codes_id: "codes_ok s \<Longrightarrow> map_of (orders s) oid = Some x \<Longrightarrow> o_id x = oid"
  by (simp add: codes_ok_def)

lemma codes_same:
  assumes ok: "codes_ok s" and x: "map_of (orders s) oid = Some x"
    and y: "o_id y = oid" "o_user y = o_user x" "held y = held x"
    and t: "orders t = AList.update oid y (orders s)" "promos t = promos s"
  shows "codes_ok t"
proof -
  have "holders (orders t) = holders (orders s)"
    using x y by (auto simp: holders_def t fun_eq_iff)
  moreover have "owner (orders t) = owner (orders s)"
    using x y by (auto simp: owner_def t fun_eq_iff)
  ultimately show ?thesis
    using ok y by (simp add: codes_ok_def promo_ok_def t)
qed

lemma codes_cong: "codes_ok s \<Longrightarrow> orders t = orders s \<Longrightarrow> promos t = promos s \<Longrightarrow> codes_ok t"
  by (simp add: codes_ok_def)

lemma codes_upd:
  assumes ok: "codes_ok s"
    and f: "\<And>x. map_of (orders s) oid = Some x \<Longrightarrow> o_id (f x) = o_id x \<and> o_user (f x) = o_user x \<and> held (f x) = held x"
  shows "codes_ok (upd_order oid f s)"
proof (cases "map_of (orders s) oid")
  case None
  then show ?thesis using ok by (simp add: upd_order_def dmod_def)
next
  case (Some x)
  then show ?thesis
    using f[OF Some] codes_id[OF ok Some] by (intro codes_same[OF ok Some, of "f x"]) (simp_all add: upd_order_at)
qed

text \<open>Taking and giving back one use.\<close>

lemma holders_update: "map_of os oid = Some x \<Longrightarrow>
   holders (AList.update oid y os) c = (if held y = Some c then insert oid (holders os c) else holders os c - {oid})"
  by (auto simp: holders_def)

lemma owner_update: "map_of os oid = Some x \<Longrightarrow> o_user y = o_user x \<Longrightarrow> owner (AList.update oid y os) = owner os"
  by (auto simp: owner_def fun_eq_iff)

lemma codes_one:
  assumes ok: "codes_ok s" and orders: "orders t = AList.update oid y (orders s)" "o_id y = oid"
    and promos: "promos t = AList.update c e (promos s)" and e: "promo_ok (orders t) c e"
    and hold: "\<And>b. b \<noteq> c \<Longrightarrow> holders (orders t) b = holders (orders s) b" and own: "owner (orders t) = owner (orders s)"
  shows "codes_ok t"
proof -
  have "\<forall>i x. map_of (orders t) i = Some x \<longrightarrow> o_id x = i"
    using ok orders by (auto simp: codes_ok_def)
  moreover have "promo_ok (orders t) b d" if "map_of (promos t) b = Some d" for b d
  proof (cases "b = c")
    case False
    then have "promo_ok (orders s) b d" using ok that by (simp add: codes_ok_def promos)
    then show ?thesis by (simp add: promo_ok_def hold[OF False] own)
  qed (use that e in \<open>simp add: promos\<close>)
  moreover have "holders (orders t) b = {}" if "map_of (promos t) b = None" for b
    using ok that hold[of b] by (auto simp: codes_ok_def promos split: if_splits)
  ultimately show ?thesis by (simp add: codes_ok_def)
qed

lemma codes_reserve:
  assumes ok: "codes_ok s" and r: "reserve_discount now oid s = (None, t)"
  shows "codes_ok t"
proof (cases "\<exists>x c. map_of (orders s) oid = Some x \<and> o_code x = Some c \<and> \<not> o_reserved x")
  case True
  then obtain x c where x: "map_of (orders s) oid = Some x" "o_code x = Some c" "\<not> o_reserved x" by blast
  have none: "discount_valid now (map_of (promos s) c) (o_user x) = None"
    using r x by (auto simp: reserve_discount_def split: option.splits)
  then obtain d where d: "map_of (promos s) c = Some d" "d_uses d < d_max d" "o_user x \<notin> set (d_used d)"
    by (auto simp: discount_valid_def split: option.splits if_splits)
  define y where "y = x\<lparr>o_reserved := True\<rparr>"
  define e where "e = d\<lparr>d_uses := d_uses d + 1, d_used := d_used d @ [o_user x], d_orders := d_orders d @ [o_id x]\<rparr>"
  have t: "orders t = AList.update oid y (orders s)" "promos t = AList.update c e (promos s)"
    using r x none d by (auto simp: reserve_discount_def upd_order_def upd_promo_def dmod_def y_def e_def)
  have xid: "o_id x = oid" by (rule codes_id[OF ok x(1)])
  have y: "held y = Some c" "held x = None" "o_user y = o_user x" "o_id y = oid"
    using x xid by (auto simp: held_def y_def)
  have hold: "holders (orders t) b = (if b = c then insert oid (holders (orders s) c) else holders (orders s) b)" for b
    using y x by (auto simp: t holders_update[OF x(1)] holders_def)
  have own: "owner (orders t) = owner (orders s)" by (simp add: t owner_update[OF x(1) y(3)])
  have "oid \<notin> holders (orders s) c" using x y by (simp add: holders_def)
  moreover have "owner (orders s) oid = o_user x" using x by (simp add: owner_def)
  moreover have "promo_ok (orders s) c d" using ok d by (simp add: codes_ok_def)
  ultimately have "promo_ok (orders t) c e"
    using d xid by (simp add: promo_ok_def hold own e_def)
  then show ?thesis by (rule codes_one[OF ok t(1) y(4) t(2)]) (simp_all add: hold own)
next
  case False
  then have "t = s" using r by (auto simp: reserve_discount_def split: option.splits if_splits)
  then show ?thesis using ok by simp
qed

lemma map_remove1_key: "distinct (map f xs) \<Longrightarrow> x \<in> set xs \<Longrightarrow> remove1 (f x) (map f xs) = map f (remove1 x xs)"
proof (induction xs)
  case (Cons a xs)
  then show ?case by (cases "x = a") (auto, metis imageI)
qed simp

lemma codes_release:
  assumes ok: "codes_ok s"
  shows "codes_ok (release_discount oid s)"
proof (cases "\<exists>x c. map_of (orders s) oid = Some x \<and> o_code x = Some c \<and> o_reserved x")
  case True
  then obtain x c where x: "map_of (orders s) oid = Some x" "o_code x = Some c" "o_reserved x" by blast
  let ?t = "release_discount oid s"
  have xid: "o_id x = oid" by (rule codes_id[OF ok x(1)])
  have "oid \<in> holders (orders s) c" using x by (simp add: holders_def held_def)
  then obtain d where d: "map_of (promos s) c = Some d" "promo_ok (orders s) c d" "oid \<in> set (d_orders d)"
    using ok unfolding codes_ok_def promo_ok_def by (cases "map_of (promos s) c") auto
  define y where "y = x\<lparr>o_reserved := False\<rparr>"
  define e where "e = d\<lparr>d_uses := max 0 (d_uses d - 1), d_used := remove1 (o_user x) (d_used d), d_orders := remove1 (o_id x) (d_orders d)\<rparr>"
  have t: "orders ?t = AList.update oid y (orders s)" "promos ?t = AList.update c e (promos s)"
    using x d by (simp_all add: release_discount_def upd_order_def upd_promo_def dmod_def y_def e_def)
  have y: "held y = None" "o_user y = o_user x" "o_id y = oid" using xid by (auto simp: held_def y_def)
  have hold: "holders (orders ?t) b = holders (orders s) b - {oid}" for b
    using y by (simp add: t holders_update[OF x(1)])
  have keep: "holders (orders s) b - {oid} = holders (orders s) b" if "b \<noteq> c" for b
    using x that by (auto simp: holders_def held_def)
  have own: "owner (orders ?t) = owner (orders s)" by (simp add: t owner_update[OF x(1) y(2)])
  have user: "owner (orders s) oid = o_user x" using x by (simp add: owner_def)
  have "remove1 (o_user x) (d_used d) = map (owner (orders s)) (remove1 oid (d_orders d))"
    using d map_remove1_key[of "owner (orders s)" "d_orders d" oid] user by (simp add: promo_ok_def)
  moreover have "length (d_orders d) \<ge> 1" using d(3) by (cases "d_orders d") auto
  moreover have "distinct (map (owner (orders s)) (remove1 oid (d_orders d)))"
    using d(2) by (auto simp: promo_ok_def distinct_map inj_on_diff)
  moreover have "int (length (d_orders d) - 1) \<le> max 0 (d_max d)" using d(2) by (auto simp: promo_ok_def)
  ultimately have "promo_ok (orders ?t) c e"
    using d xid by (simp add: promo_ok_def hold own e_def length_remove1 of_nat_diff)
  then show ?thesis by (rule codes_one[OF ok t(1) y(3) t(2)]) (simp_all add: hold keep own)
next
  case False
  then have "release_discount oid s = s" by (auto simp: release_discount_def split: option.splits)
  then show ?thesis using ok by simp
qed

section \<open>Every operation keeps it\<close>

lemma codes_close: "codes_ok s \<Longrightarrow> codes_ok (close_waiting now why oid s)"
  unfolding close_waiting_def by (rule codes_upd[OF codes_release]) (simp_all add: held_def)

lemma codes_fold_close: "codes_ok s \<Longrightarrow> codes_ok (fold (close_waiting now why) is s)"
  by (induction "is" arbitrary: s) (simp_all add: codes_close)

lemma codes_expire: "codes_ok s \<Longrightarrow> codes_ok (expire_stale_orders now timeout s)"
  unfolding expire_stale_orders_def by (rule codes_fold_close)

lemma codes_ensure: "codes_ok s \<Longrightarrow> codes_ok (ensure_user now uid name first s)"
  by (erule codes_cong) (simp_all add: ensure_user_def upd_user_def split: option.split)

lemma codes_create:
  assumes ok: "codes_ok s"
  shows "codes_ok (snd (create_order now toks uid kind plan srv amount s))"
proof (cases "new_order_id toks (orders s)")
  case None
  then show ?thesis using ok by (simp add: create_order_def)
next
  case (Some oid)
  have fresh: "map_of (orders s) oid = None" by (rule new_order_id_fresh[OF Some])
  define t where "t = snd (create_order now toks uid kind plan srv amount s)"
  obtain y where y: "orders t = AList.update oid y (orders s)" "promos t = promos s" "held y = None" "o_id y = oid"
    by (simp add: t_def create_order_def Some Let_def draft_order_def held_def)
  have hold: "holders (orders t) = holders (orders s)" using fresh y by (auto simp: holders_def fun_eq_iff)
  have "owner (orders t) i = owner (orders s) i" if "i \<in> holders (orders s) c" for i c
    using that fresh by (auto simp: owner_def y holders_def)
  then have "promo_ok (orders t) c d" if "promo_ok (orders s) c d" for c d
  proof -
    have eq: "map (owner (orders t)) (d_orders d) = map (owner (orders s)) (d_orders d)"
      using that \<open>\<And>i c. i \<in> holders (orders s) c \<Longrightarrow> _\<close> by (auto simp: promo_ok_def)
    show ?thesis using that unfolding promo_ok_def hold eq .
  qed
  then show ?thesis
    using ok y(4) unfolding codes_ok_def t_def[symmetric] hold y(2) by (simp add: y(1))
qed

lemma codes_discount:
  assumes ok: "codes_ok s" and free: "\<And>x. map_of (orders s) oid = Some x \<Longrightarrow> o_status x = Draft \<Longrightarrow> \<not> o_reserved x"
  shows "codes_ok (snd (apply_discount now oid uid text s))"
proof (cases "\<exists>y. snd (apply_discount now oid uid text s) = upd_order oid (\<lambda>_. y) s
    \<and> (\<exists>x c d a. map_of (orders s) oid = Some x \<and> o_status x = Draft \<and> y = x\<lparr>o_code := Some c, o_discount := d, o_amount := a\<rparr>)")
  case True
  then show ?thesis using free by (auto intro!: codes_upd[OF ok] simp: held_def)
next
  case False
  then have "snd (apply_discount now oid uid text s) = s"
    by (auto simp: apply_discount_def Let_def split: option.splits prod.splits if_splits)
  then show ?thesis using ok by simp
qed

lemma codes_cancel: "codes_ok s \<Longrightarrow> codes_ok (snd (cancel_order now oid uid s))"
  by (auto simp: cancel_order_def held_def intro!: codes_upd split: option.split)

lemma codes_withdraw: "codes_ok s \<Longrightarrow> codes_ok (snd (cancel_waiting_order now oid uid s))"
  by (auto simp: cancel_waiting_order_def codes_close split: option.split)

lemma codes_card: "codes_ok s \<Longrightarrow> codes_ok (snd (start_card_payment now timeout adm oid uid s))"
proof -
  assume ok: "codes_ok s"
  define r where "r = expire_stale_orders now timeout s"
  have okr: "codes_ok r" unfolding r_def by (rule codes_expire[OF ok])
  consider "snd (start_card_payment now timeout adm oid uid s) = r"
    | t where "reserve_discount now oid r = (None, t)"
      "snd (start_card_payment now timeout adm oid uid s) =
         upd_order oid (\<lambda>x. x\<lparr>o_method := Some By_Card, o_status := Awaiting_Receipt, o_started := Some now\<rparr>) t"
    using card_cases[OF r_def] by blast
  then show ?thesis
  proof cases
    case 1
    then show ?thesis using okr by simp
  next
    case 2
    show ?thesis unfolding 2(2) by (rule codes_upd[OF codes_reserve[OF okr 2(1)]]) (simp add: held_def)
  qed
qed

lemma codes_receipt:
  assumes ok: "codes_ok s" and d: "dict_ok (orders s)"
  shows "codes_ok (snd (submit_receipt now uid receipt which s))"
proof (cases "case which of Some i \<Rightarrow> map_of (orders s) i | None \<Rightarrow> latest (waiting_of uid s)")
  case (Some x)
  have x: "map_of (orders s) (o_id x) = Some x"
  proof (cases which)
    case None
    then have "x \<in> set (waiting_of uid s)" using Some by (simp add: latest_mem)
    then obtain i where "(i, x) \<in> set (orders s)" by (auto simp: waiting_of_def)
    then have "map_of (orders s) i = Some x" using d by (simp add: dict_ok_get)
    then show ?thesis using codes_id[OF ok] by metis
  next
    case (Some i)
    then have "map_of (orders s) i = Some x" using \<open>(case which of Some i \<Rightarrow> _ i | None \<Rightarrow> _) = Some x\<close> by simp
    then show ?thesis using codes_id[OF ok] by metis
  qed
  show ?thesis
    using ok x by (auto simp: submit_receipt_def Some Let_def held_def intro!: codes_upd)
qed (simp add: submit_receipt_def ok)

lemma codes_reject: "codes_ok s \<Longrightarrow> codes_ok (snd (reject_order now oid admin s))"
  by (auto simp: reject_order_def Let_def held_def intro!: codes_upd codes_release split: option.split)

lemma codes_pay_in [simp]: "codes_ok s \<Longrightarrow> codes_ok (pay_in uid a s)"
  by (erule codes_cong) (simp_all add: pay_in_def upd_user_def)

lemma codes_start: "codes_ok s \<Longrightarrow> codes_ok (start_processing now oid reviewer meth s)"
  unfolding start_processing_def by (erule codes_upd) (simp add: held_def)

lemma codes_begin: "codes_ok s \<Longrightarrow> finish_begin now oid reviewer src s = (r, t) \<Longrightarrow> codes_ok t"
  by (auto simp: finish_begin_def split: option.splits if_splits prod.splits
      intro: codes_start codes_release codes_reserve codes_pay_in dest: reserve_refused)

lemma codes_rollback: "codes_ok s \<Longrightarrow> codes_ok (finish_rollback oid src s)"
proof -
  assume ok: "codes_ok s"
  have last: "codes_ok (upd_order oid (\<lambda>x. x\<lparr>o_failed := True\<rparr>) (upd_order oid (\<lambda>x. x\<lparr>o_status := v\<rparr>) t))" if "codes_ok t" for v t
    by (rule codes_upd[OF codes_upd[OF that]]) (simp_all add: held_def)
  show ?thesis
    by (cases src; cases "map_of (orders s) oid"; simp add: finish_rollback_def Let_def ok last codes_release)
qed

lemma codes_commit: "codes_ok s \<Longrightarrow> codes_ok (finish_commit now oid srv s)"
proof -
  assume ok: "codes_ok s"
  have one: "codes_ok (upd_order oid (\<lambda>x. x\<lparr>o_status := Approved, o_approved_at := Some now,
      o_service := (case srv of None \<Rightarrow> o_service x | Some v \<Rightarrow> Some v)\<rparr>) s)"
    by (rule codes_upd[OF ok]) (simp add: held_def)
  have two: "codes_ok (upd_user uid f t)" if "codes_ok t" for uid f t
    using that by (rule codes_cong) (simp_all add: upd_user_def)
  show ?thesis by (cases "map_of (orders s) oid") (simp_all add: finish_commit_def Let_def ok one two)
qed

lemma codes_credit: "codes_ok s \<Longrightarrow> codes_ok (credit_topup oid s)"
  by (auto simp: credit_topup_def split: option.split)

lemma codes_gift: "codes_ok s \<Longrightarrow> redeem_gift now uid text s = (r, t) \<Longrightarrow> codes_ok t"
  by (drule gift_cases) (auto intro: codes_cong)

lemma codes_put_gift: "codes_ok s \<Longrightarrow> codes_ok (put_gift now admin c amount uses days s)"
  by (erule codes_cong) (simp_all add: put_gift_def)

lemma codes_put_card: "codes_ok s \<Longrightarrow> codes_ok (put_card number holder s)"
  by (erule codes_cong) (simp_all add: put_card_def)

lemma codes_put_promo: "codes_ok s \<Longrightarrow> map_of (promos s) c = None \<Longrightarrow> codes_ok (put_promo now admin c pk v uses days s)"
  by (auto simp: codes_ok_def put_promo_def promo_ok_def)

lemma codes_group: "codes_ok s \<Longrightarrow> codes_ok (group_user uid sid s)"
  by (erule codes_cong) (simp_all add: group_user_def upd_user_def)

lemma codes_log: "codes_ok s \<Longrightarrow> codes_ok (put_audit a s)" "codes_ok s \<Longrightarrow> codes_ok (put_offset n s)"
  by (erule codes_cong, simp_all add: put_audit_def put_offset_def Let_def)+

definition codes_inv :: "shop \<Rightarrow> bool" where
  "codes_inv m \<longleftrightarrow> money_inv m \<and> codes_ok (st m)"

lemma codes_inv_start: "shop_start m \<Longrightarrow> codes_inv m"
  by (simp add: codes_inv_def money_inv_start)
    (auto simp: shop_start_def new_store_def codes_ok_def holders_def)

lemma codes_inv_step: "codes_inv m \<Longrightarrow> shop_step True m l m' \<Longrightarrow> codes_inv m'"
proof -
  assume "codes_inv m" and step: "shop_step True m l m'"
  then have inv: "money_inv m" and ok: "codes_ok (st m)" by (auto simp: codes_inv_def)
  have free: "\<not> o_reserved x" if "map_of (orders (st m)) oid = Some x" "o_status x = Draft" for oid x
    using inv that orders_ok_get draft_free unfolding money_inv_def by blast
  have d: "dict_ok (orders (st m))" using inv orders_ok_dict unfolding money_inv_def by blast
  from step have "codes_ok (st m')"
    by cases (auto simp: codes_ensure[OF ok] codes_create[OF ok] codes_discount[OF ok] codes_cancel[OF ok] free
        codes_withdraw[OF ok] codes_expire[OF ok] codes_card[OF ok] codes_receipt[OF ok d] codes_reject[OF ok] ok
        codes_rollback[OF ok] codes_commit[OF ok] codes_credit[OF ok] codes_put_gift[OF ok] codes_put_card[OF ok]
        codes_put_promo[OF ok] codes_group[OF ok] codes_log[OF ok] dest: codes_begin[OF ok] codes_gift[OF ok])
  then show "codes_inv m'" using money_inv_step[OF inv step] by (simp add: codes_inv_def)
qed

interpretation codes: step_machine shop_start "shop_step True" codes_inv
  by unfold_locales (fact codes_inv_start codes_inv_step)+

end
