(* ===== verification/Shop_Laws.thy ===== *)
theory Shop_Laws
  imports Store_Codes
begin

text \<open>
  What the shop promises, in every reachable state: the ledger of the wallets, one trial per
  account, the limit of a discount code, the finality of a settled order, the refund of a failed
  provisioning; and what happens to an order whose processing is interrupted.
\<close>

section \<open>Settled orders\<close>

definition settled :: "shop \<Rightarrow> string \<Rightarrow> order \<Rightarrow> bool" where
  "settled m oid x \<longleftrightarrow> map_of (orders (st m)) oid = Some x \<and>
     (o_status x \<in> {Approved, Cancelled, Expired, Rejected}
      \<or> o_status x = Processing \<and> (\<forall>src. flight m \<noteq> Some (oid, src)))"

lemma quiet_steps_frame: "quiet_steps cr s t \<Longrightarrow> map_of (orders s) oid = Some x \<Longrightarrow>
   o_status x \<notin> {Draft, Awaiting_Receipt, Pending_Admin} \<Longrightarrow> map_of (orders t) oid = Some x"
  by (induction rule: quiet_steps.induct) (auto simp: quiet_def)

lemma ensure_orders [simp]: "orders (ensure_user now uid name first s) = orders s"
  by (simp add: ensure_user_def upd_user_def split: option.split)

lemma group_orders [simp]: "orders (group_user uid sid s) = orders s"
  by (simp add: group_user_def upd_user_def)

lemma credit_orders [simp]: "orders (credit_topup oid s) = orders s"
  by (simp add: credit_topup_def split: option.split)

lemma commit_frame: "i \<noteq> oid \<Longrightarrow> map_of (orders (finish_commit now oid srv s)) i = map_of (orders s) i"
  by (simp add: finish_commit_def upd_order_def upd_user_def Let_def split: option.split)

lemma create_frame: "map_of (orders s) oid = Some x \<Longrightarrow>
   map_of (orders (snd (create_order now toks uid kind plan srv amount s))) oid = Some x"
  by (auto simp: create_order_def Let_def dest: new_order_id_fresh split: option.split)

lemma settled_step:
  assumes inv: "money_inv m" and x: "settled m oid x" and step: "shop_step fc m l m'"
  shows "settled m' oid x"
proof -
  have ok: "orders_ok (credited m) (orders (st m))" using inv by (simp add: money_inv_def)
  note quiet = quiet_operations quiet_withdraw[OF ok] quiet_expire[OF ok] quiet_card[OF ok] quiet_receipt[OF ok]
    quiet_reject[OF ok]
  have get: "map_of (orders (st m)) oid = Some x" and status: "o_status x \<notin> {Draft, Awaiting_Receipt, Pending_Admin}"
    using x by (auto simp: settled_def)
  have here: "settled (m\<lparr>st := t\<rparr>) oid x" if "quiet_steps (credited m) (st m) t" for t
    using quiet_steps_frame[OF that get status] x by (simp add: settled_def)
  have off: "i \<noteq> oid" if fl: "flight m = Some (i, src)" for i src
  proof -
    from flight_get[OF inv fl] obtain z where z: "map_of (orders (st m)) i = Some z" "o_status z = Processing" by blast
    show ?thesis using z x fl by (auto simp: settled_def)
  qed
  show ?thesis
    using step
  proof cases
    case (begun now i reviewer src t)
    obtain z where z: "map_of (orders (st m)) i = Some z" "o_status z = entry_status src"
        "orders t = AList.update i (processed now reviewer src z) (orders (st m))"
      using begin_at[OF ok begun(4)] by metis
    have "i \<noteq> oid" using z get status by (auto simp: entry_status_def split: if_splits)
    then show ?thesis using x z(3) begun by (simp add: settled_def)
  next
    case (not_begun now i reviewer src e t)
    show ?thesis unfolding not_begun(2) by (rule here[OF quiet_refused_begin[OF ok not_begun(4)]])
  next
    case (committed i src z now service)
    then show ?thesis using x off[OF committed(3)] by (auto simp: settled_def commit_frame)
  next
    case (rolled_back i src)
    obtain z where z: "map_of (orders (st m)) i = Some z" "order_ok (credited m) z"
      using flight_get[OF inv rolled_back(3)] by blast
    show ?thesis using x off[OF rolled_back(3)] rollback_at[OF z, of src] rolled_back by (simp add: settled_def)
  next
    case (interrupted f)
    then show ?thesis using x by (auto simp: settled_def)
  next
    case (gift_taken now uid given r t)
    have "orders t = orders (st m)" using gift_cases[OF gift_taken(3)] by auto
    then show ?thesis using x gift_taken by (simp add: settled_def)
  next
    case (hello now uid name first)
    then show ?thesis using x by (simp add: settled_def)
  next
    case (grouped uid sid)
    then show ?thesis using x by (simp add: settled_def)
  next
    case (ordered now toks uid kind plan srv amount)
    then show ?thesis using x by (simp add: settled_def create_frame)
  next
    case (credited_topup i src z)
    then show ?thesis using x by (simp add: settled_def)
  qed (auto simp only: intro!: here quiet)
qed

lemma settled_later:
  assumes "reaches (\<lambda>s. s = m) (shop_step fc) m'" "money_inv m" "settled m oid x"
  shows "settled m' oid x \<and> money_inv m'"
  using assms by (induction rule: reaches.induct) (auto intro: settled_step money_inv_step)

section \<open>The promises\<close>

text \<open>
  C2. The ledger of a wallet, in every reachable state: the balance is what gift codes granted, plus
  every top-up that was credited, less every order that is being processed or was approved
  against the wallet; and it is never negative.
\<close>

theorem wallet_ledger:
  assumes "reaches shop_start (shop_step fresh_codes) m"
  shows "balance (st m) uid = granted m uid + wallet_flow (credited m) uid (orders (st m)) \<and> 0 \<le> balance (st m) uid"
proof -
  have "money_inv m" by (rule money.reaches_inv[OF assms])
  then show ?thesis by (simp add: money_inv_def ledger_ok_def)
qed

text \<open>
  C29. An account gets at most one trial: in every reachable state two approved trial orders of one
  user are the same order, and the user is marked.
\<close>

theorem trial_once:
  assumes "reaches shop_start (shop_step fresh_codes) m"
    and "map_of (orders (st m)) i = Some x" "approved_trial uid x"
    and "map_of (orders (st m)) j = Some y" "approved_trial uid y"
  shows "i = j \<and> (\<exists>u. map_of (users (st m)) uid = Some u \<and> u_trial u \<noteq> None)"
proof -
  have "trials_ok (st m)" using money.reaches_inv[OF assms(1)] by (simp add: money_inv_def)
  then show ?thesis using assms(2-5) unfolding trials_ok_def by blast
qed

text \<open>
  C27. A settled order is final: once an order is approved, cancelled, expired or rejected, no later
  operation of the shop changes anything in it.
\<close>

theorem settled_order_final:
  assumes "reaches shop_start (shop_step fresh_codes) m" "map_of (orders (st m)) oid = Some x"
    and "o_status x \<in> {Approved, Cancelled, Expired, Rejected}"
    and "reaches (\<lambda>s. s = m) (shop_step fresh_codes) m'"
  shows "map_of (orders (st m')) oid = Some x"
proof -
  have "settled m oid x" using assms(2,3) by (auto simp: settled_def)
  from settled_later[OF assms(4) money.reaches_inv[OF assms(1)] this] show ?thesis by (simp add: settled_def)
qed

text \<open>
  C6. The limit of a discount code, in every run of the shop in which no code is created again under a name
  that is in use: the orders that hold a code are exactly its counted uses, at most its limit, and all of
  different customers. (The bot checks the name in the first step of its dialogue only; what two administrators
  can do with that is \<open>code_overwritten\<close> in \<open>Bot_Laws\<close>.)
\<close>

theorem promo_limit:
  assumes "reaches shop_start (shop_step True) m" "map_of (promos (st m)) c = Some d"
  shows "int (card (holders (orders (st m)) c)) = d_uses d \<and> d_uses d \<le> max 0 (d_max d)
    \<and> inj_on (owner (orders (st m))) (holders (orders (st m)) c)"
proof -
  have "promo_ok (orders (st m)) c d"
    using codes.reaches_inv[OF assms(1)] assms(2) by (simp add: codes_inv_def codes_ok_def)
  then show ?thesis by (auto simp: promo_ok_def distinct_map distinct_card[symmetric])
qed

text \<open>The order after a processing that was undone: what remains to be seen of it, and nothing else.\<close>

definition undone :: "int \<Rightarrow> int option \<Rightarrow> source \<Rightarrow> order \<Rightarrow> order" where
  "undone now reviewer src x = x\<lparr>o_method := (if src = From_Card then o_method x else Some (method_of src)),
     o_reviewer := reviewer, o_processing_at := Some now, o_failed := True\<rparr>"

lemma restored_processed:
  assumes "o_status x = entry_status src" "src \<noteq> From_Card \<Longrightarrow> \<not> o_reserved x"
  shows "restored src (processed now reviewer src x) = undone now reviewer src x"
  using assms by (cases x; cases src) (simp_all add: restored_def processed_def undone_def method_of_def)

lemma group_balance: "balance (group_user u g s) = balance s"
  by (rule ext) (simp add: balance_def group_user_def upd_user_def split: option.split)

lemma rollback_exact:
  assumes inv: "money_inv m" and started: "finish_begin now oid reviewer src (st m) = (None, t)"
    and later: "t' = t \<or> (\<exists>v g. t' = group_user v g t)"
  shows "balance (finish_rollback oid src t') = balance (st m)
    \<and> (\<exists>x. map_of (orders (st m)) oid = Some x \<and> o_status x = entry_status src
        \<and> map_of (orders (finish_rollback oid src t')) oid = Some (undone now reviewer src x))
    \<and> (\<forall>i. i \<noteq> oid \<longrightarrow> map_of (orders (finish_rollback oid src t')) i = map_of (orders (st m)) i)"
proof -
  have ok: "orders_ok (credited m) (orders (st m))" using inv by (simp add: money_inv_def)
  obtain x u where x: "map_of (orders (st m)) oid = Some x" "map_of (users (st m)) (o_user x) = Some u"
      "o_status x = entry_status src" "orders t = AList.update oid (processed now reviewer src x) (orders (st m))"
      "users t = (if src = From_Wallet then users (pay_in (o_user x) (- o_amount x) (st m)) else users (st m))"
    using begin_at[OF ok started] by metis
  have xok: "order_ok (credited m) x" using orders_ok_get[OF ok x(1)] by simp
  define z where "z = processed now reviewer src x"
  have o': "orders t' = orders t" and b': "balance t' = balance t" using later by (auto simp: group_balance)
  have z: "map_of (orders t') oid = Some z" "order_ok (credited m) z" "o_user z = o_user x" "o_amount z = o_amount x"
    using x processed_ok[OF xok x(3)] by (simp_all add: z_def o') (simp add: processed_def)
  note undo_at = rollback_at[OF z(1,2), of src]
  have "balance (finish_rollback oid src t') v = balance (st m) v" for v
  proof (cases "src = From_Wallet")
    case True
    have "map_of (users t) (o_user z) \<noteq> None" using True x z by (simp add: pay_in_def upd_user_def)
    then have "map_of (users t') (o_user z) \<noteq> None" using later by (auto simp: group_user_def upd_user_def)
    then obtain w where w: "map_of (users t') (o_user z) = Some w" by blast
    have "balance (finish_rollback oid src t') v = balance (pay_in (o_user z) (o_amount z) t') v"
      using undo_at True by (simp add: balance_def)
    also have "\<dots> = balance t' v + (if v = o_user z then o_amount z else 0)" by (rule balance_pay_in[OF w])
    also have "balance t' v = balance (pay_in (o_user x) (- o_amount x) (st m)) v" using x(5) True by (simp add: b') (simp add: balance_def)
    also have "\<dots> = balance (st m) v + (if v = o_user x then - o_amount x else 0)" by (rule balance_pay_in[OF x(2)])
    finally show ?thesis using z by simp
  next
    case False
    then have "balance (finish_rollback oid src t') v = balance t' v" using undo_at by (simp add: balance_def)
    also have "\<dots> = balance (st m) v" using x(5) False by (simp add: b') (simp add: balance_def)
    finally show ?thesis .
  qed
  moreover have "src \<noteq> From_Card \<Longrightarrow> \<not> o_reserved x" using draft_free[OF xok] x(3) by (simp add: entry_status_def)
  then have "restored src z = undone now reviewer src x" unfolding z_def by (rule restored_processed[OF x(3)])
  then have "map_of (orders (finish_rollback oid src t')) oid = Some (undone now reviewer src x)"
    "\<forall>i. i \<noteq> oid \<longrightarrow> map_of (orders (finish_rollback oid src t')) i = map_of (orders (st m)) i"
    using undo_at x(4) by (simp_all add: o')
  ultimately show ?thesis using x(1,3) by (auto simp: fun_eq_iff)
qed

text \<open>The counts of the codes: what the start of the processing took is given back.\<close>

definition code_counts :: "store \<Rightarrow> string \<Rightarrow> (int \<times> int list) option" where
  "code_counts s c = map_option (\<lambda>d. (d_uses d, d_used d)) (map_of (promos s) c)"

lemma rollback_codes:
  assumes started: "finish_begin now oid reviewer src s = (None, t)" and later: "t' = t \<or> (\<exists>v g. t' = group_user v g t)"
    and x: "map_of (orders s) oid = Some x" "src \<noteq> From_Card \<Longrightarrow> \<not> o_reserved x" and d: "map_of (promos s) c = Some d" "0 \<le> d_uses d"
  shows "code_counts (finish_rollback oid src t') c = Some (d_uses d, d_used d)"
proof (cases "src = From_Card")
  case True
  then have "promos t = promos s" using started x(1)
    by (auto simp: finish_begin_def start_processing_def upd_order_def split: option.splits if_splits)
  then have "promos t' = promos s" using later by (auto simp: group_user_def upd_user_def)
  then have "promos (finish_rollback oid src t') = promos s"
    using True by (simp add: finish_rollback_def upd_order_def Let_def split: option.split)
  then show ?thesis using d by (simp add: code_counts_def)
next
  case False
  obtain r where r: "reserve_discount now oid s = (None, r)"
      "promos t = promos r" "map_of (orders t) oid = map_option (\<lambda>z. z\<lparr>o_method := Some (method_of src), o_status := Processing,
         o_reviewer := reviewer, o_processing_at := Some now\<rparr>) (map_of (orders r) oid)"
    using started x(1) False
    by (cases src) (auto simp: finish_begin_def start_processing_def upd_order_def pay_in_def upd_user_def method_of_def
        split: option.splits if_splits prod.splits)
  have t': "promos t' = promos t" "orders t' = orders t" using later by (auto simp: group_user_def upd_user_def)
  have rel: "promos (finish_rollback oid src t') = promos (release_discount oid t')"
    using False by (cases src) (simp_all add: finish_rollback_def upd_order_def Let_def pay_in_def upd_user_def release_discount_def
        upd_promo_def split: option.split)
  show ?thesis
  proof (cases "o_code x")
    case None
    then have "r = s" using r(1) x(1) by (simp add: reserve_discount_def)
    then show ?thesis using None x d r t' by (simp add: code_counts_def rel release_discount_def)
  next
    case (Some k)
    have v: "discount_valid now (map_of (promos s) k) (o_user x) = None"
      "r = upd_order oid (\<lambda>x. x\<lparr>o_reserved := True\<rparr>) (upd_promo k (\<lambda>d. d\<lparr>d_uses := d_uses d + 1, d_used := d_used d @ [o_user x],
                                    d_orders := d_orders d @ [o_id x]\<rparr>) s)"
      using r(1) x False Some by (auto simp: reserve_discount_def split: option.splits)
    have "k = c \<Longrightarrow> o_user x \<notin> set (d_used d)" using v(1) d(1) by (auto simp: discount_valid_def split: if_splits)
    then show ?thesis using Some x d r(2,3) v(2) t'
      by (auto simp: code_counts_def rel release_discount_def upd_order_def upd_promo_def remove1_append)
  qed
qed

text \<open>
  The only price calculation of the shop: the payable amount and the discount are never
  negative, add up to the base price, and a percentage takes at most that share.
\<close>

theorem payable_bounds:
  assumes "calculate_payable base entry = (pay, discount)"
  shows "pay + discount = max 0 base \<and> 0 \<le> pay \<and> 0 \<le> discount
    \<and> (case entry of None \<Rightarrow> discount = 0
       | Some d \<Rightarrow> if d_kind d = Percent then discount * 100 \<le> max 0 base * max 0 (d_value d)
                   else discount \<le> max 0 (d_value d))"
proof (cases entry)
  case None
  then show ?thesis using assms by (auto simp: calculate_payable_def)
next
  case (Some d)
  define b where "b = max 0 base"
  define v where "v = max 0 (d_value d)"
  define raw where "raw = (if d_kind d = Percent then (b * min 100 v) div 100 else min b v)"
  have pos: "0 \<le> b" "0 \<le> v" by (simp_all add: b_def v_def)
  have pct: "0 \<le> q div 100" "q div 100 * 100 \<le> q" if "0 \<le> q" for q :: int using that by auto
  have q: "0 \<le> b * min 100 v" using pos by simp
  have le: "b * min 100 v \<le> b * v" using pos by (intro mult_left_mono) auto
  have raw0: "0 \<le> raw" unfolding raw_def using pos pct(1)[OF q] by simp
  have rawp: "d_kind d = Percent \<Longrightarrow> raw * 100 \<le> b * v" using pct(2)[OF q] le by (simp add: raw_def)
  have rawf: "d_kind d = Fixed \<Longrightarrow> raw \<le> v" by (simp add: raw_def)
  have res: "discount = min b raw" "pay = b - discount"
  proof -
    have "calculate_payable base (Some d) = (b - min b (max 0 raw), min b (max 0 raw))"
      unfolding calculate_payable_def raw_def v_def b_def by (simp add: Let_def)
    then show "discount = min b raw" "pay = b - discount" using assms Some raw0 by simp_all
  qed
  have disc: "discount \<le> raw" "discount \<le> b" "0 \<le> discount" using res raw0 pos by auto
  have "if d_kind d = Percent then discount * 100 \<le> b * v else discount \<le> v"
    using rawp rawf disc by (cases "d_kind d") auto
  then show ?thesis
    unfolding Some option.case(2) b_def[symmetric] v_def[symmetric] using res disc by simp
qed

text \<open>
  An interrupted order is lost: when the task that processes an order is cancelled (a shutdown
  of the bot), the order stays in processing for good. No later operation of the shop moves it,
  approves it or gives the money back, although the wallet has already paid.
\<close>

theorem interrupted_order_stuck:
  assumes "reaches shop_start (shop_step fresh_codes) m" "flight m = Some (oid, From_Wallet)"
    and "map_of (orders (st m)) oid = Some x" "o_kind x \<noteq> Kind_Wallet"
    and "reaches (\<lambda>s. s = m\<lparr>flight := None\<rparr>) (shop_step fresh_codes) m'"
  shows "shop_step fresh_codes m Interrupted (m\<lparr>flight := None\<rparr>) \<and> map_of (orders (st m')) oid = Some x
    \<and> o_status x = Processing \<and> moved (credited m') x = - o_amount x"
proof -
  have inv: "money_inv m" by (rule money.reaches_inv[OF assms(1)])
  have x: "o_status x = Processing" "o_method x = Some By_Wallet"
    using flight_get[OF inv assms(2)] assms(3) by (auto simp: method_of_def)
  have "settled (m\<lparr>flight := None\<rparr>) oid x" using assms(3) x by (simp add: settled_def)
  from settled_later[OF assms(5) interrupt_inv[OF inv] this]
  have x': "map_of (orders (st m')) oid = Some x" "money_inv m'" by (auto simp: settled_def)
  then have "orders_ok (credited m') (orders (st m'))" by (simp add: money_inv_def)
  from orders_ok_get[OF this x'(1)] assms(4) have "o_id x \<notin> credited m'" by (auto simp: order_ok_def)
  then show ?thesis using x x' shop_step.interrupted[OF assms(2)] by (simp add: moved_def paid_def)
qed

section \<open>A run of the shop\<close>

text \<open>
  A user takes a gift code, orders a plan with a discount code and pays from the wallet; later the
  order is approved, and a trial is taken. The stages are the values of the operations.
\<close>

definition shop_with :: "user \<Rightarrow> (string, order) dict \<Rightarrow> int list \<Rightarrow> audit list \<Rightarrow> (string, promo) dict \<Rightarrow> store" where
  "shop_with u os used log ps = \<lparr>users = [(7, u)], orders = os,
     gifts = [(''GIFT'', \<lparr>g_amount = 500000, g_max = 1, g_used = used, g_active = True, g_expires = None, g_by = 99\<rparr>)],
     promos = ps, redemptions = log, admin_audit = [], poll_offset = 0,
     config = \<lparr>card_number = ''6037'', card_holder = ''X'', support = []\<rparr>\<rparr>"

definition ali :: "int \<Rightarrow> string list \<Rightarrow> int option \<Rightarrow> user" where
  "ali b codes trial = \<lparr>u_id = 7, u_username = ''ali'', u_first = ''Ali'', u_balance = b, u_created = 0, u_seen = 0,
     u_sub = None, u_gifts = codes, u_trial = trial\<rparr>"

definition off_code :: "string list \<Rightarrow> (string, promo) dict" where
  "off_code held_by = [(''OFF'', \<lparr>d_kind = Percent, d_value = 10, d_max = 1, d_uses = int (length held_by),
     d_used = map (\<lambda>_. 7) held_by, d_orders = held_by, d_active = True, d_expires = None, d_by = 99\<rparr>)]"

definition order_new :: order where
  "order_new = draft_order 3 ''OAB'' 7 Kind_New (Some ECONOMIC) None 80000"
definition order_cheap :: order where
  "order_cheap = order_new\<lparr>o_code := Some ''OFF'', o_discount := 8000, o_amount := 72000\<rparr>"
definition order_paid :: order where
  "order_paid = order_cheap\<lparr>o_reserved := True, o_method := Some By_Wallet, o_status := Processing, o_processing_at := Some 4\<rparr>"
definition order_approved :: order where
  "order_approved = order_paid\<lparr>o_status := Approved, o_approved_at := Some 5, o_service := Some ''u1''\<rparr>"
definition trial_new :: order where
  "trial_new = draft_order 6 ''OCD'' 7 Kind_New (Some TRIAL) None 0"
definition trial_begun :: order where
  "trial_begun = trial_new\<lparr>o_method := Some For_Free, o_status := Processing, o_processing_at := Some 7\<rparr>"
definition trial_approved :: order where
  "trial_approved = trial_begun\<lparr>o_status := Approved, o_approved_at := Some 8, o_service := Some ''u2''\<rparr>"

definition gift_log :: "audit list" where "gift_log = [Audit_Gift ''GIFT'' 7 500000 2]"
definition stage_gift :: store where "stage_gift = shop_with (ali 0 [] None) [] [] [] []"
definition stage_rich :: store where "stage_rich = shop_with (ali 500000 [''GIFT''] None) [] [7] gift_log []"
definition stage_code :: store where "stage_code = shop_with (ali 500000 [''GIFT''] None) [] [7] gift_log (off_code [])"
definition stage_new :: store where
  "stage_new = shop_with (ali 500000 [''GIFT''] None) [(''OAB'', order_new)] [7] gift_log (off_code [])"
definition stage_order :: store where
  "stage_order = shop_with (ali 500000 [''GIFT''] None) [(''OAB'', order_cheap)] [7] gift_log (off_code [])"
definition stage_begun :: store where
  "stage_begun = shop_with (ali 428000 [''GIFT''] None) [(''OAB'', order_paid)] [7] gift_log (off_code [''OAB''])"
definition stage_served :: store where
  "stage_served = shop_with (ali 428000 [''GIFT''] None) [(''OAB'', order_approved)] [7] gift_log (off_code [''OAB''])"
definition stage_trial :: store where
  "stage_trial = shop_with (ali 428000 [''GIFT''] None) [(''OAB'', order_approved), (''OCD'', trial_new)] [7] gift_log (off_code [''OAB''])"
definition stage_trying :: store where
  "stage_trying = shop_with (ali 428000 [''GIFT''] None) [(''OAB'', order_approved), (''OCD'', trial_begun)] [7] gift_log (off_code [''OAB''])"
definition stage_done :: store where
  "stage_done = shop_with (ali 428000 [''GIFT''] (Some 8)) [(''OAB'', order_approved), (''OCD'', trial_approved)] [7] gift_log (off_code [''OAB''])"

lemma stage_gift_eq: "put_gift 1 99 ''GIFT'' 500000 1 0 (ensure_user 0 7 ''ali'' ''Ali''
   (new_store \<lparr>card_number = ''6037'', card_holder = ''X'', support = []\<rparr>)) = stage_gift"
  by code_simp
lemma stage_rich_eq: "redeem_gift 2 7 ''gift'' stage_gift = (Inr 500000, stage_rich)"
  by code_simp
lemma stage_code_eq: "put_promo 2 99 ''OFF'' Percent 10 1 0 stage_rich = stage_code"
  by code_simp
lemma stage_new_eq: "snd (create_order 3 [''ab''] 7 Kind_New (Some ECONOMIC) None None stage_code) = stage_new"
  by code_simp
lemma stage_order_eq: "snd (apply_discount 3 ''OAB'' 7 ''off'' stage_new) = stage_order"
  by code_simp
lemma stage_begun_eq: "finish_begin 4 ''OAB'' None From_Wallet stage_order = (None, stage_begun)"
  by code_simp
lemma stage_served_eq: "finish_commit 5 ''OAB'' (Some ''u1'') stage_begun = stage_served"
  by code_simp
lemma stage_trial_eq: "snd (create_order 6 [''cd''] 7 Kind_New (Some TRIAL) None None stage_served) = stage_trial"
  by code_simp
lemma stage_trying_eq: "finish_begin 7 ''OCD'' None From_Free stage_trial = (None, stage_trying)"
  by code_simp
lemma stage_done_eq: "finish_commit 8 ''OCD'' (Some ''u2'') stage_trying = stage_done"
  by code_simp

definition shop_at :: "store \<Rightarrow> (string \<times> source) option \<Rightarrow> shop" where
  "shop_at s fl = \<lparr>st = s, flight = fl, credited = {}, granted = (\<lambda>_. 0)(7 := 500000)\<rparr>"

lemma shop_at_simps [simp]: "shop_at s fl\<lparr>st := t\<rparr> = shop_at t fl" "shop_at s fl\<lparr>flight := f\<rparr> = shop_at s f"
  "st (shop_at s fl) = s" "flight (shop_at s fl) = fl" "credited (shop_at s fl) = {}"
  by (simp_all add: shop_at_def)

lemma reaches_self: "reaches (\<lambda>s. s = m) step m"
  by (rule reaches.init) (rule refl)

lemma hello_next: "reaches start (shop_step fc) m \<Longrightarrow>
   reaches start (shop_step fc) (m\<lparr>st := ensure_user now uid name first (st m)\<rparr>)"
  by (erule reaches.next_step) (rule shop_step.hello)

lemma go: "reaches start step m \<Longrightarrow> step m l n' \<Longrightarrow> n' = n \<Longrightarrow> reaches start step n"
  using reaches.next_step by metis

lemma rich_reached: "reaches shop_start (shop_step fc) (shop_at stage_rich None)"
proof -
  define m0 where "m0 = \<lparr>st = new_store \<lparr>card_number = ''6037'', card_holder = ''X'', support = []\<rparr>, flight = None,
    credited = {}, granted = (\<lambda>_. 0 :: int)\<rparr>"
  define m1 where "m1 = m0\<lparr>st := ensure_user 0 7 ''ali'' ''Ali'' (st m0)\<rparr>"
  define m2 where "m2 = m1\<lparr>st := put_gift 1 99 ''GIFT'' 500000 1 0 (st m1)\<rparr>"
  have "reaches shop_start (shop_step fc) m0"
    by (rule reaches.init) (auto simp: shop_start_def m0_def)
  then have m1: "reaches shop_start (shop_step fc) m1" unfolding m1_def by (rule hello_next)
  have m2: "reaches shop_start (shop_step fc) m2" unfolding m2_def by (rule go[OF m1 shop_step.gift_made refl])
  have "st m2 = stage_gift" unfolding m2_def m1_def m0_def by (simp only: shop.simps stage_gift_eq)
  then have "redeem_gift 2 7 ''gift'' (st m2) = (Inr 500000, stage_rich)" by (simp only: stage_rich_eq)
  from shop_step.gift_taken[OF this]
  show ?thesis by (rule go[OF m2]) (simp add: shop_at_def m2_def m1_def m0_def)
qed

lemma order_reached: "reaches shop_start (shop_step fc) (shop_at stage_order None)"
proof -
  have "map_of (promos stage_rich) ''OFF'' = None" by (simp add: stage_rich_def shop_with_def)
  then have "shop_step fc (shop_at stage_rich None) Promo_Made (shop_at stage_code None)"
    using shop_step.promo_made[of fc "shop_at stage_rich None" "''OFF''" 2 99 Percent 10 1 0]
    by (simp only: stage_code_eq shop_at_simps simp_thms)
  from go[OF rich_reached this refl] have code: "reaches shop_start (shop_step fc) (shop_at stage_code None)" .
  have "shop_step fc (shop_at stage_code None) Ordered (shop_at stage_new None)"
    using shop_step.ordered[of fc "shop_at stage_code None" 3 "[''ab'']" 7 Kind_New "Some ECONOMIC" None None]
    by (simp only: stage_new_eq shop_at_simps)
  from go[OF code this refl] have new: "reaches shop_start (shop_step fc) (shop_at stage_new None)" .
  have "shop_step fc (shop_at stage_new None) Discounted (shop_at stage_order None)"
    using shop_step.discounted[of fc "shop_at stage_new None" 3 "''OAB''" 7 "''off''"]
    by (simp only: stage_order_eq shop_at_simps)
  from go[OF new this refl] show ?thesis .
qed

lemma begin_next: "reaches start (shop_step fc) (shop_at s None) \<Longrightarrow> finish_begin now oid reviewer src s = (None, t) \<Longrightarrow>
   reaches start (shop_step fc) (shop_at t (Some (oid, src)))"
  using shop_step.begun[of "shop_at s None" now oid reviewer src t fc] reaches.next_step by fastforce

lemma commit_next: "reaches start (shop_step fc) (shop_at s (Some (oid, src))) \<Longrightarrow> map_of (orders s) oid = Some x \<Longrightarrow>
   o_kind x \<noteq> Kind_Wallet \<Longrightarrow> reaches start (shop_step fc) (shop_at (finish_commit now oid service s) None)"
  using shop_step.committed[of "shop_at s (Some (oid, src))" oid src x fc now service] reaches.next_step by fastforce

lemma begun_orders: "map_of (orders stage_begun) ''OAB'' = Some order_paid" "o_kind order_paid = Kind_New"
  by code_simp+

lemma trying_orders: "map_of (orders stage_trying) ''OCD'' = Some trial_begun" "o_kind trial_begun = Kind_New"
  by code_simp+

lemmas begun_reached = begin_next[OF order_reached stage_begun_eq]

lemma done_reached: "reaches shop_start (shop_step fc) (shop_at stage_done None)"
proof -
  have "reaches shop_start (shop_step fc) (shop_at stage_served None)"
    using commit_next[OF begun_reached begun_orders(1), of fc 5 "Some ''u1''"] by (simp add: stage_served_eq begun_orders)
  moreover have "shop_step fc (shop_at stage_served None) Ordered (shop_at stage_trial None)"
    using shop_step.ordered[of fc "shop_at stage_served None" 6 "[''cd'']" 7 Kind_New "Some TRIAL" None None]
    by (simp only: stage_trial_eq shop_at_simps)
  ultimately have "reaches shop_start (shop_step fc) (shop_at stage_trial None)" by (rule go) (rule refl)
  from commit_next[OF begin_next[OF this stage_trying_eq] trying_orders(1), of 8 "Some ''u2''"]
  show ?thesis by (simp add: stage_done_eq trying_orders)
qed

lemma done_orders: "map_of (orders stage_done) ''OAB'' = Some order_approved" "map_of (orders stage_done) ''OCD'' = Some trial_approved"
  "o_status order_approved = Approved" "approved_trial 7 trial_approved"
  by code_simp+

section \<open>Witnesses\<close>

lemma wallet_ledger_witness: "balance stage_done 7 = granted (shop_at stage_done None) 7 + wallet_flow {} 7 (orders stage_done)
    \<and> balance stage_done 7 = 428000"
proof -
  have "balance stage_done 7 = 428000" by code_simp
  then show ?thesis using wallet_ledger[OF done_reached[of True], where uid = 7] by simp
qed

lemma trial_once_witness: "\<exists>u. map_of (users stage_done) 7 = Some u \<and> u_trial u \<noteq> None"
  using trial_once[OF done_reached[of True], where i = "''OCD''" and x = trial_approved and uid = 7
    and j = "''OCD''" and y = trial_approved] done_orders by simp

lemma settled_order_final_witness:
  "map_of (orders (ensure_user 9 8 ''sara'' [] stage_done)) ''OAB'' = Some order_approved"
proof -
  have "reaches (\<lambda>s. s = shop_at stage_done None) (shop_step True) (shop_at (ensure_user 9 8 ''sara'' [] stage_done) None)"
    using hello_next[OF reaches_self[of "shop_at stage_done None"], where fc = True and now = 9 and uid = 8
      and name = "''sara''" and first = "[]"] by simp
  from settled_order_final[OF done_reached _ _ this, of "''OAB''" order_approved] done_orders show ?thesis by simp
qed

lemma promo_limit_witness: "card (holders (orders stage_begun) ''OFF'') = 1"
proof -
  have d: "map_of (promos stage_begun) ''OFF'' = Some (snd (hd (off_code [''OAB''])))" "d_uses (snd (hd (off_code [''OAB'']))) = 1"
    by code_simp+
  show ?thesis using promo_limit[OF begun_reached, of "''OFF''"] d by simp
qed

lemma payable_bounds_witness: "(72000::int) + 8000 = 80000"
proof -
  have "calculate_payable 80000 (Some (snd (hd (off_code [])))) = (72000, 8000)" by code_simp
  from payable_bounds[OF this] show ?thesis by simp
qed

lemma interrupted_order_stuck_witness: "o_status order_paid = Processing \<and> moved {} order_paid = - o_amount order_paid"
  using interrupted_order_stuck[OF begun_reached[of True], where oid = "''OAB''" and x = order_paid
    and m' = "shop_at stage_begun None"] begun_orders reaches_self[of "shop_at stage_begun None" "shop_step True"] by simp

end
