(* ===== verification/Net_Address.thy ===== *)
theory Net_Address
  imports Py_Text
begin

text \<open>
  What the program uses of Python's \<open>ipaddress\<close>: the parsers of \<open>IPv4Address\<close> and
  \<open>IPv6Address\<close> (leading zeros refused, one \<open>::\<close>, an embedded dotted IPv4 suffix, a scope
  after the percent sign), the compressed text of an address and its packed bytes. An IPv4
  address is its four octets, an IPv6 address its eight groups of sixteen bits. The two
  printers are shown to be inverted by the parser, which is what makes the canonical form of
  an address stable.
\<close>

datatype ip =
    V4 "nat list"
  | V6 "nat list" "string option"

section \<open>IPv4\<close>

definition parse_octet :: "string \<Rightarrow> nat option" where
  "parse_octet s =
     (if s = [] \<or> \<not> list_all is_decimal s \<or> length s > 3 then None
      else if s \<noteq> ''0'' \<and> hd s = CHR ''0'' then None
      else if digits_val s > 255 then None else Some (digits_val s))"

fun all_some :: "'a option list \<Rightarrow> 'a list option" where
  "all_some [] = Some []"
| "all_some (None # xs) = None"
| "all_some (Some x # xs) = map_option (Cons x) (all_some xs)"

definition parse_ipv4 :: "string \<Rightarrow> nat list option" where
  "parse_ipv4 s = (let parts = split_char CHR ''.'' s in
     if length parts \<noteq> 4 then None else all_some (map parse_octet parts))"

definition show_ipv4 :: "nat list \<Rightarrow> string" where
  "show_ipv4 os = join ''.'' (map show_nat os)"

section \<open>IPv6\<close>

definition hex_char :: "nat \<Rightarrow> char" where
  "hex_char d = (if d < 10 then char_of (48 + d) else char_of (87 + d))"

definition is_hex :: "char \<Rightarrow> bool" where
  "is_hex c \<longleftrightarrow> (let n = ord c in 48 \<le> n \<and> n \<le> 57 \<or> 65 \<le> n \<and> n \<le> 70 \<or> 97 \<le> n \<and> n \<le> 102)"

definition hex_val :: "char \<Rightarrow> nat" where
  "hex_val c = (let n = ord c in if n \<le> 57 then n - 48 else if n \<le> 70 then n - 55 else n - 87)"

fun show_hex :: "nat \<Rightarrow> string" where
  "show_hex n = (if n < 16 then [hex_char n] else show_hex (n div 16) @ [hex_char (n mod 16)])"

declare show_hex.simps [simp del]

definition parse_hex :: "string \<Rightarrow> nat" where
  "parse_hex s = foldl (\<lambda>n c. 16 * n + hex_val c) 0 s"

definition parse_hextet :: "string \<Rightarrow> nat option" where
  "parse_hextet s = (if s = [] \<or> \<not> list_all is_hex s \<or> length s > 4 then None else Some (parse_hex s))"

text \<open>The parts between the colons, a dotted last part turned into two groups.\<close>

definition v6_parts :: "string \<Rightarrow> string list option" where
  "v6_parts s = (let parts = split_char CHR '':'' s in
     if length parts < 3 then None
     else if CHR ''.'' \<in> set (last parts) then
       (case parse_ipv4 (last parts) of
          None \<Rightarrow> None
        | Some os \<Rightarrow> Some (butlast parts @
            [show_hex (256 * os ! 0 + os ! 1), show_hex (256 * os ! 2 + os ! 3)]))
     else Some parts)"

definition v6_groups :: "string list \<Rightarrow> nat list option" where
  "v6_groups parts =
     (if length parts > 9 then None
      else (case filter (\<lambda>i. parts ! i = []) [1..<length parts - 1] of
         [] \<Rightarrow> (if length parts \<noteq> 8 then None else all_some (map parse_hextet parts))
       | [i] \<Rightarrow>
          (let hi = (if hd parts = [] then i - 1 else i);
               lo = (if last parts = [] then length parts - i - 2 else length parts - i - 1) in
           if hd parts = [] \<and> hi \<noteq> 0 \<or> last parts = [] \<and> lo \<noteq> 0 then None
           else if hi + lo > 7 then None
           else (case (all_some (map parse_hextet (take hi parts)),
                       all_some (map parse_hextet (drop (length parts - lo) parts))) of
                   (Some h, Some l) \<Rightarrow> Some (h @ replicate (8 - (hi + lo)) 0 @ l)
                 | _ \<Rightarrow> None))
       | _ \<Rightarrow> None))"

definition parse_ipv6 :: "string \<Rightarrow> ip option" where
  "parse_ipv6 s =
     (if CHR ''/'' \<in> set s then None
      else (let addr = before CHR ''%'' s; scope = after CHR ''%'' s in
        if CHR ''%'' \<in> set s \<and> (scope = [] \<or> CHR ''%'' \<in> set scope) then None
        else (case v6_parts addr of
                None \<Rightarrow> None
              | Some parts \<Rightarrow> map_option (\<lambda>g. V6 g (if CHR ''%'' \<in> set s then Some scope else None))
                                (v6_groups parts))))"

text \<open>\<open>_compress_hextets\<close>: the first longest run of zero groups, when longer than one.\<close>

fun best_run :: "nat \<Rightarrow> nat \<Rightarrow> nat \<times> nat \<Rightarrow> nat list \<Rightarrow> nat \<times> nat" where
  "best_run i len best [] = best"
| "best_run i len best (g # gs) =
     (if g = 0 then best_run (i + 1) (len + 1)
          (if len + 1 > snd best then (i - len, len + 1) else best) gs
      else best_run (i + 1) 0 best gs)"

definition compress_groups :: "nat list \<Rightarrow> string list" where
  "compress_groups gs = (let (s, n) = best_run 0 0 (0, 0) gs; t = map show_hex gs in
     if n > 1 then
       (if s = 0 then [[]] else take s t) @ [[]] @ (if s + n = length gs then [[]] else drop (s + n) t)
     else t)"

definition v4_mapped :: "nat list \<Rightarrow> bool" where
  "v4_mapped gs \<longleftrightarrow> take 6 gs = [0, 0, 0, 0, 0, 65535]"

definition show_groups :: "nat list \<Rightarrow> string" where
  "show_groups gs =
     (if v4_mapped gs
      then ''::ffff:'' @ show_ipv4 [gs ! 6 div 256, gs ! 6 mod 256, gs ! 7 div 256, gs ! 7 mod 256]
      else join '':'' (compress_groups gs))"

section \<open>Addresses\<close>

text \<open>\<open>ipaddress.ip_address(text)\<close>; \<open>None\<close> is its ValueError.\<close>

definition ip_address :: "string \<Rightarrow> ip option" where
  "ip_address s = (case (if CHR ''/'' \<in> set s then None else parse_ipv4 s) of
     Some os \<Rightarrow> Some (V4 os) | None \<Rightarrow> parse_ipv6 s)"

fun compressed :: "ip \<Rightarrow> string" where
  "compressed (V4 os) = show_ipv4 os"
| "compressed (V6 gs None) = show_groups gs"
| "compressed (V6 gs (Some z)) = show_groups gs @ ''%'' @ z"

fun packed :: "ip \<Rightarrow> nat list" where
  "packed (V4 os) = os"
| "packed (V6 gs z) = concat (map (\<lambda>g. [g div 256, g mod 256]) gs)"

fun is_v6 :: "ip \<Rightarrow> bool" where
  "is_v6 (V4 os) = False"
| "is_v6 (V6 gs z) = True"

fun ip_ok :: "ip \<Rightarrow> bool" where
  "ip_ok (V4 os) = (length os = 4 \<and> list_all (\<lambda>n. n < 256) os)"
| "ip_ok (V6 gs z) = (length gs = 8 \<and> list_all (\<lambda>n. n < 65536) gs)"

section \<open>Well-formedness\<close>

lemma all_some_Some: "all_some xs = Some ys \<longleftrightarrow> xs = map Some ys"
  by (induction xs arbitrary: ys rule: all_some.induct) auto

lemma all_some_map_Some [simp]: "all_some (map Some ys) = Some ys"
  by (simp add: all_some_Some)

lemma all_some_length: "all_some xs = Some ys \<Longrightarrow> length ys = length xs"
  by (auto simp: all_some_Some)

lemma parse_octet_bound: "parse_octet s = Some n \<Longrightarrow> n < 256"
  by (auto simp: parse_octet_def split: if_splits)

lemma parse_ipv4_ok:
  assumes "parse_ipv4 s = Some os"
  shows "length os = 4 \<and> list_all (\<lambda>n. n < 256) os"
proof -
  from assms have a: "all_some (map parse_octet (split_char CHR ''.'' s)) = Some os"
    and l: "length (split_char CHR ''.'' s) = 4"
    by (auto simp: parse_ipv4_def Let_def split: if_splits)
  have eq: "map parse_octet (split_char CHR ''.'' s) = map Some os" using a by (simp add: all_some_Some)
  have "n < 256" if "n \<in> set os" for n
  proof -
    from that eq have "Some n \<in> set (map parse_octet (split_char CHR ''.'' s))" by simp
    then show ?thesis using parse_octet_bound by fastforce
  qed
  moreover have "length os = 4" using arg_cong [OF eq, of length] l by simp
  ultimately show ?thesis by (simp add: list_all_iff)
qed

lemma hex_val_bound: "is_hex c \<Longrightarrow> hex_val c < 16"
  by (auto simp: is_hex_def hex_val_def Let_def)

lemma parse_hex_bound: "list_all is_hex s \<Longrightarrow> parse_hex s < 16 ^ length s"
proof (induction s rule: rev_induct)
  case (snoc c s)
  then have "parse_hex s + 1 \<le> 16 ^ length s" "hex_val c < 16" by (auto simp: hex_val_bound)
  then have "16 * (parse_hex s + 1) \<le> 16 * 16 ^ length s" by (intro mult_le_mono2)
  with \<open>hex_val c < 16\<close> show ?case by (simp add: parse_hex_def)
qed (simp add: parse_hex_def)

lemma parse_hextet_bound: "parse_hextet s = Some n \<Longrightarrow> n < 65536"
proof -
  assume a: "parse_hextet s = Some n"
  then have "parse_hex s < 16 ^ length s" "length s \<le> 4" "n = parse_hex s"
    by (auto simp: parse_hextet_def parse_hex_bound split: if_splits)
  then have "n < 16 ^ 4" using power_increasing [of "length s" 4 "16::nat"] by linarith
  then show ?thesis by simp
qed

lemma all_some_hextets: "all_some (map parse_hextet xs) = Some gs \<Longrightarrow>
   length gs = length xs \<and> list_all (\<lambda>n. n < 65536) gs"
proof (induction xs arbitrary: gs)
  case (Cons x xs)
  then show ?case by (cases "parse_hextet x") (auto dest: parse_hextet_bound)
qed simp

lemma v6_groups_ok:
  assumes "v6_groups parts = Some gs"
  shows "length gs = 8 \<and> list_all (\<lambda>n. n < 65536) gs"
proof -
  have "i < length parts" if "filter (\<lambda>i. parts ! i = []) [1..<length parts - 1] = [i]" for i
  proof -
    from that have "i \<in> set (filter (\<lambda>i. parts ! i = []) [1..<length parts - 1])" by simp
    then show ?thesis by auto
  qed
  with assms show ?thesis
    by (auto simp: v6_groups_def Let_def list_all_iff split: if_splits list.splits option.splits
        dest!: all_some_hextets)
qed

lemma parse_ipv6_ok: "parse_ipv6 s = Some a \<Longrightarrow> ip_ok a \<and> is_v6 a"
  by (auto simp: parse_ipv6_def Let_def split: if_splits option.splits dest!: v6_groups_ok)

text \<open>Every address the parser returns has the octets or groups of its version.\<close>

lemma ip_address_ok: "ip_address s = Some a \<Longrightarrow> ip_ok a"
  by (auto simp: ip_address_def split: if_splits option.splits dest: parse_ipv4_ok parse_ipv6_ok)

section \<open>Printing is inverted by parsing\<close>

lemma split_char_join:
  assumes "ws \<noteq> []" "\<And>w. w \<in> set ws \<Longrightarrow> c \<notin> set w"
  shows "split_char c (join [c] ws) = ws"
  using assms
proof (induction "[c]" ws rule: join.induct)
  case (2 w)
  have "c \<notin> set v \<Longrightarrow> split_char c v = [v]" for v by (induction v) auto
  with 2 show ?case by simp
next
  case (3 w v ws)
  have "c \<notin> set w \<Longrightarrow> split_char c (w @ [c] @ r) = w # split_char c r" for w r
    by (induction w) auto
  with 3 show ?case by simp
qed simp

lemma length_show_nat: "n < 10 ^ Suc k \<Longrightarrow> length (show_nat n) \<le> Suc k"
proof (induction k arbitrary: n)
  case (Suc k)
  then have "n div 10 < 10 ^ Suc k" by (simp add: less_mult_imp_div_less)
  with Suc show ?case by (subst show_nat.simps) simp
qed (subst show_nat.simps, simp)

lemma show_nat_lead: "0 < n \<Longrightarrow> hd (show_nat n) \<noteq> CHR ''0''"
proof (induction n rule: show_nat.induct)
  case (1 n)
  have "digit_char n \<noteq> CHR ''0''" if "n < 10"
  proof
    assume "digit_char n = CHR ''0''"
    then have "ord (digit_char n) = ord CHR ''0''" by simp
    with that 1 show False by simp
  qed
  with 1 show ?case by (subst show_nat.simps) (auto simp: hd_append)
qed

lemma show_nat_0: "show_nat 0 = ''0''"
  by (subst show_nat.simps) code_simp

lemma parse_octet_show [simp]:
  assumes "n < 256"
  shows "parse_octet (show_nat n) = Some n"
proof -
  have "list_all is_decimal (show_nat n)" by (auto simp: list_all_iff dest: show_nat_decimal)
  moreover have "length (show_nat n) \<le> 3" using assms length_show_nat [of n 2] by simp
  moreover have "show_nat n = ''0'' \<or> hd (show_nat n) \<noteq> CHR ''0''"
    using show_nat_lead [of n] show_nat_0 by (cases "n = 0") auto
  ultimately show ?thesis using assms by (auto simp: parse_octet_def digits_val_show_nat)
qed

lemma show_nat_no_char: "\<not> is_decimal c \<Longrightarrow> c \<notin> set (show_nat n)"
  using show_nat_decimal by blast

lemma parse_ipv4_show:
  assumes "length os = 4" "list_all (\<lambda>n. n < 256) os"
  shows "parse_ipv4 (show_ipv4 os) = Some os"
proof -
  have "split_char CHR ''.'' (show_ipv4 os) = map show_nat os"
    unfolding show_ipv4_def
    using assms by (intro split_char_join) (auto simp: show_nat_no_char is_decimal_def)
  moreover have "map (parse_octet \<circ> show_nat) os = map Some os"
    using assms by (auto simp: list_all_iff)
  then have "all_some (map (parse_octet \<circ> show_nat) os) = Some os" by (simp only: all_some_map_Some)
  ultimately show ?thesis using assms by (simp add: parse_ipv4_def)
qed

lemma join_chars: "set (join sep ws) \<subseteq> set sep \<union> \<Union> (set (map set ws))"
  by (induction sep ws rule: join.induct) auto

lemma show_ipv4_chars: "c \<in> set (show_ipv4 os) \<Longrightarrow> is_decimal c \<or> c = CHR ''.''"
  using join_chars [of "''.''" "map show_nat os"]
  by (auto simp: show_ipv4_def dest: show_nat_decimal)

lemma ord_hex_char: "d < 16 \<Longrightarrow> ord (hex_char d) = (if d < 10 then 48 + d else 87 + d)"
  by (simp add: hex_char_def)

lemma show_hex_chars: "c \<in> set (show_hex n) \<Longrightarrow> \<exists>d < 16. c = hex_char d"
proof (induction n rule: show_hex.induct)
  case (1 n)
  have "n mod 16 < 16" by simp
  with 1 show ?case by (subst (asm) (2) show_hex.simps) (auto split: if_splits intro: exI [of _ "n mod 16"])
qed

lemma hex_char_hex: "d < 16 \<Longrightarrow> is_hex (hex_char d) \<and> hex_val (hex_char d) = d"
  by (auto simp: is_hex_def hex_val_def ord_hex_char)

lemma show_hex_not_Nil [simp]: "show_hex n \<noteq> []"
  by (subst show_hex.simps) simp

lemma parse_hex_show: "parse_hex (show_hex n) = n"
proof -
  have "foldl (\<lambda>n c. 16 * n + hex_val c) 0 (show_hex n) = n"
  proof (induction n rule: show_hex.induct)
    case (1 n)
    then show ?case by (subst show_hex.simps) (auto simp: hex_char_hex)
  qed
  then show ?thesis by (simp add: parse_hex_def)
qed

lemma length_show_hex: "n < 16 ^ Suc k \<Longrightarrow> length (show_hex n) \<le> Suc k"
proof (induction k arbitrary: n)
  case (Suc k)
  then have "n div 16 < 16 ^ Suc k" by (simp add: less_mult_imp_div_less)
  with Suc show ?case by (subst show_hex.simps) simp
qed (subst show_hex.simps, simp)

lemma parse_hextet_show [simp]: "n < 65536 \<Longrightarrow> parse_hextet (show_hex n) = Some n"
  using length_show_hex [of n 3]
  by (auto simp: parse_hextet_def parse_hex_show list_all_iff hex_char_hex dest!: show_hex_chars)

lemma map_parse_hextet_show: "list_all (\<lambda>n. n < 65536) gs \<Longrightarrow>
   all_some (map parse_hextet (map show_hex gs)) = Some gs"
  by (induction gs) auto

text \<open>The run that is compressed really is a run of zero groups.\<close>

definition zero_run :: "nat list \<Rightarrow> nat \<times> nat \<Rightarrow> bool" where
  "zero_run gs r \<longleftrightarrow> fst r + snd r \<le> length gs \<and> take (snd r) (drop (fst r) gs) = replicate (snd r) 0"

lemma best_run_zero:
  assumes "length pre = i" "len \<le> i" "drop (i - len) pre = replicate len 0" "zero_run pre best"
  shows "zero_run (pre @ gs) (best_run i len best gs)"
  using assms
proof (induction gs arbitrary: pre i len best)
  case (Cons g gs)
  have keep: "zero_run (pre @ [g]) best" using Cons.prems(4) by (auto simp: zero_run_def)
  show ?case
  proof (cases "g = 0")
    case True
    have z: "drop (i - len) (pre @ [g]) = replicate (len + 1) 0"
      using Cons.prems True by (simp add: replicate_append_same)
    moreover from z have "zero_run (pre @ [g]) (i - len, len + 1)"
      using Cons.prems by (simp add: zero_run_def)
    ultimately show ?thesis
      using Cons.IH [of "pre @ [g]" "i + 1" "len + 1"] Cons.prems True keep by simp
  next
    case False
    then show ?thesis using Cons.IH [of "pre @ [g]" "i + 1" 0 best] Cons.prems keep by simp
  qed
qed simp

lemma best_run_split:
  assumes "best_run 0 0 (0, 0) gs = (s, n)"
  shows "s + n \<le> length gs \<and> gs = take s gs @ replicate n 0 @ drop (s + n) gs"
proof -
  have z: "zero_run gs (s, n)" using best_run_zero [of "[]" 0 0 "(0, 0)" gs] assms by (simp add: zero_run_def)
  have "gs = take s gs @ take n (drop s gs) @ drop (s + n) gs"
    by (metis append_take_drop_id drop_drop add.commute)
  with z show ?thesis by (auto simp: zero_run_def)
qed

lemma join_nil_ends: "join '':'' ([[]] @ [[]] @ [[]]) = ''::''"
  by simp

lemma show_hex_no_char: "(\<And>d. d < 16 \<Longrightarrow> c \<noteq> hex_char d) \<Longrightarrow> c \<notin> set (show_hex n)"
  by (auto dest: show_hex_chars)

lemma not_hex: "\<not> is_hex c \<Longrightarrow> c \<notin> set (show_hex n)"
  using hex_char_hex by (auto dest!: show_hex_chars)

lemma compress_parts:
  assumes "length gs = 8"
  obtains (plain) "compress_groups gs = map show_hex gs"
  | (run) s n where "n > 1" "s + n \<le> 8" "gs = take s gs @ replicate n 0 @ drop (s + n) gs"
      "compress_groups gs = (if s = 0 then [[]] else map show_hex (take s gs)) @ [[]] @
         (if s + n = 8 then [[]] else map show_hex (drop (s + n) gs))"
proof (cases "best_run 0 0 (0, 0) gs")
  case (Pair s n)
  show ?thesis
  proof (cases "n > 1")
    case True
    with Pair best_run_split [OF Pair] assms show ?thesis
      by (intro run [of n s]) (auto simp: compress_groups_def take_map drop_map)
  next
    case False
    with Pair show ?thesis by (intro plain) (simp add: compress_groups_def)
  qed
qed

lemma v6_groups_plain:
  assumes "length gs = 8" "list_all (\<lambda>n. n < 65536) gs"
  shows "v6_groups (map show_hex gs) = Some gs"
proof -
  have "filter (\<lambda>i. map show_hex gs ! i = []) [1..<length (map show_hex gs) - 1] = []"
    using assms by (auto simp: filter_empty_conv)
  then show ?thesis using assms by (simp add: v6_groups_def map_parse_hextet_show del: map_map)
qed

text \<open>A list of parts with one empty part inside parses to the groups around the gap.\<close>

lemma filter_single:
  assumes "a \<le> i" "i < b" "\<And>j. a \<le> j \<Longrightarrow> j < b \<Longrightarrow> P j \<longleftrightarrow> j = i"
  shows "filter P [a..<b] = [i]"
proof -
  have "[a..<b] = [a..<i] @ i # [Suc i..<b]"
    using assms(1, 2) upt_add_eq_append [of a i "b - i"] upt_conv_Cons [of i b] by simp
  moreover have "filter P [a..<i] = []" "filter P [Suc i..<b] = []" "P i"
    using assms by (auto simp: filter_empty_conv)
  ultimately show ?thesis by simp
qed

lemma v6_groups_run:
  assumes "list_all (\<lambda>n. n < 65536) h" "list_all (\<lambda>n. n < 65536) l" "length h + length l \<le> 7"
  shows "v6_groups ((if h = [] then [[]] else map show_hex h) @ [[]] @
           (if l = [] then [[]] else map show_hex l)) = Some (h @ replicate (8 - (length h + length l)) 0 @ l)"
    (is "v6_groups (?H @ [[]] @ ?L) = _")
proof -
  let ?p = "?H @ [[]] @ ?L"
  have H: "?H ! j \<noteq> []" if "1 \<le> j" "j < length ?H" for j
    using that by (cases "h = []") auto
  have L: "?L ! j \<noteq> []" if "j + 1 < length ?L" for j
    using that by (cases "l = []") auto
  have H1: "1 \<le> length ?H" by (cases h) auto
  have L1: "1 \<le> length ?L" by (cases l) auto
  have f: "filter (\<lambda>i. ?p ! i = []) [1..<length ?p - 1] = [length ?H]"
  proof (rule filter_single)
    fix j assume j: "1 \<le> j" "j < length ?p - 1"
    show "?p ! j = [] \<longleftrightarrow> j = length ?H"
      using H [OF j(1)] L [of "j - length ?H - 1"] j
      by (cases j "length ?H" rule: linorder_cases) (auto simp del: length_map nth_map simp: nth_append nth_Cons')
  next
    show "1 \<le> length ?H" by (rule H1)
    show "length ?H < length ?p - 1" using H1 L1 unfolding length_append by simp
  qed
  have hd: "hd ?p = [] \<longleftrightarrow> h = []" by (cases h) auto
  have la: "last ?p = [] \<longleftrightarrow> l = []" by (cases l rule: rev_cases) auto
  have hi: "(if hd ?p = [] then length ?H - 1 else length ?H) = length h"
    using hd by auto
  have lo: "(if last ?p = [] then length ?p - length ?H - 2 else length ?p - length ?H - 1) = length l"
    using la by auto
  have tk: "take (length h) ?p = map show_hex h" by (cases "h = []") auto
  have dr: "drop (length ?p - length l) ?p = map show_hex l" by (cases "l = []") auto
  have len: "length ?p \<le> 9" using assms(3) by (cases h; cases l) auto
  show ?thesis
    unfolding v6_groups_def f list.case Let_def hi lo tk dr
    using assms len hd la by (simp add: map_parse_hextet_show del: map_map length_append)
qed

lemma parse_ipv4_chars:
  assumes "parse_ipv4 s = Some os" "c \<in> set s"
  shows "is_decimal c \<or> c = CHR ''.''"
proof -
  let ?ws = "split_char CHR ''.'' s"
  have eq: "map parse_octet ?ws = map Some os"
    using assms by (auto simp: parse_ipv4_def Let_def all_some_Some split: if_splits)
  have dec: "list_all is_decimal w" if "w \<in> set ?ws" for w
  proof -
    from that eq obtain n where "parse_octet w = Some n"
      by (metis imageE imageI list.set_map)
    then show ?thesis by (auto simp: parse_octet_def split: if_splits)
  qed
  have "c \<in> set (join ''.'' ?ws)" using assms by (simp add: join_split_char)
  then consider "c = CHR ''.''" | w where "w \<in> set ?ws" "c \<in> set w"
    using join_chars [of "''.''" ?ws] by auto
  then show ?thesis using dec by cases (auto simp: list_all_iff)
qed

lemma parse_ipv4_colon: "CHR '':'' \<in> set s \<Longrightarrow> parse_ipv4 s = None"
  using parse_ipv4_chars [of s _ "CHR '':''"] by (cases "parse_ipv4 s") (auto simp: is_decimal_def)

lemma parse_ipv6_parts:
  assumes "split_char CHR '':'' s = parts" "CHR ''/'' \<notin> set s" "CHR ''%'' \<notin> set s"
    "v6_parts s = Some ps" "v6_groups ps = Some gs"
  shows "parse_ipv6 s = Some (V6 gs None)"
proof -
  have "before CHR ''%'' s = s" using assms(3) by (simp add: before_def takeWhile_eq_all_conv) blast
  then show ?thesis using assms by (simp add: parse_ipv6_def)
qed

lemma not_hex_punct: "\<not> is_hex CHR '':''" "\<not> is_hex CHR ''/''" "\<not> is_hex CHR ''%''" "\<not> is_hex CHR ''.''"
  by (simp_all add: is_hex_def)

lemma not_decimal_punct: "\<not> is_decimal CHR '':''" "\<not> is_decimal CHR ''/''" "\<not> is_decimal CHR ''%''"
  by (simp_all add: is_decimal_def)

lemma compress_chars: "w \<in> set (compress_groups gs) \<Longrightarrow> \<forall>c \<in> set w. is_hex c"
proof -
  assume "w \<in> set (compress_groups gs)"
  then have "w = [] \<or> (\<exists>n. w = show_hex n)"
    by (auto simp: compress_groups_def Let_def take_map drop_map split: prod.splits if_splits)
  then show ?thesis by (auto dest!: show_hex_chars simp: hex_char_hex)
qed

lemma v6_groups_compress:
  assumes "length gs = 8" "list_all (\<lambda>n. n < 65536) gs"
  shows "v6_groups (compress_groups gs) = Some gs \<and> 3 \<le> length (compress_groups gs)"
  using assms(1)
proof (cases rule: compress_parts)
  case plain
  then show ?thesis using assms v6_groups_plain by simp
next
  case (run s n)
  define h where "h = take s gs"
  define l where "l = drop (s + n) gs"
  have hl: "length h = s" "length l = 8 - (s + n)" using assms run by (auto simp: h_def l_def)
  have bd: "list_all (\<lambda>n. n < 65536) h" "list_all (\<lambda>n. n < 65536) l"
    using assms by (auto simp: h_def l_def list_all_iff dest: in_set_takeD in_set_dropD)
  have c: "compress_groups gs = (if h = [] then [[]] else map show_hex h) @ [[]] @
      (if l = [] then [[]] else map show_hex l)"
    using run hl assms by (auto simp: h_def [symmetric] l_def [symmetric])
  have "8 - (length h + length l) = n" using hl run by simp
  then have "h @ replicate (8 - (length h + length l)) 0 @ l = gs" using run(3) by (simp add: h_def l_def)
  then have "v6_groups (compress_groups gs) = Some gs"
    using v6_groups_run [OF bd] hl run c by simp
  then show ?thesis unfolding c by (cases h; cases l) auto
qed

lemma five_zeros: "replicate 5 (0::nat) = [0, 0, 0, 0, 0]"
  by (simp add: numeral_eq_Suc)

lemma parse_ipv6_show:
  assumes "length gs = 8" "list_all (\<lambda>n. n < 65536) gs"
  shows "parse_ipv6 (show_groups gs) = Some (V6 gs None) \<and> CHR '':'' \<in> set (show_groups gs)"
proof (cases "v4_mapped gs")
  case False
  let ?ps = "compress_groups gs"
  have ne: "?ps \<noteq> []" "3 \<le> length ?ps" using v6_groups_compress [OF assms] by auto
  have sp: "split_char CHR '':'' (join '':'' ?ps) = ?ps"
    by (rule split_char_join) (use ne compress_chars [of _ gs] not_hex_punct in blast)+
  have no: "c \<notin> set (join '':'' ?ps)" if nc: "\<not> is_hex c" "c \<noteq> CHR '':''" for c
  proof
    assume "c \<in> set (join '':'' ?ps)"
    then obtain w where "w \<in> set ?ps" "c \<in> set w" using join_chars [of "'':''" ?ps] nc(2) by auto
    with compress_chars nc(1) show False by blast
  qed
  have "CHR ''.'' \<notin> set (last ?ps)" using compress_chars [of "last ?ps" gs] ne(1) not_hex_punct(4) by fastforce
  then have vp: "v6_parts (join '':'' ?ps) = Some ?ps" using ne sp by (simp add: v6_parts_def)
  have "CHR '':'' \<in> set (join '':'' ?ps)" 
  proof -
    obtain a b r where "?ps = a # b # r" using ne(2) by (cases ?ps; cases "tl ?ps") auto
    then show ?thesis by simp
  qed
  moreover have "parse_ipv6 (join '':'' ?ps) = Some (V6 gs None)"
    using parse_ipv6_parts [OF sp _ _ vp] v6_groups_compress [OF assms] no not_hex_punct by simp
  ultimately show ?thesis using False by (simp add: show_groups_def)
next
  case True
  have "length (drop 6 gs) = Suc (Suc 0)" using assms(1) by simp
  then obtain a b where "drop 6 gs = [a, b]" by (auto simp only: length_Suc_conv length_0_conv)
  then have gs: "gs = [0, 0, 0, 0, 0, 65535, a, b]"
    using True append_take_drop_id [of 6 gs] by (simp add: v4_mapped_def)
  let ?os = "[a div 256, a mod 256, b div 256, b mod 256]"
  let ?s = "show_groups gs"
  have ab: "a < 65536" "b < 65536" using assms gs by auto
  have s: "?s = join '':'' [[], [], ''ffff'', show_ipv4 ?os]" using True by (simp add: show_groups_def gs)
  have no: "c \<notin> set (show_ipv4 ?os)" if "\<not> is_decimal c" "c \<noteq> CHR ''.''" for c
    using show_ipv4_chars that by blast
  have sp: "split_char CHR '':'' ?s = [[], [], ''ffff'', show_ipv4 ?os]"
    unfolding s by (rule split_char_join) (auto simp: no is_decimal_def)
  have pv: "parse_ipv4 (show_ipv4 ?os) = Some ?os" using ab by (intro parse_ipv4_show) auto
  have dot: "CHR ''.'' \<in> set (show_ipv4 ?os)" by (simp add: show_ipv4_def)
  have ffff: "show_hex 65535 = ''ffff''"
  proof -
    have "hex_char 15 = CHR ''f''" by code_simp
    then show ?thesis by (simp add: show_hex.simps)
  qed
  have vp: "v6_parts ?s = Some [[], [], ''ffff'', show_hex a, show_hex b]"
    using sp pv dot by (simp add: v6_parts_def Let_def)
  have "v6_groups [[], [], ''ffff'', show_hex a, show_hex b] = Some gs"
    using v6_groups_run [of "[]" "[65535, a, b]"] ab by (simp add: ffff gs five_zeros)
  then show ?thesis
    using parse_ipv6_parts [OF sp _ _ vp] no by (simp add: s is_decimal_def)
qed

text \<open>\<open>ip_address\<close> reads back the compressed text of every address without a scope.\<close>

lemma ip_address_compressed:
  assumes "ip_ok a" "\<And>gs z. a \<noteq> V6 gs (Some z)"
  shows "ip_address (compressed a) = Some a"
proof (cases a)
  case (V4 os)
  then have "CHR ''/'' \<notin> set (show_ipv4 os)" using show_ipv4_chars [of "CHR ''/''"] not_decimal_punct by auto
  then show ?thesis using assms V4 parse_ipv4_show [of os] by (auto simp: ip_address_def)
next
  case (V6 gs z)
  with assms have z: "z = None" by (cases z) auto
  then show ?thesis using assms V6 parse_ipv6_show [of gs] parse_ipv4_colon
    by (auto simp: ip_address_def split: option.split)
qed

text \<open>The accepted dotted texts are canonical: printing what was parsed gives the text back.\<close>

lemma show_nat_snoc: "0 < n \<Longrightarrow> d < 10 \<Longrightarrow> show_nat (10 * n + d) = show_nat n @ [digit_char d]"
  by (subst show_nat.simps) simp

lemma digits_val_snoc: "c \<noteq> CHR ''_'' \<Longrightarrow> digits_val (s @ [c]) = 10 * digits_val s + digit_val c"
  by (simp add: digits_val_def)

lemma digit_char_val: "is_decimal c \<Longrightarrow> digit_char (digit_val c) = c \<and> digit_val c < 10"
  by (auto simp: is_decimal_def digit_char_def digit_val_def)

lemma digits_val_pos:
  "list_all is_decimal s \<Longrightarrow> s \<noteq> [] \<Longrightarrow> hd s \<noteq> CHR ''0'' \<Longrightarrow> 0 < digits_val s \<and> show_nat (digits_val s) = s"
proof (induction s rule: rev_induct)
  case (snoc c s)
  then have c: "is_decimal c" "c \<noteq> CHR ''_''" using is_decimal_ne by auto
  show ?case
  proof (cases "s = []")
    case True
    then have "digit_val c \<noteq> 0" using snoc digit_char_val [OF c(1)] show_nat_0
      by (metis append_Nil list.sel(1) show_nat.simps zero_less_numeral)
    then show ?thesis using True c digit_char_val [OF c(1)] digits_val_snoc [of c "[]"]
      by (simp add: digits_val_def) (subst show_nat.simps, simp)
  next
    case False
    then show ?thesis using snoc c digit_char_val [OF c(1)] by (simp add: digits_val_snoc show_nat_snoc)
  qed
qed simp

lemma parse_octet_canonical: "parse_octet s = Some n \<Longrightarrow> show_nat n = s"
proof -
  have "digits_val ''0'' = 0" by code_simp
  then show "parse_octet s = Some n \<Longrightarrow> ?thesis"
    using digits_val_pos [of s] show_nat_0 by (auto simp: parse_octet_def split: if_splits)
qed

lemma parse_ipv4_canonical:
  assumes "parse_ipv4 s = Some os"
  shows "show_ipv4 os = s"
proof -
  let ?ws = "split_char CHR ''.'' s"
  have eq: "map parse_octet ?ws = map Some os"
    using assms by (auto simp: parse_ipv4_def Let_def all_some_Some split: if_splits)
  have "map show_nat os = ws" if "map parse_octet ws = map Some os" for ws
    using that by (induction ws arbitrary: os) (auto dest: parse_octet_canonical)
  with eq show ?thesis using join_split_char by (simp add: show_ipv4_def)
qed

text \<open>The compressed text is short and made of hexadecimal digits, colons and dots.\<close>

definition ip_char :: "char \<Rightarrow> bool" where
  "ip_char c \<longleftrightarrow> is_hex c \<or> c = CHR '':'' \<or> c = CHR ''.''"

lemma decimal_hex: "is_decimal c \<Longrightarrow> is_hex c"
  by (simp add: is_decimal_def is_hex_def Let_def)

lemma show_ipv4_ip_char: "list_all ip_char (show_ipv4 os)"
proof -
  have "ip_char c" if "c \<in> set (show_ipv4 os)" for c
    using show_ipv4_chars [OF that] decimal_hex [of c] by (auto simp only: ip_char_def)
  then show ?thesis by (simp add: list_all_iff)
qed

lemma length_join: "(\<And>w. w \<in> set ws \<Longrightarrow> length w \<le> k) \<Longrightarrow> length (join [c] ws) \<le> length ws * (k + 1)"
proof (induction "[c]" ws rule: join.induct)
  case (3 w v ws)
  then have "length (join [c] (v # ws)) \<le> length (v # ws) * (k + 1)" "length w \<le> k" by auto
  then show ?case by simp
qed auto

lemma show_ipv4_length:
  assumes "length os = 4" "list_all (\<lambda>n. n < 256) os"
  shows "length (show_ipv4 os) \<le> 16"
proof -
  have "length (show_nat n) \<le> 3" if "n \<in> set os" for n
    using that assms length_show_nat [of n 2] by (auto simp: list_all_iff)
  then show ?thesis
    using length_join [of "map show_nat os" 3 "CHR ''.''"] assms by (auto simp: show_ipv4_def)
qed

lemma compress_length:
  assumes "length gs = 8" "list_all (\<lambda>n. n < 65536) gs"
  shows "length (compress_groups gs) \<le> 9 \<and> (\<forall>w \<in> set (compress_groups gs). length w \<le> 4)"
proof -
  have 4: "length (show_hex n) \<le> 4" if "n \<in> set gs" for n
    using that assms length_show_hex [of n 3] by (auto simp: list_all_iff)
  show ?thesis using assms(1)
  proof (cases rule: compress_parts)
    case plain then show ?thesis using 4 assms by auto
  next
    case (run s n)
    then show ?thesis using 4 assms by (auto dest: in_set_takeD in_set_dropD)
  qed
qed

lemma compressed_text:
  assumes "ip_ok a" "\<And>gs z. a \<noteq> V6 gs (Some z)"
  shows "length (compressed a) \<le> 50 \<and> compressed a \<noteq> [] \<and> list_all ip_char (compressed a)"
proof (cases a)
  case (V4 os)
  then have "show_ipv4 os \<noteq> []" using assms by (cases os; cases "tl os") (auto simp: show_ipv4_def)
  then show ?thesis using V4 assms show_ipv4_length [of os] show_ipv4_ip_char [of os] by simp
next
  case (V6 gs z)
  then have z: "z = None" and ok: "length gs = 8" "list_all (\<lambda>n. n < 65536) gs"
    using assms by (cases z, auto)
  have ne: "show_groups gs \<noteq> []" using parse_ipv6_show [OF ok] by auto
  let ?os = "[gs ! 6 div 256, gs ! 6 mod 256, gs ! 7 div 256, gs ! 7 mod 256]"
  have "gs ! 6 < 65536" "gs ! 7 < 65536" using ok by (auto simp: list_all_length)
  then have os: "length (show_ipv4 ?os) \<le> 16"
    by (intro show_ipv4_length) (auto simp: less_mult_imp_div_less)
  have cj: "length (join '':'' (compress_groups gs)) \<le> 45"
  proof -
    have "length (join '':'' (compress_groups gs)) \<le> length (compress_groups gs) * (4 + 1)"
      using compress_length [OF ok] by (intro length_join) auto
    also have "\<dots> \<le> 45" using compress_length [OF ok] by simp
    finally show ?thesis .
  qed
  have cc: "list_all ip_char (join '':'' (compress_groups gs))"
  proof -
    have "ip_char c" if c: "c \<in> set (join '':'' (compress_groups gs))" for c
    proof -
      have "c = CHR '':'' \<or> (\<exists>w \<in> set (compress_groups gs). c \<in> set w)"
        using join_chars [of "'':''" "compress_groups gs"] c by auto
      then show ?thesis using compress_chars [of _ gs] by (auto simp only: ip_char_def)
    qed
    then show ?thesis by (simp add: list_all_iff)
  qed
  have "list_all ip_char (show_ipv4 ?os)" by (rule show_ipv4_ip_char)
  moreover have "list_all ip_char ''::ffff:''" by code_simp
  ultimately show ?thesis using V6 z ne os cj cc by (auto simp: show_groups_def)
qed

end
