(* ===== verification/Config_Address.thy ===== *)
theory Config_Address
  imports Net_Address
begin

text \<open>
  \<open>config_address.py\<close>: the address and the TLS name of a configuration link. The codec
  \<open>idna\<close> is Python's own on ASCII names; on other names it is the parameter \<open>idna\<close>, the
  nameprep and punycode tables not being modelled.
\<close>

datatype addr_error =
    Addr_Empty | Addr_Length_Or_Space | Addr_Not_Bare | Addr_Zone | Addr_Bad_IPv4
  | Addr_Bad_Domain | Sni_Is_Ip

datatype addr_kind = Kind_IPv4 | Kind_IPv6 | Kind_Domain

section \<open>Normalisation\<close>

definition is_ascii :: "string \<Rightarrow> bool" where
  "is_ascii s \<longleftrightarrow> list_all (\<lambda>c. ord c < 128) s"

definition idna_encode :: "(string \<Rightarrow> string option) \<Rightarrow> string \<Rightarrow> string option" where
  "idna_encode idna s =
     (if \<not> is_ascii s then idna s
      else if s = [] then Some []
      else if [] \<in> set (butlast (split_char CHR ''.'' s))
              \<or> list_ex (\<lambda>l. 64 \<le> length l) (split_char CHR ''.'' s) then None
      else Some s)"

definition is_ascii_alnum :: "char \<Rightarrow> bool" where
  "is_ascii_alnum c \<longleftrightarrow> is_ascii_letter c \<or> is_decimal c"

definition label_ok :: "string \<Rightarrow> bool" where
  "label_ok l \<longleftrightarrow> l \<noteq> [] \<and> length l \<le> 63 \<and> is_ascii_alnum (hd l) \<and> is_ascii_alnum (last l)
     \<and> list_all (\<lambda>c. is_ascii_alnum c \<or> c = CHR ''-'') l"

definition ipv4_shape :: "string \<Rightarrow> bool" where
  "ipv4_shape s \<longleftrightarrow> (let ps = split_char CHR ''.'' s in
     length ps = 4 \<and> list_all (\<lambda>p. p \<noteq> [] \<and> list_all is_decimal p) ps)"

definition unbracket :: "string \<Rightarrow> string" where
  "unbracket raw = (if starts_with ''['' raw \<and> ends_with '']'' raw
     then strip (butlast (tl raw)) else raw)"

definition normalize_address :: "(string \<Rightarrow> string option) \<Rightarrow> string \<Rightarrow> addr_error + string" where
  "normalize_address idna value = (let raw = unbracket (strip value) in
     if raw = [] then Inl Addr_Empty
     else if length raw > 253 \<or> list_ex is_space raw then Inl Addr_Length_Or_Space
     else if contains ''://'' raw \<or> list_ex (\<lambda>c. c \<in> set ''/?#@'') raw then Inl Addr_Not_Bare
     else if CHR ''%'' \<in> set raw then Inl Addr_Zone
     else (case ip_address raw of
        Some a \<Rightarrow> Inr (compressed a)
      | None \<Rightarrow>
         if ipv4_shape raw then Inl Addr_Bad_IPv4
         else (case idna_encode idna (rstrip_by (\<lambda>c. c = CHR ''.'') raw) of
            None \<Rightarrow> Inl Addr_Bad_Domain
          | Some enc \<Rightarrow> (let domain = lower enc in
              if domain = [] \<or> length domain > 253
                 \<or> \<not> list_all label_ok (split_char CHR ''.'' domain) then Inl Addr_Bad_Domain
              else Inr domain))))"

definition address_kind :: "(string \<Rightarrow> string option) \<Rightarrow> string \<Rightarrow> addr_error + addr_kind" where
  "address_kind idna value = and_then (normalize_address idna value) (\<lambda>n.
     Inr (case ip_address n of
       Some a \<Rightarrow> if is_v6 a then Kind_IPv6 else Kind_IPv4
     | None \<Rightarrow> Kind_Domain))"

definition normalize_sni :: "(string \<Rightarrow> string option) \<Rightarrow> string \<Rightarrow> addr_error + string" where
  "normalize_sni idna value = and_then (normalize_address idna value) (\<lambda>n.
     if ip_address n = None then Inr n else Inl Sni_Is_Ip)"

section \<open>Lists of addresses, the two hosts of a link\<close>

definition is_separator :: "char \<Rightarrow> bool" where
  "is_separator c \<longleftrightarrow> is_space c \<or> c = CHR '','' \<or> c = CHR '';''"

fun words_by :: "(char \<Rightarrow> bool) \<Rightarrow> string \<Rightarrow> string \<Rightarrow> string list" where
  "words_by p w [] = (if w = [] then [] else [rev w])"
| "words_by p w (c # s) =
     (if p c then (if w = [] then [] else [rev w]) @ words_by p [] s else words_by p (c # w) s)"

definition parse_address_list :: "(string \<Rightarrow> string option) \<Rightarrow> string \<Rightarrow> string list" where
  "parse_address_list idna raw =
     collect_new (\<lambda>w. ok_value (normalize_address idna w)) [] (words_by is_separator [] (strip raw))"

definition unique_valid :: "(string \<Rightarrow> string option) \<Rightarrow> bool \<Rightarrow> string list \<Rightarrow> string list" where
  "unique_valid idna sni values =
     collect_new (\<lambda>w. ok_value ((if sni then normalize_sni else normalize_address) idna w)) [] values"

definition link_hosts ::
  "(string \<Rightarrow> string option) \<Rightarrow> string \<Rightarrow> string \<Rightarrow> string \<Rightarrow> addr_error + string \<times> string" where
  "link_hosts idna address sni service_host =
     and_then (normalize_address idna service_host) (\<lambda>service.
     and_then (if strip address \<noteq> [] then normalize_address idna address else Inr service) (\<lambda>chosen.
     and_then
       (if strip sni \<noteq> [] then normalize_sni idna sni
        else and_then (address_kind idna chosen) (\<lambda>k.
          if k = Kind_Domain then normalize_sni idna chosen
          else (case normalize_sni idna service of Inl e \<Rightarrow> Inr service | Inr n \<Rightarrow> Inr n)))
       (\<lambda>tls. Inr (chosen, tls))))"

definition authority_host :: "(string \<Rightarrow> string option) \<Rightarrow> string \<Rightarrow> addr_error + string" where
  "authority_host idna value = and_then (normalize_address idna value) (\<lambda>host.
     and_then (address_kind idna host) (\<lambda>k.
       Inr (if k = Kind_IPv6 then ''['' @ host @ '']'' else host)))"

section \<open>Addresses are canonical\<close>

lemma takeWhile_all: "(\<And>c. c \<in> set s \<Longrightarrow> p c) \<Longrightarrow> takeWhile p s = s"
  by (simp add: takeWhile_eq_all_conv)

lemma unbracket_plain: "hd s \<noteq> CHR ''['' \<Longrightarrow> s \<noteq> [] \<Longrightarrow> unbracket s = s"
  by (cases s) (auto simp: unbracket_def starts_with_def)

lemma contains_hd: "contains p s \<Longrightarrow> p \<noteq> [] \<Longrightarrow> set p \<subseteq> set s"
proof (induction p s rule: contains.induct)
  case (2 p c s)
  have "starts_with p (c # s) \<Longrightarrow> set p \<subseteq> set (c # s)"
    unfolding starts_with_def by (metis set_take_subset)
  with 2 show ?case by auto
qed simp

lemma contains_scheme: "contains ''://'' s \<Longrightarrow> CHR ''/'' \<in> set s"
  using contains_hd [of "''://''" s] by simp

text \<open>The characters a name or an address may have; none of them stops the normaliser.\<close>

definition host_char :: "char \<Rightarrow> bool" where
  "host_char c \<longleftrightarrow> is_ascii_alnum c \<or> c = CHR ''-'' \<or> c = CHR ''.'' \<or> c = CHR '':''"

lemma host_char_plain: "host_char c \<Longrightarrow> \<not> is_space c \<and> c \<notin> set ''/?#@'' \<and> c \<noteq> CHR ''%'' \<and> c \<noteq> CHR ''['' \<and> ord c < 128"
  by (auto simp: host_char_def is_ascii_alnum_def is_ascii_letter_def is_decimal_def is_space_def Let_def)

lemma ip_char_host: "ip_char c \<Longrightarrow> host_char c"
  by (auto simp: ip_char_def host_char_def is_hex_def is_ascii_alnum_def is_ascii_letter_def is_decimal_def Let_def)

lemma label_ok_chars: "label_ok l \<Longrightarrow> c \<in> set l \<Longrightarrow> is_ascii_alnum c \<or> c = CHR ''-''"
  by (auto simp: label_ok_def list_all_iff)

lemma labels_chars:
  assumes "list_all label_ok (split_char CHR ''.'' d)" "c \<in> set d"
  shows "is_ascii_alnum c \<or> c = CHR ''-'' \<or> c = CHR ''.''"
proof -
  have "c \<in> set (join ''.'' (split_char CHR ''.'' d))" using assms by (simp add: join_split_char)
  then consider "c = CHR ''.''" | w where "w \<in> set (split_char CHR ''.'' d)" "c \<in> set w"
    using join_chars [of "''.''" "split_char CHR ''.'' d"] by auto
  then show ?thesis using assms label_ok_chars by cases (auto simp: list_all_iff)
qed

lemma labels_last:
  assumes "list_all label_ok (split_char CHR ''.'' d)" "d \<noteq> []"
  shows "last d \<noteq> CHR ''.''"
proof
  assume l: "last d = CHR ''.''"
  have "split_char c (u @ [c]) = split_char c u @ [[]]" for u c
    by (induction u) (auto split: list.splits)
  then have "[] \<in> set (split_char CHR ''.'' d)"
    using l assms(2) by (metis append_butlast_last_id in_set_conv_decomp)
  then show False using assms by (auto simp: label_ok_def list_all_iff)
qed

lemma lower_char_ascii: "ord (lower_char c) < 128 \<Longrightarrow> lower_char (lower_char c) = lower_char c"
  by (auto simp: lower_char_def Let_def split: if_splits)

lemma lower_lower: "(\<And>c. c \<in> set (lower s) \<Longrightarrow> ord c < 128) \<Longrightarrow> lower (lower s) = lower s"
  by (auto simp: lower_def lower_char_ascii)

text \<open>What a returned name is: a lower-case list of valid labels, at most 253 long.\<close>

definition dns_name :: "string \<Rightarrow> bool" where
  "dns_name d \<longleftrightarrow> d \<noteq> [] \<and> length d \<le> 253 \<and> list_all label_ok (split_char CHR ''.'' d) \<and> lower d = d"

lemma dns_name_host: "dns_name d \<Longrightarrow> c \<in> set d \<Longrightarrow> host_char c"
  using labels_chars [of d c] by (auto simp: dns_name_def host_char_def)

lemma dns_name_lower:
  assumes "d = lower e" "d \<noteq> []" "length d \<le> 253" "list_all label_ok (split_char CHR ''.'' d)"
  shows "dns_name d"
proof -
  have "ord c < 128" if "c \<in> set d" for c
    using labels_chars [OF assms(4) that] by (auto simp: is_ascii_alnum_def is_ascii_letter_def is_decimal_def Let_def)
  then show ?thesis using assms lower_lower by (auto simp: dns_name_def)
qed

lemma parse_ipv6_scope: "parse_ipv6 s = Some (V6 gs (Some z)) \<Longrightarrow> CHR ''%'' \<in> set s"
  by (auto simp: parse_ipv6_def Let_def split: if_splits option.splits)

lemma ip_address_scope: "ip_address s = Some (V6 gs (Some z)) \<Longrightarrow> CHR ''%'' \<in> set s"
  by (auto simp: ip_address_def split: if_splits option.splits dest: parse_ipv6_scope)

text \<open>The two forms of a result.\<close>

lemma normalize_address_cases:
  assumes "normalize_address idna value = Inr n"
  obtains (ip) a where "ip_ok a" "\<And>gs z. a \<noteq> V6 gs (Some z)" "n = compressed a"
  | (name) "dns_name n"
proof -
  define raw where "raw = unbracket (strip value)"
  note d = assms [unfolded normalize_address_def raw_def [symmetric] Let_def]
  show ?thesis
  proof (cases "ip_address raw")
    case (Some a)
    with d have "n = compressed a" "CHR ''%'' \<notin> set raw" by (auto split: if_splits)
    with Some ip_address_ok ip_address_scope show ?thesis by (intro ip [of a]) auto
  next
    case None
    with d show ?thesis by (intro name) (auto split: if_splits option.splits intro: dns_name_lower)
  qed
qed

lemma normalize_plain:
  assumes "\<And>c. c \<in> set n \<Longrightarrow> host_char c" "n \<noteq> []" "length n \<le> 253"
  shows "normalize_address idna n =
    (case ip_address n of Some a \<Rightarrow> Inr (compressed a)
     | None \<Rightarrow> if ipv4_shape n then Inl Addr_Bad_IPv4
        else (case idna_encode idna (rstrip_by (\<lambda>c. c = CHR ''.'') n) of
            None \<Rightarrow> Inl Addr_Bad_Domain
          | Some enc \<Rightarrow> (let domain = lower enc in
              if domain = [] \<or> length domain > 253
                 \<or> \<not> list_all label_ok (split_char CHR ''.'' domain) then Inl Addr_Bad_Domain
              else Inr domain)))"
proof -
  have h: "\<not> is_space c" "c \<notin> set ''/?#@''" "c \<noteq> CHR ''%''" "c \<noteq> CHR ''[''" if "c \<in> set n" for c
    using host_char_plain [OF assms(1) [OF that]] by auto
  have "strip n = n" using h by (intro strip_no_space)
  moreover have "unbracket n = n" using h(4) [of "hd n"] assms by (intro unbracket_plain) auto
  moreover have "\<not> contains ''://'' n" using contains_scheme [of n] h(2) [of "CHR ''/''"] by auto
  moreover have "\<not> list_ex is_space n" "\<not> list_ex (\<lambda>c. c \<in> set ''/?#@'') n"
    using h(1, 2) by (auto simp: list_ex_iff)
  moreover have "CHR ''%'' \<notin> set n" using h(3) by blast
  ultimately show ?thesis using assms by (simp add: normalize_address_def Let_def)
qed

lemma idna_encode_name: "dns_name d \<Longrightarrow> idna_encode idna d = Some d"
  using dns_name_host [of d] host_char_plain
  by (auto simp: idna_encode_def dns_name_def list_all_iff list_ex_iff is_ascii_def label_ok_def
      dest: in_set_butlastD)

lemma ip_address_no_colon: "CHR '':'' \<notin> set s \<Longrightarrow> parse_ipv6 s = None"
proof -
  assume "CHR '':'' \<notin> set s"
  then have "CHR '':'' \<notin> set (before CHR ''%'' s)" by (auto simp: before_def dest: set_takeWhileD)
  then have "split_char CHR '':'' (before CHR ''%'' s) = [before CHR ''%'' s]"
    using split_char_join [of "[before CHR ''%'' s]"] by simp
  then show ?thesis by (simp add: parse_ipv6_def v6_parts_def Let_def)
qed

lemma normalize_name:
  assumes "dns_name n" "ipv4_shape n \<Longrightarrow> parse_ipv4 n \<noteq> None"
  shows "normalize_address idna n = Inr n"
proof -
  have col: "CHR '':'' \<notin> set n"
    using assms(1) labels_chars [of n "CHR '':''"]
    by (auto simp: dns_name_def is_ascii_alnum_def is_ascii_letter_def is_decimal_def)
  have "CHR ''/'' \<notin> set n" using dns_name_host [OF assms(1), of "CHR ''/''"] host_char_plain by fastforce
  then have ip: "ip_address n = map_option V4 (parse_ipv4 n)"
    using ip_address_no_colon [OF col] by (simp add: ip_address_def split: option.split)
  have "rstrip_by (\<lambda>c. c = CHR ''.'') n = n"
  proof -
    have "last n \<noteq> CHR ''.''" using assms(1) labels_last by (auto simp: dns_name_def)
    then show ?thesis using assms(1)
      by (cases n rule: rev_cases) (auto simp: rstrip_by_def)
  qed
  then show ?thesis
    using assms normalize_plain [of n idna, OF dns_name_host [OF assms(1)]] ip
      idna_encode_name [OF assms(1), of idna] parse_ipv4_canonical [of n]
    by (auto simp: dns_name_def split: option.splits)
qed

lemma normalize_compressed:
  assumes "ip_ok a" "\<And>gs z. a \<noteq> V6 gs (Some z)"
  shows "normalize_address idna (compressed a) = Inr (compressed a)"
proof -
  have "length (compressed a) \<le> 253" "compressed a \<noteq> []" "\<And>c. c \<in> set (compressed a) \<Longrightarrow> host_char c"
    using compressed_text [OF assms] ip_char_host by (auto simp: list_all_iff)
  then show ?thesis using normalize_plain ip_address_compressed [OF assms] by simp
qed

section \<open>Properties\<close>

lemma ip_address_name: "dns_name n \<Longrightarrow> ip_address n = map_option V4 (parse_ipv4 n)"
proof -
  assume d: "dns_name n"
  have "CHR '':'' \<notin> set n"
    using d labels_chars [of n "CHR '':''"]
    by (auto simp: dns_name_def is_ascii_alnum_def is_ascii_letter_def is_decimal_def)
  moreover have "CHR ''/'' \<notin> set n" using dns_name_host [OF d, of "CHR ''/''"] host_char_plain by fastforce
  ultimately show ?thesis using ip_address_no_colon by (simp add: ip_address_def split: option.split)
qed

lemma normalize_sni_name:
  assumes "normalize_sni idna value = Inr n"
  shows "dns_name n \<and> ip_address n = None"
proof -
  from assms have a: "normalize_address idna value = Inr n" and i: "ip_address n = None"
    by (auto simp: normalize_sni_def and_then_Inr split: if_splits)
  from a show ?thesis
  proof (cases rule: normalize_address_cases)
    case (ip x)
    then have "ip_address n = Some x" using ip_address_compressed by simp
    with i show ?thesis by simp
  next
    case name with i show ?thesis by simp
  qed
qed

text \<open>
  A normalised address is a fixed point of the normaliser, with one exception: a result in
  the shape of four numbers that is no IPv4 address, which the normaliser refuses when it
  sees it again.
\<close>

theorem normalize_address_stable:
  assumes "normalize_address idna value = Inr n"
  shows "normalize_address idna n =
    (if ipv4_shape n \<and> parse_ipv4 n = None then Inl Addr_Bad_IPv4 else Inr n)"
  using assms
proof (cases rule: normalize_address_cases)
  case (ip a)
  have "\<not> (ipv4_shape n \<and> parse_ipv4 n = None)"
  proof (cases a)
    case (V4 os)
    then show ?thesis using ip parse_ipv4_show [of os] by auto
  next
    case (V6 gs z)
    with ip have "z = None" by (cases z) auto
    then have col: "CHR '':'' \<in> set n" using V6 ip parse_ipv6_show [of gs] by auto
    have "\<not> ipv4_shape n"
    proof
      assume s: "ipv4_shape n"
      have "CHR '':'' \<in> set (join ''.'' (split_char CHR ''.'' n))" using col by (simp add: join_split_char)
      then obtain w where "w \<in> set (split_char CHR ''.'' n)" "CHR '':'' \<in> set w"
        using join_chars [of "''.''" "split_char CHR ''.'' n"] by auto
      with s show False using not_decimal_punct(1) by (auto simp: ipv4_shape_def Let_def list_all_iff)
    qed
    then show ?thesis by simp
  qed
  then show ?thesis using normalize_compressed ip by auto
next
  case name
  show ?thesis
  proof (cases "ipv4_shape n \<and> parse_ipv4 n = None")
    case True
    then show ?thesis using ip_address_name [OF name] normalize_plain [of n idna, OF dns_name_host [OF name]] name
      by (auto simp: dns_name_def)
  next
    case False
    then show ?thesis using normalize_name [OF name] by auto
  qed
qed

lemma normalize_address_stable_witness:
  "normalize_address (\<lambda>s. None) ''example.com'' = Inr ''example.com''"
proof -
  have "normalize_address (\<lambda>s. None) '' Example.COM. '' = Inr ''example.com''" by code_simp
  from normalize_address_stable [OF this]
  have "normalize_address (\<lambda>s. None) ''example.com'' =
    (if ipv4_shape ''example.com'' \<and> parse_ipv4 ''example.com'' = None then Inl Addr_Bad_IPv4
     else Inr ''example.com'')" .
  moreover have "\<not> ipv4_shape ''example.com''" by code_simp
  ultimately show ?thesis by simp
qed

text \<open>
  A normalised TLS name is a DNS name (labels of letters, digits and inner hyphens, lower
  case, at most 253 characters) and never an IP address.
\<close>

theorem normalize_sni_is_name:
  assumes "normalize_sni idna value = Inr n"
  shows "n \<noteq> [] \<and> length n \<le> 253 \<and> lower n = n \<and> ip_address n = None
    \<and> list_all label_ok (split_char CHR ''.'' n)"
  using normalize_sni_name [OF assms] by (simp add: dns_name_def)

lemma normalize_sni_is_name_witness:
  "list_all label_ok (split_char CHR ''.'' ''front.example.org'')"
proof -
  have "normalize_sni (\<lambda>s. None) ''Front.Example.org.'' = Inr ''front.example.org''" by code_simp
  from normalize_sni_is_name [OF this] show ?thesis by simp
qed

text \<open>
  A trailing dot lets four numbers that are no IPv4 address through: the shape test sees the
  text with the dot, the domain test the text without it. The address that is returned is
  refused by every later normalisation, \<open>link_hosts\<close> included.
\<close>

theorem trailing_dot_accepted:
  "normalize_address idna ''999.1.1.1.'' = Inr ''999.1.1.1''
   \<and> normalize_address idna ''999.1.1.1'' = Inl Addr_Bad_IPv4
   \<and> link_hosts idna ''999.1.1.1.'' [] ''app.example.com'' = Inl Addr_Bad_IPv4"
  by code_simp

text \<open>
  The two hosts of a link: the dialled address is the configured one in canonical form, or
  the service host when none is configured. A custom TLS name wins. In automatic mode a
  dialled domain is its own TLS name, and a dialled IP address keeps the service host.
\<close>

theorem link_hosts_chosen:
  assumes "link_hosts idna address sni service_host = Inr (dial, tls)"
  shows "(if strip address = [] then normalize_address idna service_host = Inr dial
          else normalize_address idna address = Inr dial)
    \<and> (if strip sni \<noteq> [] then normalize_sni idna sni = Inr tls
       else if ip_address dial = None then tls = dial
       else normalize_address idna service_host = Inr tls)"
proof -
  from assms obtain service where s: "normalize_address idna service_host = Inr service"
    and c: "(if strip address \<noteq> [] then normalize_address idna address else Inr service) = Inr dial"
    and t: "(if strip sni \<noteq> [] then normalize_sni idna sni
        else and_then (address_kind idna dial) (\<lambda>k.
          if k = Kind_Domain then normalize_sni idna dial
          else (case normalize_sni idna service of Inl e \<Rightarrow> Inr service | Inr n \<Rightarrow> Inr n))) = Inr tls"
    by (auto simp: link_hosts_def and_then_Inr simp del: not_None_eq)
  obtain v where v: "normalize_address idna v = Inr dial" using c s by (cases "strip address = []") auto
  have stable: "normalize_address idna d = Inr e \<Longrightarrow> normalize_address idna w = Inr d \<Longrightarrow> e = d" for d e w
    using normalize_address_stable [of idna w d] by (auto split: if_splits)
  show ?thesis
    using c s t stable [OF _ v] stable [OF _ s]
    by (auto simp: and_then_Inr address_kind_def normalize_sni_def split: if_splits option.splits sum.splits)
qed

lemma link_hosts_chosen_witness:
  "normalize_address (\<lambda>s. None) ''104.16.1.1'' = Inr ''104.16.1.1''"
proof -
  have "link_hosts (\<lambda>s. None) ''104.16.1.1'' [] ''app.example.com'' = Inr (''104.16.1.1'', ''app.example.com'')"
    by code_simp
  from link_hosts_chosen [OF this] show ?thesis by (simp add: strip_def strip_by_def rstrip_by_def is_space_def)
qed

text \<open>
  A pasted list of addresses yields every valid entry once, in canonical form, and nothing else.
\<close>

theorem parse_address_list_exact:
  "distinct (parse_address_list idna raw)
   \<and> set (parse_address_list idna raw) =
       {n. \<exists>w \<in> set (words_by is_separator [] (strip raw)). normalize_address idna w = Inr n}"
  by (simp add: parse_address_list_def collect_new_distinct collect_new_set)

end
