(* ===== verification/Json.thy ===== *)
theory Json
  imports Py_Text Complex_Main
begin

text \<open>
  The values of a JSON body after \<open>json.loads\<close>, and what the handlers do with them: truth,
  \<open>str\<close>, \<open>int\<close>, \<open>float\<close> and \<open>dict.get\<close>. A float carries its exact value and the text its
  \<open>repr\<close> gives; NaN and the infinities, which the HTTP layer's parser also accepts, have no
  value here. The conversion of a text to a float is the parameter \<open>float_of\<close>.
\<close>

datatype json =
    JNull
  | JBool bool
  | JInt int
  | JFloat rat string
  | JStr string
  | JArr "json list"
  | JObj "(string \<times> json) list"

type_synonym body = "(string, json) dict"

section \<open>Truth and text\<close>

fun truthy :: "json \<Rightarrow> bool" where
  "truthy JNull = False"
| "truthy (JBool b) = b"
| "truthy (JInt i) = (i \<noteq> 0)"
| "truthy (JFloat r t) = (r \<noteq> 0)"
| "truthy (JStr s) = (s \<noteq> [])"
| "truthy (JArr xs) = (xs \<noteq> [])"
| "truthy (JObj kvs) = (kvs \<noteq> [])"

text \<open>\<open>a or b\<close>.\<close>

definition or_else :: "json \<Rightarrow> json \<Rightarrow> json" where
  "or_else a b = (if truthy a then a else b)"

definition hex_digit :: "nat \<Rightarrow> char" where
  "hex_digit d = (if d < 10 then char_of (48 + d) else char_of (87 + d))"

definition repr_char :: "char \<Rightarrow> char \<Rightarrow> string" where
  "repr_char q c = (let n = ord c in
     if c = q \<or> n = 92 then [CHR 0x5C, c]
     else if n = 9 then [CHR 0x5C, CHR ''t'']
     else if n = 10 then [CHR 0x5C, CHR ''n'']
     else if n = 13 then [CHR 0x5C, CHR ''r'']
     else if is_printable c then [c]
     else [CHR 0x5C, CHR ''x'', hex_digit (n div 16), hex_digit (n mod 16)])"

definition repr_str :: "string \<Rightarrow> string" where
  "repr_str s = (let q = (if CHR 0x27 \<in> set s \<and> CHR 0x22 \<notin> set s then CHR 0x22 else CHR 0x27) in
     [q] @ concat (map (repr_char q) s) @ [q])"

fun py_repr :: "json \<Rightarrow> string" where
  "py_repr JNull = ''None''"
| "py_repr (JBool b) = (if b then ''True'' else ''False'')"
| "py_repr (JInt i) = show_int i"
| "py_repr (JFloat r t) = t"
| "py_repr (JStr s) = repr_str s"
| "py_repr (JArr xs) = ''['' @ join '', '' (map py_repr xs) @ '']''"
| "py_repr (JObj kvs) = ''{'' @ join '', '' (map (\<lambda>kv. repr_str (fst kv) @ '': '' @ py_repr (snd kv)) kvs) @ ''}''"

definition py_str :: "json \<Rightarrow> string" where
  "py_str j = (case j of JStr s \<Rightarrow> s | _ \<Rightarrow> py_repr j)"

text \<open>\<open>str(value or "")\<close>, the way almost every handler reads a text.\<close>

definition text_or_empty :: "json \<Rightarrow> string" where
  "text_or_empty j = (if truthy j then py_str j else [])"

section \<open>Numbers\<close>

text \<open>\<open>int(value)\<close>; \<open>None\<close> is a TypeError or ValueError.\<close>

definition trunc :: "rat \<Rightarrow> int" where
  "trunc r = (if 0 \<le> r then \<lfloor>r\<rfloor> else \<lceil>r\<rceil>)"

fun py_int :: "json \<Rightarrow> int option" where
  "py_int (JBool b) = Some (if b then 1 else 0)"
| "py_int (JInt i) = Some i"
| "py_int (JFloat r t) = Some (trunc r)"
| "py_int (JStr s) = parse_int s"
| "py_int _ = None"

fun py_float :: "(string \<Rightarrow> rat option) \<Rightarrow> json \<Rightarrow> rat option" where
  "py_float float_of (JBool b) = Some (if b then 1 else 0)"
| "py_float float_of (JInt i) = Some (of_int i)"
| "py_float float_of (JFloat r t) = Some r"
| "py_float float_of (JStr s) = float_of s"
| "py_float float_of _ = None"

section \<open>Objects\<close>

definition jget :: "body \<Rightarrow> string \<Rightarrow> json" where
  "jget b k = (case map_of b k of None \<Rightarrow> JNull | Some v \<Rightarrow> v)"

definition jget_def :: "body \<Rightarrow> string \<Rightarrow> json \<Rightarrow> json" where
  "jget_def b k d = (case map_of b k of None \<Rightarrow> d | Some v \<Rightarrow> v)"

definition has_key :: "body \<Rightarrow> string \<Rightarrow> bool" where
  "has_key b k \<longleftrightarrow> map_of b k \<noteq> None"

lemma text_or_empty_JStr [simp]: "text_or_empty (JStr s) = s"
  by (simp add: text_or_empty_def py_str_def)

lemma text_or_empty_JNull [simp]: "text_or_empty JNull = []"
  by (simp add: text_or_empty_def)

lemma trunc_of_int [simp]: "trunc (of_int i) = i"
  by (simp add: trunc_def)

lemma trunc_nonneg: "0 \<le> r \<Longrightarrow> 0 \<le> trunc r"
  by (simp add: trunc_def)

end
