(* ===== verification/Raw_Tcp.thy ===== *)
theory Raw_Tcp
  imports Config_Address Json
begin

text \<open>
  \<open>raw_tcp.py\<close>: the deployment contract of the native TCP ingress (read from the environment),
  the SNI that stands for each location, and the admission of connections. The environment
  is a function from names to texts; \<open>is_file\<close> tests a path; \<open>loads\<close> is \<open>json.loads\<close>.
\<close>

type_synonym environ = "string \<Rightarrow> string option"

definition getenv :: "environ \<Rightarrow> string \<Rightarrow> string \<Rightarrow> string" where
  "getenv env k d = (case env k of None \<Rightarrow> d | Some v \<Rightarrow> v)"

section \<open>Reading the environment\<close>

definition positive_port :: "string option \<Rightarrow> int option" where
  "positive_port value = (case parse_int (strip (case value of None \<Rightarrow> [] | Some v \<Rightarrow> v)) of
     None \<Rightarrow> None | Some port \<Rightarrow> if 1 \<le> port \<and> port \<le> 65535 then Some port else None)"

definition connection_limit :: "environ \<Rightarrow> int" where
  "connection_limit env = (case parse_int (getenv env ''VLESS_TCP_MAX_CONNECTIONS'' ''128'') of
     None \<Rightarrow> 128 | Some n \<Rightarrow> min 1024 (max 1 n))"

definition safe_location_id :: "string \<Rightarrow> string" where
  "safe_location_id value = take 24 (filter (\<lambda>c. is_alnum c \<or> c \<in> set ''-_'') value)"

section \<open>The deployment\<close>

datatype tcp_reason =
    Not_Configured | No_Public_Endpoint | Bad_Uri_Network | No_Tls_Paths | Tls_Unreadable
  | No_Sni_Map | Bad_Sni_Map | Listener_Failed | Not_Running | No_Reason

record deployment =
  ready :: bool
  reason :: tcp_reason
  listen_host :: string
  listen_port :: int
  public_host :: string
  public_port :: int
  cert_file :: string
  key_file :: string
  uri_network :: string
  sni_locations :: "(string, string) dict"
  default_sni :: string

definition unready :: "tcp_reason \<Rightarrow> deployment" where
  "unready r = \<lparr>ready = False, reason = r, listen_host = ''0.0.0.0'', listen_port = 0, public_host = [],
     public_port = 0, cert_file = [], key_file = [], uri_network = [], sni_locations = [],
     default_sni = []\<rparr>"

text \<open>The loop over the entries of the SNI map; \<open>None\<close> is its ValueError.\<close>

fun read_sni_map :: "(string \<Rightarrow> string option) \<Rightarrow> (string, string) dict \<Rightarrow> string list \<Rightarrow>
    (string \<times> json) list \<Rightarrow> (string, string) dict option" where
  "read_sni_map idna names seen [] = Some names"
| "read_sni_map idna names seen ((raw_name, raw_location) # rest) =
     (case normalize_sni idna raw_name of
        Inl e \<Rightarrow> None
      | Inr name \<Rightarrow>
         (let location = safe_location_id (text_or_empty raw_location) in
          if strip (text_or_empty raw_location) \<noteq> [] \<and> location = [] then None
          else if location \<noteq> [] \<and> location \<in> set seen then None
          else if map_of names name \<noteq> None then None
          else read_sni_map idna (names @ [(name, location)])
                 (if location \<noteq> [] then location # seen else seen) rest))"

text \<open>The \<open>try\<close> block around the map: the table and the normalised default name.\<close>

definition sni_table :: "(string \<Rightarrow> string option) \<Rightarrow> json option \<Rightarrow> string \<Rightarrow>
    ((string, string) dict \<times> string) option" where
  "sni_table idna parsed default_name =
    (case parsed of
       Some (JObj entries) \<Rightarrow>
         if entries = [] then None
         else (case (read_sni_map idna [] [] entries, normalize_sni idna default_name) of
             (Some names, Inr dname) \<Rightarrow> if map_of names dname \<noteq> Some [] then None else Some (names, dname)
           | _ \<Rightarrow> None)
     | _ \<Rightarrow> None)"

text \<open>The checks in the code's order, on the values read from the environment.\<close>

definition deployment_from ::
  "(string \<Rightarrow> string option) \<Rightarrow> (string \<Rightarrow> json option) \<Rightarrow> (string \<Rightarrow> bool) \<Rightarrow>
   int option \<Rightarrow> int option \<Rightarrow> int option \<Rightarrow> string \<Rightarrow> string \<Rightarrow> string \<Rightarrow> string \<Rightarrow> string \<Rightarrow> string \<Rightarrow>
   string \<Rightarrow> deployment" where
  "deployment_from idna loads is_file application_port lport pport phost network cert key default_name raw_map lhost =
    (if application_port = None \<or> lport = None \<or> application_port \<noteq> lport then unready Not_Configured
     else if phost = [] \<or> pport = None then unready No_Public_Endpoint
     else if network \<notin> {''tcp'', ''raw''} then unready Bad_Uri_Network
     else if cert = [] \<or> key = [] then unready No_Tls_Paths
     else if \<not> is_file cert \<or> \<not> is_file key then unready Tls_Unreadable
     else if raw_map = [] \<or> default_name = [] then unready No_Sni_Map
     else (case sni_table idna (loads raw_map) default_name of
         None \<Rightarrow> unready Bad_Sni_Map
       | Some (names, dname) \<Rightarrow>
           \<lparr>ready = True, reason = No_Reason,
             listen_host = (if lhost = [] then ''0.0.0.0'' else lhost),
             listen_port = the lport, public_host = phost, public_port = the pport,
             cert_file = cert, key_file = key, uri_network = network,
             sni_locations = names, default_sni = dname\<rparr>))"

definition deployment_of ::
  "(string \<Rightarrow> string option) \<Rightarrow> (string \<Rightarrow> json option) \<Rightarrow> (string \<Rightarrow> bool) \<Rightarrow> environ \<Rightarrow> deployment" where
  "deployment_of idna loads is_file env = deployment_from idna loads is_file
     (positive_port (env ''RAILWAY_TCP_APPLICATION_PORT''))
     (positive_port (env ''VLESS_TCP_LISTEN_PORT''))
     (positive_port (env ''RAILWAY_TCP_PROXY_PORT''))
     (strip (getenv env ''RAILWAY_TCP_PROXY_DOMAIN'' []))
     (lower (strip (getenv env ''VLESS_TCP_URI_NETWORK'' [])))
     (strip (getenv env ''VLESS_TCP_TLS_CERT_FILE'' []))
     (strip (getenv env ''VLESS_TCP_TLS_KEY_FILE'' []))
     (strip (getenv env ''VLESS_TCP_DEFAULT_SNI'' []))
     (strip (getenv env ''VLESS_TCP_SNI_MAP'' []))
     (strip (getenv env ''VLESS_TCP_LISTEN_HOST'' ''0.0.0.0''))"

datatype endpoint_error = Tcp_Not_Ready tcp_reason | No_Sni_Profile

definition endpoint_for_location :: "deployment \<Rightarrow> string \<Rightarrow> endpoint_error + string \<times> int \<times> string" where
  "endpoint_for_location d location_id =
     (if \<not> ready d \<or> sni_locations d = [] then Inl (Tcp_Not_Ready (reason d))
      else (let location = safe_location_id location_id in
        if location = [] then Inr (public_host d, public_port d, default_sni d)
        else (case filter (\<lambda>(name, l). l = location) (sni_locations d) of
            [(name, l)] \<Rightarrow> Inr (public_host d, public_port d, name)
          | _ \<Rightarrow> Inl No_Sni_Profile)))"

definition location_for_sni :: "(string \<Rightarrow> string option) \<Rightarrow> deployment \<Rightarrow> string \<Rightarrow> string option" where
  "location_for_sni idna d server_name =
     (if sni_locations d = [] then None
      else (case normalize_sni idna server_name of
          Inl e \<Rightarrow> None | Inr name \<Rightarrow> map_of (sni_locations d) name))"

section \<open>The listener\<close>

text \<open>
  \<open>RawTCPListener\<close>: \<open>_server\<close> (its number of sockets), the names remembered per TLS object,
  the free slots of the admission semaphore and the open tasks. \<open>accept_begin\<close> is the part of
  \<open>_accepted\<close> up to the tunnel, \<open>accept_end\<close> its \<open>finally\<close>. \<open>granted\<close> says that the semaphore
  answered within its 50 ms.
\<close>

record listener =
  server :: "nat option"
  sni_by_ssl :: "(nat, string) dict"
  free_slots :: nat
  tasks :: "nat set"
  admitted :: "nat set"
  start_error :: "tcp_reason option"

datatype accept_outcome = Busy | Refused | Tunnel string string

definition new_listener :: "environ \<Rightarrow> listener" where
  "new_listener env = \<lparr>server = None, sni_by_ssl = [], free_slots = nat (connection_limit env),
     tasks = {}, admitted = {}, start_error = None\<rparr>"

definition running :: "listener \<Rightarrow> bool" where
  "running l \<longleftrightarrow> (case server l of None \<Rightarrow> False | Some n \<Rightarrow> 0 < n)"

definition listener_start :: "deployment \<Rightarrow> nat option \<Rightarrow> listener \<Rightarrow> listener" where
  "listener_start settings bound l =
     (if running l then l
      else if \<not> ready settings then l\<lparr>start_error := Some (reason settings)\<rparr>
      else (case bound of
          Some n \<Rightarrow> l\<lparr>server := Some n, start_error := None\<rparr>
        | None \<Rightarrow> l\<lparr>server := None, start_error := Some Listener_Failed\<rparr>))"

definition remember_sni :: "nat \<Rightarrow> string \<Rightarrow> listener \<Rightarrow> listener" where
  "remember_sni ssl name l =
     (if name = [] then l else l\<lparr>sni_by_ssl := AList.update ssl name (sni_by_ssl l)\<rparr>)"

definition accept_begin :: "(string \<Rightarrow> string option) \<Rightarrow> deployment \<Rightarrow> nat \<Rightarrow> nat \<Rightarrow> bool \<Rightarrow>
    listener \<Rightarrow> accept_outcome \<times> listener" where
  "accept_begin idna settings task ssl granted l =
    (let l1 = l\<lparr>tasks := insert task (tasks l)\<rparr> in
     if \<not> granted \<or> free_slots l = 0 then (Busy, l1)
     else (let l2 = l1\<lparr>free_slots := free_slots l - 1, admitted := insert task (admitted l)\<rparr>;
               name = (case map_of (sni_by_ssl l) ssl of None \<Rightarrow> [] | Some n \<Rightarrow> n);
               l3 = l2\<lparr>sni_by_ssl := AList.delete ssl (sni_by_ssl l)\<rparr>
           in (case location_for_sni idna settings name of
                 None \<Rightarrow> (Refused, l3)
               | Some loc \<Rightarrow> if name = [] then (Refused, l3) else (Tunnel loc name, l3))))"

definition accept_end :: "nat \<Rightarrow> listener \<Rightarrow> listener" where
  "accept_end task l = l\<lparr>tasks := tasks l - {task},
     free_slots := (if task \<in> admitted l then free_slots l + 1 else free_slots l),
     admitted := admitted l - {task}\<rparr>"

definition listener_stop :: "listener \<Rightarrow> listener" where
  "listener_stop l = l\<lparr>server := None, sni_by_ssl := [],
     free_slots := free_slots l + card (admitted l), tasks := {}, admitted := {}\<rparr>"

definition availability :: "deployment \<Rightarrow> listener \<Rightarrow> bool \<times> tcp_reason" where
  "availability d l =
     (if \<not> ready d then (False, reason d)
      else if \<not> running l then (False, case start_error l of None \<Rightarrow> Not_Running | Some r \<Rightarrow> r)
      else (True, No_Reason))"

section \<open>What a ready deployment guarantees\<close>

definition deployment_ok :: "(string \<Rightarrow> string option) \<Rightarrow> deployment \<Rightarrow> bool" where
  "deployment_ok idna d \<longleftrightarrow>
     distinct (map fst (sni_locations d))
   \<and> distinct (filter (\<lambda>l. l \<noteq> []) (map snd (sni_locations d)))
   \<and> list_all (\<lambda>(name, l). dns_name name \<and> ip_address name = None \<and> safe_location_id l = l) (sni_locations d)
   \<and> (ready d \<longrightarrow> map_of (sni_locations d) (default_sni d) = Some []
        \<and> 1 \<le> listen_port d \<and> listen_port d \<le> 65535 \<and> 1 \<le> public_port d \<and> public_port d \<le> 65535
        \<and> public_host d \<noteq> [] \<and> listen_host d \<noteq> [] \<and> uri_network d \<in> {''tcp'', ''raw''})"

lemma safe_location_id_idem [simp]: "safe_location_id (safe_location_id s) = safe_location_id s"
proof -
  have "filter p (take k (filter p s)) = take k (filter p s)" for p :: "char \<Rightarrow> bool" and k
    by (auto simp: filter_id_conv dest: in_set_takeD)
  then show ?thesis unfolding safe_location_id_def by simp
qed

lemma unready_ok [simp]: "deployment_ok idna (unready r)" "\<not> ready (unready r)"
  by (auto simp: deployment_ok_def unready_def)

lemma positive_port_range: "positive_port v = Some p \<Longrightarrow> 1 \<le> p \<and> p \<le> 65535"
  by (auto simp: positive_port_def split: option.splits if_splits)

lemma positive_port_some: "Some p = positive_port v \<Longrightarrow> 1 \<le> the (positive_port v) \<and> the (positive_port v) \<le> 65535"
  by (cases "positive_port v") (auto dest: positive_port_range)

lemma read_sni_map_ok:
  assumes "read_sni_map idna names seen entries = Some ns"
    "distinct (map fst names)" "distinct (filter (\<lambda>l. l \<noteq> []) (map snd names))"
    "set (filter (\<lambda>l. l \<noteq> []) (map snd names)) \<subseteq> set seen"
    "list_all (\<lambda>(name, l). dns_name name \<and> ip_address name = None \<and> safe_location_id l = l) names"
  shows "distinct (map fst ns) \<and> distinct (filter (\<lambda>l. l \<noteq> []) (map snd ns))
    \<and> list_all (\<lambda>(name, l). dns_name name \<and> ip_address name = None \<and> safe_location_id l = l) ns"
  using assms
proof (induction idna names seen entries rule: read_sni_map.induct)
  case (2 idna names seen raw_name raw_location rest)
  let ?loc = "safe_location_id (text_or_empty raw_location)"
  from 2(2) obtain name where n: "normalize_sni idna raw_name = Inr name"
    and fresh: "map_of names name = None" and loc: "?loc = [] \<or> ?loc \<notin> set seen"
    and rec: "read_sni_map idna (names @ [(name, ?loc)]) (if ?loc \<noteq> [] then ?loc # seen else seen) rest = Some ns"
    and ok: "\<not> (strip (text_or_empty raw_location) \<noteq> [] \<and> ?loc = [])"
    by (auto simp: Let_def split: sum.splits if_splits)
  have "name \<notin> set (map fst names)" using fresh by (simp add: map_of_eq_None_iff)
  then show ?case
    using 2 n fresh loc rec ok normalize_sni_name [OF n]
    by (intro "2.IH" [OF n refl]) (auto split: if_splits)
qed simp

lemma sni_table_ok:
  assumes "sni_table idna parsed default_name = Some (names, dname)"
  shows "distinct (map fst names) \<and> distinct (filter (\<lambda>l. l \<noteq> []) (map snd names))
    \<and> list_all (\<lambda>(name, l). dns_name name \<and> ip_address name = None \<and> safe_location_id l = l) names
    \<and> map_of names dname = Some []"
proof -
  from assms obtain entries where r: "read_sni_map idna [] [] entries = Some names"
    and d: "map_of names dname = Some []"
    by (auto simp: sni_table_def split: option.splits json.splits if_splits sum.splits)
  show ?thesis using read_sni_map_ok [OF r] d by simp
qed

lemma deployment_from_ok:
  assumes "\<And>p. p \<in> {ap, lp, pp} \<Longrightarrow> p \<noteq> None \<Longrightarrow> 1 \<le> the p \<and> the p \<le> 65535"
  shows "deployment_ok idna (deployment_from idna loads is_file ap lp pp ph nw c k dn rm lh)"
proof (cases "sni_table idna (loads rm) dn")
  case None
  then show ?thesis by (simp add: deployment_from_def)
next
  case (Some nd)
  obtain names dname where nd: "nd = (names, dname)" by (cases nd)
  note tab = sni_table_ok [OF Some [unfolded nd]]
  show ?thesis
    using tab assms [of lp] assms [of pp] Some nd
    by (simp add: deployment_from_def) (auto simp: deployment_ok_def)
qed

lemma deployment_of_ok: "deployment_ok idna (deployment_of idna loads is_file env)"
  unfolding deployment_of_def by (rule deployment_from_ok) (auto dest: positive_port_some)

text \<open>A text of the environment, without the blanks around it; a number in the range of ports.\<close>

definition env_text :: "environ \<Rightarrow> string \<Rightarrow> string" where
  "env_text env k = strip (getenv env k [])"

lemma positive_port_text: "positive_port (env k) = Some p \<Longrightarrow> parse_int (env_text env k) = Some p \<and> 1 \<le> p \<and> p \<le> 65535"
  by (auto simp: positive_port_def env_text_def getenv_def split: option.splits if_splits)

lemma read_sni_map_entries: "read_sni_map idna names seen entries = Some ns \<Longrightarrow>
   \<exists>ms. ns = names @ ms
     \<and> list_all2 (\<lambda>(raw, j) (name, l). normalize_sni idna raw = Inr name \<and> l = safe_location_id (text_or_empty j)) entries ms"
proof (induction idna names seen entries rule: read_sni_map.induct)
  case (2 idna names seen raw_name raw_location rest)
  let ?loc = "safe_location_id (text_or_empty raw_location)"
  from 2(2) obtain name where n: "normalize_sni idna raw_name = Inr name"
    and fresh: "map_of names name = None" and loc: "?loc = [] \<or> ?loc \<notin> set seen"
    and rec: "read_sni_map idna (names @ [(name, ?loc)]) (if ?loc \<noteq> [] then ?loc # seen else seen) rest = Some ns"
    and ok: "\<not> (strip (text_or_empty raw_location) \<noteq> [] \<and> ?loc = [])"
    by (auto simp: Let_def split: sum.splits if_splits)
  have "\<exists>ms. ns = (names @ [(name, ?loc)]) @ ms
      \<and> list_all2 (\<lambda>(raw, j) (name, l). normalize_sni idna raw = Inr name \<and> l = safe_location_id (text_or_empty j)) rest ms"
    using n fresh loc rec ok by (intro "2.IH" [OF n refl]) auto
  then obtain ms where "ns = (names @ [(name, ?loc)]) @ ms"
      "list_all2 (\<lambda>(raw, j) (name, l). normalize_sni idna raw = Inr name \<and> l = safe_location_id (text_or_empty j)) rest ms" by blast
  then show ?case using n by (intro exI[of _ "(name, ?loc) # ms"]) simp
qed simp

lemma sni_table_cases:
  assumes "sni_table idna parsed default_name = Some (names, dname)"
  shows "\<exists>entries. parsed = Some (JObj entries) \<and> entries \<noteq> [] \<and> normalize_sni idna default_name = Inr dname
    \<and> list_all2 (\<lambda>(raw, j) (name, l). normalize_sni idna raw = Inr name \<and> l = safe_location_id (text_or_empty j)) entries names"
proof -
  from assms obtain entries where "parsed = Some (JObj entries)" "entries \<noteq> []" "read_sni_map idna [] [] entries = Some names"
      "normalize_sni idna default_name = Inr dname"
    by (auto simp: sni_table_def split: option.splits json.splits if_splits sum.splits)
  then show ?thesis using read_sni_map_entries[of idna "[]" "[]" entries names] by auto
qed

lemma deployment_from_ready:
  assumes "d = deployment_from idna loads is_file ap lp pp ph nw c k dn rm lh"
  shows "ready d \<Longrightarrow> \<exists>p q names dname. ap = Some p \<and> lp = Some p \<and> pp = Some q \<and> ph \<noteq> [] \<and> nw \<in> {''tcp'', ''raw''}
      \<and> c \<noteq> [] \<and> k \<noteq> [] \<and> is_file c \<and> is_file k \<and> sni_table idna (loads rm) dn = Some (names, dname)
      \<and> listen_port d = p \<and> public_port d = q \<and> public_host d = ph \<and> uri_network d = nw \<and> cert_file d = c \<and> key_file d = k
      \<and> sni_locations d = names \<and> default_sni d = dname"
    and "\<not> ready d \<Longrightarrow> sni_locations d = [] \<and> reason d \<noteq> No_Reason"
  unfolding assms deployment_from_def by (auto simp: unready_def split: if_splits option.splits)

text \<open>
  C37. Whatever the environment holds, the deployment that is read from it is ready only when it is complete:
  the application port and the listen port are the same number, the public host and port, the network and
  both TLS files are named, the two files exist, and the map of names is an object with entries. Its table then
  is exactly that map: one entry for each, the normalised name with the location it stands for; names and
  locations are unique, every name is a DNS name, and the default name stands for no location. A deployment
  that is not ready names a reason and has no table.
\<close>

theorem deployment_sound:
  "let d = deployment_of idna loads is_file env in
    (ready d \<longrightarrow> parse_int (env_text env ''RAILWAY_TCP_APPLICATION_PORT'') = Some (listen_port d)
      \<and> parse_int (env_text env ''VLESS_TCP_LISTEN_PORT'') = Some (listen_port d) \<and> 1 \<le> listen_port d \<and> listen_port d \<le> 65535
      \<and> parse_int (env_text env ''RAILWAY_TCP_PROXY_PORT'') = Some (public_port d) \<and> 1 \<le> public_port d \<and> public_port d \<le> 65535
      \<and> public_host d = env_text env ''RAILWAY_TCP_PROXY_DOMAIN'' \<and> public_host d \<noteq> [] \<and> listen_host d \<noteq> []
      \<and> uri_network d = lower (env_text env ''VLESS_TCP_URI_NETWORK'') \<and> uri_network d \<in> {''tcp'', ''raw''}
      \<and> cert_file d = env_text env ''VLESS_TCP_TLS_CERT_FILE'' \<and> cert_file d \<noteq> [] \<and> is_file (cert_file d)
      \<and> key_file d = env_text env ''VLESS_TCP_TLS_KEY_FILE'' \<and> key_file d \<noteq> [] \<and> is_file (key_file d)
      \<and> normalize_sni idna (env_text env ''VLESS_TCP_DEFAULT_SNI'') = Inr (default_sni d)
      \<and> map_of (sni_locations d) (default_sni d) = Some []
      \<and> (\<exists>entries. loads (env_text env ''VLESS_TCP_SNI_MAP'') = Some (JObj entries) \<and> entries \<noteq> []
          \<and> list_all2 (\<lambda>(raw, j) (name, l). normalize_sni idna raw = Inr name \<and> l = safe_location_id (text_or_empty j))
              entries (sni_locations d)))
    \<and> (\<not> ready d \<longrightarrow> sni_locations d = [] \<and> reason d \<noteq> No_Reason)
    \<and> distinct (map fst (sni_locations d)) \<and> distinct (filter (\<lambda>l. l \<noteq> []) (map snd (sni_locations d)))
    \<and> list_all (\<lambda>(name, l). dns_name name \<and> ip_address name = None) (sni_locations d)"
proof -
  define d where "d = deployment_of idna loads is_file env"
  have ok: "deployment_ok idna d" unfolding d_def by (rule deployment_of_ok)
  note r = deployment_from_ready[OF d_def[unfolded deployment_of_def env_text_def[symmetric]]]
  have names: "distinct (map fst (sni_locations d)) \<and> distinct (filter (\<lambda>l. l \<noteq> []) (map snd (sni_locations d)))
      \<and> list_all (\<lambda>(name, l). dns_name name \<and> ip_address name = None) (sni_locations d)"
    using ok by (auto simp: deployment_ok_def list_all_iff)
  show ?thesis unfolding d_def[symmetric] Let_def
  proof (intro conjI impI)
    assume rd: "ready d"
    obtain p q names dname where x: "positive_port (env ''RAILWAY_TCP_APPLICATION_PORT'') = Some p"
        "positive_port (env ''VLESS_TCP_LISTEN_PORT'') = Some p" "positive_port (env ''RAILWAY_TCP_PROXY_PORT'') = Some q"
      and t: "sni_table idna (loads (env_text env ''VLESS_TCP_SNI_MAP'')) (env_text env ''VLESS_TCP_DEFAULT_SNI'') = Some (names, dname)"
      and f: "listen_port d = p" "public_port d = q" "sni_locations d = names" "default_sni d = dname"
      and v: "public_host d = env_text env ''RAILWAY_TCP_PROXY_DOMAIN''" "public_host d \<noteq> []"
        "uri_network d = lower (env_text env ''VLESS_TCP_URI_NETWORK'')" "uri_network d \<in> {''tcp'', ''raw''}"
        "cert_file d = env_text env ''VLESS_TCP_TLS_CERT_FILE''" "cert_file d \<noteq> []" "is_file (cert_file d)"
        "key_file d = env_text env ''VLESS_TCP_TLS_KEY_FILE''" "key_file d \<noteq> []" "is_file (key_file d)"
      using r(1)[OF rd] by auto
    note ports = positive_port_text[where env = env and k = "''RAILWAY_TCP_APPLICATION_PORT''", OF x(1)]
      positive_port_text[where env = env and k = "''VLESS_TCP_LISTEN_PORT''", OF x(2)]
      positive_port_text[where env = env and k = "''RAILWAY_TCP_PROXY_PORT''", OF x(3)]
    note table = sni_table_cases[OF t]
    show "parse_int (env_text env ''RAILWAY_TCP_APPLICATION_PORT'') = Some (listen_port d)"
      "parse_int (env_text env ''VLESS_TCP_LISTEN_PORT'') = Some (listen_port d)" "1 \<le> listen_port d" "listen_port d \<le> 65535"
      "parse_int (env_text env ''RAILWAY_TCP_PROXY_PORT'') = Some (public_port d)" "1 \<le> public_port d" "public_port d \<le> 65535"
      using ports f by auto
    show "public_host d = env_text env ''RAILWAY_TCP_PROXY_DOMAIN''" "public_host d \<noteq> []"
        "uri_network d = lower (env_text env ''VLESS_TCP_URI_NETWORK'')" "uri_network d \<in> {''tcp'', ''raw''}"
        "cert_file d = env_text env ''VLESS_TCP_TLS_CERT_FILE''" "cert_file d \<noteq> []" "is_file (cert_file d)"
        "key_file d = env_text env ''VLESS_TCP_TLS_KEY_FILE''" "key_file d \<noteq> []" "is_file (key_file d)"
      by (fact v)+
    show "listen_host d \<noteq> []" "map_of (sni_locations d) (default_sni d) = Some []"
      using ok rd by (auto simp: deployment_ok_def)
    show "normalize_sni idna (env_text env ''VLESS_TCP_DEFAULT_SNI'') = Inr (default_sni d)"
      "\<exists>entries. loads (env_text env ''VLESS_TCP_SNI_MAP'') = Some (JObj entries) \<and> entries \<noteq> []
          \<and> list_all2 (\<lambda>(raw, j) (name, l). normalize_sni idna raw = Inr name \<and> l = safe_location_id (text_or_empty j))
              entries (sni_locations d)" using table f by auto
  qed (use names r(2) in blast)+
qed

lemma normalize_sni_again:
  assumes "dns_name n" "ip_address n = None" "\<not> ipv4_shape n"
  shows "normalize_sni idna n = Inr n"
  using normalize_name [OF assms(1)] assms by (simp add: normalize_sni_def)

lemma deployment_entry:
  assumes "deployment_ok idna d" "(name, l) \<in> set (sni_locations d)"
  shows "dns_name name \<and> ip_address name = None \<and> safe_location_id l = l \<and> map_of (sni_locations d) name = Some l"
  using assms by (auto simp: deployment_ok_def list_all_iff)

text \<open>
  The name that is handed out for a location leads back to that location: the listener maps
  the TLS name of the endpoint to the very location it was made for. (A name in the shape of
  four numbers is the exception of the normaliser.)
\<close>

theorem endpoint_round_trip:
  assumes "d = deployment_of idna loads is_file env"
    and "endpoint_for_location d location_id = Inr (host, port, name)"
    and "\<not> ipv4_shape name"
  shows "location_for_sni idna d name = Some (safe_location_id location_id)"
proof -
  have ok: "deployment_ok idna d" using assms(1) deployment_of_ok by simp
  have r: "ready d" "sni_locations d \<noteq> []" using assms(2) by (auto simp: endpoint_for_location_def split: if_splits)
  have "(name, safe_location_id location_id) \<in> set (sni_locations d)"
  proof (cases "safe_location_id location_id = []")
    case True
    then have "name = default_sni d" using assms(2) r by (simp add: endpoint_for_location_def)
    then show ?thesis using True ok r by (auto simp: deployment_ok_def map_of_values)
  next
    case False
    then obtain l where "filter (\<lambda>(name, l). l = safe_location_id location_id) (sni_locations d) = [(name, l)]"
      using assms(2) r by (auto simp: endpoint_for_location_def Let_def split: list.splits)
    then have "(name, l) \<in> set (filter (\<lambda>(name, l). l = safe_location_id location_id) (sni_locations d))" by simp
    then show ?thesis by auto
  qed
  from deployment_entry [OF ok this] have "normalize_sni idna name = Inr name"
    "map_of (sni_locations d) name = Some (safe_location_id location_id)"
    using assms(3) normalize_sni_again by auto
  with r show ?thesis by (simp add: location_for_sni_def)
qed

definition sample_env :: environ where
  "sample_env = map_of [(''RAILWAY_TCP_APPLICATION_PORT'', ''4433''), (''VLESS_TCP_LISTEN_PORT'', ''4433''),
     (''RAILWAY_TCP_PROXY_PORT'', ''31000''), (''RAILWAY_TCP_PROXY_DOMAIN'', ''tcp.example.net''),
     (''VLESS_TCP_URI_NETWORK'', ''tcp''), (''VLESS_TCP_TLS_CERT_FILE'', ''c''), (''VLESS_TCP_TLS_KEY_FILE'', ''k''),
     (''VLESS_TCP_DEFAULT_SNI'', ''a.io''), (''VLESS_TCP_SNI_MAP'', ''m'')]"

definition sample_map :: json where
  "sample_map = JObj [(''a.io'', JStr []), (''de.a.io'', JStr ''de'')]"

lemma deployment_sound_witness:
  "let d = deployment_of (\<lambda>s. None) (\<lambda>s. Some sample_map) (\<lambda>p. p \<in> {''c'', ''k''}) sample_env in
    ready d \<and> listen_port d = 4433 \<and> cert_file d = ''c'' \<and> length (sni_locations d) = 2"
proof -
  let ?d = "deployment_of (\<lambda>s. None) (\<lambda>s. Some sample_map) (\<lambda>p. p \<in> {''c'', ''k''}) sample_env"
  have "ready ?d" by code_simp
  moreover have "parse_int (env_text sample_env ''VLESS_TCP_LISTEN_PORT'') = Some 4433"
      "env_text sample_env ''VLESS_TCP_TLS_CERT_FILE'' = ''c''" by code_simp+
  ultimately show ?thesis
    using deployment_sound[of "\<lambda>s. None" "\<lambda>s. Some sample_map" "\<lambda>p. p \<in> {''c'', ''k''}" sample_env]
    by (auto simp: Let_def sample_map_def dest!: list_all2_lengthD)
qed

lemma endpoint_round_trip_witness:
  "location_for_sni (\<lambda>s. None) (deployment_of (\<lambda>s. None) (\<lambda>s. Some sample_map) (\<lambda>p. True) sample_env) ''de.a.io''
     = Some ''de''"
proof -
  have e: "endpoint_for_location (deployment_of (\<lambda>s. None) (\<lambda>s. Some sample_map) (\<lambda>p. True) sample_env) ''de''
      = Inr (''tcp.example.net'', 31000, ''de.a.io'')" by code_simp
  have s: "\<not> ipv4_shape ''de.a.io''" "safe_location_id ''de'' = ''de''" by code_simp+
  from endpoint_round_trip [OF refl e s(1)] s(2) show ?thesis by simp
qed

section \<open>Admission\<close>

datatype listener_event = Ev_Start | Ev_Sni nat string | Ev_Accept nat nat bool | Ev_End nat | Ev_Stop

inductive listener_step :: "(string \<Rightarrow> string option) \<Rightarrow> deployment \<Rightarrow> listener \<Rightarrow> listener_event \<Rightarrow> listener \<Rightarrow> bool"
  for idna :: "string \<Rightarrow> string option" and d :: deployment where
  start: "listener_step idna d l Ev_Start (listener_start d bound l)"
| sni: "listener_step idna d l (Ev_Sni ssl name) (remember_sni ssl name l)"
| accept: "task \<notin> tasks l \<Longrightarrow> listener_step idna d l (Ev_Accept task ssl granted) (snd (accept_begin idna d task ssl granted l))"
| finish: "task \<in> tasks l \<Longrightarrow> listener_step idna d l (Ev_End task) (accept_end task l)"
| stop: "listener_step idna d l Ev_Stop (listener_stop l)"

inductive_cases listener_stepE: "listener_step idna d l e l'"

definition slots_ok :: "environ \<Rightarrow> listener \<Rightarrow> bool" where
  "slots_ok env l \<longleftrightarrow> finite (admitted l) \<and> admitted l \<subseteq> tasks l
     \<and> int (free_slots l + card (admitted l)) = connection_limit env"

lemma connection_limit_range: "1 \<le> connection_limit env \<and> connection_limit env \<le> 1024"
  by (auto simp: connection_limit_def split: option.split)

lemma slots_new: "l = new_listener env \<Longrightarrow> slots_ok env l"
  using connection_limit_range [of env] by (simp add: slots_ok_def new_listener_def)

lemma slots_begin: "slots_ok env l \<Longrightarrow> task \<notin> tasks l \<Longrightarrow> slots_ok env (snd (accept_begin idna d task ssl granted l))"
  by (cases "free_slots l"; cases "task \<in> admitted l")
     (auto simp: slots_ok_def accept_begin_def Let_def split: option.split)

lemma slots_end: "slots_ok env l \<Longrightarrow> slots_ok env (accept_end task l)"
  using card_Suc_Diff1 [of "admitted l" task]
  by (cases "task \<in> admitted l") (auto simp: slots_ok_def accept_end_def simp del: card_Diff_insert card_Diff_singleton)

lemma slots_step: "slots_ok env l \<Longrightarrow> listener_step idna d l e l' \<Longrightarrow> slots_ok env l'"
  by (erule listener_stepE)
     (auto simp: slots_begin slots_end listener_start_def remember_sni_def listener_stop_def
       split: option.split, auto simp: slots_ok_def)

interpretation raw: step_machine "\<lambda>l. l = new_listener env" "listener_step idna d" "slots_ok env"
  for env idna d
  by unfold_locales (auto intro: slots_new slots_step)

text \<open>
  In every reachable state of the listener the connections that hold an admission slot are
  open ones, and their number together with the free slots is the configured limit: no slot
  is lost or handed out twice, whatever the order of accepts, ends and stops.
\<close>

theorem admission_conserved:
  assumes "reaches (\<lambda>l. l = new_listener env) (listener_step idna d) l"
  shows "admitted l \<subseteq> tasks l \<and> int (free_slots l + card (admitted l)) = connection_limit env
    \<and> int (card (admitted l)) \<le> 1024"
  using raw.reaches_inv [OF assms] connection_limit_range [of env] by (auto simp: slots_ok_def)

lemma admission_conserved_witness:
  "int (card (admitted (snd (accept_begin (\<lambda>s. None) (unready Not_Configured) 1 7 True (new_listener (\<lambda>k. None)))))) \<le> 1024"
proof -
  have "reaches (\<lambda>l. l = new_listener (\<lambda>k. None)) (listener_step (\<lambda>s. None) (unready Not_Configured))
      (snd (accept_begin (\<lambda>s. None) (unready Not_Configured) 1 7 True (new_listener (\<lambda>k. None))))"
    by (rule reaches.next_step, rule reaches.init, rule refl, rule listener_step.accept) (simp add: new_listener_def)
  from admission_conserved [OF this] show ?thesis by simp
qed

text \<open>
  A connection that is turned away because no slot is free leaves its TLS name behind. When
  the identity of its TLS object is used again by a connection that sends no name, that
  connection is tunnelled to the location of the earlier one.
\<close>

theorem stale_sni_reused:
  assumes "d = deployment_of (\<lambda>s. None) (\<lambda>s. Some sample_map) (\<lambda>p. True) sample_env"
    and "l = accept_end 1 (snd (accept_begin (\<lambda>s. None) d 1 7 False
              (remember_sni 7 ''de.a.io'' (new_listener sample_env))))"
  shows "fst (accept_begin (\<lambda>s. None) d 2 7 True l) = Tunnel ''de'' ''de.a.io''"
proof -
  have loc: "location_for_sni (\<lambda>s. None) d ''de.a.io'' = Some ''de''" unfolding assms(1) by code_simp
  have "nat (connection_limit sample_env) \<noteq> 0" using connection_limit_range [of sample_env] by linarith
  then show ?thesis
    unfolding assms(2) by (simp add: accept_begin_def accept_end_def remember_sni_def new_listener_def loc)
qed

lemma stale_sni_reused_witness:
  "\<exists>d l. fst (accept_begin (\<lambda>s. None) d 2 7 True l) = Tunnel ''de'' ''de.a.io''"
  using stale_sni_reused [OF refl refl] by blast

end
