(* ===== verification/Transports.thy ===== *)
theory Transports
  imports Raw_Tcp
begin

text \<open>
  \<open>transports.py\<close>: the adapters, the registry and what each operation of the registry accepts.
  The Raw TCP adapter asks the deployment and the listener of \<open>Raw_Tcp\<close>, which is why the
  operations take an \<open>ingress\<close>: the pair of both.
\<close>

datatype adapter_kind = Plain_Adapter | Raw_Adapter

record adapter =
  aid :: string
  akind :: adapter_kind
  alabel :: string
  native :: bool
  default_alpn :: string

record ingress =
  depl :: deployment
  lst :: listener

datatype transport_error =
    Unknown_Transport string
  | Not_Supported string
  | Settings_Not_Object string
  | Settings_Not_Supported string
  | Security_Not_Tls string
  | No_Serializer string
  | Endpoint_Managed
  | Port_Managed
  | Endpoint_Failed endpoint_error

definition TRANSPORTS :: "adapter list" where
  "TRANSPORTS =
    [\<lparr>aid = ''vless-ws'', akind = Plain_Adapter, alabel = ''VLESS / WebSocket Turbo'', native = True, default_alpn = ''http/1.1''\<rparr>,
     \<lparr>aid = ''vless-tcp'', akind = Raw_Adapter, alabel = ''VLESS / Raw TCP'', native = False, default_alpn = []\<rparr>,
     \<lparr>aid = ''vless-grpc'', akind = Plain_Adapter, alabel = ''gRPC'', native = False, default_alpn = ''http/1.1''\<rparr>,
     \<lparr>aid = ''vless-kcp'', akind = Plain_Adapter, alabel = ''KCP'', native = False, default_alpn = ''http/1.1''\<rparr>,
     \<lparr>aid = ''vless-httpupgrade'', akind = Plain_Adapter, alabel = ''HTTPUpgrade'', native = False, default_alpn = ''http/1.1''\<rparr>]"

definition adapter_available :: "ingress \<Rightarrow> adapter \<Rightarrow> bool" where
  "adapter_available i a = (case akind a of
     Plain_Adapter \<Rightarrow> native a | Raw_Adapter \<Rightarrow> fst (availability (depl i) (lst i)))"

definition require_available :: "ingress \<Rightarrow> adapter \<Rightarrow> transport_error + unit" where
  "require_available i a = (if adapter_available i a then Inr () else Inl (Not_Supported (aid a)))"

definition validate_settings :: "adapter \<Rightarrow> json \<Rightarrow> transport_error + body" where
  "validate_settings a value = (case value of
     JNull \<Rightarrow> Inr []
   | JObj [] \<Rightarrow> Inr []
   | JObj _ \<Rightarrow> Inl (Settings_Not_Supported (aid a))
   | _ \<Rightarrow> Inl (case akind a of Plain_Adapter \<Rightarrow> Settings_Not_Object (aid a)
                          | Raw_Adapter \<Rightarrow> Settings_Not_Supported (aid a)))"

definition adapter_security :: "adapter \<Rightarrow> json \<Rightarrow> transport_error + string" where
  "adapter_security a value = (let security = lower (strip (if value = JNull then ''tls'' else py_str value)) in
     if security \<noteq> ''tls'' then Inl (Security_Not_Tls (aid a)) else Inr security)"

definition adapter_parameters :: "ingress \<Rightarrow> adapter \<Rightarrow> string \<Rightarrow> string \<Rightarrow> string \<Rightarrow>
    transport_error + (string, string) dict" where
  "adapter_parameters i a uuid transport_host location_id =
     and_then (require_available i a) (\<lambda>_.
       case akind a of
         Raw_Adapter \<Rightarrow> Inr [(''type'', uri_network (depl i))]
       | Plain_Adapter \<Rightarrow>
          (if aid a \<noteq> ''vless-ws'' then Inl (No_Serializer (aid a))
           else (let loc = safe_location_id location_id;
                     path = ''/ws/'' @ uuid @ ''?ed=4096'' @ (if loc = [] then [] else ''&loc='' @ loc)
                 in Inr [(''type'', ''ws''), (''host'', transport_host), (''path'', path)])))"

definition adapter_endpoint :: "ingress \<Rightarrow> string \<Rightarrow> int option \<Rightarrow> string \<Rightarrow> string \<Rightarrow>
    transport_error + string \<times> int \<times> string" where
  "adapter_endpoint i address port sni location_id =
     (if strip address \<noteq> [] \<or> strip sni \<noteq> [] then Inl Endpoint_Managed
      else if port \<noteq> None \<and> port \<noteq> Some 443 then Inl Port_Managed
      else (case endpoint_for_location (depl i) location_id of
          Inl e \<Rightarrow> Inl (Endpoint_Failed e) | Inr r \<Rightarrow> Inr r))"

section \<open>The registry\<close>

definition get_adapter :: "string \<Rightarrow> transport_error + adapter" where
  "get_adapter transport_id = (let value = strip transport_id in
     case find (\<lambda>a. aid a = value) TRANSPORTS of
       None \<Rightarrow> Inl (Unknown_Transport value) | Some a \<Rightarrow> Inr a)"

definition transport_validate :: "ingress \<Rightarrow> string \<Rightarrow> json \<Rightarrow> transport_error + string \<times> body" where
  "transport_validate i transport_id settings =
     and_then (get_adapter transport_id) (\<lambda>a.
     and_then (require_available i a) (\<lambda>_.
     and_then (validate_settings a settings) (\<lambda>s. Inr (aid a, s))))"

definition is_available :: "ingress \<Rightarrow> string \<Rightarrow> bool" where
  "is_available i transport_id = (case get_adapter transport_id of
     Inl e \<Rightarrow> False | Inr a \<Rightarrow> adapter_available i a)"

definition validate_security :: "ingress \<Rightarrow> string \<Rightarrow> json \<Rightarrow> transport_error + string" where
  "validate_security i transport_id value =
     and_then (get_adapter transport_id) (\<lambda>a.
     and_then (require_available i a) (\<lambda>_. adapter_security a value))"

definition vless_parameters :: "ingress \<Rightarrow> string \<Rightarrow> string \<Rightarrow> string \<Rightarrow> string \<Rightarrow> json \<Rightarrow>
    transport_error + (string, string) dict" where
  "vless_parameters i transport_id uuid transport_host location_id settings =
     and_then (get_adapter transport_id) (\<lambda>a.
     and_then (require_available i a) (\<lambda>_.
     and_then (validate_settings a settings) (\<lambda>_.
       adapter_parameters i a uuid transport_host location_id)))"

definition transport_endpoint :: "ingress \<Rightarrow> string \<Rightarrow> string \<Rightarrow> int option \<Rightarrow> string \<Rightarrow> string \<Rightarrow>
    transport_error + (string \<times> int \<times> string) option" where
  "transport_endpoint i transport_id address port sni location_id =
     and_then (get_adapter transport_id) (\<lambda>a.
       case akind a of
         Plain_Adapter \<Rightarrow> Inr None
       | Raw_Adapter \<Rightarrow> and_then (require_available i a) (\<lambda>_.
           and_then (adapter_endpoint i address port sni location_id) (\<lambda>r. Inr (Some r))))"

record capability =
  cap_id :: string
  cap_label :: string
  cap_available :: bool
  cap_blocked :: bool

definition capabilities :: "ingress \<Rightarrow> capability list" where
  "capabilities i = map (\<lambda>a. \<lparr>cap_id = aid a, cap_label = alabel a, cap_available = adapter_available i a,
     cap_blocked = (akind a = Raw_Adapter \<and> \<not> adapter_available i a)\<rparr>) TRANSPORTS"

section \<open>Only runnable transports pass\<close>

lemma get_adapter_cases:
  assumes "get_adapter t = Inr a"
  shows "a \<in> set TRANSPORTS \<and> aid a = strip t"
  using assms by (auto simp: get_adapter_def Let_def find_Some_iff split: option.splits)

lemma require_available_Inr [simp]: "require_available i a = Inr u \<longleftrightarrow> adapter_available i a"
  by (simp add: require_available_def)

lemma adapter_available_cases:
  assumes "a \<in> set TRANSPORTS" "adapter_available i a"
  shows "aid a = ''vless-ws'' \<and> akind a = Plain_Adapter
    \<or> aid a = ''vless-tcp'' \<and> akind a = Raw_Adapter \<and> ready (depl i) \<and> running (lst i)"
  using assms by (auto simp: TRANSPORTS_def adapter_available_def availability_def split: if_splits)

text \<open>
  A transport that passes validation can run: it is the WebSocket transport, or Raw TCP with
  a ready deployment and a running listener; its settings are empty and the result is the
  transport's identifier. Everything else is refused before it can be stored.
\<close>

theorem validate_only_runnable:
  assumes "transport_validate i transport_id settings = Inr (protocol, s)"
  shows "protocol = strip transport_id \<and> s = [] \<and> is_available i transport_id
    \<and> (protocol = ''vless-ws'' \<or> protocol = ''vless-tcp'' \<and> ready (depl i) \<and> running (lst i))"
proof -
  from assms obtain a where a: "get_adapter transport_id = Inr a" "adapter_available i a"
    and s: "validate_settings a settings = Inr s" and p: "protocol = aid a"
    by (auto simp: transport_validate_def and_then_Inr)
  have "s = []" using s by (auto simp: validate_settings_def split: json.splits list.splits)
  then show ?thesis
    using a p get_adapter_cases [OF a(1)] adapter_available_cases [of a i] by (auto simp: is_available_def)
qed

lemma validate_only_runnable_witness:
  "is_available \<lparr>depl = unready Not_Configured, lst = new_listener (\<lambda>k. None)\<rparr> '' vless-ws''"
proof -
  have "transport_validate \<lparr>depl = unready Not_Configured, lst = new_listener (\<lambda>k. None)\<rparr> '' vless-ws'' JNull
      = Inr (''vless-ws'', [])" by code_simp
  from validate_only_runnable [OF this] show ?thesis by simp
qed

text \<open>
  A link address is emitted only for a transport that can run, and a WebSocket path carries the
  identity of the configuration and the sanitised location, nothing else.
\<close>

theorem parameters_only_runnable:
  assumes "vless_parameters i transport_id uuid host loc settings = Inr ps"
  shows "is_available i transport_id
    \<and> (ps = [(''type'', uri_network (depl i))] \<and> ready (depl i) \<and> running (lst i)
       \<or> ps = [(''type'', ''ws''), (''host'', host),
               (''path'', ''/ws/'' @ uuid @ ''?ed=4096''
                  @ (if safe_location_id loc = [] then [] else ''&loc='' @ safe_location_id loc))])"
proof -
  from assms obtain a where a: "get_adapter transport_id = Inr a" "adapter_available i a"
    and p: "adapter_parameters i a uuid host loc = Inr ps"
    by (auto simp: vless_parameters_def and_then_Inr)
  show ?thesis
    using a p adapter_available_cases [of a i] get_adapter_cases [OF a(1)]
    by (auto simp: is_available_def adapter_parameters_def and_then_Inr Let_def split: adapter_kind.splits if_splits)
qed

lemma parameters_only_runnable_witness:
  "is_available \<lparr>depl = unready Not_Configured, lst = new_listener (\<lambda>k. None)\<rparr> ''vless-ws''"
proof -
  have "vless_parameters \<lparr>depl = unready Not_Configured, lst = new_listener (\<lambda>k. None)\<rparr> ''vless-ws'' ''u'' ''h'' ''de'' JNull
      = Inr [(''type'', ''ws''), (''host'', ''h''), (''path'', ''/ws/u?ed=4096&loc=de'')]" by code_simp
  from parameters_only_runnable [OF this] show ?thesis by simp
qed

end
