(* ===== verification/Proxy_Url.thy ===== *)
theory Proxy_Url
  imports Net_Address
begin

text \<open>
  What the program uses of \<open>urllib.parse\<close> (\<open>urlsplit\<close>, the host, port and user of the authority,
  \<open>unquote\<close>) and \<open>validate_url\<close> of \<open>proxy_repository.py\<close>, which reduces a proxy address to scheme
  and authority. Validation is shown to be idempotent and to keep a host and a port.
\<close>

section \<open>Splitting a URL\<close>

record url =
  scheme :: string
  netloc :: string
  path :: string
  query :: string
  fragment :: string

definition scheme_char :: "char \<Rightarrow> bool" where
  "scheme_char c \<longleftrightarrow> is_ascii_letter c \<or> is_decimal c \<or> c \<in> set ''+-.''"

definition url_clean :: "string \<Rightarrow> string" where
  "url_clean u = filter (\<lambda>c. ord c \<notin> {9, 10, 13}) (dropWhile (\<lambda>c. ord c \<le> 32) u)"

definition split_scheme :: "string \<Rightarrow> string \<times> string" where
  "split_scheme u = (let s = before CHR '':'' u in
     if CHR '':'' \<in> set u \<and> s \<noteq> [] \<and> is_ascii_letter (hd s) \<and> list_all scheme_char s
     then (lower s, after CHR '':'' u) else ([], u))"

definition netloc_end :: "char \<Rightarrow> bool" where
  "netloc_end c \<longleftrightarrow> c = CHR ''/'' \<or> c = CHR ''?'' \<or> c = CHR ''#''"

definition after_at :: "string \<Rightarrow> string" where
  "after_at n = after_last CHR ''@'' n"

definition bracketed_host_ok :: "string \<Rightarrow> bool" where
  "bracketed_host_ok h =
     (if starts_with ''v'' h
      then (let hex = takeWhile is_hex (tl h); rest = dropWhile is_hex (tl h)
            in hex \<noteq> [] \<and> 2 \<le> length rest \<and> hd rest = CHR ''.'' \<and> CHR 0x0A \<notin> set rest)
      else (case ip_address h of Some a \<Rightarrow> is_v6 a | None \<Rightarrow> False))"

definition netloc_ok :: "string \<Rightarrow> bool" where
  "netloc_ok n =
     (if CHR ''['' \<in> set n \<longleftrightarrow> CHR '']'' \<in> set n
      then (if CHR ''['' \<in> set n
            then (let hp = after_at n in
                  if CHR ''['' \<in> set hp
                  then (let br = after CHR ''['' hp; port = after CHR '']'' br in
                        before CHR ''['' hp = [] \<and> (port = [] \<or> hd port = CHR '':'')
                        \<and> bracketed_host_ok (before CHR '']'' br))
                  else bracketed_host_ok (before CHR '':'' hp))
            else True)
      else False)"

definition urlsplit :: "string \<Rightarrow> url option" where
  "urlsplit u =
    (let (s, r) = split_scheme (url_clean u);
         has = starts_with ''//'' r;
         n = (if has then takeWhile (\<lambda>c. \<not> netloc_end c) (drop 2 r) else []);
         r2 = (if has then dropWhile (\<lambda>c. \<not> netloc_end c) (drop 2 r) else r);
         frag = (if CHR ''#'' \<in> set r2 then after CHR ''#'' r2 else []);
         r3 = before CHR ''#'' r2;
         q = (if CHR ''?'' \<in> set r3 then after CHR ''?'' r3 else [])
     in if has \<and> \<not> netloc_ok n then None
        else Some \<lparr>scheme = s, netloc = n, path = before CHR ''?'' r3, query = q, fragment = frag\<rparr>)"

text \<open>\<open>_hostinfo\<close>: the host and the text of the port (\<open>None\<close> when there is none).\<close>

definition hostinfo :: "string \<Rightarrow> string \<times> string option" where
  "hostinfo n = (let hi = after_at n;
     (host, port) =
       (if CHR ''['' \<in> set hi
        then (let br = after CHR ''['' hi in (before CHR '']'' br, after CHR '':'' (after CHR '']'' br)))
        else (before CHR '':'' hi, after CHR '':'' hi))
     in (host, if port = [] then None else Some port))"

definition hostname :: "string \<Rightarrow> string option" where
  "hostname n = (let h = fst (hostinfo n) in
     if h = [] then None
     else if CHR ''%'' \<in> set h then Some (lower (before CHR ''%'' h) @ ''%'' @ after CHR ''%'' h)
     else Some (lower h))"

text \<open>\<open>.port\<close>: \<open>Inl ()\<close> is its ValueError.\<close>

definition port_of :: "string \<Rightarrow> unit + nat option" where
  "port_of n = (case snd (hostinfo n) of
     None \<Rightarrow> Inr None
   | Some p \<Rightarrow> if list_all is_decimal p \<and> digits_val p \<le> 65535 then Inr (Some (digits_val p)) else Inl ())"

definition userinfo :: "string \<Rightarrow> string option \<times> string option" where
  "userinfo n =
     (if CHR ''@'' \<in> set n
      then (let u = before_last CHR ''@'' n in
            (Some (before CHR '':'' u), if CHR '':'' \<in> set u then Some (after CHR '':'' u) else None))
      else (None, None))"

section \<open>The validator\<close>

datatype url_error = Bad_Url | Bad_Scheme | No_Host | Invalid_Port | Port_Range | Path_Or_Query

definition ALLOWED_SCHEMES :: "string list" where
  "ALLOWED_SCHEMES = [''http'', ''https'', ''socks5'']"

definition validate_url :: "string \<Rightarrow> url_error + string" where
  "validate_url value = (case urlsplit (strip (before CHR ''#'' value)) of
     None \<Rightarrow> Inl Bad_Url
   | Some parsed \<Rightarrow>
      if lower (scheme parsed) \<notin> set ALLOWED_SCHEMES then Inl Bad_Scheme
      else if hostname (netloc parsed) = None then Inl No_Host
      else (case port_of (netloc parsed) of
          Inl _ \<Rightarrow> Inl Invalid_Port
        | Inr port \<Rightarrow>
           if port = None \<or> port = Some 0 then Inl Port_Range
           else if (path parsed \<noteq> [] \<and> path parsed \<noteq> ''/'') \<or> query parsed \<noteq> [] then Inl Path_Or_Query
           else Inr (lower (scheme parsed) @ ''://'' @ netloc parsed)))"

text \<open>\<open>unquote\<close> of percent escapes, on the byte values (the UTF-8 decoding above 127 is left out).\<close>

fun unquote :: "string \<Rightarrow> string" where
  "unquote (c # a # b # s) =
     (if c = CHR ''%'' \<and> is_hex a \<and> is_hex b
      then char_of (16 * hex_val a + hex_val b) # unquote s else c # unquote (a # b # s))"
| "unquote s = s"

section \<open>What validation gives\<close>

lemma takeWhile_none: "list_all p s \<Longrightarrow> takeWhile p s = s \<and> dropWhile p s = []"
  by (induction s) auto

lemma after_none: "c \<notin> set s \<Longrightarrow> after c s = [] \<and> before c s = s"
  by (induction s) (auto simp: after_def before_def)

lemma before_prefix: "c \<notin> set u \<Longrightarrow> before c (u @ c # s) = u \<and> after c (u @ c # s) = s"
  by (induction u) (auto simp: after_def before_def)

lemma set_after: "set (after c s) \<subseteq> set s"
proof -
  have "set (tl d) \<subseteq> set d" for d :: string by (cases d) auto
  then show ?thesis unfolding after_def by (meson set_dropWhileD subset_iff)
qed

definition clean_char :: "char \<Rightarrow> bool" where
  "clean_char c \<longleftrightarrow> ord c \<notin> {9, 10, 13}"

lemma urlsplit_netloc:
  assumes "urlsplit u = Some p"
  shows "list_all (\<lambda>c. \<not> netloc_end c \<and> clean_char c) (netloc p) \<and> (netloc p \<noteq> [] \<longrightarrow> netloc_ok (netloc p))"
proof -
  obtain s r where sr: "split_scheme (url_clean u) = (s, r)" by fastforce
  have "set r \<subseteq> set (url_clean u)"
    using sr set_after [of "CHR '':''" "url_clean u"] by (auto simp: split_scheme_def Let_def split: if_splits)
  then have cl: "clean_char c" if "c \<in> set r" for c using that by (auto simp: url_clean_def clean_char_def)
  have "clean_char c \<and> \<not> netloc_end c" if "c \<in> set (takeWhile (\<lambda>c. \<not> netloc_end c) (drop 2 r))" for c
    using that cl by (auto dest!: set_takeWhileD dest: in_set_dropD)
  then show ?thesis using assms sr
    by (auto simp: urlsplit_def Let_def list_all_iff split: if_splits)
qed

lemma allowed_scheme_chars:
  assumes "s \<in> set ALLOWED_SCHEMES"
  shows "split_scheme (s @ CHR '':'' # r) = (s, r) \<and> lower s = s \<and> s \<noteq> [] \<and> list_all clean_char s
    \<and> CHR ''#'' \<notin> set s \<and> 97 \<le> ord (hd s)"
  using assms
  by (auto simp: ALLOWED_SCHEMES_def split_scheme_def before_def after_def is_ascii_letter_def scheme_char_def
      is_decimal_def lower_def lower_char_def clean_char_def)

lemma before_hash: "list_all (\<lambda>c. c \<noteq> CHR ''#'') s \<Longrightarrow> before CHR ''#'' s = s"
  by (auto simp: before_def takeWhile_eq_all_conv list_all_iff)

lemma hostinfo_port_last:
  assumes "port_of n = Inr (Some p)"
  shows "n \<noteq> [] \<and> is_decimal (last n)"
proof -
  obtain t where t: "snd (hostinfo n) = Some t" "list_all is_decimal t"
    using assms by (auto simp: port_of_def split: option.splits if_splits)
  have suf: "\<exists>u. w = u @ after c w" for c :: char and w
  proof -
    have "\<exists>u. d = u @ tl d" for d :: string by (cases d) auto
    then obtain v where "dropWhile (\<lambda>x. x \<noteq> c) w = v @ after c w" unfolding after_def by blast
    then show ?thesis by (metis append_assoc takeWhile_dropWhile_id)
  qed
  have "\<exists>u. n = u @ t"
  proof -
    let ?hi = "after_at n"
    have hi: "\<exists>u. n = u @ ?hi"
      by (metis after_at_def after_last_def before_def rev_append rev_rev_ident takeWhile_dropWhile_id)
    have "t = after CHR '':'' (after CHR '']'' (after CHR ''['' ?hi)) \<or> t = after CHR '':'' ?hi"
      using t(1) by (auto simp: hostinfo_def Let_def split: if_splits)
    then have "\<exists>u. ?hi = u @ t" using suf by (metis append_assoc)
    with hi show ?thesis by (metis append_assoc)
  qed
  moreover have "t \<noteq> []" using t(1) by (auto simp: hostinfo_def Let_def split: if_splits prod.splits)
  ultimately show ?thesis using t(2) by (auto simp: list_all_iff)
qed

lemma validate_url_facts:
  assumes "validate_url value = Inr endpoint"
  shows "validate_url endpoint = Inr endpoint
    \<and> (\<exists>s n h p. endpoint = s @ ''://'' @ n \<and> s \<in> {''http'', ''https'', ''socks5''}
         \<and> hostname n = Some h \<and> port_of n = Inr (Some p) \<and> 1 \<le> p \<and> p \<le> 65535
         \<and> list_all (\<lambda>c. \<not> netloc_end c) n)"
proof -
  obtain parsed port where u: "urlsplit (strip (before CHR ''#'' value)) = Some parsed"
    and s: "lower (scheme parsed) \<in> set ALLOWED_SCHEMES"
    and h: "hostname (netloc parsed) \<noteq> None"
    and p: "port_of (netloc parsed) = Inr (Some port)" "port \<noteq> 0"
    and e: "endpoint = lower (scheme parsed) @ ''://'' @ netloc parsed"
    using assms by (auto simp: validate_url_def simp del: not_None_eq split: option.splits if_splits sum.splits)
  define s where "s = lower (scheme parsed)"
  define n where "n = netloc parsed"
  have sA: "s \<in> set ALLOWED_SCHEMES" using s by (simp add: s_def)
  note sc = allowed_scheme_chars [OF sA]
  have n: "list_all (\<lambda>c. \<not> netloc_end c \<and> clean_char c) n" "netloc_ok n" "n \<noteq> []" "is_decimal (last n)"
    using urlsplit_netloc [OF u] hostinfo_port_last [OF p(1)] by (auto simp: n_def)
  have e': "endpoint = s @ CHR '':'' # CHR ''/'' # CHR ''/'' # n" using e by (simp add: s_def n_def)
  have last: "last endpoint = last n" "endpoint \<noteq> []" using n e' by auto
  have nohash: "before CHR ''#'' endpoint = endpoint"
    using n sc by (intro before_hash) (auto simp: e' list_all_iff netloc_end_def)
  have hd_e: "hd endpoint = hd s" using sc by (simp add: e' hd_append)
  have strip_e: "strip endpoint = endpoint"
  proof -
    have "\<not> is_space (hd endpoint)" using sc sA by (auto simp: hd_e ALLOWED_SCHEMES_def is_space_def)
    then have "dropWhile is_space endpoint = endpoint" using last(2) by (cases endpoint) auto
    moreover have "\<not> is_space (hd (rev endpoint))"
      using n(4) last by (simp add: hd_rev is_decimal_def is_space_def)
    then have "dropWhile is_space (rev endpoint) = rev endpoint"
      using last(2) by (cases "rev endpoint") auto
    ultimately show ?thesis by (simp add: strip_def strip_by_def rstrip_by_def)
  qed
  have clean_e: "url_clean endpoint = endpoint"
  proof -
    have "\<not> ord (hd endpoint) \<le> 32" using sc [of "[]"] by (simp add: hd_e)
    then have "dropWhile (\<lambda>c. ord c \<le> 32) endpoint = endpoint" using last(2) by (cases endpoint) auto
    moreover have "filter (\<lambda>c. ord c \<notin> {9, 10, 13}) endpoint = endpoint"
      using n(1) sc [of "[]"] by (auto simp: filter_id_conv e' list_all_iff clean_char_def)
    ultimately show ?thesis by (simp add: url_clean_def)
  qed
  have tk: "takeWhile (\<lambda>c. \<not> netloc_end c) n = n" "dropWhile (\<lambda>c. \<not> netloc_end c) n = []"
    using n(1) by (auto simp: list_all_iff takeWhile_eq_all_conv)
  have split: "split_scheme endpoint = (s, CHR ''/'' # CHR ''/'' # n)"
    using sc by (simp add: e')
  have us: "urlsplit endpoint = Some \<lparr>scheme = s, netloc = n, path = [], query = [], fragment = []\<rparr>"
    using n(2) by (simp add: urlsplit_def clean_e split tk starts_with_def before_def)
  have v: "validate_url endpoint = Inr endpoint"
    unfolding validate_url_def nohash strip_e us
    using sA sc [of "[]"] h p e' by (simp add: n_def [symmetric])
  moreover have "port \<le> 65535" using p(1) by (auto simp: port_of_def split: option.splits if_splits)
  moreover obtain hh where "hostname n = Some hh" using h by (auto simp: n_def)
  moreover have "list_all (\<lambda>c. \<not> netloc_end c) n" using n(1) by (auto simp: list_all_iff)
  moreover have "s \<in> {''http'', ''https'', ''socks5''}" using sA by (simp add: ALLOWED_SCHEMES_def)
  moreover have "endpoint = s @ ''://'' @ n" using e' by simp
  ultimately show ?thesis using p unfolding n_def [symmetric]
    by (intro conjI exI [of _ s] exI [of _ n] exI [of _ hh] exI [of _ port]) auto
qed

lemma validated_fixed: "validate_url v = Inr e \<Longrightarrow> validate_url e = Inr e"
  using validate_url_facts by blast

text \<open>
  Validating a proxy address twice changes nothing: what is stored is a fixed point, so the
  identity derived from it is stable. It has an allowed scheme, a host and a port from 1 to
  65535, and no path, query or fragment.
\<close>

theorem validate_url_idempotent:
  assumes "validate_url value = Inr endpoint"
  shows "validate_url endpoint = Inr endpoint
    \<and> (\<exists>s n h p. endpoint = s @ ''://'' @ n \<and> s \<in> {''http'', ''https'', ''socks5''}
         \<and> hostname n = Some h \<and> port_of n = Inr (Some p) \<and> 1 \<le> p \<and> p \<le> 65535
         \<and> list_all (\<lambda>c. \<not> netloc_end c) n)"
  using validate_url_facts [OF assms] .

lemma validate_url_idempotent_witness:
  "validate_url ''socks5://me:pw@[2606:4700::1]:1080'' = Inr ''socks5://me:pw@[2606:4700::1]:1080''"
proof -
  have "validate_url '' SOCKS5://me:pw@[2606:4700::1]:1080/#note'' = Inr ''socks5://me:pw@[2606:4700::1]:1080''"
    by code_simp
  from validate_url_idempotent [OF this] show ?thesis by simp
qed

end
