(* ===== verification/Countries.thy ===== *)
theory Countries
  imports Py_Text
begin

text \<open>
  \<open>countries.py\<close>: the assigned ISO 3166-1 codes with their names, the aliases, the flags and the
  normalisation of the country text of a repository line. A flag is the list of its code points.
\<close>

section \<open>Tables\<close>

definition ISO_COUNTRIES :: "(string, string) dict" where
  "ISO_COUNTRIES = [
    (''AD'', ''Andorra''), (''AE'', ''United Arab Emirates''), (''AF'', ''Afghanistan''),
    (''AG'', ''Antigua and Barbuda''), (''AI'', ''Anguilla''), (''AL'', ''Albania''),
    (''AM'', ''Armenia''), (''AO'', ''Angola''), (''AQ'', ''Antarctica''), (''AR'', ''Argentina''),
    (''AS'', ''American Samoa''), (''AT'', ''Austria''), (''AU'', ''Australia''),
    (''AW'', ''Aruba''), (''AX'', [CHR 0xC5] @ ''land Islands''), (''AZ'', ''Azerbaijan''),
    (''BA'', ''Bosnia and Herzegovina''), (''BB'', ''Barbados''), (''BD'', ''Bangladesh''),
    (''BE'', ''Belgium''), (''BF'', ''Burkina Faso''), (''BG'', ''Bulgaria''), (''BH'', ''Bahrain''),
    (''BI'', ''Burundi''), (''BJ'', ''Benin''), (''BL'', ''Saint Barth'' @ [CHR 0xE9] @ ''lemy''),
    (''BM'', ''Bermuda''), (''BN'', ''Brunei''), (''BO'', ''Bolivia''),
    (''BQ'', ''Caribbean Netherlands''), (''BR'', ''Brazil''), (''BS'', ''Bahamas''),
    (''BT'', ''Bhutan''), (''BV'', ''Bouvet Island''), (''BW'', ''Botswana''), (''BY'', ''Belarus''),
    (''BZ'', ''Belize''), (''CA'', ''Canada''), (''CC'', ''Cocos (Keeling) Islands''),
    (''CD'', ''DR Congo''), (''CF'', ''Central African Republic''), (''CG'', ''Congo''),
    (''CH'', ''Switzerland''), (''CI'', ''C'' @ [CHR 0xF4] @ ''te d'' @ [CHR 0x27] @ ''Ivoire''),
    (''CK'', ''Cook Islands''), (''CL'', ''Chile''), (''CM'', ''Cameroon''), (''CN'', ''China''),
    (''CO'', ''Colombia''), (''CR'', ''Costa Rica''), (''CU'', ''Cuba''), (''CV'', ''Cape Verde''),
    (''CW'', ''Cura'' @ [CHR 0xE7] @ ''ao''), (''CX'', ''Christmas Island''), (''CY'', ''Cyprus''),
    (''CZ'', ''Czechia''), (''DE'', ''Germany''), (''DJ'', ''Djibouti''), (''DK'', ''Denmark''),
    (''DM'', ''Dominica''), (''DO'', ''Dominican Republic''), (''DZ'', ''Algeria''),
    (''EC'', ''Ecuador''), (''EE'', ''Estonia''), (''EG'', ''Egypt''), (''EH'', ''Western Sahara''),
    (''ER'', ''Eritrea''), (''ES'', ''Spain''), (''ET'', ''Ethiopia''), (''FI'', ''Finland''),
    (''FJ'', ''Fiji''), (''FK'', ''Falkland Islands''), (''FM'', ''Micronesia''),
    (''FO'', ''Faroe Islands''), (''FR'', ''France''), (''GA'', ''Gabon''),
    (''GB'', ''United Kingdom''), (''GD'', ''Grenada''), (''GE'', ''Georgia''),
    (''GF'', ''French Guiana''), (''GG'', ''Guernsey''), (''GH'', ''Ghana''),
    (''GI'', ''Gibraltar''), (''GL'', ''Greenland''), (''GM'', ''Gambia''), (''GN'', ''Guinea''),
    (''GP'', ''Guadeloupe''), (''GQ'', ''Equatorial Guinea''), (''GR'', ''Greece''),
    (''GS'', ''South Georgia''), (''GT'', ''Guatemala''), (''GU'', ''Guam''),
    (''GW'', ''Guinea-Bissau''), (''GY'', ''Guyana''), (''HK'', ''Hong Kong''),
    (''HM'', ''Heard Island and McDonald Islands''), (''HN'', ''Honduras''), (''HR'', ''Croatia''),
    (''HT'', ''Haiti''), (''HU'', ''Hungary''), (''ID'', ''Indonesia''), (''IE'', ''Ireland''),
    (''IL'', ''Israel''), (''IM'', ''Isle of Man''), (''IN'', ''India''),
    (''IO'', ''British Indian Ocean Territory''), (''IQ'', ''Iraq''), (''IR'', ''Iran''),
    (''IS'', ''Iceland''), (''IT'', ''Italy''), (''JE'', ''Jersey''), (''JM'', ''Jamaica''),
    (''JO'', ''Jordan''), (''JP'', ''Japan''), (''KE'', ''Kenya''), (''KG'', ''Kyrgyzstan''),
    (''KH'', ''Cambodia''), (''KI'', ''Kiribati''), (''KM'', ''Comoros''),
    (''KN'', ''Saint Kitts and Nevis''), (''KP'', ''North Korea''), (''KR'', ''South Korea''),
    (''KW'', ''Kuwait''), (''KY'', ''Cayman Islands''), (''KZ'', ''Kazakhstan''), (''LA'', ''Laos''),
    (''LB'', ''Lebanon''), (''LC'', ''Saint Lucia''), (''LI'', ''Liechtenstein''),
    (''LK'', ''Sri Lanka''), (''LR'', ''Liberia''), (''LS'', ''Lesotho''), (''LT'', ''Lithuania''),
    (''LU'', ''Luxembourg''), (''LV'', ''Latvia''), (''LY'', ''Libya''), (''MA'', ''Morocco''),
    (''MC'', ''Monaco''), (''MD'', ''Moldova''), (''ME'', ''Montenegro''),
    (''MF'', ''Saint Martin''), (''MG'', ''Madagascar''), (''MH'', ''Marshall Islands''),
    (''MK'', ''North Macedonia''), (''ML'', ''Mali''), (''MM'', ''Myanmar''), (''MN'', ''Mongolia''),
    (''MO'', ''Macao''), (''MP'', ''Northern Mariana Islands''), (''MQ'', ''Martinique''),
    (''MR'', ''Mauritania''), (''MS'', ''Montserrat''), (''MT'', ''Malta''), (''MU'', ''Mauritius''),
    (''MV'', ''Maldives''), (''MW'', ''Malawi''), (''MX'', ''Mexico''), (''MY'', ''Malaysia''),
    (''MZ'', ''Mozambique''), (''NA'', ''Namibia''), (''NC'', ''New Caledonia''),
    (''NE'', ''Niger''), (''NF'', ''Norfolk Island''), (''NG'', ''Nigeria''),
    (''NI'', ''Nicaragua''), (''NL'', ''Netherlands''), (''NO'', ''Norway''), (''NP'', ''Nepal''),
    (''NR'', ''Nauru''), (''NU'', ''Niue''), (''NZ'', ''New Zealand''), (''OM'', ''Oman''),
    (''PA'', ''Panama''), (''PE'', ''Peru''), (''PF'', ''French Polynesia''),
    (''PG'', ''Papua New Guinea''), (''PH'', ''Philippines''), (''PK'', ''Pakistan''),
    (''PL'', ''Poland''), (''PM'', ''Saint Pierre and Miquelon''), (''PN'', ''Pitcairn''),
    (''PR'', ''Puerto Rico''), (''PS'', ''Palestine''), (''PT'', ''Portugal''), (''PW'', ''Palau''),
    (''PY'', ''Paraguay''), (''QA'', ''Qatar''), (''RE'', ''R'' @ [CHR 0xE9] @ ''union''),
    (''RO'', ''Romania''), (''RS'', ''Serbia''), (''RU'', ''Russia''), (''RW'', ''Rwanda''),
    (''SA'', ''Saudi Arabia''), (''SB'', ''Solomon Islands''), (''SC'', ''Seychelles''),
    (''SD'', ''Sudan''), (''SE'', ''Sweden''), (''SG'', ''Singapore''), (''SH'', ''Saint Helena''),
    (''SI'', ''Slovenia''), (''SJ'', ''Svalbard and Jan Mayen''), (''SK'', ''Slovakia''),
    (''SL'', ''Sierra Leone''), (''SM'', ''San Marino''), (''SN'', ''Senegal''),
    (''SO'', ''Somalia''), (''SR'', ''Suriname''), (''SS'', ''South Sudan''),
    (''ST'', ''S'' @ [CHR 0xE3] @ ''o Tom'' @ [CHR 0xE9] @ '' and Pr'' @ [CHR 0xED] @ ''ncipe''),
    (''SV'', ''El Salvador''), (''SX'', ''Sint Maarten''), (''SY'', ''Syria''),
    (''SZ'', ''Eswatini''), (''TC'', ''Turks and Caicos Islands''), (''TD'', ''Chad''),
    (''TF'', ''French Southern Territories''), (''TG'', ''Togo''), (''TH'', ''Thailand''),
    (''TJ'', ''Tajikistan''), (''TK'', ''Tokelau''), (''TL'', ''Timor-Leste''),
    (''TM'', ''Turkmenistan''), (''TN'', ''Tunisia''), (''TO'', ''Tonga''), (''TR'', ''Turkey''),
    (''TT'', ''Trinidad and Tobago''), (''TV'', ''Tuvalu''), (''TW'', ''Taiwan''),
    (''TZ'', ''Tanzania''), (''UA'', ''Ukraine''), (''UG'', ''Uganda''),
    (''UM'', ''U.S. Minor Outlying Islands''), (''US'', ''United States''), (''UY'', ''Uruguay''),
    (''UZ'', ''Uzbekistan''), (''VA'', ''Vatican City''),
    (''VC'', ''Saint Vincent and the Grenadines''), (''VE'', ''Venezuela''),
    (''VG'', ''British Virgin Islands''), (''VI'', ''U.S. Virgin Islands''), (''VN'', ''Vietnam''),
    (''VU'', ''Vanuatu''), (''WF'', ''Wallis and Futuna''), (''WS'', ''Samoa''), (''YE'', ''Yemen''),
    (''YT'', ''Mayotte''), (''ZA'', ''South Africa''), (''ZM'', ''Zambia''), (''ZW'', ''Zimbabwe''),
    (''XK'', ''Kosovo'')]"

definition ALIASES :: "(string, string) dict" where
  "ALIASES = [
    (''usa'', ''US''), (''america'', ''US''), (''united states of america'', ''US''),
    (''u.s.'', ''US''), (''u.s.a.'', ''US''), (''us'', ''US''), (''uk'', ''GB''),
    (''great britain'', ''GB''), (''britain'', ''GB''), (''england'', ''GB''), (''u.k.'', ''GB''),
    (''uae'', ''AE''), (''emirates'', ''AE''), (''south korea'', ''KR''), (''korea'', ''KR''),
    (''republic of korea'', ''KR''), (''north korea'', ''KP''), (''russia'', ''RU''),
    (''russian federation'', ''RU''), (''iran'', ''IR''), (''iran (islamic republic of)'', ''IR''),
    (''turkey'', ''TR''), (''turkiye'', ''TR''), (''t'' @ [CHR 0xFC] @ ''rkiye'', ''TR''),
    (''czech republic'', ''CZ''), (''hong kong'', ''HK''), (''hongkong'', ''HK''),
    (''hong kong sar'', ''HK''), (''macau'', ''MO''), (''taiwan'', ''TW''),
    (''taiwan, province of china'', ''TW''), (''chinese taipei'', ''TW''), (''vietnam'', ''VN''),
    (''viet nam'', ''VN''), (''laos'', ''LA''), (''lao pdr'', ''LA''), (''syria'', ''SY''),
    (''syrian arab republic'', ''SY''), (''palestine'', ''PS''), (''state of palestine'', ''PS''),
    (''democratic republic of the congo'', ''CD''), (''drc'', ''CD''), (''congo kinshasa'', ''CD''),
    (''republic of the congo'', ''CG''), (''congo brazzaville'', ''CG''), (''ivory coast'', ''CI''),
    (''cote d'' @ [CHR 0x27] @ ''ivoire'', ''CI''), (''cabo verde'', ''CV''), (''holland'', ''NL''),
    (''the netherlands'', ''NL''), (''vatican'', ''VA''), (''holy see'', ''VA''),
    (''swaziland'', ''SZ''), (''burma'', ''MM''), (''east timor'', ''TL''),
    (''south georgia and the south sandwich islands'', ''GS''), (''brunei darussalam'', ''BN''),
    (''federated states of micronesia'', ''FM''), (''sao tome and principe'', ''ST''),
    (''saint vincent'', ''VC''), (''saint kitts'', ''KN''), (''virgin islands (u.s.)'', ''VI''),
    (''virgin islands (british)'', ''VG''), (''curacao'', ''CW''), (''reunion'', ''RE''),
    (''aland islands'', ''AX''), (''aland'', ''AX'')]"

definition CODE_ALIASES :: "(string, string) dict" where
  "CODE_ALIASES = [(''UK'', ''GB''), (''EL'', ''GR''), (''BU'', ''MM''), (''TP'', ''TL''), (''YU'', ''RS''), (''ZR'', ''CD'')]"

definition casefold_char :: "char \<Rightarrow> string" where
  "casefold_char c = (if ord c = 223 then ''ss'' else [lower_char c])"

definition casefold :: "string \<Rightarrow> string" where
  "casefold s = concat (map casefold_char s)"

text \<open>Built with \<open>setdefault\<close>: the first entry of a name wins.\<close>

definition NAME_TO_CODE :: "(string, string) dict" where
  "NAME_TO_CODE = map (\<lambda>(code, name). (casefold name, code)) ISO_COUNTRIES
     @ filter (\<lambda>(alias, code). map_of ISO_COUNTRIES code \<noteq> None) ALIASES"

section \<open>Operations\<close>

definition code_shape :: "string \<Rightarrow> bool" where
  "code_shape s \<longleftrightarrow> length s = 2 \<and> list_all is_ascii_letter s"

definition is_valid_code :: "string \<Rightarrow> bool" where
  "is_valid_code value \<longleftrightarrow> map_of ISO_COUNTRIES (upper (strip value)) \<noteq> None"

definition country_name :: "string \<Rightarrow> string" where
  "country_name code = (case map_of ISO_COUNTRIES (upper (strip code)) of
     Some name \<Rightarrow> name | None \<Rightarrow> upper (strip code))"

definition UNKNOWN_FLAG :: "nat list" where
  "UNKNOWN_FLAG = [0x1F310]"

definition flag_for :: "string \<Rightarrow> nat list" where
  "flag_for code = (let c = upper (strip code) in
     if \<not> code_shape c then UNKNOWN_FLAG else map (\<lambda>x. 0x1F1E6 + ord x - 65) c)"

definition code_alias :: "string \<Rightarrow> string" where
  "code_alias c = (case map_of CODE_ALIASES c of Some d \<Rightarrow> d | None \<Rightarrow> c)"

text \<open>One of the two readings of a text with a bar: a code and a name.\<close>

definition code_and_name :: "string \<Rightarrow> string \<Rightarrow> (string \<times> string) option" where
  "code_and_name maybe_code maybe_name =
     (if code_shape maybe_code
      then (let code = code_alias (upper maybe_code);
                name = (if maybe_name = [] then country_name code else maybe_name)
            in Some (take 60 name, code))
      else None)"

definition normalize_country_plain :: "string \<Rightarrow> string \<times> string" where
  "normalize_country_plain text =
     (if code_shape text
      then (let code = code_alias (upper text) in (country_name code, code))
      else (case map_of NAME_TO_CODE (casefold text) of
          Some code \<Rightarrow> (country_name code, code)
        | None \<Rightarrow> (take 60 text, [])))"

definition normalize_country :: "string \<Rightarrow> string \<times> string" where
  "normalize_country raw = (let text = strip raw in
     if text = [] then (''Unknown'', [])
     else if CHR ''|'' \<in> set text then
       (let left = strip (before CHR ''|'' text); right = strip (after CHR ''|'' text) in
        case code_and_name left right of
          Some r \<Rightarrow> r
        | None \<Rightarrow> (case code_and_name right left of
            Some r \<Rightarrow> r | None \<Rightarrow> normalize_country_plain text))
     else normalize_country_plain text)"

section \<open>Codes\<close>

lemma upper_letter: "is_ascii_letter c \<Longrightarrow> \<exists>d. upper_char c = [d] \<and> 65 \<le> ord d \<and> ord d \<le> 90"
  by (auto simp: is_ascii_letter_def upper_char_def Let_def)

lemma upper_code:
  assumes "code_shape s"
  shows "length (upper s) = 2 \<and> list_all (\<lambda>c. 65 \<le> ord c \<and> ord c \<le> 90) (upper s)"
proof -
  obtain a b where s: "s = [a, b]" using assms
    by (cases s; cases "tl s") (auto simp: code_shape_def)
  obtain c d where "upper_char a = [c]" "upper_char b = [d]"
    "65 \<le> ord c \<and> ord c \<le> 90" "65 \<le> ord d \<and> ord d \<le> 90"
    using assms upper_letter [of a] upper_letter [of b] s by (auto simp: code_shape_def)
  then show ?thesis by (simp add: s upper_def)
qed

definition upper_code_text :: "string \<Rightarrow> bool" where
  "upper_code_text c \<longleftrightarrow> length c = 2 \<and> list_all (\<lambda>x. 65 \<le> ord x \<and> ord x \<le> 90) c"

lemma code_alias_text: "upper_code_text c \<Longrightarrow> upper_code_text (code_alias c)"
proof -
  assume a: "upper_code_text c"
  have "list_all (\<lambda>(k, v). upper_code_text v) CODE_ALIASES" by code_simp
  then have "map_of CODE_ALIASES c = Some d \<Longrightarrow> upper_code_text d" for d
    by (auto simp: list_all_iff dest!: map_of_SomeD)
  with a show ?thesis by (auto simp: code_alias_def split: option.split)
qed

lemma iso_codes: "list_all (\<lambda>(k, v). upper_code_text k) ISO_COUNTRIES"
  by code_simp

lemma name_codes: "map_of NAME_TO_CODE n = Some c \<Longrightarrow> map_of ISO_COUNTRIES c \<noteq> None"
  by (auto simp: NAME_TO_CODE_def map_add_def map_of_eq_None_iff split: option.splits dest!: map_of_SomeD)
     (force simp: image_iff)

lemma code_and_name_code: "code_and_name a b = Some (n, c) \<Longrightarrow> upper_code_text c"
  using upper_code [of a] code_alias_text [of "upper a"]
  by (auto simp: code_and_name_def Let_def upper_code_text_def split: if_splits)

lemma iso_code_text: "map_of ISO_COUNTRIES c \<noteq> None \<Longrightarrow> upper_code_text c"
proof -
  assume "map_of ISO_COUNTRIES c \<noteq> None"
  then obtain n where "(c, n) \<in> set ISO_COUNTRIES" by (auto dest: map_of_SomeD)
  then show ?thesis using iso_codes by (auto simp only: list_all_iff)
qed

lemma upper_code_text_upper: "code_shape s \<Longrightarrow> upper_code_text (upper s)"
  using upper_code by (simp add: upper_code_text_def)

lemma plain_code:
  assumes "normalize_country_plain s = (n, c)"
  shows "c = [] \<or> upper_code_text c"
proof (cases "code_shape s")
  case True
  then have "c = code_alias (upper s)" using assms by (simp add: normalize_country_plain_def Let_def)
  then show ?thesis using True by (simp add: upper_code_text_upper code_alias_text)
next
  case False
  show ?thesis
  proof (cases "map_of NAME_TO_CODE (casefold s)")
    case None
    then show ?thesis using False assms by (simp add: normalize_country_plain_def)
  next
    case (Some d)
    then have "c = d" using False assms by (simp add: normalize_country_plain_def)
    then show ?thesis using iso_code_text name_codes [OF Some] by simp
  qed
qed

text \<open>
  A normalised country code is empty or two capital letters, so it has a flag of exactly two
  regional-indicator code points.
\<close>

theorem normalize_country_code:
  assumes "normalize_country raw = (name, code)" "code \<noteq> []"
  shows "upper_code_text code \<and> flag_for code = map (\<lambda>x. 0x1F1E6 + (ord x - 65)) code
    \<and> set (flag_for code) \<subseteq> {0x1F1E6..0x1F1FF}"
proof -
  have u: "upper_code_text code"
    using assms code_and_name_code plain_code [of "strip raw" name code]
    by (auto simp: normalize_country_def Let_def split: if_splits option.splits)
  then obtain a b where c: "code = [a, b]" "65 \<le> ord a" "ord a \<le> 90" "65 \<le> ord b" "ord b \<le> 90"
    by (cases code; cases "tl code") (auto simp: upper_code_text_def)
  have st: "strip code = code" using c by (intro strip_no_space) (auto simp: is_space_def)
  have up: "upper code = code" using c by (simp add: upper_def upper_char_def)
  have sh: "code_shape code" using c by (auto simp: code_shape_def is_ascii_letter_def)
  have "flag_for code = map (\<lambda>x. 0x1F1E6 + ord x - 65) code" by (simp add: flag_for_def st up sh)
  then show ?thesis using u c by simp
qed

lemma normalize_country_code_witness: "flag_for ''FI'' = [0x1F1EB, 0x1F1EE]"
proof -
  have "normalize_country ''Finland | fi'' = (''Finland'', ''FI'')" by code_simp
  from normalize_country_code [OF this] show ?thesis by simp
qed

text \<open>
  Two letters that are no assigned code are returned as a code all the same, although the
  function promises an empty code for a value it does not know.
\<close>

theorem unknown_code_invented:
  "normalize_country ''zz'' = (''ZZ'', ''ZZ'') \<and> \<not> is_valid_code ''ZZ''"
proof -
  have "normalize_country ''zz'' = (''ZZ'', ''ZZ'')" by code_simp
  moreover have "\<not> is_valid_code ''ZZ''" by code_simp
  ultimately show ?thesis by simp
qed

end
