(* ===== verification/Proxy_Repository.thy ===== *)
theory Proxy_Repository
  imports Proxy_Url Countries "HOL-Library.List_Lexorder" "HOL-Library.Product_Lexorder" "HOL-Library.Char_ord"
begin

text \<open>
  \<open>proxy_repository.py\<close>: the managed list of proxies. Parsing of the repository file, the cache
  with its refresh, the views that leave the server, and the cache-only lookups of the data
  plane. The digest that names a record is the parameter \<open>digest\<close> (salted SHA-256 of the
  endpoint, 24 hexadecimal digits); the file that S3 returns is an argument of the refresh.
\<close>

section \<open>Records and the repository file\<close>

record proxy =
  pid :: string
  endpoint :: string
  ptype :: string
  country :: string
  code :: string
  flag :: "nat list"
  health :: int

definition MAX_PROXIES :: nat where "MAX_PROXIES = 1000"
definition MAX_BYTES :: nat where "MAX_BYTES = 512 * 1024"
definition REFRESH_MICROS :: int where "REFRESH_MICROS = 7200 * 1000000"

text \<open>\<open>str.splitlines\<close>.\<close>

definition line_end :: "char \<Rightarrow> bool" where
  "line_end c \<longleftrightarrow> ord c \<in> {10, 11, 12, 13, 28, 29, 30, 133}"

definition skip_lf :: "string \<Rightarrow> string" where
  "skip_lf s = (case s of [] \<Rightarrow> [] | d # r \<Rightarrow> if ord d = 10 then r else s)"

lemma length_skip_lf [termination_simp]: "length (skip_lf s) < Suc (length s)"
  by (simp add: skip_lf_def split: list.split)

fun splitlines :: "string \<Rightarrow> string \<Rightarrow> string list" where
  "splitlines w [] = (if w = [] then [] else [rev w])"
| "splitlines w (c # s) =
     (if ord c = 13 then rev w # splitlines [] (skip_lf s)
      else if line_end c then rev w # splitlines [] s
      else splitlines (c # w) s)"

text \<open>The pattern \<open>NAME - N%\<close>: \<open>meta_tail\<close> matches everything after the name.\<close>

definition meta_tail :: "string \<Rightarrow> string option" where
  "meta_tail s = (case dropWhile is_space s of
     [] \<Rightarrow> None
   | c # r \<Rightarrow>
      if c \<noteq> CHR ''-'' then None
      else (let r1 = dropWhile is_space r; ds = takeWhile is_decimal r1;
                r2 = dropWhile is_space (dropWhile is_decimal r1)
            in if ds \<noteq> [] \<and> length ds \<le> 3 \<and> r2 \<noteq> [] \<and> hd r2 = CHR ''%'' \<and> list_all is_space (tl r2)
               then Some ds else None))"

fun metadata :: "string \<Rightarrow> string \<Rightarrow> (string \<times> string) option" where
  "metadata name [] = None"
| "metadata name (c # s) =
     (if line_end c \<and> ord c = 10 then None
      else (case meta_tail s of
          Some ds \<Rightarrow> Some (rev (c # name), ds) | None \<Rightarrow> metadata (c # name) s))"

definition parse_line :: "(string \<Rightarrow> string) \<Rightarrow> string \<Rightarrow> proxy option" where
  "parse_line digest source_line = (let line = strip source_line in
     if line = [] \<or> starts_with '';'' line \<or> starts_with ''//'' line \<or> CHR ''#'' \<notin> set line then None
     else (case metadata [] (strip (after_last CHR ''#'' line)) of
         None \<Rightarrow> None
       | Some (name, number) \<Rightarrow>
          (case validate_url (before_last CHR ''#'' line) of
             Inl e \<Rightarrow> None
           | Inr ep \<Rightarrow>
              (let (ctry, cc) = normalize_country name in
               Some \<lparr>pid = digest ep, endpoint = ep, ptype = before CHR '':'' ep, country = ctry, code = cc,
                     flag = flag_for cc, health = max 0 (min 100 (int (digits_val number)))\<rparr>))))"

fun parse_lines :: "(string \<Rightarrow> string) \<Rightarrow> proxy list \<Rightarrow> string list \<Rightarrow> proxy list" where
  "parse_lines digest result [] = result"
| "parse_lines digest result (l # ls) =
     (case parse_line digest l of
        None \<Rightarrow> parse_lines digest result ls
      | Some r \<Rightarrow>
         if pid r \<in> pid ` set result then parse_lines digest result ls
         else if length result + 1 \<ge> MAX_PROXIES then result @ [r]
         else parse_lines digest (result @ [r]) ls)"

definition parse_text :: "(string \<Rightarrow> string) \<Rightarrow> string \<Rightarrow> proxy list" where
  "parse_text digest text = parse_lines digest [] (splitlines [] text)"

section \<open>The cache\<close>

record repo =
  records :: "(string, proxy) dict"
  last_load :: "int option"
  load_error :: string
  inflight :: bool

datatype repo_state = Unconfigured | Ready | Stale | Failed | Loading

definition new_repo :: repo where
  "new_repo = \<lparr>records = [], last_load = None, load_error = ''not loaded'', inflight = False\<rparr>"

definition repo_state_of :: "bool \<Rightarrow> repo \<Rightarrow> repo_state" where
  "repo_state_of configured r =
     (if \<not> configured then Unconfigured
      else if records r \<noteq> [] then (if load_error r \<noteq> [] then Stale else Ready)
      else if load_error r \<noteq> [] \<and> load_error r \<noteq> ''not loaded'' then Failed else Loading)"

definition fresh :: "int \<Rightarrow> repo \<Rightarrow> bool" where
  "fresh now r \<longleftrightarrow> records r \<noteq> [] \<and> now - (case last_load r of None \<Rightarrow> 0 | Some t \<Rightarrow> t) < REFRESH_MICROS"

text \<open>\<open>_fetch\<close>: the bytes of the object, or the text of the exception.\<close>

definition fetch_result :: "string + string \<Rightarrow> string + string" where
  "fetch_result answer = (case answer of
     Inl e \<Rightarrow> Inl e
   | Inr data \<Rightarrow> if length data > MAX_BYTES then Inl ''repository file is too large'' else Inr data)"

definition change_key :: "proxy \<Rightarrow> string \<times> string \<times> string \<times> string" where
  "change_key r = (pid r, country r, code r, endpoint r)"

text \<open>
  \<open>refresh\<close>: the new cache, and the two snapshots handed to the listeners when the catalog has
  changed. \<open>answer\<close> is what the fetch yields, \<open>now\<close> the monotonic clock.
\<close>

definition refresh :: "(string \<Rightarrow> string) \<Rightarrow> bool \<Rightarrow> int \<Rightarrow> string + string \<Rightarrow> repo \<Rightarrow>
    repo \<times> (proxy list \<times> proxy list) option" where
  "refresh digest force now answer r =
     (if \<not> force \<and> fresh now r then (r, None)
      else (case and_then (fetch_result answer) (\<lambda>text. let rows = parse_text digest text in
               if rows = [] then Inl ''repository has no valid proxies'' else Inr rows) of
          Inl e \<Rightarrow> (r\<lparr>load_error := take 200 e\<rparr>, None)
        | Inr rows \<Rightarrow>
           (let previous = map snd (records r);
                recs = fold (\<lambda>row d. AList.update (pid row) row d) rows [];
                current = map snd recs
            in (r\<lparr>records := recs, last_load := Some now, load_error := []\<rparr>,
                if change_key ` set previous \<noteq> change_key ` set current then Some (previous, current) else None))))"

definition kick_refresh :: "repo \<Rightarrow> bool \<times> repo" where
  "kick_refresh r = (if inflight r then (False, r) else (True, r\<lparr>inflight := True\<rparr>))"

section \<open>Lookups and views\<close>

definition get_record :: "repo \<Rightarrow> string \<Rightarrow> proxy option" where
  "get_record r proxy_id = map_of (records r) proxy_id"

definition resolve :: "repo \<Rightarrow> string \<Rightarrow> proxy option" where
  "resolve r proxy_id = map_of (records r) proxy_id"

definition resolve_many :: "repo \<Rightarrow> string list \<Rightarrow> proxy list" where
  "resolve_many r proxy_ids = List.map_filter (\<lambda>p. map_of (records r) p) proxy_ids"

definition records_for_country :: "repo \<Rightarrow> string \<Rightarrow> proxy list" where
  "records_for_country r cc = (let normalized = strip (upper cc) in
     filter (\<lambda>row. normalized = [] \<or> code row = normalized) (map snd (records r)))"

record public_proxy =
  pub_id :: string
  pub_country :: string
  pub_code :: string
  pub_flag :: "nat list"

definition public :: "proxy \<Rightarrow> public_proxy" where
  "public r = \<lparr>pub_id = pid r, pub_country = country r, pub_code = code r, pub_flag = flag r\<rparr>"

record country_slot =
  slot_code :: string
  slot_country :: string
  slot_flag :: "nat list"
  slot_count :: int

definition count_country :: "public_proxy \<Rightarrow> (string, country_slot) dict \<Rightarrow> (string, country_slot) dict" where
  "count_country row g = (case map_of g (pub_code row) of
     None \<Rightarrow> AList.update (pub_code row) \<lparr>slot_code = pub_code row, slot_country = pub_country row,
               slot_flag = pub_flag row, slot_count = 1\<rparr> g
   | Some s \<Rightarrow> AList.update (pub_code row) (s\<lparr>slot_count := slot_count s + 1\<rparr>) g)"

definition catalog_items :: "repo \<Rightarrow> public_proxy list" where
  "catalog_items r = sort_key (\<lambda>x. (pub_country x, pub_id x)) (map (public \<circ> snd) (records r))"

definition catalog_countries :: "repo \<Rightarrow> country_slot list" where
  "catalog_countries r = sort_key slot_country (map snd (fold count_country (catalog_items r) []))"

section \<open>Well-formed caches\<close>

definition proxy_ok :: "(string \<Rightarrow> string) \<Rightarrow> proxy \<Rightarrow> bool" where
  "proxy_ok digest p \<longleftrightarrow> pid p = digest (endpoint p) \<and> validate_url (endpoint p) = Inr (endpoint p)
     \<and> (code p = [] \<or> upper_code_text (code p)) \<and> flag p = flag_for (code p) \<and> 0 \<le> health p \<and> health p \<le> 100"

definition repo_ok :: "(string \<Rightarrow> string) \<Rightarrow> repo \<Rightarrow> bool" where
  "repo_ok digest r \<longleftrightarrow> dict_ok (records r) \<and> length (records r) \<le> MAX_PROXIES
     \<and> (\<forall>(k, p) \<in> set (records r). k = pid p \<and> proxy_ok digest p)"

lemma country_code_text: "normalize_country raw = (n, c) \<Longrightarrow> c = [] \<or> upper_code_text c"
  using code_and_name_code plain_code [of "strip raw" n c]
  by (auto simp: normalize_country_def Let_def split: if_splits option.splits)

lemma validate_url_again: "validate_url v = Inr e \<Longrightarrow> validate_url e = Inr e"
  by (rule validated_fixed)

lemma parse_line_ok: "parse_line digest l = Some p \<Longrightarrow> proxy_ok digest p"
  by (auto simp: parse_line_def Let_def proxy_ok_def split: if_splits option.splits sum.splits prod.splits
      dest: validate_url_again country_code_text)

lemma parse_lines_ok:
  "distinct (map pid result) \<Longrightarrow> list_all (proxy_ok digest) result \<Longrightarrow> length result < MAX_PROXIES \<Longrightarrow>
   distinct (map pid (parse_lines digest result ls)) \<and> list_all (proxy_ok digest) (parse_lines digest result ls)
   \<and> length (parse_lines digest result ls) \<le> MAX_PROXIES"
proof (induction digest result ls rule: parse_lines.induct)
  case (2 digest result l ls)
  then show ?case using parse_line_ok [of digest l] by (auto split: option.splits)
qed auto

lemma parse_text_ok:
  "distinct (map pid (parse_text digest text)) \<and> list_all (proxy_ok digest) (parse_text digest text)
   \<and> length (parse_text digest text) \<le> MAX_PROXIES"
  unfolding parse_text_def by (rule parse_lines_ok) (auto simp: MAX_PROXIES_def)

lemma update_new_snoc: "k \<notin> fst ` set d \<Longrightarrow> AList.update k v d = d @ [(k, v)]"
  by (induction d) auto

lemma fold_update_distinct:
  "distinct (map pid rows) \<Longrightarrow> pid ` set rows \<inter> fst ` set d = {} \<Longrightarrow>
   fold (\<lambda>row d. AList.update (pid row) row d) rows d = d @ map (\<lambda>row. (pid row, row)) rows"
  by (induction rows arbitrary: d) (auto simp: update_new_snoc)

lemma refresh_records:
  "refresh digest force now answer r = (r', ch) \<Longrightarrow>
   records r' = records r \<or> (\<exists>text. records r' = map (\<lambda>row. (pid row, row)) (parse_text digest text)
      \<and> parse_text digest text \<noteq> [])"
  using parse_text_ok [of digest]
  by (auto simp: refresh_def Let_def and_then_Inr fold_update_distinct split: if_splits sum.splits)

lemma new_repo_ok: "repo_ok digest new_repo"
  by (simp add: repo_ok_def new_repo_def)

lemma refresh_ok:
  assumes "repo_ok digest r" "refresh digest force now answer r = (r', ch)"
  shows "repo_ok digest r'"
  using refresh_records [OF assms(2)] assms(1) parse_text_ok [of digest]
  by (auto simp: repo_ok_def dict_ok_def comp_def list_all_iff)

text \<open>
  C39. Every cache the repository can have is sound: at most 1000 records, one per identity, each
  stored under the digest of its own validated endpoint. A refresh, whatever the server
  answers, keeps that.
\<close>

theorem refresh_sound:
  assumes "repo_ok digest r"
  shows "repo_ok digest (fst (refresh digest force now answer r))"
  by (rule refresh_ok [OF assms]) (rule surjective_pairing)

lemma refresh_sound_witness:
  "repo_ok (\<lambda>e. e) (fst (refresh (\<lambda>e. e) True 5 (Inr ''http://1.2.3.4:80#FI - 90%'') new_repo))"
  by (rule refresh_sound [OF new_repo_ok])

text \<open>
  A failed refresh (an unreachable bucket, a file that is too large, a file without a single
  valid line) never loses the last good catalog: the records and their age stay, only the
  error is noted, and no listener is called.
\<close>

theorem refresh_failure_keeps_catalog:
  assumes "(\<exists>e. answer = Inl e) \<or> (\<exists>text. answer = Inr text \<and> (length text > MAX_BYTES \<or> parse_text digest text = []))"
  shows "records (fst (refresh digest force now answer r)) = records r
    \<and> last_load (fst (refresh digest force now answer r)) = last_load r
    \<and> snd (refresh digest force now answer r) = None"
  using assms by (auto simp: refresh_def fetch_result_def)

lemma refresh_failure_keeps_catalog_witness:
  "records (fst (refresh (\<lambda>e. e) True 5 (Inl ''timeout'') new_repo)) = records new_repo"
  by (rule conjunct1 [OF refresh_failure_keeps_catalog]) simp

text \<open>
  The listeners are called exactly when a successful refresh changed what a route can depend
  on (identity, country, code or endpoint of some record), with the catalog before and after.
\<close>

theorem refresh_notifies_changes:
  assumes "refresh digest force now answer r = (r', Some (old, new))"
  shows "old = map snd (records r) \<and> new = map snd (records r')
    \<and> change_key ` set old \<noteq> change_key ` set new \<and> load_error r' = []"
  using assms by (clarsimp simp: refresh_def Let_def split: if_splits sum.splits)

lemma refresh_notifies_changes_witness:
  "load_error (fst (refresh (\<lambda>e. e) True 5 (Inr ''http://1.2.3.4:80#FI - 90%'') new_repo)) = []"
proof -
  have "refresh (\<lambda>e. e) True 5 (Inr ''http://1.2.3.4:80#FI - 90%'') new_repo
      = (fst (refresh (\<lambda>e. e) True 5 (Inr ''http://1.2.3.4:80#FI - 90%'') new_repo),
         Some ([], [\<lparr>pid = ''http://1.2.3.4:80'', endpoint = ''http://1.2.3.4:80'', ptype = ''http'', country = ''Finland'',
           code = ''FI'', flag = [0x1F1EB, 0x1F1EE], health = 90\<rparr>]))" by code_simp
  from refresh_notifies_changes [OF this] show ?thesis by simp
qed

end
