(* ===== verification/Performance.thy ===== *)
theory Performance
  imports Json "HOL-Library.List_Lexorder" "HOL-Library.Product_Lexorder" "HOL-Library.Char_ord"
begin

text \<open>
  \<open>proxy_performance.py\<close>: which measured proxies are healthy, their score and the choice of the
  preferred one. Results are the JSON objects the panel stores. \<open>None\<close> of an operation is a
  TypeError or ValueError. Floats are exact rationals here; \<open>round\<close> rounds half to even.
\<close>

definition round_even :: "rat \<Rightarrow> int" where
  "round_even r = (let f = \<lfloor>r\<rfloor>; d = r - of_int f in
     if d < 1 / 2 then f else if 1 / 2 < d then f + 1 else if even f then f else f + 1)"

definition round3 :: "rat \<Rightarrow> rat" where
  "round3 r = of_int (round_even (r * 1000)) / 1000"

definition MAX_METRIC_MS :: rat where "MAX_METRIC_MS = 120000"

definition REQUIRED_TARGETS :: "string list" where
  "REQUIRED_TARGETS = [''https://cloudflare.com'', ''https://google.com'']"

definition bounded_ms :: "(string \<Rightarrow> rat option) \<Rightarrow> json \<Rightarrow> rat option" where
  "bounded_ms float_of value = (case py_float float_of value of
     None \<Rightarrow> None
   | Some number \<Rightarrow> if number < 0 \<or> MAX_METRIC_MS < number then None else Some (round3 number))"

fun fields :: "json \<Rightarrow> body option" where
  "fields (JObj kvs) = Some kvs"
| "fields _ = None"

definition checks_of :: "body \<Rightarrow> json list" where
  "checks_of result = (case jget result ''checks'' of JArr cs \<Rightarrow> cs | _ \<Rightarrow> [])"

definition check_values :: "(string \<Rightarrow> rat option) \<Rightarrow> body \<Rightarrow> string \<Rightarrow> rat list" where
  "check_values float_of result field = List.map_filter
     (\<lambda>c. case fields c of
        None \<Rightarrow> None
      | Some check \<Rightarrow> if truthy (jget check ''ok'') then bounded_ms float_of (jget check field) else None)
     (checks_of result)"

definition average_check_ms :: "(string \<Rightarrow> rat option) \<Rightarrow> body \<Rightarrow> string \<Rightarrow> rat" where
  "average_check_ms float_of result field = (let values = check_values float_of result field in
     if values = [] then MAX_METRIC_MS else round3 (sum_list values / of_nat (length values)))"

definition current_healthy :: "json option \<Rightarrow> bool" where
  "current_healthy result = (case Option.bind result fields of
     None \<Rightarrow> False
   | Some r \<Rightarrow>
      jget r ''overall_status'' = JStr ''healthy''
      \<and> (let checks = or_else (jget r ''checks'') (JArr []) in
          case checks of
            JArr cs \<Rightarrow>
              (let items = List.map_filter fields cs in
               set (map (\<lambda>i. jget i ''target'') items) = set (map JStr REQUIRED_TARGETS)
               \<and> list_all (\<lambda>i. truthy (jget i ''ok'')) items)
          | _ \<Rightarrow> False))"

definition capped :: "rat \<Rightarrow> rat" where
  "capped r = min r 30000"

definition performance_score :: "(string \<Rightarrow> rat option) \<Rightarrow> body \<Rightarrow> int option" where
  "performance_score float_of result =
     (case (py_int (or_else (jget result ''sample_count'') (JInt 1)),
            py_int (or_else (jget result ''success_count'') (JInt 0))) of
        (Some sc, Some su) \<Rightarrow>
          (let samples = max 1 (min sc 10000); successes = max 0 (min su samples);
               reliability = of_int successes / of_int samples :: rat
           in Some (round_even (reliability * 1000000
                - capped (average_check_ms float_of result ''total_ms'') * 20
                - capped (average_check_ms float_of result ''connect_ms'') * 5
                - capped (average_check_ms float_of result ''request_ms'') * 2)))
      | _ \<Rightarrow> None)"

type_synonym rank = "int \<times> rat \<times> rat \<times> rat \<times> string"

definition rank_of :: "(string \<Rightarrow> rat option) \<Rightarrow> body \<Rightarrow> string \<Rightarrow> rank option" where
  "rank_of float_of result proxy_id = map_option (\<lambda>score.
     (- score, average_check_ms float_of result ''total_ms'', average_check_ms float_of result ''connect_ms'',
      average_check_ms float_of result ''request_ms'', proxy_id)) (performance_score float_of result)"

text \<open>The candidates of the loop; the outer \<open>None\<close> is an exception from a score.\<close>

fun candidates :: "(string \<Rightarrow> rat option) \<Rightarrow> (string, json) dict \<Rightarrow> string list \<Rightarrow> rank list option" where
  "candidates float_of results [] = Some []"
| "candidates float_of results (p # ps) =
     (if \<not> current_healthy (map_of results p) then candidates float_of results ps
      else (case (rank_of float_of (the (fields (the (map_of results p)))) p, candidates float_of results ps) of
          (Some k, Some ks) \<Rightarrow> Some (k # ks) | _ \<Rightarrow> None))"

definition best :: "rank list \<Rightarrow> string option" where
  "best ks = (case ks of [] \<Rightarrow> None | k # r \<Rightarrow> Some (snd (snd (snd (snd (fold min r k))))))"

definition preferred_proxy_id ::
  "(string \<Rightarrow> rat option) \<Rightarrow> string list \<Rightarrow> (string, json) dict \<Rightarrow> string option option" where
  "preferred_proxy_id float_of record_ids results = map_option best (candidates float_of results record_ids)"

section \<open>The choice\<close>

lemma fold_min_Min: "fold min r (k::rank) = Min (insert k (set r))"
  by (simp add: Min.set_eq_fold [symmetric])

lemma best_Min: "ks \<noteq> [] \<Longrightarrow> best ks = Some (snd (snd (snd (snd (Min (set ks))))))"
  by (cases ks) (simp_all add: best_def fold_min_Min)

lemma candidates_set:
  "candidates float_of results ps = Some ks \<Longrightarrow>
   set ks = {k. \<exists>p \<in> set ps. current_healthy (map_of results p)
      \<and> rank_of float_of (the (fields (the (map_of results p)))) p = Some k}"
  by (induction ps arbitrary: ks) (auto split: if_splits option.splits)

lemma candidates_None:
  "candidates float_of results ps = None \<longleftrightarrow> (\<exists>p \<in> set ps. current_healthy (map_of results p)
      \<and> rank_of float_of (the (fields (the (map_of results p)))) p = None)"
  by (induction ps) (auto split: if_splits option.splits)

lemma rank_of_id: "rank_of f r p = Some k \<Longrightarrow> snd (snd (snd (snd k))) = p"
  by (auto simp: rank_of_def)

lemma rank_score: "rank_of f r p = Some k \<Longrightarrow> fst k = - the (performance_score f r)"
  by (auto simp: rank_of_def)

lemma current_healthy_fields: "current_healthy r \<Longrightarrow> \<exists>j kvs. r = Some j \<and> fields j = Some kvs"
  by (cases r) (auto simp: current_healthy_def split: option.splits)

text \<open>
  The preferred proxy of a country depends only on which proxies it has and on their results,
  not on the order in which they are listed.
\<close>

theorem preferred_order_free:
  assumes "set ids = set ids'"
  shows "preferred_proxy_id float_of ids results = preferred_proxy_id float_of ids' results"
proof (cases "candidates float_of results ids")
  case None
  then have "candidates float_of results ids' = None" using assms by (simp add: candidates_None)
  with None show ?thesis by (simp add: preferred_proxy_id_def)
next
  case (Some ks)
  then have "candidates float_of results ids' \<noteq> None" using assms candidates_None by (metis option.distinct(1))
  then obtain ks' where k: "candidates float_of results ids' = Some ks'" by blast
  have "set ks = set ks'" using candidates_set [OF Some] candidates_set [OF k] assms by simp
  then have "best ks = best ks'"
    using best_Min [of ks] best_Min [of ks'] by (cases "ks = []"; cases "ks' = []") simp_all
  with Some k show ?thesis by (simp add: preferred_proxy_id_def)
qed

lemma preferred_order_free_witness:
  "preferred_proxy_id (\<lambda>s. None) [''a'', ''b''] [] = preferred_proxy_id (\<lambda>s. None) [''b'', ''a'', ''b''] []"
  by (rule preferred_order_free) auto

text \<open>
  A chosen proxy is one of the given ones, its last complete probe succeeded, and no other
  healthy candidate has a higher score.
\<close>

theorem preferred_is_best:
  assumes "preferred_proxy_id float_of ids results = Some (Some p)"
  shows "p \<in> set ids \<and> current_healthy (map_of results p)
    \<and> (\<forall>q \<in> set ids. current_healthy (map_of results q) \<longrightarrow>
         the (performance_score float_of (the (fields (the (map_of results q)))))
           \<le> the (performance_score float_of (the (fields (the (map_of results p))))))"
proof -
  from assms obtain ks where ks: "candidates float_of results ids = Some ks" and b: "best ks = Some p"
    by (auto simp: preferred_proxy_id_def)
  then have ne: "ks \<noteq> []" by (auto simp: best_def)
  let ?m = "Min (set ks)"
  have "?m \<in> set ks" using ne by simp
  then obtain q where q: "q \<in> set ids" "current_healthy (map_of results q)"
    "rank_of float_of (the (fields (the (map_of results q)))) q = Some ?m"
    using candidates_set [OF ks] by auto
  have "q = p" using rank_of_id [OF q(3)] b best_Min [OF ne] by simp
  moreover have "the (performance_score float_of (the (fields (the (map_of results x)))))
      \<le> the (performance_score float_of (the (fields (the (map_of results q)))))"
    if x: "x \<in> set ids" "current_healthy (map_of results x)" for x
  proof -
    have "rank_of float_of (the (fields (the (map_of results x)))) x \<noteq> None"
      using ks candidates_None x by (metis option.distinct(1))
    then obtain k where k: "rank_of float_of (the (fields (the (map_of results x)))) x = Some k" by blast
    then have "k \<in> set ks" using candidates_set [OF ks] x by auto
    then have "?m \<le> k" by simp
    then have "fst ?m \<le> fst k" by (auto simp: less_eq_prod_def)
    then show ?thesis using rank_score [OF k] rank_score [OF q(3)] by simp
  qed
  ultimately show ?thesis using q by auto
qed

definition probe :: "rat \<Rightarrow> json" where
  "probe ms = JObj [(''overall_status'', JStr ''healthy''), (''checks'', JArr
     [JObj [(''target'', JStr ''https://google.com''), (''ok'', JBool True), (''total_ms'', JFloat ms [])],
      JObj [(''target'', JStr ''https://cloudflare.com''), (''ok'', JBool True), (''total_ms'', JFloat ms [])]])]"

lemma preferred_is_best_witness:
  "current_healthy (map_of [(''a'', probe 90), (''b'', probe 40)] ''b'')"
proof -
  have "preferred_proxy_id (\<lambda>s. None) [''a'', ''b''] [(''a'', probe 90), (''b'', probe 40)] = Some (Some ''b'')"
    by code_simp
  from preferred_is_best [OF this] show ?thesis by simp
qed

end
