(* ===== verification/Links.thy ===== *)
theory Links
  imports Transports Proxy_Repository Performance
begin

text \<open>
  The records of \<open>main.py\<close>: configurations (\<open>LINKS\<close>), subscription groups (\<open>SUBS\<close>) and their
  locations, with the predicates every entry point asks: expiry, permission, the limit of
  addresses, the validation of a Raw TCP location table, and the sizes a form submits.
  A time is in microseconds; a stored time is absent, naive, aware or unreadable.
\<close>

datatype stamp = NoTime | Naive int | Aware int | BadTime

record location =
  loc_id :: string
  loc_code :: string
  loc_country :: string
  loc_flag :: "nat list"
  loc_proxy :: string
  loc_active :: bool

datatype selection_mode = Explicit | Country_Preferred

record multi_location =
  ml_enabled :: bool
  ml_remark :: string
  ml_locations :: "location list"
  ml_mode :: selection_mode
  ml_failover :: bool
  ml_migration :: bool

record link =
  l_label :: string
  l_limit :: int
  l_used :: int
  l_created :: int
  l_active :: bool
  l_expires :: stamp
  l_note :: string
  l_remark :: string
  l_default :: bool
  l_sub :: "string option"
  l_protocol :: string
  l_settings :: body
  l_fingerprint :: string
  l_alpn :: string
  l_port :: int
  l_ip_limit :: int
  l_speed :: int
  l_address :: string
  l_sni :: string
  l_mode :: string
  l_proxy :: string
  l_custom :: string
  l_owner :: "int option"
  l_order :: "string option"
  l_plan :: "string option"
  l_managed :: bool

record sub =
  s_name :: string
  s_desc :: string
  s_password :: "string option"
  s_key :: string
  s_created :: int
  s_links :: "string list"
  s_ml :: "multi_location option"

type_synonym links = "(string, link) dict"
type_synonym subs = "(string, sub) dict"

definition DEFAULT_PROTOCOL :: string where "DEFAULT_PROTOCOL = ''vless-ws''"
definition DEFAULT_FINGERPRINT :: string where "DEFAULT_FINGERPRINT = ''chrome''"
definition DEFAULT_PORT :: int where "DEFAULT_PORT = 443"
definition FINGERPRINTS :: "string list" where
  "FINGERPRINTS = [''chrome'', ''firefox'', ''safari'', ''ios'', ''android'', ''edge'', ''360'', ''qq'', ''random'', ''randomized'']"

definition default_multi_location :: multi_location where
  "default_multi_location = \<lparr>ml_enabled = False, ml_remark = [], ml_locations = [], ml_mode = Explicit,
     ml_failover = False, ml_migration = False\<rparr>"

section \<open>Permission\<close>

definition is_link_expired :: "int \<Rightarrow> link \<Rightarrow> bool" where
  "is_link_expired now l = (case l_expires l of Naive t \<Rightarrow> t < now | _ \<Rightarrow> False)"

definition multi_location_for_link :: "subs \<Rightarrow> link \<Rightarrow> (string \<times> sub) option \<times> multi_location option" where
  "multi_location_for_link subs l =
     (let sid = (case l_sub l of None \<Rightarrow> [] | Some s \<Rightarrow> s) in
      case map_of subs sid of
        None \<Rightarrow> (None, None)
      | Some s \<Rightarrow> (case s_ml s of
          Some ml \<Rightarrow> (Some (sid, s), if ml_enabled ml then Some ml else None)
        | None \<Rightarrow> (Some (sid, s), None)))"

datatype ml_error = Ml_Not_Explicit | Ml_Endpoint transport_error

fun endpoints_ok :: "ingress \<Rightarrow> link \<Rightarrow> location list \<Rightarrow> ml_error + unit" where
  "endpoints_ok i l [] = Inr ()"
| "endpoints_ok i l (loc # locs) =
     (if \<not> loc_active loc then endpoints_ok i l locs
      else (case transport_endpoint i ''vless-tcp'' (l_address l) (Some (l_port l)) (l_sni l) (loc_id loc) of
          Inl e \<Rightarrow> Inl (Ml_Endpoint e) | Inr r \<Rightarrow> endpoints_ok i l locs))"

definition validate_raw_tcp_multi_location :: "ingress \<Rightarrow> link option \<Rightarrow> multi_location option \<Rightarrow> ml_error + unit" where
  "validate_raw_tcp_multi_location i link ml = (case (link, ml) of
     (Some l, Some m) \<Rightarrow>
       if l_protocol l \<noteq> ''vless-tcp'' \<or> \<not> ml_enabled m then Inr ()
       else if ml_mode m \<noteq> Explicit then Inl Ml_Not_Explicit
       else endpoints_ok i l (ml_locations m)
   | _ \<Rightarrow> Inr ())"

definition is_link_allowed :: "ingress \<Rightarrow> subs \<Rightarrow> int \<Rightarrow> link option \<Rightarrow> bool" where
  "is_link_allowed i subs now link = (case link of
     None \<Rightarrow> False
   | Some l \<Rightarrow>
      if \<not> is_available i (l_protocol l) then False
      else if l_protocol l = ''vless-tcp''
              \<and> ok_value (validate_raw_tcp_multi_location i (Some l) (snd (multi_location_for_link subs l))) = None
           then False
      else if \<not> l_active l then False
      else if is_link_expired now l then False
      else if 0 < l_limit l \<and> l_limit l \<le> l_used l then False
      else True)"

text \<open>The live connections, as far as the address limit reads them: pairs of link and address.\<close>

definition unique_ips_for_uuid :: "(string \<times> string) list \<Rightarrow> string \<Rightarrow> string list" where
  "unique_ips_for_uuid connections uuid =
     remdups (map snd (filter (\<lambda>(u, ip). u = uuid \<and> ip \<noteq> []) connections))"

definition is_ip_allowed :: "(string \<times> string) list \<Rightarrow> link option \<Rightarrow> string \<Rightarrow> string \<Rightarrow> bool" where
  "is_ip_allowed connections link uuid ip = (case link of
     None \<Rightarrow> False
   | Some l \<Rightarrow>
      if l_ip_limit l \<le> 0 then True
      else (let ips = unique_ips_for_uuid connections uuid in
            if ip \<in> set ips then True else int (length ips) < l_ip_limit l))"

section \<open>Sizes\<close>

definition parse_size_to_bytes :: "rat \<Rightarrow> string \<Rightarrow> int" where
  "parse_size_to_bytes value unit = (let u = upper unit in
     if u = ''GB'' then trunc (value * 1024 ^ 3)
     else if u = ''MB'' then trunc (value * 1024 ^ 2)
     else if u = ''KB'' then trunc (value * 1024)
     else trunc value)"

definition parse_speed_to_bytes :: "rat \<Rightarrow> string \<Rightarrow> int" where
  "parse_speed_to_bytes value unit =
     (if value \<le> 0 then 0
      else (let u = upper (if unit = [] then ''MBIT'' else unit) in
        if u = ''MBIT'' then trunc (value * 1000000 / 8)
        else if u = ''KB'' then trunc (value * 1024)
        else if u = ''MB'' then trunc (value * 1024 * 1024)
        else trunc value))"

text \<open>
  A configuration that may be used is active, not expired and under its volume, its transport
  can run, and a Raw TCP one has an endpoint for every active location of its group.
\<close>

theorem allowed_link_conditions:
  assumes "is_link_allowed i subs now link"
  shows "\<exists>l. link = Some l \<and> l_active l \<and> \<not> is_link_expired now l \<and> (l_limit l \<le> 0 \<or> l_used l < l_limit l)
    \<and> is_available i (l_protocol l)
    \<and> (l_protocol l = ''vless-tcp'' \<longrightarrow>
        validate_raw_tcp_multi_location i (Some l) (snd (multi_location_for_link subs l)) = Inr ())"
proof -
  obtain l where l: "link = Some l" using assms by (cases link) (auto simp: is_link_allowed_def)
  have "validate_raw_tcp_multi_location i (Some l) ml = Inr ()"
    if "ok_value (validate_raw_tcp_multi_location i (Some l) ml) \<noteq> None" for ml
    using that by (cases "validate_raw_tcp_multi_location i (Some l) ml") auto
  then show ?thesis using assms l by (auto simp: is_link_allowed_def split: if_splits)
qed

definition sample_link :: link where
  "sample_link = \<lparr>l_label = ''a'', l_limit = 0, l_used = 0, l_created = 0, l_active = True, l_expires = NoTime,
     l_note = [], l_remark = ''a'', l_default = False, l_sub = None, l_protocol = DEFAULT_PROTOCOL, l_settings = [],
     l_fingerprint = DEFAULT_FINGERPRINT, l_alpn = [], l_port = DEFAULT_PORT, l_ip_limit = 0, l_speed = 0,
     l_address = [], l_sni = [], l_mode = ''direct'', l_proxy = [], l_custom = [],
     l_owner = None, l_order = None, l_plan = None, l_managed = False\<rparr>"

definition sample_ingress :: ingress where
  "sample_ingress = \<lparr>depl = unready Not_Configured, lst = new_listener (\<lambda>k. None)\<rparr>"

lemma allowed_link_conditions_witness: "is_available sample_ingress (l_protocol sample_link)"
proof -
  have "is_link_allowed sample_ingress [] 7 (Some sample_link)" by code_simp
  from allowed_link_conditions [OF this] show ?thesis by auto
qed

text \<open>
  The address limit holds: a new address is let in only while fewer than the limit are
  connected, so admitting it never takes the number of addresses beyond a positive limit
  that was respected before.
\<close>

theorem ip_limit_respected:
  assumes "is_ip_allowed connections (Some l) uuid ip" "0 < l_ip_limit l"
    and "int (length (unique_ips_for_uuid connections uuid)) \<le> l_ip_limit l"
  shows "int (length (unique_ips_for_uuid ((uuid, ip) # connections) uuid)) \<le> l_ip_limit l"
proof (cases "ip \<in> set (unique_ips_for_uuid connections uuid) \<or> ip = []")
  case True
  then have "length (unique_ips_for_uuid ((uuid, ip) # connections) uuid) = length (unique_ips_for_uuid connections uuid)"
    by (auto simp: unique_ips_for_uuid_def)
  with assms show ?thesis by simp
next
  case False
  then have "int (length (unique_ips_for_uuid connections uuid)) < l_ip_limit l"
    using assms by (auto simp: is_ip_allowed_def Let_def)
  moreover have "length (unique_ips_for_uuid ((uuid, ip) # connections) uuid)
      \<le> Suc (length (unique_ips_for_uuid connections uuid))"
    by (auto simp: unique_ips_for_uuid_def)
  ultimately show ?thesis by linarith
qed

lemma ip_limit_respected_witness:
  "int (length (unique_ips_for_uuid [(''u'', ''2.2.2.2''), (''u'', ''1.1.1.1'')] ''u'')) \<le> 2"
proof -
  have a: "is_ip_allowed [(''u'', ''1.1.1.1'')] (Some (sample_link\<lparr>l_ip_limit := 2\<rparr>)) ''u'' ''2.2.2.2''"
    by code_simp
  have "int (length (unique_ips_for_uuid [(''u'', ''1.1.1.1'')] ''u'')) \<le> l_ip_limit (sample_link\<lparr>l_ip_limit := 2\<rparr>)"
    by (simp add: unique_ips_for_uuid_def)
  from ip_limit_respected [OF a _ this] show ?thesis by simp
qed

end
