(* ===== verification/Exit_Routing.thy ===== *)
theory Exit_Routing
  imports Links
begin

text \<open>
  The choice of the exit in \<open>main.py\<close>: test receipts, the preferred proxy of a country, validation
  of a two-country table, and \<open>resolve_exit_selection\<close>, which turns a configuration and a
  requested location into one endpoint or an error, never into another route. The interface
  between the routing and the proxy repository is the locale \<open>proxy_source\<close>.
\<close>

section \<open>Receipts of a passed test\<close>

text \<open>
  \<open>mac\<close> is the keyed digest, \<open>enc\<close> and \<open>dec\<close> the URL-safe coding of a JSON object, \<open>fp\<close> the digest
  of an endpoint; times are in whole seconds.
\<close>

definition PROXY_TEST_RECEIPT_TTL :: int where "PROXY_TEST_RECEIPT_TTL = 600"

definition receipt_payload :: "(string \<Rightarrow> string) \<Rightarrow> int \<Rightarrow> proxy \<Rightarrow> json" where
  "receipt_payload fp now record = JObj [(''endpoint'', JStr (fp (endpoint record))),
     (''expires'', JInt (now + PROXY_TEST_RECEIPT_TTL)), (''proxy_id'', JStr (pid record))]"

definition issue_proxy_test_receipt ::
  "(string \<Rightarrow> string) \<Rightarrow> (json \<Rightarrow> string) \<Rightarrow> (string \<Rightarrow> string) \<Rightarrow> int \<Rightarrow> proxy \<Rightarrow> string" where
  "issue_proxy_test_receipt mac enc fp now record =
     (let body = enc (receipt_payload fp now record) in body @ ''.'' @ mac body)"

definition verify_proxy_test_receipt ::
  "(string \<Rightarrow> string) \<Rightarrow> (string \<Rightarrow> json option) \<Rightarrow> (string \<Rightarrow> string) \<Rightarrow> int \<Rightarrow> (string \<Rightarrow> proxy option) \<Rightarrow>
   string \<Rightarrow> string \<Rightarrow> bool" where
  "verify_proxy_test_receipt mac dec fp now lookup proxy_id receipt =
     (if CHR ''.'' \<notin> set receipt then False
      else (let body = before CHR ''.'' receipt; signature = after CHR ''.'' receipt in
        if signature \<noteq> mac body then False
        else (case (dec body, lookup proxy_id) of
            (Some (JObj payload), Some record) \<Rightarrow>
              jget payload ''proxy_id'' = JStr (pid record)
              \<and> jget payload ''endpoint'' = JStr (fp (endpoint record))
              \<and> (case py_int (or_else (jget payload ''expires'') (JInt 0)) of
                    None \<Rightarrow> False | Some e \<Rightarrow> now \<le> e)
          | _ \<Rightarrow> False)))"

section \<open>The preferred proxy of a country\<close>

text \<open>Only a mapping to a present record of that country whose last complete probe succeeded.\<close>

definition current_preferred ::
  "(string \<Rightarrow> proxy option) \<Rightarrow> (string, json) dict \<Rightarrow> (string, string) dict \<Rightarrow> (string, string) dict" where
  "current_preferred lookup tests preferred =
     filter (\<lambda>(c, proxy_id). (case lookup proxy_id of None \<Rightarrow> False | Some r \<Rightarrow> code r = c)
        \<and> current_healthy (map_of tests proxy_id)) preferred"

section \<open>Two-country tables\<close>

definition ML_REQUIRED_LOCATIONS :: nat where "ML_REQUIRED_LOCATIONS = 2"
definition ML_MAX_REMARK :: nat where "ML_MAX_REMARK = 60"

definition sanitize_remark_text :: "string \<Rightarrow> string" where
  "sanitize_remark_text value = take ML_MAX_REMARK (filter is_printable (strip value))"

datatype table_error =
    Ml_Not_Object | Ml_Bad_Mode | Ml_Locations_Not_List | Ml_Needs_Two | Ml_Zero_Or_Two
  | Loc_Not_Object | Loc_Bad_Country | Loc_Same_Country | Loc_Same_Id | Loc_No_Preferred
  | Loc_Not_In_Repository | Loc_Wrong_Country | Loc_Needs_Test

record table_env =
  te_lookup :: "string \<Rightarrow> proxy option"
  te_preferred :: "(string, string) dict"
  te_receipt :: "string \<Rightarrow> string \<Rightarrow> bool"
  te_require_tests :: bool

definition location_changed :: "location list \<Rightarrow> string \<Rightarrow> string \<Rightarrow> string \<Rightarrow> bool" where
  "location_changed previous lid proxy_id c =
     (case map_of (rev (map (\<lambda>l. (loc_id l, l)) previous)) lid of
        None \<Rightarrow> True | Some old \<Rightarrow> loc_proxy old \<noteq> proxy_id \<or> loc_code old \<noteq> c)"

text \<open>One iteration of the loop: the new location from an entry.\<close>

definition read_location :: "table_env \<Rightarrow> selection_mode \<Rightarrow> location list \<Rightarrow> location list \<Rightarrow> string \<Rightarrow> json \<Rightarrow>
    table_error + location" where
  "read_location te mode previous done_locs token entry = (case entry of
     JObj e \<Rightarrow>
      (let c = snd (normalize_country (text_or_empty (or_else (jget e ''code'') (jget e ''country'')))) in
       if c = [] \<or> \<not> is_valid_code c then Inl Loc_Bad_Country
       else if c \<in> loc_code ` set done_locs then Inl Loc_Same_Country
       else (let asked = take 24 (strip (text_or_empty (jget e ''id'')));
                 lid = (if asked = [] then token else asked) in
         if lid \<in> loc_id ` set done_locs then Inl Loc_Same_Id
         else (let given = strip (text_or_empty (jget e ''proxy_id''));
                   proxy_id = (if mode = Country_Preferred
                               then (case map_of (te_preferred te) c of None \<Rightarrow> [] | Some p \<Rightarrow> p) else given) in
           case te_lookup te proxy_id of
             None \<Rightarrow> Inl (if mode = Country_Preferred then Loc_No_Preferred else Loc_Not_In_Repository)
           | Some r \<Rightarrow>
              if code r \<noteq> c
              then Inl (if mode = Country_Preferred then Loc_No_Preferred else Loc_Wrong_Country)
              else if te_require_tests te \<and> location_changed previous lid proxy_id c \<and> mode = Explicit
                      \<and> \<not> te_receipt te proxy_id (text_or_empty (jget e ''proxy_test_receipt''))
              then Inl Loc_Needs_Test
              else Inr \<lparr>loc_id = lid, loc_code = c, loc_country = country_name c, loc_flag = flag_for c,
                        loc_proxy = proxy_id, loc_active = True\<rparr>)))
   | _ \<Rightarrow> Inl Loc_Not_Object)"

fun read_locations :: "table_env \<Rightarrow> selection_mode \<Rightarrow> location list \<Rightarrow> location list \<Rightarrow> string list \<Rightarrow> json list \<Rightarrow>
    table_error + location list" where
  "read_locations te mode previous done_locs tokens [] = Inr done_locs"
| "read_locations te mode previous done_locs tokens (e # es) =
     (case read_location te mode previous done_locs (case tokens of [] \<Rightarrow> [] | t # ts \<Rightarrow> t) e of
        Inl err \<Rightarrow> Inl err
      | Inr l \<Rightarrow> read_locations te mode previous (done_locs @ [l]) (case tokens of [] \<Rightarrow> [] | t # ts \<Rightarrow> ts) es)"

definition mode_of :: "json \<Rightarrow> multi_location option \<Rightarrow> selection_mode option" where
  "mode_of given previous =
     (let text = lower (strip (if truthy given then py_str given
          else (case previous of
              Some p \<Rightarrow> (if ml_mode p = Explicit then ''explicit'' else ''country_preferred'')
            | None \<Rightarrow> ''explicit'')))
      in if text = ''explicit'' then Some Explicit
         else if text = ''country_preferred'' then Some Country_Preferred else None)"

definition validate_multi_location :: "table_env \<Rightarrow> string list \<Rightarrow> json \<Rightarrow> multi_location option \<Rightarrow>
    table_error + multi_location" where
  "validate_multi_location te tokens payload previous = (case payload of
     JObj p \<Rightarrow>
      (let enabled = truthy (jget p ''enabled'');
           remark = sanitize_remark_text (text_or_empty (jget p ''remark_text'')) in
       case mode_of (jget p ''selection_mode'') previous of
         None \<Rightarrow> Inl Ml_Bad_Mode
       | Some mode \<Rightarrow>
          (case or_else (jget p ''locations'') (JArr []) of
             JArr raw \<Rightarrow>
              (if enabled \<and> length raw \<noteq> ML_REQUIRED_LOCATIONS then Inl Ml_Needs_Two
               else if \<not> enabled \<and> raw \<noteq> [] \<and> length raw \<noteq> ML_REQUIRED_LOCATIONS then Inl Ml_Zero_Or_Two
               else and_then
                 (read_locations te mode (case previous of None \<Rightarrow> [] | Some m \<Rightarrow> ml_locations m) [] tokens raw)
                 (\<lambda>locs. Inr \<lparr>ml_enabled = enabled, ml_remark = remark, ml_locations = locs, ml_mode = mode,
                              ml_failover = False, ml_migration = False\<rparr>))
           | _ \<Rightarrow> Inl Ml_Locations_Not_List))
   | _ \<Rightarrow> Inl Ml_Not_Object)"

definition location_remark :: "location \<Rightarrow> string \<Rightarrow> nat list" where
  "location_remark l custom =
     (let base = map (\<lambda>c. of_char c) (loc_country l) @ 32 # loc_flag l; text = sanitize_remark_text custom
      in if text = [] then base else base @ map (\<lambda>c. of_char c) ('' | '' @ text))"

section \<open>Resolution\<close>

datatype exit_error =
    Exit_Needs_Reconfiguration | Exit_Needs_Location | Exit_Bad_Location | Exit_No_Preferred
  | Exit_Location_Unavailable | Exit_Country_Changed | Exit_Not_In_Cache | Exit_Bad_Custom

record selection =
  sel_proxy :: string
  sel_endpoint :: string
  sel_location :: "string option"

definition resolve_location :: "(string \<Rightarrow> proxy option) \<Rightarrow> (string, string) dict \<Rightarrow> multi_location \<Rightarrow> string \<Rightarrow>
    exit_error + selection" where
  "resolve_location lookup preferred ml requested =
     (if ml_migration ml \<or> length (ml_locations ml) \<noteq> ML_REQUIRED_LOCATIONS then Inl Exit_Needs_Reconfiguration
      else (let lid = strip requested in
        if lid = [] then Inl Exit_Needs_Location
        else (case find (\<lambda>l. loc_id l = lid \<and> loc_active l) (ml_locations ml) of
            None \<Rightarrow> Inl Exit_Bad_Location
          | Some l \<Rightarrow>
             (let proxy_id = (if ml_mode ml = Country_Preferred
                              then (case map_of preferred (loc_code l) of None \<Rightarrow> [] | Some p \<Rightarrow> p)
                              else loc_proxy l) in
              if ml_mode ml = Country_Preferred \<and> proxy_id = [] then Inl Exit_No_Preferred
              else (case lookup proxy_id of
                  None \<Rightarrow> Inl Exit_Location_Unavailable
                | Some r \<Rightarrow>
                   if code r \<noteq> loc_code l then Inl Exit_Country_Changed
                   else Inr \<lparr>sel_proxy = pid r, sel_endpoint = endpoint r, sel_location = Some lid\<rparr>)))))"

definition resolve_exit_selection :: "(string \<Rightarrow> proxy option) \<Rightarrow> (string, string) dict \<Rightarrow> subs \<Rightarrow> link option \<Rightarrow> string \<Rightarrow>
    exit_error + selection option" where
  "resolve_exit_selection lookup preferred subs link requested = (case link of
     None \<Rightarrow> Inr None
   | Some l \<Rightarrow>
      (case snd (multi_location_for_link subs l) of
         Some ml \<Rightarrow> and_then (resolve_location lookup preferred ml requested) (\<lambda>s. Inr (Some s))
       | None \<Rightarrow>
          (let mode = (if l_mode l = [] then ''direct'' else l_mode l) in
           if mode = ''repository'' then
             (case lookup (l_proxy l) of
                None \<Rightarrow> Inl Exit_Not_In_Cache
              | Some r \<Rightarrow> Inr (Some \<lparr>sel_proxy = pid r, sel_endpoint = endpoint r, sel_location = None\<rparr>))
           else if mode = ''custom'' then
             (case validate_url (l_custom l) of
                Inl e \<Rightarrow> Inl Exit_Bad_Custom
              | Inr ep \<Rightarrow> Inr (Some \<lparr>sel_proxy = ''custom'', sel_endpoint = ep, sel_location = None\<rparr>))
           else Inr None)))"

definition resolve_exit_endpoints :: "(string \<Rightarrow> proxy option) \<Rightarrow> (string, string) dict \<Rightarrow> subs \<Rightarrow> link option \<Rightarrow> string \<Rightarrow>
    exit_error + string list" where
  "resolve_exit_endpoints lookup preferred subs link requested =
     and_then (resolve_exit_selection lookup preferred subs link requested)
       (\<lambda>s. Inr (case s of None \<Rightarrow> [] | Some sel \<Rightarrow> [sel_endpoint sel]))"

section \<open>The contract between routing and repository\<close>

text \<open>
  What the routing relies on: a record found under an identity carries that identity, and its
  endpoint is validated.
\<close>

locale proxy_source =
  fixes lookup :: "'s \<Rightarrow> string \<Rightarrow> proxy option"
    and wf :: "'s \<Rightarrow> bool"
  assumes lookup_id: "wf s \<Longrightarrow> lookup s p = Some r \<Longrightarrow> pid r = p"
    and lookup_valid: "wf s \<Longrightarrow> lookup s p = Some r \<Longrightarrow> validate_url (endpoint r) = Inr (endpoint r)"
begin

lemma location_exact:
  assumes "wf s" "resolve_location (lookup s) preferred ml requested = Inr sel"
  shows "\<exists>l r. l \<in> set (ml_locations ml) \<and> loc_id l = strip requested \<and> loc_active l
    \<and> lookup s (sel_proxy sel) = Some r \<and> sel_endpoint sel = endpoint r \<and> code r = loc_code l
    \<and> sel_location sel = Some (loc_id l)
    \<and> sel_proxy sel = (if ml_mode ml = Country_Preferred then the (map_of preferred (loc_code l)) else loc_proxy l)
    \<and> validate_url (sel_endpoint sel) = Inr (sel_endpoint sel)"
proof -
  from assms(2) obtain l where l: "find (\<lambda>l. loc_id l = strip requested \<and> loc_active l) (ml_locations ml) = Some l"
    by (auto simp: resolve_location_def Let_def split: if_splits option.splits)
  then have l': "l \<in> set (ml_locations ml)" "loc_id l = strip requested" "loc_active l"
    by (auto simp: find_Some_iff)
  define p where "p = (if ml_mode ml = Country_Preferred
      then (case map_of preferred (loc_code l) of None \<Rightarrow> [] | Some q \<Rightarrow> q) else loc_proxy l)"
  obtain r where r: "lookup s p = Some r" "code r = loc_code l"
    and sel: "sel = \<lparr>sel_proxy = pid r, sel_endpoint = endpoint r, sel_location = Some (strip requested)\<rparr>"
    and ne: "ml_mode ml = Country_Preferred \<Longrightarrow> p \<noteq> []"
    using assms(2) unfolding resolve_location_def l Let_def
    by (auto simp: p_def split: if_splits option.splits)
  have pid: "pid r = p" "validate_url (endpoint r) = Inr (endpoint r)"
    using lookup_id [OF assms(1) r(1)] lookup_valid [OF assms(1) r(1)] by auto
  have "p = (if ml_mode ml = Country_Preferred then the (map_of preferred (loc_code l)) else loc_proxy l)"
    using ne by (auto simp: p_def split: option.splits)
  then show ?thesis using l' r sel pid by (intro exI [of _ l] exI [of _ r]) simp
qed

lemma selection_valid:
  assumes "wf s" "resolve_exit_selection (lookup s) preferred subs (Some l) requested = Inr (Some sel)"
  shows "validate_url (sel_endpoint sel) = Inr (sel_endpoint sel)"
  using assms location_exact [OF assms(1)]
  by (auto simp: resolve_exit_selection_def and_then_Inr Let_def lookup_valid validated_fixed
      split: option.splits if_splits sum.splits)

end

lemma repo_lookup: "repo_ok digest s \<Longrightarrow> resolve s p = Some r \<Longrightarrow> pid r = p \<and> proxy_ok digest r"
  by (auto simp: repo_ok_def resolve_def dest!: map_of_SomeD)

interpretation managed: proxy_source resolve "repo_ok digest" for digest
  by unfold_locales (auto dest: repo_lookup simp: proxy_ok_def)

interpretation cached: proxy_source get_record "repo_ok digest" for digest
  by unfold_locales (auto dest: repo_lookup simp: proxy_ok_def get_record_def resolve_def [symmetric])

section \<open>Properties of a validated table\<close>

definition location_ok :: "(string \<Rightarrow> proxy option) \<Rightarrow> location \<Rightarrow> bool" where
  "location_ok lookup l \<longleftrightarrow> (\<exists>r. lookup (loc_proxy l) = Some r \<and> code r = loc_code l)
     \<and> is_valid_code (loc_code l) \<and> loc_flag l = flag_for (loc_code l) \<and> loc_active l"

lemma read_location_ok:
  assumes "read_location te mode previous done_locs token entry = Inr l"
  shows "location_ok (te_lookup te) l \<and> loc_code l \<notin> loc_code ` set done_locs \<and> loc_id l \<notin> loc_id ` set done_locs
    \<and> (te_require_tests te \<and> mode = Explicit \<and> location_changed previous (loc_id l) (loc_proxy l) (loc_code l)
        \<longrightarrow> (\<exists>receipt. te_receipt te (loc_proxy l) receipt))"
  using assms
  by (auto simp: read_location_def Let_def location_ok_def split: json.splits if_splits option.splits)

lemma read_locations_ok:
  assumes "read_locations te mode previous done_locs tokens es = Inr locs"
    and "distinct (map loc_code done_locs)" "distinct (map loc_id done_locs)"
    and "list_all (location_ok (te_lookup te)) done_locs"
  shows "distinct (map loc_code locs) \<and> distinct (map loc_id locs) \<and> list_all (location_ok (te_lookup te)) locs
    \<and> length locs = length done_locs + length es"
  using assms
proof (induction te mode previous done_locs tokens es rule: read_locations.induct)
  case (2 te mode previous done_locs tokens e es)
  then obtain l where l: "read_location te mode previous done_locs (case tokens of [] \<Rightarrow> [] | t # ts \<Rightarrow> t) e = Inr l"
    by (auto split: sum.splits)
  show ?case using 2 l read_location_ok [OF l] by auto
qed simp

text \<open>
  C7. A multi-location table that is accepted and enabled has exactly two locations, in different
  countries and with different identities, each bound to a proxy that the repository holds
  for that very country; it never asks for failover.
\<close>

theorem validated_table_exact:
  assumes "validate_multi_location te tokens payload previous = Inr ml"
  shows "(ml_enabled ml \<longrightarrow> length (ml_locations ml) = 2) \<and> length (ml_locations ml) \<in> {0, 2}
    \<and> distinct (map loc_code (ml_locations ml)) \<and> distinct (map loc_id (ml_locations ml))
    \<and> list_all (location_ok (te_lookup te)) (ml_locations ml) \<and> \<not> ml_failover ml \<and> \<not> ml_migration ml"
proof -
  obtain p where p: "payload = JObj p"
    using assms by (auto simp: validate_multi_location_def split: json.splits)
  obtain mode where m: "mode_of (jget p ''selection_mode'') previous = Some mode"
    using assms p by (cases "mode_of (jget p ''selection_mode'') previous") (auto simp: validate_multi_location_def Let_def)
  obtain raw where raw: "or_else (jget p ''locations'') (JArr []) = JArr raw"
    using assms p m by (auto simp: validate_multi_location_def Let_def split: json.splits)
  define enabled where "enabled = truthy (jget p ''enabled'')"
  have n: "enabled \<Longrightarrow> length raw = 2" "\<not> enabled \<Longrightarrow> raw = [] \<or> length raw = 2"
    using assms p m raw
    by (auto simp: validate_multi_location_def ML_REQUIRED_LOCATIONS_def enabled_def split: if_splits)
  obtain locs where r: "read_locations te mode (case previous of None \<Rightarrow> [] | Some m \<Rightarrow> ml_locations m) [] tokens raw = Inr locs"
    and ml: "ml_enabled ml = enabled" "ml_locations ml = locs" "\<not> ml_failover ml" "\<not> ml_migration ml"
    using assms p m raw by (auto simp: validate_multi_location_def and_then_Inr enabled_def Let_def split: if_splits)
  show ?thesis using read_locations_ok [OF r] n ml by (cases enabled) auto
qed

section \<open>A repository for the witnesses\<close>

definition fi_proxy :: proxy where
  "fi_proxy = \<lparr>pid = ''http://1.2.3.4:80'', endpoint = ''http://1.2.3.4:80'', ptype = ''http'', country = ''Finland'',
     code = ''FI'', flag = [0x1F1EB, 0x1F1EE], health = 90\<rparr>"

definition de_proxy :: proxy where
  "de_proxy = \<lparr>pid = ''http://5.6.7.8:80'', endpoint = ''http://5.6.7.8:80'', ptype = ''http'', country = ''Germany'',
     code = ''DE'', flag = [0x1F1E9, 0x1F1EA], health = 80\<rparr>"

definition sample_repo :: repo where
  "sample_repo = new_repo\<lparr>records := [(pid fi_proxy, fi_proxy), (pid de_proxy, de_proxy)], load_error := []\<rparr>"

definition sample_table :: table_env where
  "sample_table = \<lparr>te_lookup = resolve sample_repo, te_preferred = [], te_receipt = (\<lambda>p r. True), te_require_tests = True\<rparr>"

definition sample_payload :: json where
  "sample_payload = JObj [(''enabled'', JBool True), (''locations'', JArr
     [JObj [(''id'', JStr ''a''), (''code'', JStr ''fi''), (''proxy_id'', JStr ''http://1.2.3.4:80'')],
      JObj [(''id'', JStr ''b''), (''code'', JStr ''DE''), (''proxy_id'', JStr ''http://5.6.7.8:80'')]])]"

definition sample_ml :: multi_location where
  "sample_ml = \<lparr>ml_enabled = True, ml_remark = [], ml_locations =
     [\<lparr>loc_id = ''a'', loc_code = ''FI'', loc_country = ''Finland'', loc_flag = [0x1F1EB, 0x1F1EE],
        loc_proxy = ''http://1.2.3.4:80'', loc_active = True\<rparr>,
      \<lparr>loc_id = ''b'', loc_code = ''DE'', loc_country = ''Germany'', loc_flag = [0x1F1E9, 0x1F1EA],
        loc_proxy = ''http://5.6.7.8:80'', loc_active = True\<rparr>],
     ml_mode = Explicit, ml_failover = False, ml_migration = False\<rparr>"

definition sample_subs :: subs where
  "sample_subs = [(''s'', \<lparr>s_name = ''g'', s_desc = [], s_password = None, s_key = ''k'', s_created = 0,
     s_links = [], s_ml = Some sample_ml\<rparr>)]"

lemma sample_payload_valid: "validate_multi_location sample_table [] sample_payload None = Inr sample_ml"
  by code_simp

lemma sample_repo_ok: "repo_ok (\<lambda>e. e) sample_repo"
proof -
  have "validate_url ''http://1.2.3.4:80'' = Inr ''http://1.2.3.4:80''" "validate_url ''http://5.6.7.8:80'' = Inr ''http://5.6.7.8:80''"
    "flag_for ''FI'' = [0x1F1EB, 0x1F1EE]" "flag_for ''DE'' = [0x1F1E9, 0x1F1EA]"
    "upper_code_text ''FI''" "upper_code_text ''DE''" by code_simp+
  then show ?thesis
    by (simp add: repo_ok_def proxy_ok_def sample_repo_def fi_proxy_def de_proxy_def new_repo_def dict_ok_def MAX_PROXIES_def)
qed

lemma validated_table_exact_witness: "length (ml_locations sample_ml) \<in> {0, 2}"
  using validated_table_exact [OF sample_payload_valid] by blast

section \<open>Properties of the resolution\<close>

text \<open>
  C4. Routing fails closed. When the group of a configuration has an enabled location table, the
  result is an error or the one endpoint of the requested location: never a direct exit, never
  the proxy of another location or country. The endpoint is the validated endpoint of the
  record that is bound to the location (or preferred for its country).
\<close>

theorem multi_location_fails_closed:
  assumes "repo_ok digest repo"
    and "snd (multi_location_for_link subs l) = Some ml"
    and "resolve_exit_selection (resolve repo) preferred subs (Some l) requested = Inr result"
  shows "\<exists>sel loc r. result = Some sel \<and> loc \<in> set (ml_locations ml) \<and> loc_id loc = strip requested \<and> loc_active loc
    \<and> sel_proxy sel = (if ml_mode ml = Country_Preferred then the (map_of preferred (loc_code loc)) else loc_proxy loc)
    \<and> resolve repo (sel_proxy sel) = Some r \<and> sel_endpoint sel = endpoint r \<and> code r = loc_code loc
    \<and> length (ml_locations ml) = 2 \<and> \<not> ml_migration ml"
proof -
  obtain sel where sel: "result = Some sel" "resolve_location (resolve repo) preferred ml requested = Inr sel"
    using assms(2, 3) by (auto simp: resolve_exit_selection_def and_then_Inr)
  then have "length (ml_locations ml) = 2" "\<not> ml_migration ml"
    by (auto simp: resolve_location_def ML_REQUIRED_LOCATIONS_def split: if_splits)
  with sel managed.location_exact [OF assms(1) sel(2)] show ?thesis by blast
qed

lemma multi_location_fails_closed_witness:
  "\<exists>r. resolve sample_repo ''http://5.6.7.8:80'' = Some r \<and> code r = ''DE''"
proof -
  have ml: "snd (multi_location_for_link sample_subs (sample_link\<lparr>l_sub := Some ''s''\<rparr>)) = Some sample_ml"
    by (simp add: multi_location_for_link_def sample_subs_def sample_link_def sample_ml_def)
  have "resolve_exit_selection (resolve sample_repo) [] sample_subs (Some (sample_link\<lparr>l_sub := Some ''s''\<rparr>)) ''b''
      = Inr (Some \<lparr>sel_proxy = ''http://5.6.7.8:80'', sel_endpoint = ''http://5.6.7.8:80'', sel_location = Some ''b''\<rparr>)"
    by code_simp
  from multi_location_fails_closed [OF sample_repo_ok ml this] show ?thesis
    by (auto simp: sample_ml_def)
qed

text \<open>
  A configuration leaves directly only when it asks for it: without a location table the
  result is a direct exit exactly for a mode other than repository and custom. A repository
  mode gives the record of the configured identity or an error, a custom mode its validated
  address or an error.
\<close>

theorem direct_exit_only_when_asked:
  assumes "snd (multi_location_for_link subs l) = None"
  shows "(resolve_exit_selection (resolve repo) preferred subs (Some l) requested = Inr None
      \<longleftrightarrow> l_mode l \<noteq> ''repository'' \<and> l_mode l \<noteq> ''custom'')
    \<and> (l_mode l = ''repository'' \<longrightarrow> resolve_exit_selection (resolve repo) preferred subs (Some l) requested =
         (case resolve repo (l_proxy l) of None \<Rightarrow> Inl Exit_Not_In_Cache
          | Some r \<Rightarrow> Inr (Some \<lparr>sel_proxy = pid r, sel_endpoint = endpoint r, sel_location = None\<rparr>)))
    \<and> (l_mode l = ''custom'' \<longrightarrow> resolve_exit_selection (resolve repo) preferred subs (Some l) requested =
         (case validate_url (l_custom l) of Inl e \<Rightarrow> Inl Exit_Bad_Custom
          | Inr ep \<Rightarrow> Inr (Some \<lparr>sel_proxy = ''custom'', sel_endpoint = ep, sel_location = None\<rparr>)))"
  using assms by (auto simp: resolve_exit_selection_def Let_def split: option.splits sum.splits)

lemma direct_exit_only_when_asked_witness:
  "resolve_exit_selection (resolve sample_repo) [] [] (Some sample_link) [] = Inr None"
proof -
  have ml: "snd (multi_location_for_link [] sample_link) = None" by (simp add: multi_location_for_link_def)
  show ?thesis
    using direct_exit_only_when_asked [OF ml, of sample_repo "[]" "[]"] by (simp add: sample_link_def)
qed

text \<open>
  A receipt that the panel issued for a record is accepted for exactly the identity and endpoint
  it was issued for, until it runs out. The coding is assumed to give the payload back and to
  use no dot, as URL-safe base64 does.
\<close>

theorem receipt_round_trip:
  assumes "dec (enc (receipt_payload fp issued row)) = Some (receipt_payload fp issued row)"
    and "CHR ''.'' \<notin> set (enc (receipt_payload fp issued row))"
    and "lookup proxy_id = Some row'"
  shows "verify_proxy_test_receipt mac dec fp now lookup proxy_id (issue_proxy_test_receipt mac enc fp issued row)
    \<longleftrightarrow> pid row = pid row' \<and> fp (endpoint row) = fp (endpoint row') \<and> now \<le> issued + PROXY_TEST_RECEIPT_TTL"
proof -
  let ?b = "enc (receipt_payload fp issued row)"
  have s: "before CHR ''.'' (?b @ CHR ''.'' # m) = ?b" "after CHR ''.'' (?b @ CHR ''.'' # m) = m" for m
    using before_prefix [OF assms(2), of m] by auto
  have d: "dec ?b = Some (JObj [(''endpoint'', JStr (fp (endpoint row))), (''expires'', JInt (issued + PROXY_TEST_RECEIPT_TTL)),
      (''proxy_id'', JStr (pid row))])" using assms(1) by (simp add: receipt_payload_def)
  show ?thesis
    unfolding verify_proxy_test_receipt_def issue_proxy_test_receipt_def Let_def
    using assms(3) d by (auto simp: s jget_def or_else_def)
qed

lemma receipt_round_trip_witness:
  "verify_proxy_test_receipt (\<lambda>b. b) (\<lambda>b. Some (receipt_payload (\<lambda>e. e) 5 fi_proxy)) (\<lambda>e. e) 600 (resolve sample_repo)
     ''http://1.2.3.4:80'' (issue_proxy_test_receipt (\<lambda>b. b) (\<lambda>j. ''x'') (\<lambda>e. e) 5 fi_proxy)"
proof -
  have l: "resolve sample_repo ''http://1.2.3.4:80'' = Some fi_proxy"
    by (simp add: resolve_def sample_repo_def fi_proxy_def new_repo_def)
  show ?thesis
    using receipt_round_trip [where dec = "\<lambda>b. Some (receipt_payload (\<lambda>e. e) 5 fi_proxy)" and enc = "\<lambda>j. ''x''"
        and fp = "\<lambda>e. e" and mac = "\<lambda>b. b" and issued = 5 and row = fi_proxy and now = 600
        and lookup = "resolve sample_repo" and proxy_id = "''http://1.2.3.4:80''" and row' = fi_proxy]
    by (simp add: PROXY_TEST_RECEIPT_TTL_def l)
qed

end
