(* ===== verification/Uuid.thy ===== *)
theory Uuid
  imports Net_Address
begin

text \<open>
  UUIDs as the program uses them: \<open>uuid.UUID(text)\<close> with everything it tolerates (a URN prefix,
  braces, missing hyphens, and what \<open>int(text, 16)\<close> accepts), the canonical text, the sixteen
  bytes of the wire form, and \<open>normalize_requested_uuid\<close> of \<open>main.py\<close>.
\<close>

fun hexdigits_ok :: "string \<Rightarrow> bool" where
  "hexdigits_ok [] = False"
| "hexdigits_ok [c] = is_hex c"
| "hexdigits_ok (c # d # s) = (is_hex c \<and> (if d = CHR ''_'' then hexdigits_ok s else hexdigits_ok (d # s)))"

definition int16 :: "string \<Rightarrow> int option" where
  "int16 text =
    (let s = strip text;
         neg = starts_with ''-'' s;
         r = (if neg \<or> starts_with ''+'' s then tl s else s);
         r1 = (if starts_with ''0x'' r \<or> starts_with ''0X'' r
               then (if starts_with ''_'' (drop 2 r) then drop 3 r else drop 2 r) else r);
         v = int (parse_hex (filter (\<lambda>c. c \<noteq> CHR ''_'') r1))
     in if hexdigits_ok r1 then Some (if neg then - v else v) else None)"

fun drop_all :: "string \<Rightarrow> string \<Rightarrow> string" where
  "drop_all p [] = []"
| "drop_all p (c # s) = (if p \<noteq> [] \<and> starts_with p (c # s) then drop_all p (drop (length p - 1) s) else c # drop_all p s)"

definition parse_uuid :: "string \<Rightarrow> nat option" where
  "parse_uuid text =
    (let h = filter (\<lambda>c. c \<noteq> CHR ''-'')
               (strip_by (\<lambda>c. c = CHR ''{'' \<or> c = CHR ''}'') (drop_all ''uuid:'' (drop_all ''urn:'' text)))
     in if length h \<noteq> 32 then None
        else (case int16 h of None \<Rightarrow> None
          | Some i \<Rightarrow> if 0 \<le> i \<and> i < 2 ^ 128 then Some (nat i) else None))"

definition hex32 :: "nat \<Rightarrow> string" where
  "hex32 n = replicate (32 - length (show_hex n)) CHR ''0'' @ show_hex n"

definition uuid_text :: "nat \<Rightarrow> string" where
  "uuid_text n = (let h = hex32 n in
     take 8 h @ ''-'' @ take 4 (drop 8 h) @ ''-'' @ take 4 (drop 12 h) @ ''-'' @ take 4 (drop 16 h) @ ''-'' @ drop 20 h)"

text \<open>\<open>normalize_requested_uuid\<close>: an empty request is the empty text, \<open>None\<close> is the ValueError.\<close>

definition normalize_requested_uuid :: "string \<Rightarrow> string option" where
  "normalize_requested_uuid value = (let raw = strip value in
     if raw = [] then Some []
     else (case parse_uuid raw of
        None \<Rightarrow> None | Some n \<Rightarrow> if n = 0 then None else Some (uuid_text n)))"

text \<open>\<open>UUID(bytes=...)\<close>.\<close>

definition uuid_of_bytes :: "nat list \<Rightarrow> nat" where
  "uuid_of_bytes bs = foldl (\<lambda>n b. 256 * n + b) 0 bs"

section \<open>The canonical text reads back\<close>

lemma hex_char_0: "hex_char 0 = CHR ''0''"
  by code_simp

lemma length_hex32: "n < 2 ^ 128 \<Longrightarrow> length (hex32 n) = 32"
  using length_show_hex [of n 31] by (simp add: hex32_def)

lemma hex32_hex: "c \<in> set (hex32 n) \<Longrightarrow> is_hex c"
  using hex_char_hex [of 0] hex_char_hex by (auto simp: hex32_def hex_char_0 dest!: show_hex_chars)

lemma parse_hex_zeros: "parse_hex (replicate k CHR ''0'' @ s) = parse_hex s"
  by (induction k) (simp_all add: parse_hex_def hex_val_def)

lemma parse_hex32: "parse_hex (hex32 n) = n"
  by (simp add: hex32_def parse_hex_zeros parse_hex_show)

lemma hexdigits_ok_all: "s \<noteq> [] \<Longrightarrow> (\<And>c. c \<in> set s \<Longrightarrow> is_hex c) \<Longrightarrow> hexdigits_ok s"
proof (induction s rule: hexdigits_ok.induct)
  case (3 c d s)
  have "\<not> is_hex CHR ''_''" by (simp add: is_hex_def)
  with 3 show ?case by auto
qed auto

lemma not_hex_punct2: "\<not> is_hex CHR ''-''" "\<not> is_hex CHR ''+''" "\<not> is_hex CHR ''x''" "\<not> is_hex CHR ''X''"
  "\<not> is_hex CHR ''_''" "\<not> is_hex CHR ''u''" "\<not> is_hex CHR ''{''" "\<not> is_hex CHR ''}''"
  by (simp_all add: is_hex_def)

lemma is_hex_no_space: "is_hex c \<Longrightarrow> \<not> is_space c"
  by (auto simp: is_hex_def is_space_def Let_def)

lemma int16_plain:
  assumes "s \<noteq> []" "\<And>c. c \<in> set s \<Longrightarrow> is_hex c"
  shows "int16 s = Some (int (parse_hex s))"
proof -
  obtain a r where s: "s = a # r" using assms(1) by (cases s) auto
  have st: "strip s = s" using assms(2) is_hex_no_space by (intro strip_no_space) auto
  have a: "a \<noteq> CHR ''-''" "a \<noteq> CHR ''+''" using assms(2) [of a] not_hex_punct2 s by auto
  have x: "r \<noteq> [] \<Longrightarrow> hd r \<noteq> CHR ''x'' \<and> hd r \<noteq> CHR ''X''"
    using assms(2) [of "hd r"] not_hex_punct2 s by (cases r) auto
  have f: "filter (\<lambda>c. c \<noteq> CHR ''_'') s = s"
    using assms(2) not_hex_punct2(5) by (auto simp: filter_id_conv)
  have n: "\<not> starts_with ''-'' s" "\<not> starts_with ''+'' s" "\<not> starts_with ''0x'' s" "\<not> starts_with ''0X'' s"
    using a x by (auto simp: s starts_with_def take_Suc_conv_app_nth numeral_2_eq_2 split: list.splits)
      (cases r; simp)+
  show ?thesis using hexdigits_ok_all [OF assms] by (simp add: int16_def Let_def st n f)
qed

lemma drop_all_none: "c \<notin> set s \<Longrightarrow> drop_all (c # p) s = s"
  by (induction s) (auto simp: starts_with_def)

lemma drop_alls: "CHR ''u'' \<notin> set s \<Longrightarrow> drop_all ''uuid:'' (drop_all ''urn:'' s) = s"
  by (simp add: drop_all_none)

lemma uuid_text_chars: "c \<in> set (uuid_text n) \<Longrightarrow> is_hex c \<or> c = CHR ''-''"
  using hex32_hex [of c n] by (auto simp: uuid_text_def Let_def dest: in_set_takeD in_set_dropD)

lemma take_drop_join: "take k (drop m h) @ drop (m + k) h = drop m h"
  by (metis append_take_drop_id drop_drop add.commute)

lemma filter_hyphens: "filter (\<lambda>c. c \<noteq> CHR ''-'') (uuid_text n) = hex32 n"
proof -
  have f: "(\<And>c. c \<in> set s \<Longrightarrow> is_hex c) \<Longrightarrow> filter (\<lambda>c. c \<noteq> CHR ''-'') s = s" for s
    using not_hex_punct2(1) by (auto simp: filter_id_conv)
  let ?h = "hex32 n"
  have "take 8 ?h @ take 4 (drop 8 ?h) @ take 4 (drop 12 ?h) @ take 4 (drop 16 ?h) @ drop 20 ?h = ?h"
    using take_drop_join [of 4 16 ?h] take_drop_join [of 4 12 ?h] take_drop_join [of 4 8 ?h] by simp
  moreover have "filter (\<lambda>c. c \<noteq> CHR ''-'') (uuid_text n)
      = take 8 ?h @ take 4 (drop 8 ?h) @ take 4 (drop 12 ?h) @ take 4 (drop 16 ?h) @ drop 20 ?h"
  proof -
    have p: "filter (\<lambda>c. c \<noteq> CHR ''-'') (take i (drop j ?h)) = take i (drop j ?h)"
      "filter (\<lambda>c. c \<noteq> CHR ''-'') (take i ?h) = take i ?h" "filter (\<lambda>c. c \<noteq> CHR ''-'') (drop j ?h) = drop j ?h" for i j
      by (rule f, rule hex32_hex, blast dest: in_set_takeD in_set_dropD)+
    show ?thesis unfolding uuid_text_def Let_def by (simp add: p)
  qed
  ultimately show ?thesis by simp
qed

lemma strip_by_none: "(\<And>c. c \<in> set s \<Longrightarrow> \<not> p c) \<Longrightarrow> strip_by p s = s"
proof -
  assume a: "\<And>c. c \<in> set s \<Longrightarrow> \<not> p c"
  have "dropWhile p s = s" "dropWhile p (rev s) = rev s"
    using a hd_in_set [of s] hd_in_set [of "rev s"] by (auto simp: dropWhile_eq_self_iff)
  then show ?thesis by (simp add: strip_by_def rstrip_by_def)
qed

lemma parse_uuid_text: "n < 2 ^ 128 \<Longrightarrow> parse_uuid (uuid_text n) = Some n"
proof -
  assume n: "n < 2 ^ 128"
  have no: "CHR ''u'' \<notin> set (uuid_text n)" using uuid_text_chars [of "CHR ''u''" n] not_hex_punct2(6) by auto
  have st: "strip_by (\<lambda>c. c = CHR ''{'' \<or> c = CHR ''}'') (uuid_text n) = uuid_text n"
    using uuid_text_chars [of _ n] not_hex_punct2 by (intro strip_by_none) blast
  have "hex32 n \<noteq> []" using length_hex32 [OF n] by auto
  then have "int16 (hex32 n) = Some (int n)"
    using int16_plain [of "hex32 n"] hex32_hex by (simp add: parse_hex32)
  moreover have "int n < 2 ^ 128" using n by (metis of_nat_less_iff of_nat_numeral of_nat_power)
  ultimately show ?thesis
    using n by (simp add: parse_uuid_def drop_alls [OF no] st filter_hyphens length_hex32)
qed

lemma uuid_text_length: "n < 2 ^ 128 \<Longrightarrow> length (uuid_text n) = 36"
  using length_hex32 [of n] by (simp add: uuid_text_def Let_def)

lemma parse_uuid_bound: "parse_uuid s = Some n \<Longrightarrow> n < 2 ^ 128"
proof -
  assume "parse_uuid s = Some n"
  then obtain i where "0 \<le> i" "i < 2 ^ 128" "n = nat i"
    by (auto simp: parse_uuid_def Let_def split: if_splits option.splits)
  then show ?thesis by (metis nat_less_iff of_nat_numeral of_nat_power)
qed

lemma strip_uuid_text: "strip (uuid_text n) = uuid_text n"
proof (rule strip_no_space)
  fix c assume "c \<in> set (uuid_text n)"
  then show "\<not> is_space c" using uuid_text_chars [of c n] is_hex_no_space [of c] by (auto simp: is_space_def)
qed

text \<open>
  A requested UUID that is accepted is stored in its canonical form of 36 characters, which is
  a fixed point: asking for the stored form again gives the stored form.
\<close>

theorem requested_uuid_canonical:
  assumes "normalize_requested_uuid value = Some u" "u \<noteq> []"
  shows "length u = 36 \<and> normalize_requested_uuid u = Some u \<and> (\<exists>n. 0 < n \<and> n < 2 ^ 128 \<and> u = uuid_text n)"
proof -
  from assms obtain n where n: "parse_uuid (strip value) = Some n" "n \<noteq> 0" "u = uuid_text n"
    by (auto simp: normalize_requested_uuid_def Let_def split: if_splits option.splits)
  note b = parse_uuid_bound [OF n(1)]
  show ?thesis using n b assms(2) uuid_text_length [OF b] parse_uuid_text [OF b]
    by (auto simp: normalize_requested_uuid_def strip_uuid_text)
qed

lemma requested_uuid_canonical_witness: "length (uuid_text 5) = 36"
proof -
  have ne: "uuid_text 5 \<noteq> []" by (simp add: uuid_text_def Let_def)
  then have "normalize_requested_uuid (uuid_text 5) = Some (uuid_text 5)"
    by (simp add: normalize_requested_uuid_def strip_uuid_text parse_uuid_text)
  from requested_uuid_canonical [OF this ne] show ?thesis by simp
qed

end
