(* ===== verification/Registry.thy ===== *)
theory Registry
  imports Exit_Routing Uuid
begin

text \<open>
  The registry of \<open>main.py\<close>: creating, editing and removing configurations and groups, and the
  membership that both sides record (\<open>sub_id\<close> of a configuration, \<open>link_ids\<close> of a group).
  The state holds the two dictionaries in memory, their copy on disk, the speed buckets and the
  activity log. A handler runs to completion between its first check and \<open>save_state\<close>: its
  locks are never nested and an uncontended lock does not suspend, so a handler is one step.
\<close>

section \<open>State and context\<close>

record panel =
  links :: links
  subs :: subs
  buckets :: "string list"
  activity :: "(string \<times> string) list"
  disk :: "links \<times> subs"
  disk_ok :: bool

record platform =
  pf_idna :: "string \<Rightarrow> string option"
  pf_hash :: "string \<Rightarrow> string"
  pf_float :: "string \<Rightarrow> rat option"
  pf_ingress :: ingress
  pf_lookup :: "string \<Rightarrow> proxy option"
  pf_preferred :: "(string, string) dict"
  pf_receipt :: "string \<Rightarrow> string \<Rightarrow> bool"
  pf_host :: string
  pf_now :: int

datatype reason =
    R_Transport transport_error | R_Address addr_error | R_Raw_Ml ml_error | R_Table table_error
  | R_Raw_Managed | R_Raw_Port | R_Uuid | R_Uuid_Used | R_Proxy_Missing | R_Custom url_error | R_Mode
  | R_Needs_Test | R_Body | R_Link_Ids | R_Transport_Fixed

datatype failure = Bad_Request reason | Not_Found | Save_Failed | Crash

definition fail_with :: "('e \<Rightarrow> reason) \<Rightarrow> 'e + 'a \<Rightarrow> failure + 'a" where
  "fail_with f r = (case r of Inl e \<Rightarrow> Inl (Bad_Request (f e)) | Inr x \<Rightarrow> Inr x)"

definition MICROS_PER_DAY :: int where "MICROS_PER_DAY = 86400 * 1000000"
definition MAX_TIME :: int where "MAX_TIME = 253402300799999999"
definition MAX_DAYS :: int where "MAX_DAYS = 999999999"

text \<open>\<open>activity_logs\<close> keeps the last 200 entries; the Persian text of an entry is left out.\<close>

definition log_activity :: "string \<Rightarrow> string \<Rightarrow> panel \<Rightarrow> panel" where
  "log_activity kind level p = (let a = activity p @ [(kind, level)] in
     p\<lparr>activity := drop (length a - 200) a\<rparr>)"

definition save_state :: "panel \<Rightarrow> bool \<times> panel" where
  "save_state p = (if disk_ok p then (True, p\<lparr>disk := (links p, subs p)\<rparr>) else (False, p))"

text \<open>\<open>await save_state(strict=True)\<close>, the statements \<open>rest\<close> after it, and the value returned.\<close>

definition save_strict :: "panel \<Rightarrow> (panel \<Rightarrow> panel) \<Rightarrow> 'a \<Rightarrow> (failure + 'a) \<times> panel" where
  "save_strict p rest r = (case save_state p of
     (ok, q) \<Rightarrow> if ok then (Inr r, rest q) else (Inl Save_Failed, q))"

definition reset_bucket :: "string \<Rightarrow> panel \<Rightarrow> panel" where
  "reset_bucket uid p = p\<lparr>buckets := removeAll uid (buckets p)\<rparr>"

definition on_link :: "string \<Rightarrow> (link \<Rightarrow> link) \<Rightarrow> panel \<Rightarrow> panel" where
  "on_link uid f p = p\<lparr>links := dmod uid f (links p)\<rparr>"

definition on_sub :: "string \<Rightarrow> (sub \<Rightarrow> sub) \<Rightarrow> panel \<Rightarrow> panel" where
  "on_sub sid f p = p\<lparr>subs := dmod sid f (subs p)\<rparr>"

text \<open>A change of the group a configuration names, if it names one that exists.\<close>

definition in_group :: "string option \<Rightarrow> (sub \<Rightarrow> sub) \<Rightarrow> panel \<Rightarrow> panel" where
  "in_group g f p = (case g of None \<Rightarrow> p | Some sid \<Rightarrow> if sid = [] then p else on_sub sid f p)"

text \<open>\<open>ids.append(uid)\<close> unless present, and \<open>ids.remove(uid)\<close> when present.\<close>

definition add_member :: "string \<Rightarrow> sub \<Rightarrow> sub" where
  "add_member uid s = (if uid \<in> set (s_links s) then s else s\<lparr>s_links := s_links s @ [uid]\<rparr>)"

definition drop_member :: "string \<Rightarrow> sub \<Rightarrow> sub" where
  "drop_member uid s = s\<lparr>s_links := remove1 uid (s_links s)\<rparr>"

section \<open>Creating a configuration\<close>

definition normalize_exit_proxy :: "(string \<Rightarrow> proxy option) \<Rightarrow> string \<Rightarrow> string \<Rightarrow> string \<Rightarrow>
    reason + string \<times> string \<times> string" where
  "normalize_exit_proxy lookup mode proxy_id custom =
     (let m = lower (if mode = [] then ''direct'' else mode) in
      if m = ''repository'' then
        (let p = strip proxy_id in
         if p = [] \<or> lookup p = None then Inl R_Proxy_Missing else Inr (m, p, []))
      else if m = ''custom'' then
        (case validate_url custom of Inl e \<Rightarrow> Inl (R_Custom e) | Inr ep \<Rightarrow> Inr (m, [], ep))
      else if m \<noteq> ''direct'' then Inl R_Mode
      else Inr (''direct'', [], []))"

record link_request =
  q_label :: string
  q_limit :: int
  q_expires :: stamp
  q_note :: string
  q_remark :: string
  q_sub :: "string option"
  q_protocol :: string
  q_settings :: json
  q_security :: json
  q_fingerprint :: string
  q_alpn :: string
  q_port :: "int option"
  q_ip_limit :: int
  q_speed :: int
  q_address :: string
  q_sni :: string
  q_mode :: string
  q_proxy :: string
  q_custom :: string
  q_uuid :: string

text \<open>The default label and remark; the code's label is the Persian for ``new link''.\<close>

definition NEW_LINK :: string where "NEW_LINK = ''new link''"
definition BRAND :: string where "BRAND = ''Lumen Relay''"

definition clean_fingerprint :: "string \<Rightarrow> string" where
  "clean_fingerprint fp = (let f = lower (strip (if fp = [] then DEFAULT_FINGERPRINT else fp)) in
     if f \<in> set FINGERPRINTS then f else DEFAULT_FINGERPRINT)"

definition clean_port :: "int \<Rightarrow> int" where
  "clean_port p = (if 1 \<le> p \<and> p \<le> 65535 then p else DEFAULT_PORT)"

definition normalize_if_given ::
  "(string \<Rightarrow> addr_error + string) \<Rightarrow> string \<Rightarrow> failure + string" where
  "normalize_if_given f s = (if strip s \<noteq> [] then fail_with R_Address (f s) else Inr [])"

text \<open>The Raw TCP guard: nothing endpoint-like may be given, and the group must have endpoints.\<close>

definition raw_guard :: "platform \<Rightarrow> panel \<Rightarrow> link_request \<Rightarrow> link \<Rightarrow> failure + unit" where
  "raw_guard pf p q bare =
     (if l_protocol bare \<noteq> ''vless-tcp'' then Inr ()
      else if strip (q_address q) \<noteq> [] \<or> strip (q_sni q) \<noteq> [] \<or> strip (q_alpn q) \<noteq> [] then Inl (Bad_Request R_Raw_Managed)
      else if q_port q \<noteq> None \<and> q_port q \<noteq> Some DEFAULT_PORT then Inl (Bad_Request R_Raw_Port)
      else (case q_sub q of
          None \<Rightarrow> Inr ()
        | Some sid \<Rightarrow>
           if sid = [] then Inr ()
           else fail_with R_Raw_Ml (validate_raw_tcp_multi_location (pf_ingress pf) (Some bare)
                  (Option.bind (map_of (subs p) sid) s_ml))))"

definition new_link :: "platform \<Rightarrow> link_request \<Rightarrow> string \<Rightarrow> body \<Rightarrow> string \<Rightarrow> string \<Rightarrow>
    string \<times> string \<times> string \<Rightarrow> link" where
  "new_link pf q protocol settings address sni ex =
     (let raw = (protocol = ''vless-tcp''); label = (if q_label q = [] then NEW_LINK else q_label q);
          shown = take 60 (strip label) in
      \<lparr>l_label = (if shown = [] then NEW_LINK else shown),
       l_limit = max 0 (q_limit q), l_used = 0, l_created = pf_now pf, l_active = True, l_expires = q_expires q,
       l_note = take 200 (strip (q_note q)),
       l_remark = take 120 (strip (if q_remark q \<noteq> [] then q_remark q else if q_label q \<noteq> [] then q_label q else BRAND)),
       l_default = False, l_sub = q_sub q, l_protocol = protocol, l_settings = settings,
       l_fingerprint = clean_fingerprint (q_fingerprint q),
       l_alpn = (if raw then [] else take 100 (strip (q_alpn q))),
       l_port = (if raw then DEFAULT_PORT else clean_port (case q_port q of None \<Rightarrow> DEFAULT_PORT | Some n \<Rightarrow> n)),
       l_ip_limit = max 0 (q_ip_limit q), l_speed = max 0 (q_speed q),
       l_address = address, l_sni = sni,
       l_mode = fst ex, l_proxy = fst (snd ex), l_custom = snd (snd ex),
       l_owner = None, l_order = None, l_plan = None, l_managed = False\<rparr>)"

text \<open>Everything \<open>make_link\<close> checks before it touches the state.\<close>

definition check_link :: "platform \<Rightarrow> string \<Rightarrow> panel \<Rightarrow> link_request \<Rightarrow> failure + string \<times> link" where
  "check_link pf new_uid p q =
     and_then (fail_with R_Transport (transport_validate (pf_ingress pf) (q_protocol q) (q_settings q))) (\<lambda>(protocol, settings).
     and_then (fail_with R_Transport (validate_security (pf_ingress pf) protocol (q_security q))) (\<lambda>_.
     and_then (raw_guard pf p q (new_link pf q protocol settings [] [] (''direct'', [], []))) (\<lambda>_.
     and_then (normalize_if_given (normalize_address (pf_idna pf)) (q_address q)) (\<lambda>address.
     and_then (normalize_if_given (normalize_sni (pf_idna pf)) (q_sni q)) (\<lambda>sni.
     and_then (case normalize_exit_proxy (pf_lookup pf) (q_mode q) (q_proxy q) (q_custom q) of
                 Inl e \<Rightarrow> Inl (Bad_Request e) | Inr ex \<Rightarrow> Inr ex) (\<lambda>ex.
     and_then (case normalize_requested_uuid (q_uuid q) of
                 None \<Rightarrow> Inl (Bad_Request R_Uuid) | Some u \<Rightarrow> Inr (if u = [] then new_uid else u)) (\<lambda>uid.
       if map_of (links p) uid \<noteq> None then Inl (Bad_Request R_Uuid_Used)
       else Inr (uid, new_link pf q protocol settings address sni ex))))))))"

definition make_link :: "platform \<Rightarrow> string \<Rightarrow> link_request \<Rightarrow> panel \<Rightarrow> (failure + string) \<times> panel" where
  "make_link pf new_uid q p = (case check_link pf new_uid p q of
     Inl e \<Rightarrow> (Inl e, p)
   | Inr (uid, l) \<Rightarrow>
      (let p1 = p\<lparr>links := AList.update uid l (links p)\<rparr>;
           p2 = in_group (q_sub q) (add_member uid) p1
       in save_strict p2 (log_activity ''link'' ''ok'') uid))"

section \<open>Removing and switching\<close>

definition remove_link :: "string \<Rightarrow> panel \<Rightarrow> (failure + string option) \<times> panel" where
  "remove_link uid p = (case map_of (links p) uid of
     None \<Rightarrow> (Inr None, p)
   | Some l \<Rightarrow>
      (let p1 = p\<lparr>links := AList.delete uid (links p)\<rparr>;
           p2 = in_group (l_sub l) (drop_member uid) p1
       in save_strict (reset_bucket uid p2) (log_activity ''link'' ''err'') (Some (l_label l))))"

definition set_link_active :: "string \<Rightarrow> bool \<Rightarrow> panel \<Rightarrow> (failure + string option) \<times> panel" where
  "set_link_active uid active p = (case map_of (links p) uid of
     None \<Rightarrow> (Inr None, p)
   | Some l \<Rightarrow> save_strict (log_activity ''link'' (if active then ''ok'' else ''warn'')
                 (on_link uid (l_active_update (\<lambda>_. active)) p)) (\<lambda>q. q) (Some (l_label l)))"

section \<open>Groups\<close>

definition NEW_GROUP :: string where "NEW_GROUP = ''new group''"

definition create_sub_group :: "platform \<Rightarrow> string \<Rightarrow> string \<Rightarrow> string \<Rightarrow> string \<Rightarrow> string \<Rightarrow> panel \<Rightarrow>
    (failure + string) \<times> panel" where
  "create_sub_group pf sub_id key name desc password p =
     (let s = \<lparr>s_name = take 60 (strip (if name = [] then NEW_GROUP else name)), s_desc = take 200 (strip desc),
               s_password = (if strip password = [] then None else Some (pf_hash pf (strip password))),
               s_key = key, s_created = pf_now pf, s_links = [], s_ml = Some default_multi_location\<rparr>
      in save_strict (p\<lparr>subs := AList.update sub_id s (subs p)\<rparr>) (log_activity ''sub'' ''ok'') sub_id)"

definition set_link_sub :: "platform \<Rightarrow> string \<Rightarrow> string option \<Rightarrow> panel \<Rightarrow> (failure + bool) \<times> panel" where
  "set_link_sub pf uid sub_id p = (case map_of (links p) uid of
     None \<Rightarrow> (Inr False, p)
   | Some l \<Rightarrow>
      if (case sub_id of None \<Rightarrow> False | Some sid \<Rightarrow> map_of (subs p) sid = None) then (Inr False, p)
      else if ok_value (validate_raw_tcp_multi_location (pf_ingress pf) (Some l)
                 (case sub_id of None \<Rightarrow> None | Some sid \<Rightarrow> Option.bind (map_of (subs p) sid) s_ml)) = None
           then (Inr False, p)
      else (let p1 = in_group (l_sub l) (drop_member uid) p;
                p2 = in_group sub_id (add_member uid) p1;
                p3 = on_link uid (l_sub_update (\<lambda>_. sub_id)) p2
            in save_strict p3 (log_activity ''link'' ''info'') True))"

definition clear_group :: "string \<Rightarrow> links \<Rightarrow> links" where
  "clear_group sid ls = map (\<lambda>(uid, l). (uid, if l_sub l = Some sid then l\<lparr>l_sub := None\<rparr> else l)) ls"

definition remove_sub_group :: "string \<Rightarrow> panel \<Rightarrow> (failure + string option) \<times> panel" where
  "remove_sub_group sid p = (case map_of (subs p) sid of
     None \<Rightarrow> (Inr None, p)
   | Some s \<Rightarrow> save_strict (p\<lparr>subs := AList.delete sid (subs p), links := clear_group sid (links p)\<rparr>)
                 (log_activity ''sub'' ''warn'') (Some (s_name s)))"

text \<open>\<open>DELETE /api/subs/{id}\<close> and \<open>DELETE /api/links/{id}\<close>.\<close>

definition delete_sub :: "string \<Rightarrow> panel \<Rightarrow> (failure + unit) \<times> panel" where
  "delete_sub sid p = (if map_of (subs p) sid = None then (Inl Not_Found, p)
     else save_strict (p\<lparr>subs := AList.delete sid (subs p), links := clear_group sid (links p)\<rparr>)
            (log_activity ''sub'' ''warn'') ())"

definition delete_link :: "string \<Rightarrow> panel \<Rightarrow> (failure + unit) \<times> panel" where
  "delete_link uid p = (case remove_link uid p of
     (Inl e, q) \<Rightarrow> (Inl e, q) | (Inr None, q) \<Rightarrow> (Inl Not_Found, q) | (Inr (Some l), q) \<Rightarrow> (Inr (), q))"

text \<open>\<open>POST /api/subs/{id}/links\<close>.\<close>

definition assign_link_to_sub :: "platform \<Rightarrow> string \<Rightarrow> body \<Rightarrow> panel \<Rightarrow> (failure + unit) \<times> panel" where
  "assign_link_to_sub pf sid b p =
     (let uid = py_str (jget_def b ''link_id'' (JStr [])); action = py_str (jget_def b ''action'' (JStr ''add'')) in
      case map_of (subs p) sid of
        None \<Rightarrow> (Inl Not_Found, p)
      | Some target \<Rightarrow>
         if action = ''add'' \<and> map_of (links p) uid = None then (Inl Not_Found, p)
         else (case (if action = ''add''
                     then fail_with R_Raw_Ml (validate_raw_tcp_multi_location (pf_ingress pf) (map_of (links p) uid) (s_ml target))
                     else Inr ()) of
             Inl e \<Rightarrow> (Inl e, p)
           | Inr _ \<Rightarrow>
              (let p1 = on_sub sid (if action = ''add'' then add_member uid else drop_member uid) p;
                   p2 = on_link uid (l_sub_update (\<lambda>_. if action = ''add'' then Some sid else None)) p1
               in save_strict p2 (\<lambda>q. q) ())))"

section \<open>Editing a group\<close>

text \<open>\<open>PATCH /api/subs/{id}\<close>. The wanted identities: known ones, each once, in the given order.\<close>

definition clean_ids :: "links \<Rightarrow> json list \<Rightarrow> string list" where
  "clean_ids ls raw = collect_new (\<lambda>j. let lid = text_or_empty j in
     if lid \<noteq> [] \<and> map_of ls lid \<noteq> None then Some lid else None) [] raw"

text \<open>The links after the two loops, and the groups that links moved away from.\<close>

definition sync_link :: "string \<Rightarrow> string list \<Rightarrow> string list \<Rightarrow> string \<Rightarrow> link \<Rightarrow> link" where
  "sync_link sid old new uid l =
     (if uid \<in> set old \<and> uid \<notin> set new then (if l_sub l = Some sid then l\<lparr>l_sub := None\<rparr> else l)
      else if uid \<in> set new \<and> uid \<notin> set old then l\<lparr>l_sub := Some sid\<rparr>
      else l)"

definition moved_from :: "string \<Rightarrow> string list \<Rightarrow> string list \<Rightarrow> links \<Rightarrow> (string \<times> string) list" where
  "moved_from sid old new ls = List.map_filter (\<lambda>uid.
     if uid \<in> set old then None
     else (case map_of ls uid of
         None \<Rightarrow> None
       | Some l \<Rightarrow> (case l_sub l of
           None \<Rightarrow> None | Some prev \<Rightarrow> if prev \<noteq> [] \<and> prev \<noteq> sid then Some (prev, uid) else None))) new"

definition detach :: "(string \<times> string) list \<Rightarrow> subs \<Rightarrow> subs" where
  "detach moved ss = fold (\<lambda>(prev, uid) d. dmod prev (drop_member uid) d) moved ss"

definition edit_texts :: "platform \<Rightarrow> body \<Rightarrow> sub \<Rightarrow> sub" where
  "edit_texts pf b s =
    (let s1 = (if has_key b ''name'' then s\<lparr>s_name := take 60 (py_str (jget b ''name''))\<rparr> else s);
         s2 = (if has_key b ''desc'' then s1\<lparr>s_desc := take 200 (py_str (jget b ''desc''))\<rparr> else s1);
         pw = strip (py_str (jget b ''password''))
     in if has_key b ''password'' then s2\<lparr>s_password := (if pw = [] then None else Some (pf_hash pf pw))\<rparr> else s2)"

definition wanted_ids :: "panel \<Rightarrow> body \<Rightarrow> failure + string list option" where
  "wanted_ids p b =
     (if \<not> has_key b ''link_ids'' then Inr None
      else (case jget b ''link_ids'' of
          JArr raw \<Rightarrow> Inr (Some (clean_ids (links p) raw)) | _ \<Rightarrow> Inl (Bad_Request R_Link_Ids)))"

definition wanted_table :: "platform \<Rightarrow> string list \<Rightarrow> string \<Rightarrow> panel \<Rightarrow> body \<Rightarrow> failure + multi_location option" where
  "wanted_table pf tokens sid p b =
     (if \<not> has_key b ''multi_location'' then Inr None
      else and_then (fail_with R_Table (validate_multi_location
             \<lparr>te_lookup = pf_lookup pf, te_preferred = pf_preferred pf, te_receipt = pf_receipt pf, te_require_tests = True\<rparr>
             tokens (jget b ''multi_location'') (Option.bind (map_of (subs p) sid) s_ml)))
           (\<lambda>ml. Inr (Some ml)))"

fun first_raw_error :: "platform \<Rightarrow> panel \<Rightarrow> multi_location option \<Rightarrow> string list \<Rightarrow> failure + unit" where
  "first_raw_error pf p ml [] = Inr ()"
| "first_raw_error pf p ml (uid # uids) =
     and_then (fail_with R_Raw_Ml (validate_raw_tcp_multi_location (pf_ingress pf) (map_of (links p) uid) ml))
       (\<lambda>_. first_raw_error pf p ml uids)"

definition commit_sub :: "platform \<Rightarrow> string \<Rightarrow> body \<Rightarrow> multi_location option \<Rightarrow> string list option \<Rightarrow> sub \<Rightarrow> panel \<Rightarrow> panel" where
  "commit_sub pf sid b ml ids s p =
    (let s1 = edit_texts pf b s;
         s2 = (case ml of None \<Rightarrow> s1 | Some m \<Rightarrow> s1\<lparr>s_ml := Some m\<rparr>);
         p1 = (if ml = None then p else log_activity ''sub'' ''info'' p)
     in case ids of
          None \<Rightarrow> p1\<lparr>subs := AList.update sid s2 (subs p)\<rparr>
        | Some new \<Rightarrow>
            p1\<lparr>links := map (\<lambda>(uid, l). (uid, sync_link sid (s_links s) new uid l)) (links p),
               subs := detach (moved_from sid (s_links s) new (links p))
                         (AList.update sid (s2\<lparr>s_links := new\<rparr>) (subs p))\<rparr>)"

definition update_sub :: "platform \<Rightarrow> string list \<Rightarrow> string \<Rightarrow> json \<Rightarrow> panel \<Rightarrow> (failure + unit) \<times> panel" where
  "update_sub pf tokens sid payload p = (case payload of
     JObj b \<Rightarrow>
      (case and_then (wanted_table pf tokens sid p b) (\<lambda>ml.
            and_then (wanted_ids p b) (\<lambda>ids.
            case map_of (subs p) sid of
              None \<Rightarrow> Inl Not_Found
            | Some s \<Rightarrow> and_then
                (if ml = None \<and> ids = None then Inr ()
                 else first_raw_error pf p (if ml = None then s_ml s else ml)
                        (case ids of None \<Rightarrow> s_links s | Some new \<Rightarrow> new))
                (\<lambda>_. Inr (ml, ids, s)))) of
         Inl e \<Rightarrow> (Inl e, p)
       | Inr (ml, ids, s) \<Rightarrow> save_strict (commit_sub pf sid b ml ids s p) (\<lambda>q. q) ())
   | _ \<Rightarrow> (Inl (Bad_Request R_Body), p))"

end
