(* ===== verification/Text_Codecs.thy ===== *)
theory Text_Codecs
  imports Proxy_Url
begin

text \<open>
  The text codecs of the standard library that the link and subscription code uses.
  \<open>urllib.parse.quote\<close> works on code points: UTF-8, and a percent escape for every byte that is neither
  unreserved nor called safe. What was quoted holds none of the separators of a URL and is read back by
  \<open>unquote\<close> as the bytes it stands for. \<open>base64.b64encode\<close> is undone by its decoder.
\<close>

definition utf8_point :: "nat \<Rightarrow> nat list" where
  "utf8_point n =
     (if n < 128 then [n]
      else if n < 2048 then [192 + n div 64, 128 + n mod 64]
      else if n < 65536 then [224 + n div 4096, 128 + n div 64 mod 64, 128 + n mod 64]
      else [240 + n div 262144, 128 + n div 4096 mod 64, 128 + n div 64 mod 64, 128 + n mod 64])"

definition upper_hex :: "nat \<Rightarrow> char" where
  "upper_hex d = (if d < 10 then char_of (48 + d) else char_of (55 + d))"

definition unreserved :: "char \<Rightarrow> bool" where
  "unreserved c \<longleftrightarrow> is_ascii_letter c \<or> is_decimal c \<or> c \<in> {CHR ''_'', CHR ''.'', CHR ''-'', CHR ''~''}"

definition quote_byte :: "string \<Rightarrow> nat \<Rightarrow> string" where
  "quote_byte safe b =
     (if b < 128 \<and> (unreserved (char_of b) \<or> char_of b \<in> set safe) then [char_of b]
      else [CHR ''%'', upper_hex (b div 16), upper_hex (b mod 16)])"

definition quote_points :: "string \<Rightarrow> nat list \<Rightarrow> string" where
  "quote_points safe ps = concat (map (quote_byte safe) (concat (map utf8_point ps)))"

definition points :: "string \<Rightarrow> nat list" where
  "points s = map (\<lambda>c. ord c) s"

definition bytes_of :: "nat list \<Rightarrow> string" where
  "bytes_of ps = map char_of (concat (map utf8_point ps))"

lemma utf8_point_bytes: "n < 2097152 \<Longrightarrow> b \<in> set (utf8_point n) \<Longrightarrow> b < 256"
  by (auto simp: utf8_point_def split: if_splits)

lemma bytes_of_ascii: "\<forall>c \<in> set s. ord c < 128 \<Longrightarrow> bytes_of (points s) = s"
  by (induction s) (auto simp: bytes_of_def points_def utf8_point_def)

lemma hex_upper: "d < 16 \<Longrightarrow> is_hex (upper_hex d) \<and> hex_val (upper_hex d) = d"
  by (auto simp: upper_hex_def is_hex_def hex_val_def Let_def)

lemma unquote_plain: "c \<noteq> CHR ''%'' \<Longrightarrow> unquote (c # t) = c # unquote t"
  by (cases t; cases "tl t") auto

lemma not_unreserved: "\<not> unreserved CHR ''%''" "\<not> unreserved CHR ''&''" "\<not> unreserved CHR ''=''" "\<not> unreserved CHR ''#''" "\<not> unreserved CHR ''?''"
  "\<not> unreserved CHR 0x0A"
  by code_simp+

lemma unquote_byte:
  assumes "b < 256" "CHR ''%'' \<notin> set safe"
  shows "unquote (quote_byte safe b @ t) = char_of b # unquote t"
proof (cases "b < 128 \<and> (unreserved (char_of b) \<or> char_of b \<in> set safe)")
  case True
  then have "char_of b \<noteq> CHR ''%''" using assms(2) not_unreserved(1) by metis
  with True show ?thesis using unquote_plain by (simp add: quote_byte_def)
next
  case False
  from False have q: "quote_byte safe b = [CHR ''%'', upper_hex (b div 16), upper_hex (b mod 16)]"
    unfolding quote_byte_def by (rule if_not_P)
  have "is_hex (upper_hex (b div 16))" "hex_val (upper_hex (b div 16)) = b div 16"
    "is_hex (upper_hex (b mod 16))" "hex_val (upper_hex (b mod 16)) = b mod 16"
    using hex_upper [of "b div 16"] hex_upper [of "b mod 16"] assms(1) by auto
  with q show ?thesis by simp
qed

lemma unquote_quote:
  assumes "\<forall>n \<in> set ps. n < 2097152" "CHR ''%'' \<notin> set safe"
  shows "unquote (quote_points safe ps) = bytes_of ps"
proof -
  have "\<forall>b \<in> set bs. b < 256 \<Longrightarrow> unquote (concat (map (quote_byte safe) bs)) = map char_of bs" for bs
    by (induction bs) (auto simp: unquote_byte assms(2))
  moreover have "\<forall>b \<in> set (concat (map utf8_point ps)). b < 256" using assms(1) utf8_point_bytes by auto
  ultimately show ?thesis unfolding quote_points_def bytes_of_def by blast
qed

lemma unreserved_hex: "d < 16 \<Longrightarrow> unreserved (upper_hex d)"
proof -
  have "list_all (\<lambda>d. unreserved (upper_hex d)) [0..<16]" by code_simp
  then show "d < 16 \<Longrightarrow> unreserved (upper_hex d)" by (auto simp: list_all_iff)
qed

lemma quote_byte_set:
  assumes "b < 256" "c \<in> set (quote_byte safe b)"
  shows "unreserved c \<or> c \<in> set safe \<or> c = CHR ''%''"
proof -
  have "b div 16 < 16" "b mod 16 < 16" using assms(1) by auto
  then show ?thesis using assms(2) unreserved_hex by (auto simp: quote_byte_def split: if_splits)
qed

lemma quote_set:
  assumes "\<forall>n \<in> set ps. n < 2097152" "c \<in> set (quote_points safe ps)"
  shows "unreserved c \<or> c \<in> set safe \<or> c = CHR ''%''"
proof -
  from assms(2) obtain n b where "n \<in> set ps" "b \<in> set (utf8_point n)" "c \<in> set (quote_byte safe b)"
    unfolding quote_points_def by auto
  with assms(1) utf8_point_bytes quote_byte_set show ?thesis by blast
qed

section \<open>Base64\<close>

definition b64_char :: "nat \<Rightarrow> char" where
  "b64_char n =
     (if n < 26 then char_of (65 + n) else if n < 52 then char_of (71 + n) else if n < 62 then char_of (n - 4)
      else if n = 62 then CHR ''+'' else CHR ''/'')"

definition b64_val :: "char \<Rightarrow> nat" where
  "b64_val c = (let n = ord c in
     if 97 \<le> n then n - 71 else if 65 \<le> n then n - 65 else if 48 \<le> n then n + 4 else if n = 43 then 62 else 63)"

definition b64_quad :: "nat \<Rightarrow> string" where
  "b64_quad n = map b64_char [n div 262144, n div 4096 mod 64, n div 64 mod 64, n mod 64]"

fun b64encode :: "string \<Rightarrow> string" where
  "b64encode (a # b # c # s) = b64_quad (65536 * ord a + 256 * ord b + ord c) @ b64encode s"
| "b64encode [a, b] = take 3 (b64_quad (65536 * ord a + 256 * ord b)) @ ''=''"
| "b64encode [a] = take 2 (b64_quad (65536 * ord a)) @ ''==''"
| "b64encode [] = []"

definition b64_bytes :: "char \<Rightarrow> char \<Rightarrow> nat \<Rightarrow> nat \<Rightarrow> string" where
  "b64_bytes a b c d = (let n = 262144 * b64_val a + 4096 * b64_val b + 64 * c + d in
     [char_of (n div 65536), char_of (n div 256), char_of n])"

fun b64decode :: "string \<Rightarrow> string" where
  "b64decode (a # b # c # d # s) =
     (if c = CHR ''='' then take 1 (b64_bytes a b 0 0)
      else if d = CHR ''='' then take 2 (b64_bytes a b (b64_val c) 0)
      else b64_bytes a b (b64_val c) (b64_val d) @ b64decode s)"
| "b64decode s = []"

lemma b64_char_val: "n < 64 \<Longrightarrow> b64_val (b64_char n) = n \<and> b64_char n \<noteq> CHR ''=''"
proof -
  assume n: "n < 64"
  have "ord (b64_char n) = (if n < 26 then 65 + n else if n < 52 then 71 + n else if n < 62 then n - 4
      else if n = 62 then 43 else 47)"
    using n by (simp add: b64_char_def)
  then have "b64_val (b64_char n) = n" "ord (b64_char n) \<noteq> ord CHR ''=''" using n by (auto simp: b64_val_def Let_def split: if_splits)
  then show ?thesis by metis
qed

lemma b64_digits: "262144 * (n div 262144) + 4096 * (n div 4096 mod 64) + 64 * (n div 64 mod 64) + n mod 64 = (n::nat)"
proof -
  have "n div 4096 = n div 64 div 64" "n div 262144 = n div 4096 div 64" by (simp_all add: div_mult2_eq [symmetric])
  then have "n div 64 = 64 * (n div 4096) + n div 64 mod 64" "n div 4096 = 64 * (n div 262144) + n div 4096 mod 64" by auto
  then show ?thesis using mult_div_mod_eq [of 64 n] by linarith
qed

lemma b64_bytes_quad:
  assumes "n < 16777216"
  shows "b64_bytes (b64_char (n div 262144)) (b64_char (n div 4096 mod 64)) (n div 64 mod 64) (n mod 64)
    = [char_of (n div 65536), char_of (n div 256), char_of n]"
proof -
  have "n div 262144 < 64" using assms by auto
  then show ?thesis using b64_digits [of n] by (simp add: b64_bytes_def b64_char_val)
qed

lemma b64_group: "65536 * ord (a::char) + 256 * ord (b::char) + ord (c::char) < 16777216"
  using nat_of_char_less_256 [of a] nat_of_char_less_256 [of b] nat_of_char_less_256 [of c] by linarith

lemma ungroup:
  fixes x y z :: nat
  assumes "y < 256" "z < 256"
  shows "(65536 * x + 256 * y + z) div 65536 = x" "(65536 * x + 256 * y + z) div 256 = 256 * x + y"
  by (rule div_nat_eqI, use assms in simp, use assms in simp)+

lemma b64_ungroup:
  fixes a b c :: char
  defines "n \<equiv> 65536 * ord a + 256 * ord b + ord c"
  shows "[char_of (n div 65536), char_of (n div 256), char_of n] = [a, b, c]"
proof -
  have "n div 65536 = ord a" "n div 256 = 256 * ord a + ord b"
    unfolding n_def by (rule ungroup, simp, simp)+
  moreover have "char_of (256 * k + ord d) = d" for k and d :: char
  proof -
    have "(256 * k + ord d) mod 256 = ord d" by simp
    then show ?thesis by (metis char_of_mod_256 char_of_char)
  qed
  moreover from this [of "256 * ord a + ord b" c] have "char_of n = c" by (simp add: n_def algebra_simps)
  ultimately show ?thesis by simp
qed

theorem b64_round_trip: "b64decode (b64encode s) = s"
proof (induction s rule: b64encode.induct)
  case (1 a b c s)
  define n where "n = 65536 * ord a + 256 * ord b + ord c"
  have "b64decode (b64_quad n @ t) = [a, b, c] @ b64decode t" for t
    using b64_bytes_quad [of n] b64_group [of a b c] b64_ungroup [of a b c]
    by (simp add: b64_quad_def b64_char_val n_def [symmetric])
  with 1 show ?case by (simp add: n_def)
next
  case (2 a b)
  define n where "n = 65536 * ord a + 256 * ord b"
  have "n = 64 * (1024 * ord a + 4 * ord b)" by (simp add: n_def)
  then have "n mod 64 = 0" by simp
  then have "b64decode (take 3 (b64_quad n) @ ''='') = [a, b]"
    using b64_bytes_quad [of n] b64_group [of a b "char_of (0::nat)"] b64_ungroup [of a b "char_of (0::nat)"]
    by (simp add: b64_quad_def b64_char_val n_def [symmetric])
  then show ?case by (simp add: n_def)
next
  case (3 a)
  define n where "n = 65536 * ord a"
  have "n = 64 * (64 * (16 * ord a))" by (simp add: n_def)
  then have "n mod 64 = 0" "n div 64 mod 64 = 0" by simp_all
  then have "b64decode (take 2 (b64_quad n) @ ''=='') = [a]"
    using b64_bytes_quad [of n] b64_group [of a "char_of (0::nat)" "char_of (0::nat)"] b64_ungroup [of a "char_of (0::nat)" "char_of (0::nat)"]
    by (simp add: b64_quad_def b64_char_val n_def [symmetric])
  then show ?case by (simp add: n_def)
qed simp

end
