(* ===== verification/Share_Links.thy ===== *)
theory Share_Links
  imports Registry Text_Codecs
begin

text \<open>
  Share links (\<open>main.py\<close>: \<open>get_host\<close>, \<open>generate_vless_link\<close>, \<open>vless_entries_for_link\<close> and its two callers):
  the address a client imports for a configuration. \<open>read_share_link\<close> is the client's side: it
  cuts the address at its separators and unquotes the values.
\<close>

section \<open>The host of a request\<close>

definition header_value :: "(string, string) dict \<Rightarrow> string \<Rightarrow> string" where
  "header_value hs k = (case map_of hs k of None \<Rightarrow> [] | Some v \<Rightarrow> v)"

definition bare_host :: "string \<Rightarrow> string" where
  "bare_host h =
     (if starts_with ''['' h \<and> CHR '']'' \<in> set h then before CHR '']'' (tl h)
      else if length (filter (\<lambda>c. c = CHR '':'') h) = 1 then before_last CHR '':'' h
      else h)"

text \<open>The result and the new \<open>CONFIG["host"]\<close>; \<open>domain\<close> is \<open>RAILWAY_PUBLIC_DOMAIN\<close>.\<close>

definition get_host :: "string option \<Rightarrow> (string, string) dict option \<Rightarrow> string \<Rightarrow> string \<times> string" where
  "get_host domain headers config =
     (let fallback = (case domain of None \<Rightarrow> config | Some d \<Rightarrow> d) in
      case headers of
        None \<Rightarrow> (fallback, config)
      | Some hs \<Rightarrow>
          (let f = header_value hs ''x-forwarded-host''; h = (if f \<noteq> [] then f else header_value hs ''host'') in
           if h \<noteq> [] then (bare_host h, bare_host h) else (fallback, config)))"

section \<open>The address of a configuration\<close>

datatype share_error = Share_Transport transport_error | Share_Address addr_error

definition on_error :: "('e \<Rightarrow> 'f) \<Rightarrow> 'e + 'a \<Rightarrow> 'f + 'a" where
  "on_error f r = (case r of Inl e \<Rightarrow> Inl (f e) | Inr x \<Rightarrow> Inr x)"

definition chosen_fingerprint :: "string \<Rightarrow> string" where
  "chosen_fingerprint fingerprint =
     (let t = strip (if fingerprint = [] then DEFAULT_FINGERPRINT else fingerprint);
          fp = (if t = [] then DEFAULT_FINGERPRINT else t) in
      if fp \<in> set FINGERPRINTS then fp else DEFAULT_FINGERPRINT)"

definition default_alpn_for :: "string \<Rightarrow> string" where
  "default_alpn_for protocol = (if protocol = ''vless-tcp'' then [] else ''http/1.1'')"

definition chosen_alpn :: "string \<Rightarrow> string \<Rightarrow> string" where
  "chosen_alpn alpn protocol = (if strip alpn \<noteq> [] then strip alpn else default_alpn_for protocol)"

definition chosen_port :: "int option \<Rightarrow> int" where
  "chosen_port port = (let p = (case port of None \<Rightarrow> DEFAULT_PORT | Some n \<Rightarrow> if n = 0 then DEFAULT_PORT else n) in
     if 1 \<le> p \<and> p \<le> 65535 then p else DEFAULT_PORT)"

definition transport_host :: "(string \<Rightarrow> string option) \<Rightarrow> string \<Rightarrow> string" where
  "transport_host idna host = (case normalize_address idna host of Inr h \<Rightarrow> h | Inl e \<Rightarrow> strip host)"

record endpoint =
  ep_dial :: string
  ep_port :: int
  ep_tls :: string
  ep_host :: string
  ep_alpn :: string

definition share_endpoint :: "ingress \<Rightarrow> (string \<Rightarrow> string option) \<Rightarrow> string \<Rightarrow> string \<Rightarrow> string \<Rightarrow> int option \<Rightarrow>
    string \<Rightarrow> string \<Rightarrow> string \<Rightarrow> share_error + endpoint" where
  "share_endpoint i idna host protocol alpn port address sni loc =
     and_then (on_error Share_Transport (transport_endpoint i protocol address port sni loc)) (\<lambda>raw.
     case raw of
       Some (dial, p, tls) \<Rightarrow> Inr \<lparr>ep_dial = dial, ep_port = p, ep_tls = tls, ep_host = [], ep_alpn = []\<rparr>
     | None \<Rightarrow> and_then (on_error Share_Address (link_hosts idna address sni host)) (\<lambda>(dial, tls).
         Inr \<lparr>ep_dial = dial, ep_port = chosen_port port, ep_tls = tls, ep_host = transport_host idna host,
              ep_alpn = chosen_alpn alpn protocol\<rparr>))"

definition share_params :: "ingress \<Rightarrow> string \<Rightarrow> string \<Rightarrow> string \<Rightarrow> string \<Rightarrow> json \<Rightarrow> endpoint \<Rightarrow>
    share_error + (string, string) dict" where
  "share_params i uuid protocol fingerprint loc settings ep =
     and_then (on_error Share_Transport (vless_parameters i protocol uuid (ep_host ep) loc settings)) (\<lambda>ps.
       Inr ([(''encryption'', ''none''), (''security'', ''tls'')] @ ps
            @ [(''sni'', ep_tls ep), (''fp'', chosen_fingerprint fingerprint)]
            @ (if ep_alpn ep = [] then [] else [(''alpn'', ep_alpn ep)])))"

definition quote_text :: "nat list \<Rightarrow> string" where
  "quote_text ps = quote_points ''/'' ps"

definition query_text :: "(string, string) dict \<Rightarrow> string" where
  "query_text params = join ''&'' (map (\<lambda>(k, v). k @ ''='' @ quote_text (points v)) params)"

definition generate_vless_link :: "ingress \<Rightarrow> (string \<Rightarrow> string option) \<Rightarrow> string \<Rightarrow> string \<Rightarrow> nat list \<Rightarrow> string \<Rightarrow>
    string \<Rightarrow> string \<Rightarrow> int option \<Rightarrow> string \<Rightarrow> string \<Rightarrow> string \<Rightarrow> json \<Rightarrow> share_error + string" where
  "generate_vless_link i idna uuid host remark protocol fingerprint alpn port address sni loc settings =
     and_then (on_error Share_Transport (transport_validate i protocol settings)) (\<lambda>(proto, s).
     and_then (share_endpoint i idna host proto alpn port address sni loc) (\<lambda>ep.
     and_then (share_params i uuid proto fingerprint loc (JObj s) ep) (\<lambda>params.
     and_then (on_error Share_Address (authority_host idna (ep_dial ep))) (\<lambda>authority.
       Inr (''vless://'' @ uuid @ ''@'' @ authority @ '':'' @ show_int (ep_port ep) @ ''?'' @ query_text params
            @ ''#'' @ quote_text remark)))))"

section \<open>The entries of a configuration\<close>

record entry =
  en_link :: string
  en_remark :: "nat list"
  en_location :: "location option"
  en_shared :: bool

fun all_ok :: "('a \<Rightarrow> 'e + 'b) \<Rightarrow> 'a list \<Rightarrow> 'e + 'b list" where
  "all_ok f [] = Inr []"
| "all_ok f (x # xs) = and_then (f x) (\<lambda>y. and_then (all_ok f xs) (\<lambda>ys. Inr (y # ys)))"

definition link_address :: "platform \<Rightarrow> link \<Rightarrow> string \<Rightarrow> string \<Rightarrow> nat list \<Rightarrow> string \<Rightarrow> share_error + string" where
  "link_address pf l uid host remark loc =
     generate_vless_link (pf_ingress pf) (pf_idna pf) uid host remark (l_protocol l) (l_fingerprint l) (l_alpn l)
       (Some (l_port l)) (l_address l) (l_sni l) loc (JObj (l_settings l))"

definition active_locations :: "subs \<Rightarrow> link \<Rightarrow> location list" where
  "active_locations ss l = (case snd (multi_location_for_link ss l) of
     None \<Rightarrow> [] | Some ml \<Rightarrow> filter loc_active (ml_locations ml))"

definition location_text :: "subs \<Rightarrow> link \<Rightarrow> string" where
  "location_text ss l = (case snd (multi_location_for_link ss l) of None \<Rightarrow> [] | Some ml \<Rightarrow> ml_remark ml)"

definition plain_remark :: "link \<Rightarrow> nat list" where
  "plain_remark l = points (if l_remark l \<noteq> [] then l_remark l else if l_label l \<noteq> [] then l_label l else ''Lumen Relay'')"

definition location_entry :: "platform \<Rightarrow> subs \<Rightarrow> link \<Rightarrow> string \<Rightarrow> string \<Rightarrow> location \<Rightarrow> share_error + entry" where
  "location_entry pf ss l uid host loc =
     (let remark = location_remark loc (location_text ss l) in
      and_then (link_address pf l uid host remark (loc_id loc)) (\<lambda>u.
        Inr \<lparr>en_link = u, en_remark = remark, en_location = Some loc, en_shared = True\<rparr>))"

definition vless_entries_for_link :: "platform \<Rightarrow> subs \<Rightarrow> link \<Rightarrow> string \<Rightarrow> string \<Rightarrow> share_error + entry list" where
  "vless_entries_for_link pf ss l uid host =
     (if active_locations ss l \<noteq> [] then all_ok (location_entry pf ss l uid host) (active_locations ss l)
      else and_then (link_address pf l uid host (plain_remark l) []) (\<lambda>u.
        Inr [\<lparr>en_link = u, en_remark = plain_remark l, en_location = None, en_shared = False\<rparr>]))"

definition vless_link_for_link :: "platform \<Rightarrow> subs \<Rightarrow> link \<Rightarrow> string \<Rightarrow> string \<Rightarrow> share_error + string" where
  "vless_link_for_link pf ss l uid host =
     and_then (vless_entries_for_link pf ss l uid host) (\<lambda>es. Inr (en_link (hd es)))"

definition safe_vless_link_for_link :: "platform \<Rightarrow> subs \<Rightarrow> link \<Rightarrow> string \<Rightarrow> string \<Rightarrow> string" where
  "safe_vless_link_for_link pf ss l uid host =
     (case vless_link_for_link pf ss l uid host of Inl e \<Rightarrow> [] | Inr u \<Rightarrow> u)"

section \<open>Reading an address back\<close>

record shared =
  sh_uuid :: string
  sh_host :: string
  sh_port :: int
  sh_params :: "(string, string) dict"
  sh_remark :: string

definition read_share_link :: "string \<Rightarrow> shared option" where
  "read_share_link url =
     (let rest = drop 8 url; main = before CHR ''#'' rest; head = before CHR ''?'' main; hp = after CHR ''@'' head in
      if \<not> starts_with ''vless://'' url then None
      else case parse_int (after_last CHR '':'' hp) of
        None \<Rightarrow> None
      | Some p \<Rightarrow> Some \<lparr>sh_uuid = before CHR ''@'' head, sh_host = unbracket (before_last CHR '':'' hp), sh_port = p,
          sh_params = map (\<lambda>kv. (before CHR ''='' kv, unquote (after CHR ''='' kv))) (split_char CHR ''&'' (after CHR ''?'' main)),
          sh_remark = unquote (after CHR ''#'' rest)\<rparr>)"

definition uuid_char :: "char \<Rightarrow> bool" where
  "uuid_char c \<longleftrightarrow> is_ascii_alnum c \<or> c = CHR ''-''"

lemma on_error_Inr: "on_error f r = Inr x \<longleftrightarrow> r = Inr x"
  by (cases r) (auto simp: on_error_def)

lemma point_bound: "n \<in> set (points s) \<Longrightarrow> n < 256"
  by (auto simp: points_def)

lemma quote_text_chars:
  assumes "\<forall>n \<in> set ps. n < 2097152" "c \<in> set (quote_text ps)"
  shows "unreserved c \<or> c = CHR ''/'' \<or> c = CHR ''%''"
  using quote_set [of ps c "''/''"] assms by (auto simp: quote_text_def)

lemma quote_text_no:
  assumes "\<forall>n \<in> set ps. n < 2097152" "c \<in> {CHR ''&'', CHR ''='', CHR ''#'', CHR ''?'', CHR 0x0A}"
  shows "c \<notin> set (quote_text ps)"
  using quote_text_chars [OF assms(1), of c] assms(2) not_unreserved by auto

lemma unquote_text: "\<forall>n \<in> set ps. n < 2097152 \<Longrightarrow> unquote (quote_text ps) = bytes_of ps"
  by (simp add: quote_text_def unquote_quote)

lemma value_small: "\<forall>n \<in> set (points v). n < 2097152"
  using point_bound by fastforce

definition key_ok :: "string \<Rightarrow> bool" where
  "key_ok k \<longleftrightarrow> list_all (\<lambda>c. c \<notin> {CHR ''&'', CHR ''='', CHR ''#'', CHR ''?'', CHR 0x0A}) k"

lemma query_text_no:
  assumes "\<forall>(k, v) \<in> set params. key_ok k" "c \<in> {CHR ''#'', CHR ''?'', CHR 0x0A}"
  shows "c \<notin> set (query_text params)"
proof -
  have "c \<notin> set (k @ ''='' @ quote_text (points v))" if "(k, v) \<in> set params" for k v
    using that assms quote_text_no [OF value_small, of c v] by (fastforce simp: key_ok_def list_all_iff)
  then show ?thesis
    using join_chars [of "''&''" "map (\<lambda>(k, v). k @ ''='' @ quote_text (points v)) params"] assms(2)
    unfolding query_text_def by fastforce
qed

lemma read_query:
  assumes "\<forall>(k, v) \<in> set params. key_ok k" "params \<noteq> []"
  shows "map (\<lambda>kv. (before CHR ''='' kv, unquote (after CHR ''='' kv))) (split_char CHR ''&'' (query_text params))
    = map (\<lambda>(k, v). (k, bytes_of (points v))) params"
proof -
  have "CHR ''&'' \<notin> set (k @ ''='' @ quote_text (points v))" if "(k, v) \<in> set params" for k v
    using that assms quote_text_no [OF value_small, of "CHR ''&''" v] by (fastforce simp: key_ok_def list_all_iff)
  then have "split_char CHR ''&'' (query_text params) = map (\<lambda>(k, v). k @ ''='' @ quote_text (points v)) params"
    unfolding query_text_def using assms(2) by (intro split_char_join) auto
  moreover have "before CHR ''='' (k @ ''='' @ quote_text (points v)) = k \<and> unquote (after CHR ''='' (k @ ''='' @ quote_text (points v))) = bytes_of (points v)"
    if "(k, v) \<in> set params" for k v
  proof -
    have "CHR ''='' \<notin> set k" using that assms by (fastforce simp: key_ok_def list_all_iff)
    then show ?thesis using before_prefix [of "CHR ''=''" k] unquote_text [OF value_small] by simp
  qed
  ultimately show ?thesis by auto
qed

lemma show_int_chars: "c \<in> set (show_int n) \<Longrightarrow> is_decimal c \<or> c = CHR ''-''"
  by (auto simp: show_int_def dest: show_nat_decimal split: if_splits)

lemma parse_int_show_int: "parse_int (show_int n) = Some n"
proof (cases "n < 0")
  case True
  define s where "s = show_nat (nat (- n))"
  have d: "is_decimal c" if "c \<in> set s" for c using that show_nat_decimal by (simp add: s_def)
  have "strip (''-'' @ s) = ''-'' @ s" by (rule strip_no_space) (auto dest: d is_decimal_ne simp: is_space_def [of "CHR ''-''"])
  moreover have "digits_ok s" using d by (intro digits_ok_all) (auto simp: s_def)
  moreover have "digits_val s = nat (- n)" by (simp add: s_def digits_val_show_nat)
  ultimately show ?thesis using True by (simp add: parse_int_def show_int_def s_def [symmetric])
qed (simp add: show_int_def)

lemma normal_host:
  assumes "normalize_address idna value = Inr n"
  shows "n \<noteq> [] \<and> (\<forall>c \<in> set n. host_char c)"
  using assms
proof (cases rule: normalize_address_cases)
  case (ip a)
  then show ?thesis using compressed_text [of a] ip_char_host by (auto simp: list_all_iff)
next
  case name
  then show ?thesis using dns_name_host by (auto simp: dns_name_def)
qed

lemma authority_reads:
  assumes "authority_host idna dial = Inr a"
  shows "\<exists>n. normalize_address idna dial = Inr n \<and> unbracket a = n \<and> (\<forall>c \<in> set a. host_char c \<or> c = CHR ''['' \<or> c = CHR '']'')"
proof -
  from assms obtain n k where n: "normalize_address idna dial = Inr n" and a: "a = (if k = Kind_IPv6 then ''['' @ n @ '']'' else n)"
    by (auto simp: authority_host_def and_then_Inr)
  note h = normal_host [OF n]
  have sp: "strip n = n" using h host_char_plain by (intro strip_no_space) auto
  have "hd n \<noteq> CHR ''[''" using h host_char_plain [of "hd n"] hd_in_set [of n] by auto
  then have "unbracket n = n" using h by (intro unbracket_plain) auto
  moreover have "unbracket (''['' @ n @ '']'') = n"
    using sp by (simp add: unbracket_def starts_with_def ends_with_def)
  ultimately show ?thesis using n a h by auto
qed

lemma last_colon:
  assumes "CHR '':'' \<notin> set p"
  shows "before_last CHR '':'' (a @ CHR '':'' # p) = a \<and> after_last CHR '':'' (a @ CHR '':'' # p) = p"
  using before_prefix [of "CHR '':''" "rev p" "rev a"] assms by (simp add: before_last_def after_last_def)

lemma read_built:
  assumes "list_all uuid_char uuid" "\<forall>c \<in> set a. host_char c \<or> c = CHR ''['' \<or> c = CHR '']''"
    and "\<forall>(k, v) \<in> set params. key_ok k" "params \<noteq> []" "\<forall>n \<in> set remark. n < 2097152"
  shows "read_share_link (''vless://'' @ uuid @ ''@'' @ a @ '':'' @ show_int p @ ''?'' @ query_text params @ ''#'' @ quote_text remark)
    = Some \<lparr>sh_uuid = uuid, sh_host = unbracket a, sh_port = p,
        sh_params = map (\<lambda>(k, v). (k, bytes_of (points v))) params, sh_remark = bytes_of remark\<rparr>"
proof -
  define head where "head = uuid @ CHR ''@'' # a @ CHR '':'' # show_int p"
  have u: "c \<notin> {CHR ''#'', CHR ''?'', CHR ''@''}" if "c \<in> set uuid" for c
    using that assms(1) by (auto simp: list_all_iff uuid_char_def is_ascii_alnum_def is_ascii_letter_def is_decimal_def Let_def)
  have h: "c \<notin> {CHR ''#'', CHR ''?''}" if "c \<in> set a" for c using that assms(2) host_char_plain by fastforce
  have i: "c \<notin> {CHR ''#'', CHR ''?'', CHR '':''}" if "c \<in> set (show_int p)" for c
    using show_int_chars [OF that] by (auto simp: is_decimal_def)
  have hd: "CHR ''?'' \<notin> set head" "CHR ''#'' \<notin> set head" using u h i by (auto simp: head_def)
  define url where "url = ''vless://'' @ (head @ CHR ''?'' # query_text params) @ CHR ''#'' # quote_text remark"
  have "CHR ''#'' \<notin> set (head @ CHR ''?'' # query_text params)" using hd query_text_no [OF assms(3)] by auto
  then have main: "before CHR ''#'' (drop 8 url) = head @ CHR ''?'' # query_text params" "after CHR ''#'' (drop 8 url) = quote_text remark"
    using before_prefix [of "CHR ''#''" "head @ CHR ''?'' # query_text params" "quote_text remark"] by (simp_all add: url_def)
  have head: "before CHR ''?'' (head @ CHR ''?'' # query_text params) = head" "after CHR ''?'' (head @ CHR ''?'' # query_text params) = query_text params"
    using before_prefix [OF hd(1)] by simp_all
  have user: "before CHR ''@'' head = uuid" "after CHR ''@'' head = a @ CHR '':'' # show_int p"
    using before_prefix [of "CHR ''@''" uuid] u by (auto simp: head_def)
  have port: "before_last CHR '':'' (a @ CHR '':'' # show_int p) = a" "after_last CHR '':'' (a @ CHR '':'' # show_int p) = show_int p"
    using last_colon [of "show_int p" a] i by auto
  have "starts_with ''vless://'' url" by (simp add: url_def starts_with_def)
  then have "read_share_link url = Some \<lparr>sh_uuid = uuid, sh_host = unbracket a, sh_port = p,
        sh_params = map (\<lambda>(k, v). (k, bytes_of (points v))) params, sh_remark = bytes_of remark\<rparr>"
    unfolding read_share_link_def Let_def main head user port read_query [OF assms(3, 4)] parse_int_show_int unquote_text [OF assms(5)]
    by simp
  then show ?thesis by (simp add: url_def head_def)
qed

lemma vless_parameters_keys:
  assumes "vless_parameters i protocol uuid host loc settings = Inr ps"
  shows "\<forall>(k, v) \<in> set ps. key_ok k"
proof -
  have "key_ok ''type''" "key_ok ''host''" "key_ok ''path''" by code_simp+
  with parameters_only_runnable [OF assms] show ?thesis by auto
qed

lemma share_params_keys:
  assumes "share_params i uuid protocol fingerprint loc settings ep = Inr params"
  shows "\<forall>(k, v) \<in> set params. key_ok k" "params \<noteq> []"
proof -
  have k: "key_ok ''encryption''" "key_ok ''security''" "key_ok ''sni''" "key_ok ''fp''" "key_ok ''alpn''" by code_simp+
  from assms obtain ps where ps: "vless_parameters i protocol uuid (ep_host ep) loc settings = Inr ps"
    and p: "params = [(''encryption'', ''none''), (''security'', ''tls'')] @ ps
            @ [(''sni'', ep_tls ep), (''fp'', chosen_fingerprint fingerprint)]
            @ (if ep_alpn ep = [] then [] else [(''alpn'', ep_alpn ep)])"
    by (auto simp: share_params_def on_error_Inr and_then_Inr)
  from p show "params \<noteq> []" by simp
  from p k vless_parameters_keys [OF ps] show "\<forall>(k, v) \<in> set params. key_ok k" by (auto split: if_splits)
qed

lemma generate_shape:
  assumes "generate_vless_link i idna uuid host remark protocol fingerprint alpn port address sni loc settings = Inr url"
  obtains proto ep params a where "transport_validate i protocol settings = Inr (proto, [])"
    "share_endpoint i idna host proto alpn port address sni loc = Inr ep"
    "share_params i uuid proto fingerprint loc (JObj []) ep = Inr params"
    "authority_host idna (ep_dial ep) = Inr a"
    "url = ''vless://'' @ uuid @ ''@'' @ a @ '':'' @ show_int (ep_port ep) @ ''?'' @ query_text params @ ''#'' @ quote_text remark"
proof -
  from assms obtain proto s ep params a where v: "transport_validate i protocol settings = Inr (proto, s)"
    and e: "share_endpoint i idna host proto alpn port address sni loc = Inr ep"
    and p: "share_params i uuid proto fingerprint loc (JObj s) ep = Inr params"
    and a: "authority_host idna (ep_dial ep) = Inr a"
    and u: "url = ''vless://'' @ uuid @ ''@'' @ a @ '':'' @ show_int (ep_port ep) @ ''?'' @ query_text params @ ''#'' @ quote_text remark"
    by (auto simp: generate_vless_link_def on_error_Inr and_then_Inr)
  have "s = []" using validate_only_runnable [OF v] by simp
  with v e p a u that show ?thesis by blast
qed

lemma share_link_reads:
  assumes "generate_vless_link i idna uuid host remark protocol fingerprint alpn port address sni loc settings = Inr url"
    and "list_all uuid_char uuid" and "\<forall>n \<in> set remark. n < 1114112"
  shows "\<exists>proto ep params dial.
      transport_validate i protocol settings = Inr (proto, [])
    \<and> share_endpoint i idna host proto alpn port address sni loc = Inr ep
    \<and> share_params i uuid proto fingerprint loc (JObj []) ep = Inr params
    \<and> normalize_address idna (ep_dial ep) = Inr dial
    \<and> read_share_link url = Some \<lparr>sh_uuid = uuid, sh_host = dial, sh_port = ep_port ep,
        sh_params = map (\<lambda>(k, v). (k, bytes_of (points v))) params, sh_remark = bytes_of remark\<rparr>"
proof -
  from generate_shape [OF assms(1)] obtain proto ep params a where v: "transport_validate i protocol settings = Inr (proto, [])"
    and e: "share_endpoint i idna host proto alpn port address sni loc = Inr ep"
    and p: "share_params i uuid proto fingerprint loc (JObj []) ep = Inr params"
    and a: "authority_host idna (ep_dial ep) = Inr a"
    and u: "url = ''vless://'' @ uuid @ ''@'' @ a @ '':'' @ show_int (ep_port ep) @ ''?'' @ query_text params @ ''#'' @ quote_text remark"
    by metis
  from authority_reads [OF a] obtain dial where d: "normalize_address idna (ep_dial ep) = Inr dial" "unbracket a = dial"
    and c: "\<forall>c \<in> set a. host_char c \<or> c = CHR ''['' \<or> c = CHR '']''" by blast
  have "\<forall>n \<in> set remark. n < 2097152" using assms(3) by fastforce
  from read_built [OF assms(2) c share_params_keys [OF p] this, of "ep_port ep"] v e p d u show ?thesis by auto
qed

lemma chosen_in_range: "1 \<le> chosen_port port \<and> chosen_port port \<le> 65535"
  by (simp add: chosen_port_def Let_def DEFAULT_PORT_def)

lemma chosen_fingerprint_known: "chosen_fingerprint fp \<in> set FINGERPRINTS"
  by (auto simp: chosen_fingerprint_def Let_def DEFAULT_FINGERPRINT_def FINGERPRINTS_def)

lemma ascii_same: "\<forall>c \<in> set s. host_char c \<Longrightarrow> bytes_of (points s) = s"
  using host_char_plain by (intro bytes_of_ascii) auto

lemma fingerprint_same: "bytes_of (points (chosen_fingerprint fp)) = chosen_fingerprint fp"
proof (rule ascii_same)
  have "list_all (list_all host_char) FINGERPRINTS" by code_simp
  then show "\<forall>c \<in> set (chosen_fingerprint fp). host_char c"
    using chosen_fingerprint_known [of fp] by (auto simp: list_all_iff)
qed

lemma normal_same: "normalize_address idna v = Inr n \<Longrightarrow> bytes_of (points n) = n"
  using normal_host ascii_same by blast

lemma link_hosts_same:
  assumes "link_hosts idna address sni host = Inr (dial, tls)"
  shows "bytes_of (points tls) = tls \<and> (\<exists>h. normalize_address idna host = Inr h)"
proof -
  have "\<exists>v. normalize_address idna v = Inr tls"
    using link_hosts_chosen [OF assms] by (auto simp: normalize_sni_def and_then_Inr split: if_splits)
  moreover have "\<exists>h. normalize_address idna host = Inr h" using assms by (auto simp: link_hosts_def and_then_Inr)
  ultimately show ?thesis using normal_same by blast
qed

lemma plain_value: "bytes_of (points ''none'') = ''none''" "bytes_of (points ''tls'') = ''tls''" "bytes_of (points ''ws'') = ''ws''"
  by code_simp+

definition ws_path :: "string \<Rightarrow> string \<Rightarrow> string" where
  "ws_path uuid loc = ''/ws/'' @ uuid @ ''?ed=4096'' @ (if safe_location_id loc = [] then [] else ''&loc='' @ safe_location_id loc)"

lemma ws_adapter: "\<exists>a. get_adapter ''vless-ws'' = Inr a \<and> akind a = Plain_Adapter \<and> aid a = ''vless-ws''"
proof -
  have "case get_adapter ''vless-ws'' of Inr a \<Rightarrow> akind a = Plain_Adapter \<and> aid a = ''vless-ws'' | Inl e \<Rightarrow> False" by code_simp
  then show ?thesis by (auto split: sum.splits)
qed

lemma tcp_adapter: "\<exists>a. get_adapter ''vless-tcp'' = Inr a \<and> akind a = Raw_Adapter"
proof -
  have "case get_adapter ''vless-tcp'' of Inr a \<Rightarrow> akind a = Raw_Adapter | Inl e \<Rightarrow> False" by code_simp
  then show ?thesis by (auto split: sum.splits)
qed

lemma transport_endpoint_ws: "transport_endpoint i ''vless-ws'' address port sni loc = Inr None"
proof -
  show ?thesis using ws_adapter by (auto simp: transport_endpoint_def)
qed

lemma transport_endpoint_tcp:
  assumes "transport_endpoint i ''vless-tcp'' address port sni loc = Inr r"
  shows "\<exists>dial p tls. r = Some (dial, p, tls) \<and> endpoint_for_location (depl i) loc = Inr (dial, p, tls)
    \<and> strip address = [] \<and> strip sni = [] \<and> port \<in> {None, Some 443}"
proof -
  show ?thesis using assms tcp_adapter
    by (auto simp: transport_endpoint_def and_then_Inr adapter_endpoint_def split: if_splits sum.splits)
qed

lemma ws_parameters:
  "vless_parameters i ''vless-ws'' uuid h loc (JObj []) = Inr ps \<Longrightarrow>
     ps = [(''type'', ''ws''), (''host'', h), (''path'', ws_path uuid loc)]"
proof -
  assume p: "vless_parameters i ''vless-ws'' uuid h loc (JObj []) = Inr ps"
  show ?thesis using p ws_adapter by (auto simp: vless_parameters_def and_then_Inr adapter_parameters_def ws_path_def Let_def)
qed

lemma tcp_parameters: "vless_parameters i ''vless-tcp'' uuid h loc (JObj []) = Inr ps \<Longrightarrow> ps = [(''type'', uri_network (depl i))]"
proof -
  assume p: "vless_parameters i ''vless-tcp'' uuid h loc (JObj []) = Inr ps"
  show ?thesis using p tcp_adapter by (auto simp: vless_parameters_def and_then_Inr adapter_parameters_def)
qed

section \<open>Properties\<close>

text \<open>
  C14. A client reads from a share link exactly what the server wrote into it, whatever characters the
  values and the remark hold. A WebSocket link carries the dialled address, the TLS name and the
  WebSocket host as three independent values, a port in range, a known fingerprint and the path of
  this UUID and location. A Raw TCP link carries the endpoint of the deployment for the location, and
  neither host nor path nor ALPN; it exists only for a configuration without an address or SNI of its own.
\<close>

theorem share_link_exact:
  assumes "generate_vless_link i idna uuid host remark protocol fingerprint alpn port address sni loc settings = Inr url"
    and "list_all uuid_char uuid" and "\<forall>n \<in> set remark. n < 1114112"
  shows "\<exists>dial p tls n special.
      read_share_link url = Some \<lparr>sh_uuid = uuid, sh_host = n, sh_port = p,
        sh_params = [(''encryption'', ''none''), (''security'', ''tls'')] @ special
          @ (if strip protocol = ''vless-ws'' then [(''alpn'', bytes_of (points (chosen_alpn alpn ''vless-ws'')))] else []),
        sh_remark = bytes_of remark\<rparr>
    \<and> normalize_address idna dial = Inr n \<and> chosen_fingerprint fingerprint \<in> set FINGERPRINTS
    \<and> (if strip protocol = ''vless-ws'' then
         (\<exists>thost. normalize_address idna host = Inr thost \<and> link_hosts idna address sni host = Inr (dial, tls)
            \<and> p = chosen_port port \<and> 1 \<le> p \<and> p \<le> 65535
            \<and> special = [(''type'', ''ws''), (''host'', thost), (''path'', bytes_of (points (ws_path uuid loc))),
                         (''sni'', tls), (''fp'', chosen_fingerprint fingerprint)])
       else strip protocol = ''vless-tcp'' \<and> ready (depl i) \<and> running (lst i)
            \<and> strip address = [] \<and> strip sni = [] \<and> port \<in> {None, Some 443}
            \<and> endpoint_for_location (depl i) loc = Inr (dial, p, tls)
            \<and> special = [(''type'', bytes_of (points (uri_network (depl i)))), (''sni'', bytes_of (points tls)),
                         (''fp'', chosen_fingerprint fingerprint)])"
proof -
  from share_link_reads [OF assms] obtain proto ep params n where v: "transport_validate i protocol settings = Inr (proto, [])"
    and e: "share_endpoint i idna host proto alpn port address sni loc = Inr ep"
    and p: "share_params i uuid proto fingerprint loc (JObj []) ep = Inr params"
    and n: "normalize_address idna (ep_dial ep) = Inr n"
    and r: "read_share_link url = Some \<lparr>sh_uuid = uuid, sh_host = n, sh_port = ep_port ep,
        sh_params = map (\<lambda>(k, v). (k, bytes_of (points v))) params, sh_remark = bytes_of remark\<rparr>"
    by metis
  note val = validate_only_runnable [OF v]
  from p obtain ps where ps: "vless_parameters i proto uuid (ep_host ep) loc (JObj []) = Inr ps"
    and pq: "params = [(''encryption'', ''none''), (''security'', ''tls'')] @ ps
            @ [(''sni'', ep_tls ep), (''fp'', chosen_fingerprint fingerprint)]
            @ (if ep_alpn ep = [] then [] else [(''alpn'', ep_alpn ep)])"
    by (auto simp: share_params_def on_error_Inr and_then_Inr)
  show ?thesis
  proof (cases "proto = ''vless-ws''")
    case True
    from e True obtain dial tls where l: "link_hosts idna address sni host = Inr (dial, tls)"
      and ep: "ep = \<lparr>ep_dial = dial, ep_port = chosen_port port, ep_tls = tls, ep_host = transport_host idna host,
              ep_alpn = chosen_alpn alpn proto\<rparr>"
      by (auto simp: share_endpoint_def on_error_def transport_endpoint_ws and_then_Inr split: sum.splits)
    from link_hosts_same [OF l] obtain thost where h: "normalize_address idna host = Inr thost" and t: "bytes_of (points tls) = tls" by blast
    have psw: "ps = [(''type'', ''ws''), (''host'', thost), (''path'', ws_path uuid loc)]"
      using ps True ep h by (simp add: ws_parameters transport_host_def)
    have al: "chosen_alpn alpn ''vless-ws'' \<noteq> []" by (simp add: chosen_alpn_def default_alpn_for_def)
    show ?thesis
      using True val l ep h t psw al pq r n chosen_in_range normal_same [OF h]
      by (intro exI [of _ dial] exI [of _ "chosen_port port"] exI [of _ tls] exI [of _ n]
          exI [of _ "[(''type'', ''ws''), (''host'', thost), (''path'', bytes_of (points (ws_path uuid loc))),
                         (''sni'', tls), (''fp'', chosen_fingerprint fingerprint)]"])
        (simp add: plain_value fingerprint_same chosen_fingerprint_known)
  next
    case False
    with val have tcp: "proto = ''vless-tcp''" "strip protocol = ''vless-tcp''" "ready (depl i)" "running (lst i)" by auto
    from e obtain raw where raw: "transport_endpoint i ''vless-tcp'' address port sni loc = Inr raw"
      using tcp(1) by (auto simp: share_endpoint_def on_error_Inr and_then_Inr)
    from transport_endpoint_tcp [OF raw] obtain dial q tls where q: "raw = Some (dial, q, tls)"
      "endpoint_for_location (depl i) loc = Inr (dial, q, tls)" "strip address = []" "strip sni = []" "port \<in> {None, Some 443}" by blast
    have ep: "ep = \<lparr>ep_dial = dial, ep_port = q, ep_tls = tls, ep_host = [], ep_alpn = []\<rparr>"
      using e raw q(1) tcp(1) by (auto simp: share_endpoint_def on_error_def)
    have pst: "ps = [(''type'', uri_network (depl i))]" using ps tcp(1) by (simp add: tcp_parameters)
    show ?thesis
      using tcp q ep pst pq r n
      by (intro exI [of _ dial] exI [of _ q] exI [of _ tls] exI [of _ n]
          exI [of _ "[(''type'', bytes_of (points (uri_network (depl i)))), (''sni'', bytes_of (points tls)),
                         (''fp'', chosen_fingerprint fingerprint)]"])
        (simp add: plain_value fingerprint_same chosen_fingerprint_known)
  qed
qed

lemma share_link_exact_witness:
  "\<exists>url. generate_vless_link \<lparr>depl = unready Not_Configured, lst = new_listener (\<lambda>k. None)\<rparr> (\<lambda>s. None)
       ''u-1'' ''app.example.com'' [65, 32, 1601] ''vless-ws'' [] ''h2,http/1.1'' (Some 8443) ''2001:db8::1'' [] ''de'' JNull = Inr url
     \<and> read_share_link url = Some \<lparr>sh_uuid = ''u-1'', sh_host = ''2001:db8::1'', sh_port = 8443,
       sh_params = [(''encryption'', ''none''), (''security'', ''tls''), (''type'', ''ws''), (''host'', ''app.example.com''),
         (''path'', ''/ws/u-1?ed=4096&loc=de''), (''sni'', ''app.example.com''), (''fp'', ''chrome''), (''alpn'', ''h2,http/1.1'')],
       sh_remark = bytes_of [65, 32, 1601]\<rparr>"
proof -
  let ?i = "\<lparr>depl = unready Not_Configured, lst = new_listener (\<lambda>k. None)\<rparr>"
  have g: "generate_vless_link ?i (\<lambda>s. None)
       ''u-1'' ''app.example.com'' [65, 32, 1601] ''vless-ws'' [] ''h2,http/1.1'' (Some 8443) ''2001:db8::1'' [] ''de'' JNull
     = Inr ''vless://u-1@[2001:db8::1]:8443?encryption=none&security=tls&type=ws&host=app.example.com&path=/ws/u-1%3Fed%3D4096%26loc%3Dde&sni=app.example.com&fp=chrome&alpn=h2%2Chttp/1.1#A%20%D9%81''"
    by code_simp
  have c: "normalize_address (\<lambda>s. None) ''2001:db8::1'' = Inr ''2001:db8::1''"
    "normalize_address (\<lambda>s. None) ''app.example.com'' = Inr ''app.example.com''"
    "link_hosts (\<lambda>s. None) ''2001:db8::1'' [] ''app.example.com'' = Inr (''2001:db8::1'', ''app.example.com'')"
    "strip ''vless-ws'' = ''vless-ws''" "chosen_port (Some 8443) = 8443" "chosen_fingerprint [] = ''chrome''"
    "bytes_of (points (chosen_alpn ''h2,http/1.1'' ''vless-ws'')) = ''h2,http/1.1''"
    "bytes_of (points (ws_path ''u-1'' ''de'')) = ''/ws/u-1?ed=4096&loc=de''"
    by code_simp+
  have "list_all uuid_char ''u-1''" "\<forall>n \<in> set [65, 32, 1601]. n < (1114112 :: nat)" by code_simp+
  from share_link_exact [OF g this] show ?thesis using g by (auto simp: c)
qed

end
