(* ===== verification/Subscriptions.thy ===== *)
theory Subscriptions
  imports Share_Links
begin

text \<open>
  What \<open>main.py\<close> serves without a panel session: the subscription of one configuration, of a group,
  of everything (for the panel), the data of a group's public page and the guarded HTTP proxy. The
  clock, the ingress and the digest are in \<open>platform\<close>; a handler returns its reply and the new
  \<open>CONFIG["host"]\<close>. Sizes that are only formatted for display are left out.
\<close>

record http_request =
  rq_headers :: "(string, string) dict"
  rq_query :: "(string, string) dict"

datatype reply = Text_Reply string string | Refused_With nat | Raised share_error

definition NEWLINE :: char where "NEWLINE = CHR 0x0A"

definition permitted :: "platform \<Rightarrow> panel \<Rightarrow> string \<Rightarrow> bool" where
  "permitted pf p uid = is_link_allowed (pf_ingress pf) (subs p) (pf_now pf) (map_of (links p) uid)"

definition host_of :: "string option \<Rightarrow> http_request \<Rightarrow> string \<Rightarrow> string \<times> string" where
  "host_of domain rq config = get_host domain (Some (rq_headers rq)) config"

definition subscription_text :: "string list \<Rightarrow> string" where
  "subscription_text ls = b64encode (join [NEWLINE] ls)"

definition entries_of :: "platform \<Rightarrow> panel \<Rightarrow> string \<Rightarrow> string \<Rightarrow> share_error + entry list" where
  "entries_of pf p host uid = (case map_of (links p) uid of
     None \<Rightarrow> Inr [] | Some l \<Rightarrow> if permitted pf p uid then vless_entries_for_link pf (subs p) l uid host else Inr [])"

definition lines_of :: "platform \<Rightarrow> panel \<Rightarrow> string \<Rightarrow> string list \<Rightarrow> share_error + string list" where
  "lines_of pf p host uids = and_then (all_ok (entries_of pf p host) uids) (\<lambda>ess. Inr (map en_link (concat ess)))"

definition subscription_single :: "string option \<Rightarrow> platform \<Rightarrow> panel \<Rightarrow> http_request \<Rightarrow> string \<Rightarrow> string \<Rightarrow> reply \<times> string" where
  "subscription_single domain pf p rq uid config = (case map_of (links p) uid of
     None \<Rightarrow> (Refused_With 404, config)
   | Some l \<Rightarrow>
      if \<not> permitted pf p uid then (Refused_With 404, config)
      else (let (host, c) = host_of domain rq config in
        (case vless_entries_for_link pf (subs p) l uid host of
           Inl e \<Rightarrow> Raised e
         | Inr es \<Rightarrow> Text_Reply (subscription_text (map en_link es)) (quote_text (points (l_label l))), c)))"

definition subscription_all :: "string option \<Rightarrow> platform \<Rightarrow> panel \<Rightarrow> http_request \<Rightarrow> string \<Rightarrow> reply \<times> string" where
  "subscription_all domain pf p rq config = (let (host, c) = host_of domain rq config in
     (case lines_of pf p host (map fst (links p)) of
        Inl e \<Rightarrow> Raised e | Inr ls \<Rightarrow> Text_Reply (subscription_text ls) [], c))"

definition group_with_key :: "panel \<Rightarrow> string \<Rightarrow> (string \<times> sub) option" where
  "group_with_key p key = find (\<lambda>(sid, s). s_key s = key) (subs p)"

definition given_password :: "http_request \<Rightarrow> string" where
  "given_password rq = (case map_of (rq_query rq) ''pw'' of None \<Rightarrow> [] | Some v \<Rightarrow> v)"

definition sub_group_subscription :: "string option \<Rightarrow> platform \<Rightarrow> panel \<Rightarrow> http_request \<Rightarrow> string \<Rightarrow> string \<Rightarrow> reply \<times> string" where
  "sub_group_subscription domain pf p rq key config = (case group_with_key p key of
     None \<Rightarrow> (Refused_With 404, config)
   | Some (sid, s) \<Rightarrow>
      (let stored = (case s_password s of None \<Rightarrow> [] | Some h \<Rightarrow> h) in
       if stored \<noteq> [] \<and> pf_hash pf (given_password rq) \<noteq> stored then (Refused_With 403, config)
       else (let (host, c) = host_of domain rq config in
         (case lines_of pf p host (s_links s) of
            Inl e \<Rightarrow> Raised e
          | Inr ls \<Rightarrow> Text_Reply (subscription_text ls) (quote_text (points (s_name s))), c))))"

section \<open>The public page\<close>

record public_link =
  pb_uuid :: string
  pb_label :: string
  pb_entry :: entry
  pb_active :: bool
  pb_protocol :: string
  pb_used :: int
  pb_limit :: int
  pb_expires :: stamp
  pb_sub_url :: string
  pb_connections :: nat
  pb_ip_limit :: int
  pb_speed :: int

datatype public_reply =
    No_Group
  | Locked string
  | Public_Raised share_error
  | Public_Data string string string nat int "public_link list"

definition public_entries :: "platform \<Rightarrow> panel \<Rightarrow> string \<Rightarrow> string \<Rightarrow> link \<Rightarrow> share_error + entry list" where
  "public_entries pf p host uid l =
     (if l_protocol l = ''vless-tcp'' \<and> \<not> permitted pf p uid then Inr []
      else vless_entries_for_link pf (subs p) l uid host)"

definition connection_count :: "(string \<times> string) list \<Rightarrow> string \<Rightarrow> nat" where
  "connection_count conns uid = length (filter (\<lambda>c. fst c = uid) conns)"

definition public_links_of :: "platform \<Rightarrow> panel \<Rightarrow> (string \<times> string) list \<Rightarrow> string \<Rightarrow> string \<Rightarrow> share_error + public_link list" where
  "public_links_of pf p conns host uid = (case map_of (links p) uid of
     None \<Rightarrow> Inr []
   | Some l \<Rightarrow> and_then (public_entries pf p host uid l) (\<lambda>es. Inr (map (\<lambda>e.
        \<lparr>pb_uuid = uid, pb_label = l_label l, pb_entry = e, pb_active = permitted pf p uid, pb_protocol = l_protocol l,
         pb_used = l_used l, pb_limit = l_limit l, pb_expires = l_expires l,
         pb_sub_url = ''https://'' @ host @ ''/sub/'' @ uid, pb_connections = connection_count conns uid,
         pb_ip_limit = l_ip_limit l, pb_speed = l_speed l\<rparr>) es)))"

text \<open>The total of \<open>used_bytes\<close> counts a configuration once, whatever the number of its entries.\<close>

definition total_used :: "public_link list \<Rightarrow> int" where
  "total_used ls = dsum id (fold (\<lambda>l d. AList.update (pb_uuid l) (pb_used l) d) ls [])"

definition public_sub_data :: "string option \<Rightarrow> platform \<Rightarrow> panel \<Rightarrow> (string \<times> string) list \<Rightarrow> http_request \<Rightarrow> string \<Rightarrow>
    string \<Rightarrow> public_reply \<times> string" where
  "public_sub_data domain pf p conns rq key config = (case group_with_key p key of
     None \<Rightarrow> (No_Group, config)
   | Some (sid, s) \<Rightarrow>
      if s_password s \<noteq> None \<and> s_password s \<noteq> Some (pf_hash pf (given_password rq)) then (Locked (s_name s), config)
      else (let (host, c) = host_of domain rq config in
        (case all_ok (public_links_of pf p conns host) (s_links s) of
           Inl e \<Rightarrow> Public_Raised e
         | Inr lss \<Rightarrow> Public_Data (s_name s) (s_desc s) (''https://'' @ host @ ''/sub-group/'' @ key)
             (sum_list (map (connection_count conns) (filter (\<lambda>uid. map_of (links p) uid \<noteq> None) (s_links s))))
             (total_used (concat lss)) (concat lss), c)))"

section \<open>The HTTP proxy endpoint\<close>

text \<open>
  Who may use \<open>/proxy\<close>: with a configured token, whoever presents it; otherwise whoever has a panel
  session. \<open>None\<close> is the 401. The address gets a scheme when it has none.
\<close>

definition proxy_target :: "string \<Rightarrow> bool \<Rightarrow> http_request \<Rightarrow> string \<Rightarrow> string option" where
  "proxy_target token session rq target =
     (let h = header_value (rq_headers rq) ''x-proxy-token'';
          supplied = (if h \<noteq> [] then h else (case map_of (rq_query rq) ''token'' of None \<Rightarrow> [] | Some v \<Rightarrow> v)) in
      if (if token \<noteq> [] then supplied = token else session)
      then Some (if starts_with ''http'' target then target else ''https://'' @ target) else None)"

definition HOP :: "string list" where
  "HOP = [''connection'', ''keep-alive'', ''proxy-authenticate'', ''proxy-authorization'', ''te'', ''trailers'',
     ''transfer-encoding'', ''upgrade'', ''content-encoding'', ''content-length'']"

definition forwarded_headers :: "(string, string) dict \<Rightarrow> (string, string) dict" where
  "forwarded_headers hs = filter (\<lambda>(k, v). lower k \<notin> set HOP \<and> lower k \<noteq> ''host'') hs"

definition returned_headers :: "(string, string) dict \<Rightarrow> (string, string) dict" where
  "returned_headers hs = filter (\<lambda>(k, v). lower k \<notin> set HOP) hs"

text \<open>
  The proxy drops hop-by-hop headers and the host only: the token or the session cookie that admitted the
  request goes on to the address it names.
\<close>

lemma proxy_forwards_credentials:
  assumes "(k, v) \<in> set hs" "lower k \<in> {''cookie'', ''x-proxy-token'', ''authorization''}"
  shows "(k, v) \<in> set (forwarded_headers hs)"
  using assms by (auto simp: forwarded_headers_def HOP_def)

section \<open>The lines a client reads\<close>

definition client_lines :: "string \<Rightarrow> string list" where
  "client_lines content = (let t = b64decode content in if t = [] then [] else split_char NEWLINE t)"

definition flags_ok :: "sub \<Rightarrow> bool" where
  "flags_ok s = (case s_ml s of None \<Rightarrow> True
     | Some ml \<Rightarrow> list_all (\<lambda>l. list_all (\<lambda>n. n < 1114112) (loc_flag l)) (ml_locations ml))"

text \<open>UUIDs are written with letters, digits and hyphens, and flags are code points.\<close>

definition texts_ok :: "panel \<Rightarrow> bool" where
  "texts_ok p = list_all (\<lambda>(sid, s). list_all (list_all uuid_char) (s_links s) \<and> flags_ok s) (subs p)"

lemma NEWLINE_plain: "\<not> uuid_char NEWLINE" "\<not> host_char NEWLINE" "\<not> is_decimal NEWLINE" "\<not> unreserved NEWLINE"
  by (simp_all add: NEWLINE_def uuid_char_def host_char_def is_ascii_alnum_def is_ascii_letter_def is_decimal_def unreserved_def)

lemma link_one_line:
  assumes "generate_vless_link i idna uuid host remark protocol fingerprint alpn port address sni loc settings = Inr url"
    and "list_all uuid_char uuid" and "\<forall>n \<in> set remark. n < 1114112"
  shows "url \<noteq> [] \<and> NEWLINE \<notin> set url"
proof -
  from generate_shape [OF assms(1)] obtain proto ep params a where
    p: "share_params i uuid proto fingerprint loc (JObj []) ep = Inr params" and a: "authority_host idna (ep_dial ep) = Inr a"
    and u: "url = ''vless://'' @ uuid @ ''@'' @ a @ '':'' @ show_int (ep_port ep) @ ''?'' @ query_text params @ ''#'' @ quote_text remark"
    by metis
  have "NEWLINE \<notin> set uuid" using assms(2) NEWLINE_plain(1) by (auto simp: list_all_iff)
  moreover have "NEWLINE \<notin> set a" using authority_reads [OF a] NEWLINE_plain(2) by (auto simp: NEWLINE_def)
  moreover have "NEWLINE \<notin> set (show_int (ep_port ep))" using show_int_chars [of NEWLINE] NEWLINE_plain(3) by (auto simp: NEWLINE_def)
  moreover have "NEWLINE \<notin> set (query_text params)" using query_text_no [OF share_params_keys(1) [OF p]] by (simp add: NEWLINE_def)
  moreover have "\<forall>n \<in> set remark. n < 2097152" using assms(3) by fastforce
  then have "NEWLINE \<notin> set (quote_text remark)" using quote_text_no [of remark NEWLINE] by (simp add: NEWLINE_def)
  moreover have "NEWLINE \<notin> set ''vless://@:?#''" by (simp add: NEWLINE_def)
  ultimately show ?thesis by (simp add: u)
qed

lemma location_remark_points:
  assumes "list_all (\<lambda>n. n < 1114112) (loc_flag l)"
  shows "\<forall>n \<in> set (location_remark l text). n < 1114112"
proof -
  have c: "of_char c < (1114112::nat)" for c :: char using nat_of_char_less_256 [of c] by linarith
  show ?thesis using assms c by (auto simp: location_remark_def Let_def list_all_iff)
qed

lemma plain_remark_points: "\<forall>n \<in> set (plain_remark l). n < 1114112"
  using point_bound by (fastforce simp: plain_remark_def)

lemma all_ok_member: "all_ok f xs = Inr ys \<Longrightarrow> y \<in> set ys \<Longrightarrow> \<exists>x \<in> set xs. f x = Inr y"
proof (induction xs arbitrary: ys)
  case (Cons x xs)
  then obtain z zs where "f x = Inr z" "all_ok f xs = Inr zs" "ys = z # zs" by (auto simp: and_then_Inr)
  with Cons.IH [of zs] Cons.prems(2) show ?case by auto
qed simp

lemma find_member: "find P xs = Some x \<Longrightarrow> x \<in> set xs \<and> P x"
  by (induction xs) (auto split: if_splits)

lemma active_location_flags:
  assumes "texts_ok p" "loc \<in> set (active_locations (subs p) l)"
  shows "list_all (\<lambda>n. n < 1114112) (loc_flag loc)"
proof -
  from assms(2) obtain sid s ml where s: "map_of (subs p) sid = Some s" "s_ml s = Some ml" "loc \<in> set (ml_locations ml)"
    by (auto simp: active_locations_def multi_location_for_link_def Let_def split: option.splits if_splits)
  from map_of_SomeD [OF s(1)] assms(1) have "flags_ok s" by (auto simp: texts_ok_def list_all_iff)
  with s show ?thesis by (auto simp: flags_ok_def list_all_iff)
qed

lemma entries_one_line:
  assumes "vless_entries_for_link pf (subs p) l uid host = Inr es" "texts_ok p" "list_all uuid_char uid" "e \<in> set es"
  shows "en_link e \<noteq> [] \<and> NEWLINE \<notin> set (en_link e)"
proof (cases "active_locations (subs p) l = []")
  case True
  with assms(1, 4) have "link_address pf l uid host (plain_remark l) [] = Inr (en_link e)"
    by (auto simp: vless_entries_for_link_def and_then_Inr)
  from link_one_line [OF this [unfolded link_address_def] assms(3) plain_remark_points] show ?thesis .
next
  case False
  with assms(1) have "all_ok (location_entry pf (subs p) l uid host) (active_locations (subs p) l) = Inr es"
    by (simp add: vless_entries_for_link_def)
  from all_ok_member [OF this assms(4)] obtain loc where
    loc: "loc \<in> set (active_locations (subs p) l)" "location_entry pf (subs p) l uid host loc = Inr e" by blast
  then have "link_address pf l uid host (location_remark loc (location_text (subs p) l)) (loc_id loc) = Inr (en_link e)"
    by (auto simp: location_entry_def and_then_Inr Let_def)
  from link_one_line [OF this [unfolded link_address_def] assms(3) location_remark_points]
  show ?thesis using active_location_flags [OF assms(2) loc(1)] by blast
qed

lemma client_reads:
  assumes "\<forall>l \<in> set ls. l \<noteq> [] \<and> NEWLINE \<notin> set l"
  shows "client_lines (subscription_text ls) = ls"
proof (cases "ls = []")
  case False
  then obtain l t where ls: "ls = l # t" by (cases ls) auto
  then have "join [NEWLINE] ls \<noteq> []" using assms by (cases t) auto
  moreover have "split_char NEWLINE (join [NEWLINE] ls) = ls" using assms False by (intro split_char_join) auto
  ultimately show ?thesis by (simp add: client_lines_def subscription_text_def b64_round_trip Let_def)
qed (simp add: client_lines_def subscription_text_def)

lemma permitted_link: "permitted pf p uid \<Longrightarrow> \<exists>l. map_of (links p) uid = Some l"
  by (auto simp: permitted_def is_link_allowed_def split: option.splits)

lemma lines_one_line:
  assumes "lines_of pf p host uids = Inr ls" "texts_ok p" "list_all (list_all uuid_char) uids"
  shows "\<forall>l \<in> set ls. l \<noteq> [] \<and> NEWLINE \<notin> set l"
proof
  fix u assume "u \<in> set ls"
  with assms(1) obtain ess es e where ess: "all_ok (entries_of pf p host) uids = Inr ess"
    and e: "es \<in> set ess" "e \<in> set es" "u = en_link e"
    by (auto simp: lines_of_def and_then_Inr)
  from all_ok_member [OF ess e(1)] obtain uid where uid: "uid \<in> set uids" "entries_of pf p host uid = Inr es" by blast
  with e(2) obtain l where "vless_entries_for_link pf (subs p) l uid host = Inr es"
    by (auto simp: entries_of_def split: option.splits if_splits)
  from entries_one_line [OF this assms(2) _ e(2)] show "u \<noteq> [] \<and> NEWLINE \<notin> set u"
    using uid(1) assms(3) e(3) by (auto simp: list_all_iff)
qed

lemma entries_filtered:
  "all_ok (entries_of pf p host) uids = Inr ess \<Longrightarrow>
     \<exists>fs. all_ok (\<lambda>uid. vless_entries_for_link pf (subs p) (the (map_of (links p) uid)) uid host) (filter (permitted pf p) uids) = Inr fs
        \<and> concat fs = concat ess"
proof (induction uids arbitrary: ess)
  case (Cons uid uids)
  from Cons.prems obtain es rest where es: "entries_of pf p host uid = Inr es" "all_ok (entries_of pf p host) uids = Inr rest" "ess = es # rest"
    by (auto simp: and_then_Inr)
  from Cons.IH [OF es(2)] obtain fs where fs: "all_ok (\<lambda>uid. vless_entries_for_link pf (subs p) (the (map_of (links p) uid)) uid host) (filter (permitted pf p) uids) = Inr fs"
    "concat fs = concat rest" by blast
  show ?case
  proof (cases "permitted pf p uid")
    case True
    with es(1) permitted_link have "vless_entries_for_link pf (subs p) (the (map_of (links p) uid)) uid host = Inr es"
      by (fastforce simp: entries_of_def)
    then show ?thesis using True fs es(3) by (auto simp: and_then_Inr)
  next
    case False
    then have "es = []" using es(1) by (auto simp: entries_of_def split: option.splits)
    then show ?thesis using False fs es(3) by auto
  qed
qed simp

lemma group_texts: "group_with_key p key = Some (sid, s) \<Longrightarrow> texts_ok p \<Longrightarrow> list_all (list_all uuid_char) (s_links s)"
  using find_member [of _ "subs p" "(sid, s)"] by (fastforce simp: group_with_key_def texts_ok_def list_all_iff)

lemma group_reply:
  assumes "sub_group_subscription domain pf p rq key config = (Text_Reply content title, c)"
  obtains sid s ls where "group_with_key p key = Some (sid, s)"
    "s_password s \<in> {None, Some []} \<or> s_password s = Some (pf_hash pf (given_password rq))"
    "lines_of pf p (fst (host_of domain rq config)) (s_links s) = Inr ls" "content = subscription_text ls"
    "c = snd (host_of domain rq config)" "title = quote_text (points (s_name s))"
  using assms unfolding sub_group_subscription_def
  by (auto simp: Let_def split: option.splits if_splits prod.splits sum.splits)

lemma page_entries:
  "all_ok (entries_of pf p host) uids = Inr ess \<Longrightarrow> all_ok (public_links_of pf p conns host) uids = Inr lss \<Longrightarrow>
     map (\<lambda>l. en_link (pb_entry l)) (filter pb_active (concat lss)) = map en_link (concat ess)
     \<and> (\<forall>l \<in> set (concat lss). pb_active l \<or> pb_protocol l \<noteq> ''vless-tcp'')"
proof (induction uids arbitrary: ess lss)
  case (Cons uid uids)
  from Cons.prems obtain es rest ls lrest where r: "entries_of pf p host uid = Inr es" "all_ok (entries_of pf p host) uids = Inr rest" "ess = es # rest"
    "public_links_of pf p conns host uid = Inr ls" "all_ok (public_links_of pf p conns host) uids = Inr lrest" "lss = ls # lrest"
    by (auto simp: and_then_Inr)
  have "map (\<lambda>l. en_link (pb_entry l)) (filter pb_active ls) = map en_link es \<and> (\<forall>l \<in> set ls. pb_active l \<or> pb_protocol l \<noteq> ''vless-tcp'')"
  proof (cases "map_of (links p) uid")
    case None
    then show ?thesis using r(1, 4) by (simp add: entries_of_def public_links_of_def)
  next
    case (Some l)
    then show ?thesis using r(1, 4)
      by (cases "permitted pf p uid")
        (auto simp: entries_of_def public_links_of_def public_entries_def and_then_Inr comp_def split: if_splits)
  qed
  then show ?case using Cons.IH [OF r(2, 5)] r(3, 6) by auto
qed simp

section \<open>Properties\<close>

text \<open>
  C15. A group's subscription is served only for the right password, and a client that decodes it reads,
  line by line, exactly the share links of the group's permitted configurations in the order of the
  group, every active location once. Nothing of a configuration that is expired, switched off, over its
  volume or without a runnable transport is in it.
\<close>

theorem subscription_exact:
  assumes "sub_group_subscription domain pf p rq key config = (Text_Reply content title, config')" and "texts_ok p"
  shows "\<exists>sid s ess. group_with_key p key = Some (sid, s)
    \<and> (s_password s \<in> {None, Some []} \<or> s_password s = Some (pf_hash pf (given_password rq)))
    \<and> all_ok (\<lambda>uid. vless_entries_for_link pf (subs p) (the (map_of (links p) uid)) uid (fst (host_of domain rq config)))
        (filter (permitted pf p) (s_links s)) = Inr ess
    \<and> client_lines content = map en_link (concat ess)
    \<and> unquote title = bytes_of (points (s_name s))"
proof -
  from group_reply [OF assms(1)] obtain sid s ls where g: "group_with_key p key = Some (sid, s)"
    "s_password s \<in> {None, Some []} \<or> s_password s = Some (pf_hash pf (given_password rq))"
    and l: "lines_of pf p (fst (host_of domain rq config)) (s_links s) = Inr ls" and c: "content = subscription_text ls"
    and t: "title = quote_text (points (s_name s))" by metis
  from l obtain ess where e: "all_ok (entries_of pf p (fst (host_of domain rq config))) (s_links s) = Inr ess" "ls = map en_link (concat ess)"
    by (auto simp: lines_of_def and_then_Inr)
  from entries_filtered [OF e(1)] obtain fs where f: "all_ok (\<lambda>uid. vless_entries_for_link pf (subs p) (the (map_of (links p) uid)) uid
      (fst (host_of domain rq config))) (filter (permitted pf p) (s_links s)) = Inr fs" "concat fs = concat ess" by blast
  have "client_lines content = ls"
    unfolding c by (rule client_reads [OF lines_one_line [OF l assms(2) group_texts [OF g(1) assms(2)]]])
  with g f e(2) t unquote_text [OF value_small] show ?thesis by auto
qed

text \<open>
  C16. The public page of a group and its subscription agree: the share links the page marks active are
  exactly the lines of the subscription, in the same order, under the same host; and a Raw TCP
  configuration is on the page only while it is permitted.
\<close>

theorem public_page_agrees:
  assumes "sub_group_subscription domain pf p rq key config = (Text_Reply content title, c1)"
    and "public_sub_data domain pf p conns rq key config = (Public_Data gname desc url n amount ls, c2)"
    and "texts_ok p"
  shows "client_lines content = map (\<lambda>l. en_link (pb_entry l)) (filter pb_active ls)
    \<and> c1 = c2 \<and> (\<forall>l \<in> set ls. pb_active l \<or> pb_protocol l \<noteq> ''vless-tcp'')"
proof -
  from group_reply [OF assms(1)] obtain sid s us where g: "group_with_key p key = Some (sid, s)"
    and l: "lines_of pf p (fst (host_of domain rq config)) (s_links s) = Inr us" and c: "content = subscription_text us"
    and c1: "c1 = snd (host_of domain rq config)" by metis
  from l obtain ess where e: "all_ok (entries_of pf p (fst (host_of domain rq config))) (s_links s) = Inr ess" "us = map en_link (concat ess)"
    by (auto simp: lines_of_def and_then_Inr)
  from assms(2) g obtain lss where m: "all_ok (public_links_of pf p conns (fst (host_of domain rq config))) (s_links s) = Inr lss"
    "ls = concat lss" "c2 = snd (host_of domain rq config)"
    unfolding public_sub_data_def by (auto simp: Let_def split: if_splits prod.splits sum.splits)
  have "client_lines content = us"
    unfolding c by (rule client_reads [OF lines_one_line [OF l assms(3) group_texts [OF g assms(3)]]])
  then show ?thesis using page_entries [OF e(1) m(1)] e(2) m(2, 3) c1 by simp
qed

section \<open>Witnesses\<close>

definition page_platform :: platform where
  "page_platform = \<lparr>pf_idna = (\<lambda>s. None), pf_hash = (\<lambda>s. ''#'' @ s), pf_float = (\<lambda>s. None),
     pf_ingress = \<lparr>depl = unready Not_Configured, lst = new_listener (\<lambda>k. None)\<rparr>, pf_lookup = (\<lambda>s. None), pf_preferred = [],
     pf_receipt = (\<lambda>p r. False), pf_host = ''app.example.com'', pf_now = 5\<rparr>"

definition page_group :: sub where
  "page_group = \<lparr>s_name = ''team'', s_desc = [], s_password = Some ''#secret'', s_key = ''k'', s_created = 1,
     s_links = [''u-1'', ''u-3'', ''u-2''], s_ml = None\<rparr>"

definition page_panel :: panel where
  "page_panel = \<lparr>links = [(''u-1'', sample_link), (''u-2'', sample_link\<lparr>l_active := False\<rparr>)], subs = [(''s'', page_group)],
     buckets = [], activity = [], disk = ([], []), disk_ok = True\<rparr>"

definition page_request :: http_request where
  "page_request = \<lparr>rq_headers = [(''host'', ''app.example.com:8443'')], rq_query = [(''pw'', ''secret'')]\<rparr>"

definition page_link :: string where
  "page_link = ''vless://u-1@app.example.com:443?encryption=none&security=tls&type=ws&host=app.example.com&path=/ws/u-1%3Fed%3D4096&sni=app.example.com&fp=chrome&alpn=http/1.1#a''"

lemma page_entry:
  "vless_entries_for_link page_platform (subs page_panel) sample_link ''u-1'' ''app.example.com''
     = Inr [\<lparr>en_link = page_link, en_remark = [97], en_location = None, en_shared = False\<rparr>]"
  by code_simp

lemma page_permitted: "permitted page_platform page_panel ''u-1''" "\<not> permitted page_platform page_panel ''u-3''"
    "\<not> permitted page_platform page_panel ''u-2''"
  by code_simp+

lemma page_host: "host_of None page_request ''localhost'' = (''app.example.com'', ''app.example.com'')"
  by code_simp

lemma page_texts: "texts_ok page_panel"
  by code_simp

lemma page_facts:
  "group_with_key page_panel ''k'' = Some (''s'', page_group)" "map_of (links page_panel) ''u-1'' = Some sample_link"
  "map_of (links page_panel) ''u-2'' = Some (sample_link\<lparr>l_active := False\<rparr>)" "map_of (links page_panel) ''u-3'' = None"
  "s_links page_group = [''u-1'', ''u-3'', ''u-2'']" "s_name page_group = ''team''" "s_password page_group = Some ''#secret''"
  "pf_hash page_platform (given_password page_request) = ''#secret''" "bytes_of (points ''team'') = ''team''"
  "quote_text (points ''team'') = ''team''"
  by code_simp+

lemma page_reply: "sub_group_subscription None page_platform page_panel page_request ''k'' ''localhost''
    = (Text_Reply (subscription_text [page_link]) ''team'', ''app.example.com'')"
proof -
  have "lines_of page_platform page_panel ''app.example.com'' [''u-1'', ''u-3'', ''u-2''] = Inr [page_link]"
    using page_entry page_permitted by (simp add: lines_of_def entries_of_def page_facts)
  then show ?thesis unfolding sub_group_subscription_def by (simp add: page_host page_facts)
qed

lemma page_data: "\<exists>ls. public_sub_data None page_platform page_panel [(''u-1'', ''9.9.9.9'')] page_request ''k'' ''localhost''
    = (Public_Data ''team'' [] ''https://app.example.com/sub-group/k'' 1 0 ls, ''app.example.com'') \<and> map pb_active ls = [True, False]"
proof -
  let ?r = "public_sub_data None page_platform page_panel [(''u-1'', ''9.9.9.9'')] page_request ''k'' ''localhost''"
  have "case fst ?r of Public_Data g d u n t ls \<Rightarrow> g = ''team'' \<and> d = [] \<and> u = ''https://app.example.com/sub-group/k'' \<and> n = 1 \<and> t = 0
      \<and> map pb_active ls = [True, False] | _ \<Rightarrow> False" by code_simp
  moreover have "snd ?r = ''app.example.com''" by code_simp
  ultimately show ?thesis by (cases ?r) (auto split: public_reply.splits)
qed

lemma subscription_exact_witness:
  "client_lines (subscription_text [page_link]) = [page_link] \<and> unquote ''team'' = ''team''"
proof -
  from subscription_exact [OF page_reply page_texts] obtain sid s ess where g: "group_with_key page_panel ''k'' = Some (sid, s)"
    and e: "all_ok (\<lambda>uid. vless_entries_for_link page_platform (subs page_panel) (the (map_of (links page_panel) uid)) uid
        (fst (host_of None page_request ''localhost''))) (filter (permitted page_platform page_panel) (s_links s)) = Inr ess"
    and c: "client_lines (subscription_text [page_link]) = map en_link (concat ess)"
    and t: "unquote ''team'' = bytes_of (points (s_name s))" by blast
  have s: "s = page_group" using g by (simp add: page_facts)
  have "map en_link (concat ess) = [page_link]"
    using e by (auto simp: s page_facts(5, 2) page_permitted page_host page_entry and_then_Inr)
  then show ?thesis using c t by (simp add: s page_facts)
qed

lemma public_page_agrees_witness:
  "\<exists>ls :: public_link list. map pb_active ls = [True, False] \<and> map (\<lambda>l. en_link (pb_entry l)) (filter pb_active ls) = client_lines (subscription_text [page_link])"
proof -
  from page_data obtain ls where
    d: "public_sub_data None page_platform page_panel [(''u-1'', ''9.9.9.9'')] page_request ''k'' ''localhost''
      = (Public_Data ''team'' [] ''https://app.example.com/sub-group/k'' 1 0 ls, ''app.example.com'')"
    and m: "map pb_active ls = [True, False]" by (elim exE conjE) (rule that)
  from m public_page_agrees [OF page_reply d page_texts] show ?thesis by (intro exI [of _ ls]) (simp only: conj_assoc simp_thms)
qed

end
