(* ===== verification/Shop_Service.thy ===== *)
theory Shop_Service
  imports Shop_Laws Subscriptions
begin

text \<open>
  Where the shop of \<open>telegram_bot.py\<close> meets the panel: a paid order creates or renews a configuration
  (\<open>_ensure_customer_sub\<close>, \<open>_provision_new\<close>, \<open>_provision_renew\<close>), \<open>_finish_order\<close> as a whole, and the
  assignment of an exit to every sold configuration. Random values are in \<open>draws\<close>; Persian texts of
  labels are replaced by short English ones.
\<close>

section \<open>Environment\<close>

record draws =
  sp_group :: string
  sp_key :: string
  sp_link :: string
  sp_orders :: "string list"

record bot_env =
  be_pf :: platform
  be_admins :: "int list"
  be_ip_limit :: int
  be_timeout :: int
  be_repo :: repo
  be_domain :: "string option"
  be_host :: string

definition clock :: "bot_env \<Rightarrow> int" where
  "clock env = pf_now (be_pf env)"

definition is_admin :: "bot_env \<Rightarrow> int \<Rightarrow> bool" where
  "is_admin env uid \<longleftrightarrow> uid \<in> set (be_admins env)"

section \<open>A new service\<close>

definition ensure_customer_sub :: "platform \<Rightarrow> draws \<Rightarrow> int \<Rightarrow> store \<Rightarrow> panel \<Rightarrow> (failure + string) \<times> store \<times> panel" where
  "ensure_customer_sub pf dr uid s p =
     (case Option.bind (map_of (users s) uid) u_sub of
        Some sid \<Rightarrow>
          if sid \<noteq> [] \<and> map_of (subs p) sid \<noteq> None then (Inr sid, s, p)
          else (case create_sub_group pf (sp_group dr) (sp_key dr) (''services of '' @ show_int uid) [] [] p of
              (Inl e, q) \<Rightarrow> (Inl e, s, q) | (Inr g, q) \<Rightarrow> (Inr g, group_user uid g s, q))
      | None \<Rightarrow>
         (case create_sub_group pf (sp_group dr) (sp_key dr) (''services of '' @ show_int uid) [] [] p of
            (Inl e, q) \<Rightarrow> (Inl e, s, q) | (Inr g, q) \<Rightarrow> (Inr g, group_user uid g s, q)))"

definition service_label :: "store \<Rightarrow> order \<Rightarrow> plan \<Rightarrow> string" where
  "service_label s od pl =
     (let first = (case map_of (users s) (o_user od) of None \<Rightarrow> [] | Some u \<Rightarrow> u_first u) in
      (if first = [] then show_int (o_user od) else first) @ '' '' @ [char_of (183::nat)] @ '' '' @ pl_label pl @ ''/'' @ show_int (pl_days pl)
        @ '' days'')"

definition service_request :: "bot_env \<Rightarrow> store \<Rightarrow> order \<Rightarrow> plan \<Rightarrow> stamp \<Rightarrow> string \<Rightarrow> link_request" where
  "service_request env s od pl expires sid = \<lparr>q_label = service_label s od pl, q_limit = pl_quota pl, q_expires = expires,
     q_note = ''Telegram sale '' @ o_id od, q_remark = [], q_sub = Some sid, q_protocol = ''vless-ws'', q_settings = JNull,
     q_security = JStr ''tls'', q_fingerprint = DEFAULT_FINGERPRINT, q_alpn = ''http/1.1'', q_port = Some DEFAULT_PORT,
     q_ip_limit = be_ip_limit env, q_speed = 0, q_address = [], q_sni = [], q_mode = ''direct'', q_proxy = [], q_custom = [],
     q_uuid = []\<rparr>"

definition mark_sold :: "order \<Rightarrow> plan \<Rightarrow> link \<Rightarrow> link" where
  "mark_sold od pl l = l\<lparr>l_owner := Some (o_user od), l_order := Some (o_id od), l_plan := Some (pl_id pl), l_managed := True\<rparr>"

definition service_expiry :: "int \<Rightarrow> plan \<Rightarrow> failure + stamp" where
  "service_expiry base pl = (let t = base + pl_days pl * MICROS_PER_DAY in if t > MAX_TIME then Inl Crash else Inr (Naive t))"

definition provision_new :: "bot_env \<Rightarrow> draws \<Rightarrow> order \<Rightarrow> store \<Rightarrow> panel \<Rightarrow> (failure + string) \<times> store \<times> panel" where
  "provision_new env dr od s p = (case o_plan od of
     None \<Rightarrow> (Inl Crash, s, p)
   | Some pl \<Rightarrow>
      (case service_expiry (clock env) pl of
         Inl e \<Rightarrow> (Inl e, s, p)
       | Inr expires \<Rightarrow>
          (case ensure_customer_sub (be_pf env) dr (o_user od) s p of
             (Inl e, t, q) \<Rightarrow> (Inl e, t, q)
           | (Inr sid, t, q) \<Rightarrow>
              (case make_link (be_pf env) (sp_link dr) (service_request env s od pl expires sid) q of
                 (Inl e, q1) \<Rightarrow> (Inl e, t, q1)
               | (Inr uid, q1) \<Rightarrow>
                  (case set_link_sub (be_pf env) uid (Some sid) (on_link uid (mark_sold od pl) q1) of
                     (Inl e, q2) \<Rightarrow> (Inl e, t, q2)
                   | (Inr done_, q2) \<Rightarrow> (Inr uid, t, snd (save_state q2)))))))"

section \<open>A renewed service\<close>

text \<open>\<open>max(_now(), old_exp)\<close>: a time with a zone cannot be compared and raises.\<close>

definition renewal_base :: "int \<Rightarrow> stamp \<Rightarrow> failure + int" where
  "renewal_base now old = (case old of
     NoTime \<Rightarrow> Inr now | BadTime \<Rightarrow> Inr now | Naive t \<Rightarrow> Inr (max now t) | Aware t \<Rightarrow> Inl Crash)"

definition renewed :: "order \<Rightarrow> plan \<Rightarrow> stamp \<Rightarrow> link \<Rightarrow> link" where
  "renewed od pl expires l = l\<lparr>l_limit := max 0 (l_limit l - l_used l) + pl_quota pl, l_used := 0, l_expires := expires, l_active := True,
     l_protocol := ''vless-ws'', l_fingerprint := DEFAULT_FINGERPRINT, l_alpn := ''http/1.1'', l_port := DEFAULT_PORT,
     l_order := Some (o_id od), l_plan := Some (pl_id pl), l_managed := True\<rparr>"

definition provision_renew :: "bot_env \<Rightarrow> order \<Rightarrow> panel \<Rightarrow> (failure + string) \<times> panel" where
  "provision_renew env od p = (case (o_plan od, o_service od) of
     (Some pl, Some uid) \<Rightarrow>
       (case map_of (links p) uid of
          None \<Rightarrow> (Inl Not_Found, p)
        | Some l \<Rightarrow>
           if l_owner l \<noteq> Some (o_user od) then (Inl Not_Found, p)
           else (case and_then (renewal_base (clock env) (l_expires l)) (\<lambda>base. service_expiry base pl) of
               Inl e \<Rightarrow> (Inl e, p)
             | Inr expires \<Rightarrow> (Inr uid, snd (save_state (on_link uid (renewed od pl expires) p)))))
   | _ \<Rightarrow> (Inl Crash, p))"

section \<open>Finishing an order\<close>

definition provision :: "bot_env \<Rightarrow> draws \<Rightarrow> order \<Rightarrow> store \<Rightarrow> panel \<Rightarrow> (failure + string option) \<times> store \<times> panel" where
  "provision env dr od s p = (case o_kind od of
     Kind_Wallet \<Rightarrow> (Inr None, credit_topup (o_id od) s, p)
   | Kind_New \<Rightarrow> (case provision_new env dr od s p of
       (Inl e, t, q) \<Rightarrow> (Inl e, t, q) | (Inr uid, t, q) \<Rightarrow> (Inr (Some uid), t, q))
   | Kind_Renew \<Rightarrow> (case provision_renew env od p of
       (Inl e, q) \<Rightarrow> (Inl e, s, q) | (Inr uid, q) \<Rightarrow> (Inr (Some uid), s, q)))"

definition finish_order :: "bot_env \<Rightarrow> draws \<Rightarrow> string \<Rightarrow> int option \<Rightarrow> source \<Rightarrow> store \<Rightarrow> panel \<Rightarrow>
    shop_error option \<times> store \<times> panel" where
  "finish_order env dr oid reviewer src s p = (case finish_begin (clock env) oid reviewer src s of
     (Some e, t) \<Rightarrow> (Some e, t, p)
   | (None, t) \<Rightarrow>
      (case map_of (orders t) oid of
         None \<Rightarrow> (Some Key_Error, t, p)
       | Some od \<Rightarrow>
          (case provision env dr od t p of
             (Inl e, t1, q) \<Rightarrow> (Some Provision_Failed, finish_rollback oid src t1, q)
           | (Inr srv, t1, q) \<Rightarrow> (None, finish_commit (clock env) oid srv t1, q))))"

section \<open>One exit for every sold service\<close>

definition better :: "proxy \<Rightarrow> proxy \<Rightarrow> bool" where
  "better r c \<longleftrightarrow> (health c, pid c) < (health r, pid r)"

fun best_of :: "proxy option \<Rightarrow> proxy list \<Rightarrow> proxy option" where
  "best_of b [] = b"
| "best_of b (r # rs) = best_of (case b of None \<Rightarrow> Some r | Some c \<Rightarrow> if better r c then Some r else Some c) rs"

definition best_by_code :: "proxy list \<Rightarrow> (string, proxy) dict" where
  "best_by_code rs = fold (\<lambda>r d. case map_of d (code r) of
     None \<Rightarrow> AList.update (code r) r d | Some c \<Rightarrow> if better r c then AList.update (code r) r d else d) rs []"

definition assignment_targets :: "repo \<Rightarrow> proxy list" where
  "assignment_targets r = take 30 (sort_key (\<lambda>x. (country x, code x)) (map snd (best_by_code (records_for_country r []))))"

definition eligible :: "store \<Rightarrow> link \<Rightarrow> bool" where
  "eligible s l \<longleftrightarrow> l_managed l \<and> (case l_owner l of None \<Rightarrow> False | Some uid \<Rightarrow> map_of (users s) uid \<noteq> None)"

definition assigned :: "proxy \<Rightarrow> link \<Rightarrow> bool" where
  "assigned r l \<longleftrightarrow> l_mode l = ''repository'' \<and> l_proxy l = pid r"

definition assign_exit :: "store \<Rightarrow> proxy \<Rightarrow> link \<Rightarrow> link" where
  "assign_exit s r l = (if eligible s l \<and> \<not> assigned r l then l\<lparr>l_mode := ''repository'', l_proxy := pid r, l_custom := []\<rparr> else l)"

text \<open>The answer: how many services are eligible, changed and already there.\<close>

definition apply_proxy_assignment :: "bot_env \<Rightarrow> int \<Rightarrow> string \<Rightarrow> store \<Rightarrow> panel \<Rightarrow>
    (shop_error + nat \<times> nat \<times> nat) \<times> store \<times> panel" where
  "apply_proxy_assignment env admin cc s p =
     (if \<not> is_admin env admin then (Inl Not_Admin, s, p)
      else if find (\<lambda>x. code x = cc) (assignment_targets (be_repo env)) = None then (Inl Target_Gone, s, p)
      else (case best_of None (records_for_country (be_repo env) cc) of
          None \<Rightarrow> (Inl Target_Gone, s, p)
        | Some r \<Rightarrow>
           (let es = filter (\<lambda>(uid, l). eligible s l) (links p);
                ch = filter (\<lambda>(uid, l). \<not> assigned r l) es;
                q = snd (save_state (p\<lparr>links := map (\<lambda>(uid, l). (uid, assign_exit s r l)) (links p)\<rparr>));
                n = (length es, length ch, length es - length ch)
            in (Inr n, put_audit (Audit_Assignment admin cc (fst n) (fst (snd n)) (snd (snd n)) (clock env)) s, q))))"

end
