(* ===== verification/Shop_Bot.thy ===== *)
theory Shop_Bot
  imports Shop_Service
begin

text \<open>
  The conversation of \<open>telegram_bot.py\<close>: \<open>_handle_message\<close> with the dialogues in \<open>_pending\<close>, and
  \<open>_handle_callback\<close> for the buttons. The poll loop handles one update after another, so an update is
  one step of the bot; the panel may change between two updates. The Persian texts and keyboards of the
  answers are left out: an answer is a \<open>answer\<close> that keeps the data it shows. The Persian word for
  ``cancel'', which no Latin text equals, is \<open>Cancel_Word\<close>.
\<close>

section \<open>State\<close>

datatype pending =
    P_Discount string | P_Gift_Redeem | P_Topup | P_Receipt string
  | P_Card_Number | P_Card_Holder string
  | P_Gift_Code | P_Gift_Amount string | P_Gift_Uses string int | P_Gift_Days string int int
  | P_Promo_Code | P_Promo_Type string | P_Promo_Value string promo_kind
  | P_Promo_Uses string promo_kind int | P_Promo_Days string promo_kind int int
  | P_Assignment string

record bot =
  b_store :: store
  b_panel :: panel
  b_pending :: "(int, pending) dict"

datatype answer =
    N_Menu | N_Fixed | N_Refused | N_Error shop_error
  | N_Order order | N_Card order | N_Services "string list" "string option" | N_Service string link
  | N_Config string string | N_Sub_Url string string | N_Plans string
  | N_Review order | N_Receipt order | N_Page nat | N_Targets "string list" | N_Assigned nat nat nat | N_Stats nat nat nat

type_synonym outcome = "bot \<times> (int \<times> answer) list"

definition set_pending :: "int \<Rightarrow> pending \<Rightarrow> bot \<Rightarrow> bot" where
  "set_pending c pd b = b\<lparr>b_pending := AList.update c pd (b_pending b)\<rparr>"

definition drop_pending :: "int \<Rightarrow> bot \<Rightarrow> bot" where
  "drop_pending c b = b\<lparr>b_pending := AList.delete c (b_pending b)\<rparr>"

definition with_store :: "store \<Rightarrow> bot \<Rightarrow> bot" where
  "with_store s b = b\<lparr>b_store := s\<rparr>"

definition with_both :: "store \<Rightarrow> panel \<Rightarrow> bot \<Rightarrow> bot" where
  "with_both s p b = b\<lparr>b_store := s, b_panel := p\<rparr>"

definition say :: "int \<Rightarrow> answer \<Rightarrow> bot \<Rightarrow> outcome" where
  "say c n b = (b, [(c, n)])"

section \<open>Texts\<close>

datatype text_in = Cancel_Word | Latin string

definition code_in :: "text_in \<Rightarrow> string option" where
  "code_in t = (case t of Cancel_Word \<Rightarrow> None | Latin s \<Rightarrow> normalize_code s)"

definition amount_in :: "text_in \<Rightarrow> int \<Rightarrow> int \<Rightarrow> int option" where
  "amount_in t low high = (case t of Cancel_Word \<Rightarrow> None | Latin s \<Rightarrow> read_amount s low high)"

section \<open>The dialogues of an administrator\<close>

definition admin_gift_text :: "bot_env \<Rightarrow> int \<Rightarrow> text_in \<Rightarrow> pending \<Rightarrow> bot \<Rightarrow> outcome" where
  "admin_gift_text env c t pd b = (case pd of
     P_Gift_Code \<Rightarrow> (case code_in t of
         None \<Rightarrow> say c N_Refused b
       | Some k \<Rightarrow> if map_of (gifts (b_store b)) k \<noteq> None then say c N_Refused b
                  else say c N_Fixed (set_pending c (P_Gift_Amount k) b))
   | P_Gift_Amount k \<Rightarrow> (case amount_in t 1000 20000000 of
         None \<Rightarrow> say c N_Refused b | Some v \<Rightarrow> say c N_Fixed (set_pending c (P_Gift_Uses k v) b))
   | P_Gift_Uses k v \<Rightarrow> (case amount_in t 1 100000 of
         None \<Rightarrow> say c N_Refused b | Some n \<Rightarrow> say c N_Fixed (set_pending c (P_Gift_Days k v n) b))
   | P_Gift_Days k v n \<Rightarrow> (case amount_in t 0 3650 of
         None \<Rightarrow> say c N_Refused b
       | Some days \<Rightarrow> say c N_Fixed (drop_pending c (with_store (put_gift (clock env) c k v n days (b_store b)) b)))
   | _ \<Rightarrow> (b, []))"

definition admin_promo_text :: "bot_env \<Rightarrow> int \<Rightarrow> text_in \<Rightarrow> pending \<Rightarrow> bot \<Rightarrow> outcome" where
  "admin_promo_text env c t pd b = (case pd of
     P_Promo_Code \<Rightarrow> (case code_in t of
         None \<Rightarrow> say c N_Refused b
       | Some k \<Rightarrow> if map_of (promos (b_store b)) k \<noteq> None then say c N_Refused b
                  else say c N_Fixed (set_pending c (P_Promo_Type k) b))
   | P_Promo_Value k kd \<Rightarrow> (case amount_in t 1 (if kd = Percent then 100 else 20000000) of
         None \<Rightarrow> say c N_Refused b | Some v \<Rightarrow> say c N_Fixed (set_pending c (P_Promo_Uses k kd v) b))
   | P_Promo_Uses k kd v \<Rightarrow> (case amount_in t 1 100000 of
         None \<Rightarrow> say c N_Refused b | Some n \<Rightarrow> say c N_Fixed (set_pending c (P_Promo_Days k kd v n) b))
   | P_Promo_Days k kd v n \<Rightarrow> (case amount_in t 0 3650 of
         None \<Rightarrow> say c N_Refused b
       | Some days \<Rightarrow> say c N_Fixed (drop_pending c (with_store (put_promo (clock env) c k kd v n days (b_store b)) b)))
   | _ \<Rightarrow> (b, []))"

definition is_gift_dialogue :: "pending \<Rightarrow> bool" where
  "is_gift_dialogue pd = (case pd of P_Gift_Code \<Rightarrow> True | P_Gift_Amount k \<Rightarrow> True | P_Gift_Uses k v \<Rightarrow> True
     | P_Gift_Days k v n \<Rightarrow> True | _ \<Rightarrow> False)"

definition is_promo_dialogue :: "pending \<Rightarrow> bool" where
  "is_promo_dialogue pd = (case pd of P_Promo_Code \<Rightarrow> True | P_Promo_Type k \<Rightarrow> True | P_Promo_Value k kd \<Rightarrow> True
     | P_Promo_Uses k kd v \<Rightarrow> True | P_Promo_Days k kd v n \<Rightarrow> True | _ \<Rightarrow> False)"

section \<open>The dialogues of a customer\<close>

definition cancel_dialogue :: "bot_env \<Rightarrow> int \<Rightarrow> pending \<Rightarrow> bot \<Rightarrow> outcome" where
  "cancel_dialogue env c pd b =
     (let s = (case pd of P_Receipt oid \<Rightarrow> if oid \<noteq> [] then snd (cancel_waiting_order (clock env) oid c (b_store b)) else b_store b
                        | _ \<Rightarrow> b_store b) in
      say c N_Fixed (drop_pending c (with_store s b)))"

definition begin_card :: "bot_env \<Rightarrow> int \<Rightarrow> string \<Rightarrow> bot \<Rightarrow> outcome" where
  "begin_card env c oid b = (case start_card_payment (clock env) (be_timeout env) (be_admins env \<noteq> []) oid c (b_store b) of
     (Inl e, s) \<Rightarrow> say c (N_Error e) (with_store s b)
   | (Inr od, s) \<Rightarrow> say c (N_Card od) (set_pending c (P_Receipt oid) (with_store s b)))"

definition topup_text :: "bot_env \<Rightarrow> draws \<Rightarrow> int \<Rightarrow> text_in \<Rightarrow> bot \<Rightarrow> outcome" where
  "topup_text env dr c t b = (case amount_in t MIN_TOPUP MAX_TOPUP of
     None \<Rightarrow> say c N_Refused b
   | Some v \<Rightarrow> (case create_order (clock env) (sp_orders dr) c Kind_Wallet None None (Some v) (b_store b) of
       (Inl e, s) \<Rightarrow> (with_store s b, [])
     | (Inr od, s) \<Rightarrow> begin_card env c (o_id od) (drop_pending c (with_store s b))))"

definition card_text :: "bot_env \<Rightarrow> int \<Rightarrow> string \<Rightarrow> pending \<Rightarrow> bot \<Rightarrow> outcome" where
  "card_text env c s pd b = (case pd of
     P_Card_Number \<Rightarrow>
       if \<not> is_admin env c then (b, [])
       else (let digits = filter is_decimal s in
         if length digits \<noteq> 16 then say c N_Refused b else say c N_Fixed (set_pending c (P_Card_Holder digits) b))
   | P_Card_Holder number \<Rightarrow>
       if \<not> is_admin env c then (b, [])
       else (let holder = take 80 (strip s) in
         if length holder < 3 then say c N_Refused b
         else say c N_Fixed (drop_pending c (with_store (put_card number holder (b_store b)) b)))
   | _ \<Rightarrow> (b, []))"

definition customer_text :: "bot_env \<Rightarrow> draws \<Rightarrow> int \<Rightarrow> string \<Rightarrow> pending \<Rightarrow> bot \<Rightarrow> outcome" where
  "customer_text env dr c s pd b = (case pd of
     P_Discount oid \<Rightarrow> (case apply_discount (clock env) oid c s (b_store b) of
         (Inl e, t) \<Rightarrow> say c (N_Error e) (with_store t b)
       | (Inr od, t) \<Rightarrow> say c (N_Order od) (drop_pending c (with_store t b)))
   | P_Gift_Redeem \<Rightarrow> (case redeem_gift (clock env) c s (b_store b) of
         (Inl e, t) \<Rightarrow> say c (N_Error e) (with_store t b)
       | (Inr v, t) \<Rightarrow> say c N_Fixed (drop_pending c (with_store t b)))
   | P_Topup \<Rightarrow> topup_text env dr c (Latin s) b
   | _ \<Rightarrow> card_text env c s pd b)"

definition handle_pending_text :: "bot_env \<Rightarrow> draws \<Rightarrow> int \<Rightarrow> text_in \<Rightarrow> pending \<Rightarrow> bot \<Rightarrow> outcome" where
  "handle_pending_text env dr c t pd b =
     (if is_gift_dialogue pd then admin_gift_text env c t pd b
      else if is_promo_dialogue pd then admin_promo_text env c t pd b
      else (case t of
          Cancel_Word \<Rightarrow> cancel_dialogue env c pd b
        | Latin s \<Rightarrow> if s = ''/cancel'' then cancel_dialogue env c pd b else customer_text env dr c s pd b))"

section \<open>Messages\<close>

datatype attachment = No_File | Photo string | Document string string

text \<open>Who wrote, in which chat, with which file and text.\<close>

record message =
  ms_chat :: int
  ms_private :: bool
  ms_from :: "int \<times> string \<times> string"
  ms_file :: attachment
  ms_text :: text_in

definition receipt_of :: "attachment \<Rightarrow> string option" where
  "receipt_of a = (case a of No_File \<Rightarrow> None | Photo f \<Rightarrow> Some f
     | Document f mime \<Rightarrow> if starts_with ''image/'' mime \<or> mime = ''application/pdf'' then Some f else None)"

definition greet :: "bot_env \<Rightarrow> int \<times> string \<times> string \<Rightarrow> bot \<Rightarrow> bot" where
  "greet env who b = with_store (ensure_user (clock env) (fst who) (fst (snd who)) (snd (snd who)) (b_store b)) b"

definition handle_receipt :: "bot_env \<Rightarrow> int \<Rightarrow> string \<Rightarrow> bot \<Rightarrow> outcome" where
  "handle_receipt env c file b =
     (let which = (case map_of (b_pending b) c of Some (P_Receipt oid) \<Rightarrow> if oid = [] then None else Some oid | _ \<Rightarrow> None) in
      case submit_receipt (clock env) c file which (b_store b) of
        (Inl e, s) \<Rightarrow> say c (N_Error e) (with_store s b)
      | (Inr od, s) \<Rightarrow> (drop_pending c (with_store s b), (c, N_Fixed) # map (\<lambda>a. (a, N_Receipt od)) (be_admins env)))"

definition handle_text :: "bot_env \<Rightarrow> draws \<Rightarrow> int \<Rightarrow> text_in \<Rightarrow> bot \<Rightarrow> outcome" where
  "handle_text env dr c t b =
     (let s = (case t of Cancel_Word \<Rightarrow> ''?'' | Latin s \<Rightarrow> strip s) in
      if s \<in> {''/start'', ''/menu''} then say c N_Menu (drop_pending c b)
      else if s = ''/admin'' \<and> is_admin env c then say c N_Fixed (drop_pending c b)
      else if starts_with ''/'' s then say c N_Refused b
      else (case map_of (b_pending b) c of
          None \<Rightarrow> say c N_Menu b
        | Some pd \<Rightarrow>
           if s \<noteq> [] then handle_pending_text env dr c (case t of Cancel_Word \<Rightarrow> Cancel_Word | Latin _ \<Rightarrow> Latin s) pd b
           else (case pd of P_Receipt oid \<Rightarrow> say c N_Fixed b | _ \<Rightarrow> say c N_Menu b)))"

definition handle_message :: "bot_env \<Rightarrow> draws \<Rightarrow> message \<Rightarrow> bot \<Rightarrow> outcome" where
  "handle_message env dr m b =
     (if \<not> ms_private m then (b, [])
      else (let b1 = greet env (ms_from m) b in
        case receipt_of (ms_file m) of
          Some file \<Rightarrow> handle_receipt env (ms_chat m) file b1
        | None \<Rightarrow> handle_text env dr (ms_chat m) (ms_text m) b1))"

section \<open>Buttons\<close>

definition own_link :: "int \<Rightarrow> string \<Rightarrow> bot \<Rightarrow> link option" where
  "own_link c uid b = (case map_of (links (b_panel b)) uid of
     None \<Rightarrow> None | Some l \<Rightarrow> if l_owner l = Some c then Some l else None)"

definition user_services :: "int \<Rightarrow> bot \<Rightarrow> string list" where
  "user_services c b = rev (map fst (sort_key (\<lambda>x. l_created (snd x))
     (rev (filter (\<lambda>x. l_owner (snd x) = Some c) (links (b_panel b))))))"

definition bot_host :: "bot_env \<Rightarrow> string" where
  "bot_host env = fst (get_host (be_domain env) None (be_host env))"

definition after_colon :: "string \<Rightarrow> string" where
  "after_colon d = after CHR '':'' d"

definition buy :: "bot_env \<Rightarrow> draws \<Rightarrow> int \<Rightarrow> string \<Rightarrow> bot \<Rightarrow> outcome" where
  "buy env dr c plan_id b = (case active_plan plan_id of
     None \<Rightarrow> say c N_Refused b
   | Some pl \<Rightarrow>
      if pl_trial pl \<and> Option.bind (map_of (users (b_store b)) c) u_trial \<noteq> None then say c (N_Error Trial_Used) b
      else (case create_order (clock env) (sp_orders dr) c Kind_New (Some pl) None None (b_store b) of
          (Inl e, s) \<Rightarrow> (with_store s b, []) | (Inr od, s) \<Rightarrow> say c (N_Order od) (with_store s b)))"

definition ask_discount :: "int \<Rightarrow> string \<Rightarrow> bot \<Rightarrow> outcome" where
  "ask_discount c oid b = (case map_of (orders (b_store b)) oid of
     None \<Rightarrow> say c N_Refused b
   | Some od \<Rightarrow> if o_user od \<noteq> c \<or> o_status od \<noteq> Draft then say c N_Refused b
               else say c N_Fixed (set_pending c (P_Discount oid) b))"

definition pay_order :: "bot_env \<Rightarrow> draws \<Rightarrow> source \<Rightarrow> int \<Rightarrow> string \<Rightarrow> bot \<Rightarrow> outcome" where
  "pay_order env dr src c oid b = (case map_of (orders (b_store b)) oid of
     None \<Rightarrow> say c N_Refused b
   | Some od \<Rightarrow>
      if o_user od \<noteq> c then say c N_Refused b
      else (case finish_order env dr oid None src (b_store b) (b_panel b) of
          (Some e, s, p) \<Rightarrow> say c (N_Error e) (with_both s p b)
        | (None, s, p) \<Rightarrow> say c N_Fixed (with_both s p b)))"

definition show_services :: "bot_env \<Rightarrow> int \<Rightarrow> bot \<Rightarrow> outcome" where
  "show_services env c b =
     (if user_services c b = [] then say c N_Fixed b
      else say c (N_Services (take 30 (user_services c b))
        (case Option.bind (map_of (users (b_store b)) c) u_sub of
           None \<Rightarrow> None
         | Some sid \<Rightarrow> (case map_of (subs (b_panel b)) sid of
             None \<Rightarrow> None
           | Some s \<Rightarrow> if sid = [] then None else Some (''https://'' @ bot_host env @ ''/sub-group/'' @ s_key s)))) b)"

definition show_config :: "bot_env \<Rightarrow> int \<Rightarrow> string \<Rightarrow> bot \<Rightarrow> outcome" where
  "show_config env c uid b = (case own_link c uid b of
     None \<Rightarrow> say c N_Refused b
   | Some l \<Rightarrow> (case vless_link_for_link (be_pf env) (subs (b_panel b)) l uid (bot_host env) of
       Inl e \<Rightarrow> (b, []) | Inr url \<Rightarrow> say c (N_Config uid url) b))"

text \<open>\<open>data.split(":", 2)\<close> of \<open>rplan:uid:plan\<close>.\<close>

definition renew_plan :: "bot_env \<Rightarrow> draws \<Rightarrow> int \<Rightarrow> string \<Rightarrow> bot \<Rightarrow> outcome" where
  "renew_plan env dr c rest b =
     (let uid = before CHR '':'' rest in
      if CHR '':'' \<notin> set rest then say c N_Refused b
      else (case (own_link c uid b, active_plan (after CHR '':'' rest)) of
          (Some l, Some pl) \<Rightarrow>
            if pl_trial pl then say c N_Refused b
            else (case create_order (clock env) (sp_orders dr) c Kind_Renew (Some pl) (Some uid) None (b_store b) of
                (Inl e, s) \<Rightarrow> (with_store s b, []) | (Inr od, s) \<Rightarrow> say c (N_Order od) (with_store s b))
        | _ \<Rightarrow> say c N_Refused b))"

definition show_own :: "int \<Rightarrow> string \<Rightarrow> (link \<Rightarrow> answer) \<Rightarrow> bot \<Rightarrow> outcome" where
  "show_own c uid f b = (case own_link c uid b of None \<Rightarrow> say c N_Refused b | Some l \<Rightarrow> say c (f l) b)"

section \<open>Buttons of an administrator\<close>

definition choose_exit :: "bot_env \<Rightarrow> int \<Rightarrow> string \<Rightarrow> bot \<Rightarrow> outcome" where
  "choose_exit env c cc b = (case find (\<lambda>x. code x = cc) (assignment_targets (be_repo env)) of
     None \<Rightarrow> say c N_Refused b | Some r \<Rightarrow> say c N_Fixed (set_pending c (P_Assignment cc) b))"

definition confirm_exit :: "bot_env \<Rightarrow> int \<Rightarrow> string \<Rightarrow> bot \<Rightarrow> outcome" where
  "confirm_exit env c cc b =
     (if map_of (b_pending b) c \<noteq> Some (P_Assignment cc) then say c N_Refused b
      else (case apply_proxy_assignment env c cc (b_store b) (b_panel b) of
          (Inl e, s, p) \<Rightarrow> say c (N_Error e) (drop_pending c (with_both s p b))
        | (Inr (n, m, k), s, p) \<Rightarrow> say c (N_Assigned n m k) (drop_pending c (with_both s p b))))"

definition show_page :: "int \<Rightarrow> string \<Rightarrow> bot \<Rightarrow> outcome" where
  "show_page c text b = (if text \<noteq> [] \<and> parse_int text = None then say c N_Refused b
     else say c (N_Page (length (filter (\<lambda>od. o_status od = Pending_Admin) (map snd (orders (b_store b)))))) b)"

definition approve :: "bot_env \<Rightarrow> draws \<Rightarrow> int \<Rightarrow> string \<Rightarrow> bot \<Rightarrow> outcome" where
  "approve env dr c oid b = (case finish_order env dr oid (Some c) From_Card (b_store b) (b_panel b) of
     (Some e, s, p) \<Rightarrow> say c (N_Error e) (with_both s p b)
   | (None, s, p) \<Rightarrow> (with_both s p b, [(c, N_Fixed)] @
       (case map_of (orders s) oid of None \<Rightarrow> [] | Some od \<Rightarrow> [(o_user od, N_Fixed)])))"

definition refuse :: "bot_env \<Rightarrow> int \<Rightarrow> string \<Rightarrow> bot \<Rightarrow> outcome" where
  "refuse env c oid b = (case reject_order (clock env) oid c (b_store b) of
     (Inl e, s) \<Rightarrow> say c (N_Error e) (with_store s b)
   | (Inr od, s) \<Rightarrow> (with_store s b, [(c, N_Fixed), (o_user od, N_Fixed)]))"

definition choose_kind :: "int \<Rightarrow> string \<Rightarrow> bot \<Rightarrow> outcome" where
  "choose_kind c kind b = (case map_of (b_pending b) c of
     Some (P_Promo_Type k) \<Rightarrow>
       if kind = ''percent'' then say c N_Fixed (set_pending c (P_Promo_Value k Percent) b)
       else if kind = ''fixed'' then say c N_Fixed (set_pending c (P_Promo_Value k Fixed) b)
       else (b, [])
   | _ \<Rightarrow> say c N_Refused b)"

definition show_order :: "int \<Rightarrow> string \<Rightarrow> (order \<Rightarrow> answer) \<Rightarrow> (int \<times> answer) list \<Rightarrow> bot \<Rightarrow> outcome" where
  "show_order c oid f missing b = (case map_of (orders (b_store b)) oid of None \<Rightarrow> (b, missing) | Some od \<Rightarrow> say c (f od) b)"

definition admin_callback :: "bot_env \<Rightarrow> draws \<Rightarrow> int \<Rightarrow> string \<Rightarrow> bot \<Rightarrow> outcome" where
  "admin_callback env dr c d b =
     (if d = ''admin'' then say c N_Fixed b
      else if d = ''assign'' then say c (N_Targets (map code (assignment_targets (be_repo env)))) b
      else if starts_with ''asgn:'' d then choose_exit env c (upper (after_colon d)) b
      else if d = ''asgncancel'' then say c N_Fixed (drop_pending c b)
      else if starts_with ''asgnok:'' d then confirm_exit env c (upper (after_colon d)) b
      else if starts_with ''ap:'' d then show_page c (after_colon d) b
      else if starts_with ''aord:'' d then show_order c (after_colon d) N_Review [(c, N_Refused)] b
      else if starts_with ''areceipt:'' d then show_order c (after_colon d) N_Receipt [] b
      else if starts_with ''aok:'' d then approve env dr c (after_colon d) b
      else if starts_with ''ano:'' d then refuse env c (after_colon d) b
      else if d = ''agift'' then say c N_Fixed (set_pending c P_Gift_Code b)
      else if d = ''apromo'' then say c N_Fixed (set_pending c P_Promo_Code b)
      else if starts_with ''ptype:'' d then choose_kind c (after_colon d) b
      else if d = ''acard'' then say c N_Fixed (set_pending c P_Card_Number b)
      else if d = ''aplans'' then say c (N_Plans []) b
      else if d = ''astats'' then say c (N_Stats (length (users (b_store b)))
          (length (filter (\<lambda>x. l_managed (snd x)) (links (b_panel b))))
          (length (filter (\<lambda>od. o_status od = Approved) (map snd (orders (b_store b)))))) b
      else say c N_Menu b)"

definition ADMIN_PREFIXES :: "string list" where
  "ADMIN_PREFIXES = [''admin'', ''ap:'', ''aord:'', ''areceipt:'', ''aok:'', ''ano:'', ''agift'', ''apromo'', ''ptype:'', ''acard'', ''aplans'',
     ''astats'', ''assign'', ''asgn:'', ''asgnok:'', ''asgncancel'']"

section \<open>The dispatcher\<close>

definition customer_callback :: "bot_env \<Rightarrow> draws \<Rightarrow> int \<Rightarrow> string \<Rightarrow> bot \<Rightarrow> outcome option" where
  "customer_callback env dr c d b =
     (if d = ''menu'' then Some (say c N_Menu (drop_pending c b))
      else if d = ''plans'' then Some (say c (N_Plans ''buy'') b)
      else if starts_with ''buy:'' d then Some (buy env dr c (after_colon d) b)
      else if starts_with ''disc:'' d then Some (ask_discount c (after_colon d) b)
      else if starts_with ''payw:'' d then Some (pay_order env dr From_Wallet c (after_colon d) b)
      else if starts_with ''free:'' d then Some (pay_order env dr From_Free c (after_colon d) b)
      else if starts_with ''payc:'' d then Some (begin_card env c (after_colon d) b)
      else if starts_with ''cancel:'' d then
        Some (say c N_Fixed (with_store (snd (cancel_order (clock env) (after_colon d) c (b_store b))) b))
      else if starts_with ''cancelpay:'' d then
        Some (say c N_Fixed (drop_pending c (with_store (snd (cancel_waiting_order (clock env) (after_colon d) c (b_store b))) b)))
      else if d = ''services'' then Some (show_services env c b)
      else if starts_with ''svc:'' d then Some (show_own c (after_colon d) (N_Service (after_colon d)) b)
      else if starts_with ''cfg:'' d then Some (show_config env c (after_colon d) b)
      else if starts_with ''sub:'' d then
        Some (show_own c (after_colon d) (\<lambda>l. N_Sub_Url (after_colon d) (''https://'' @ bot_host env @ ''/sub/'' @ after_colon d)) b)
      else if d = ''renew'' then
        Some (say c (if user_services c b = [] then N_Fixed else N_Services (take 30 (user_services c b)) None) b)
      else if starts_with ''ren:'' d then Some (show_own c (after_colon d) (\<lambda>l. N_Plans (after_colon d)) b)
      else if starts_with ''rplan:'' d then Some (renew_plan env dr c (after_colon d) b)
      else if d = ''wallet'' then Some (say c N_Fixed b)
      else if d = ''topup'' then Some (say c N_Fixed (set_pending c P_Topup b))
      else if d = ''gift'' then Some (say c N_Fixed (set_pending c P_Gift_Redeem b))
      else if d = ''guide'' then Some (say c N_Fixed b)
      else None)"

record callback =
  cb_chat :: int
  cb_private :: bool
  cb_from :: "int \<times> string \<times> string"
  cb_data :: string

definition handle_callback :: "bot_env \<Rightarrow> draws \<Rightarrow> callback \<Rightarrow> bot \<Rightarrow> outcome" where
  "handle_callback env dr cb b =
     (let c = cb_chat cb; d = cb_data cb in
      if \<not> cb_private cb \<or> fst (cb_from cb) \<noteq> c \<or> d = [] \<or> length (bytes_of (points d)) > 64 then say c N_Refused b
      else (let b1 = greet env (cb_from cb) b in
        case customer_callback env dr c d b1 of
          Some r \<Rightarrow> r
        | None \<Rightarrow>
           if list_ex (\<lambda>pre. starts_with pre d) ADMIN_PREFIXES \<and> \<not> is_admin env c then say c N_Refused b1
           else admin_callback env dr c d b1))"

text \<open>One update of the poll loop: the offset is stored whatever the update does.\<close>

datatype update = Message_Update message | Callback_Update callback | Other_Update

definition handle_update :: "bot_env \<Rightarrow> draws \<Rightarrow> int \<times> update \<Rightarrow> bot \<Rightarrow> outcome" where
  "handle_update env dr u b =
     (let b1 = with_store (put_offset (max (poll_offset (b_store b)) (fst u + 1)) (b_store b)) b in
      case snd u of
        Message_Update m \<Rightarrow> handle_message env dr m b1
      | Callback_Update cb \<Rightarrow> handle_callback env dr cb b1
      | Other_Update \<Rightarrow> (b1, []))"

end
