(* ===== verification/Bot_Laws.thy ===== *)
theory Bot_Laws
  imports Shop_Bot
begin

text \<open>
  The conversation refines the shop: whatever update arrives, what the bot does to its store is a
  sequence of steps of \<open>shop_step\<close>, so the ledger and every other law of the shop hold for the bot. The
  invariant of the dialogues says who may be in one that creates codes or sets the card.
\<close>

section \<open>Sequences of shop steps\<close>

definition shop_run :: "shop \<Rightarrow> shop \<Rightarrow> bool" where
  "shop_run m n \<longleftrightarrow> reaches (\<lambda>x. x = m) (shop_step False) n"

lemma run_self [simp]: "shop_run m m"
  by (simp add: shop_run_def reaches.init)

lemma run_step: "shop_run m n \<Longrightarrow> shop_step False n l k \<Longrightarrow> shop_run m k"
  unfolding shop_run_def by (rule reaches.next_step)

lemma run_one: "shop_step False m l n \<Longrightarrow> shop_run m n"
  by (rule run_step [OF run_self])

lemma run_trans: "shop_run n k \<Longrightarrow> shop_run m n \<Longrightarrow> shop_run m k"
  unfolding shop_run_def by (induction rule: reaches.induct) (auto intro: reaches.next_step)

lemma shop_run_inv: "shop_run m n \<Longrightarrow> money_inv m \<Longrightarrow> money_inv n"
  unfolding shop_run_def by (induction rule: reaches.induct) (auto intro: money_inv_step)

lemma shop_run_reaches: "shop_run m n \<Longrightarrow> reaches shop_start (shop_step False) m \<Longrightarrow> reaches shop_start (shop_step False) n"
  unfolding shop_run_def by (induction rule: reaches.induct) (auto intro: reaches.next_step)

text \<open>From every sound shop with this store and nothing in flight, steps lead to one with that store.\<close>

definition chain :: "store \<Rightarrow> store \<Rightarrow> bool" where
  "chain s t \<longleftrightarrow> (\<forall>m. money_inv m \<and> st m = s \<and> flight m = None \<longrightarrow>
     (\<exists>n. shop_run m n \<and> st n = t \<and> flight n = None))"

lemma chain_refl [simp]: "chain s s"
  unfolding chain_def using run_self by blast

lemma chain_trans [trans]: "chain s t \<Longrightarrow> chain t u \<Longrightarrow> chain s u"
  unfolding chain_def using run_trans shop_run_inv by metis

lemma chain_step:
  assumes "\<And>m. money_inv m \<Longrightarrow> st m = s \<Longrightarrow> flight m = None \<Longrightarrow> \<exists>l n. shop_step False m l n \<and> st n = t \<and> flight n = None"
  shows "chain s t"
  unfolding chain_def using assms run_one by blast

lemma step_at: "shop_step False m l (m\<lparr>st := t\<rparr>) \<Longrightarrow> flight m = None \<Longrightarrow> \<exists>l n. shop_step False m l n \<and> st n = t \<and> flight n = None"
  by (metis shop.select_convs(1,2) shop.surjective shop.update_convs(1))

lemma chain_ensure: "chain s (ensure_user now uid name first s)"
  by (rule chain_step) (metis step_at shop_step.hello)

lemma chain_create: "chain s (snd (create_order now toks uid kind plan srv amount s))"
  by (rule chain_step) (metis step_at shop_step.ordered)

lemma chain_discount: "chain s (snd (apply_discount now oid uid text s))"
  by (rule chain_step) (metis step_at shop_step.discounted)

lemma chain_cancel: "chain s (snd (cancel_order now oid uid s))"
  by (rule chain_step) (metis step_at shop_step.dropped)

lemma chain_withdraw: "chain s (snd (cancel_waiting_order now oid uid s))"
  by (rule chain_step) (metis step_at shop_step.withdrawn)

lemma chain_card: "chain s (snd (start_card_payment now timeout adm oid uid s))"
  by (rule chain_step) (metis step_at shop_step.card_started)

lemma chain_receipt: "chain s (snd (submit_receipt now uid receipt which s))"
  by (rule chain_step) (metis step_at shop_step.receipt_sent)

lemma chain_reject: "chain s (snd (reject_order now oid admin s))"
  by (rule chain_step) (metis step_at shop_step.refused)

lemma chain_put_gift: "chain s (put_gift now admin c amount uses days s)"
  by (rule chain_step) (metis step_at shop_step.gift_made)

lemma chain_put_promo: "chain s (put_promo now admin c pk v uses days s)"
  by (rule chain_step, rule step_at, drule sym, simp, rule shop_step.promo_made) simp_all

lemma chain_put_card: "chain s (put_card number holder s)"
  by (rule chain_step) (metis step_at shop_step.card_set)

lemma chain_offset: "chain s (put_offset n s)"
  by (rule chain_step) (metis step_at shop_step.polled)

lemma chain_audit: "chain s (put_audit a s)"
  by (rule chain_step) (metis step_at shop_step.audited)

lemma chain_gift: "chain s (snd (redeem_gift now uid text s))"
proof (rule chain_step)
  fix m :: shop assume "st m = s" "flight m = None"
  obtain r t where r: "redeem_gift now uid text (st m) = (r, t)" by (cases "redeem_gift now uid text (st m)")
  show "\<exists>l n. shop_step False m l n \<and> st n = snd (redeem_gift now uid text s) \<and> flight n = None"
    using shop_step.gift_taken [OF r, where fresh_codes = False] \<open>flight m = None\<close> \<open>st m = s\<close> r by fastforce
qed

lemmas chain_operations = chain_ensure chain_create chain_discount chain_cancel chain_withdraw chain_card chain_receipt
  chain_reject chain_put_gift chain_put_promo chain_put_card chain_offset chain_audit chain_gift

section \<open>Finishing an order\<close>

lemma ensure_sub_store:
  "ensure_customer_sub pf dr uid s p = (r, t, q) \<Longrightarrow> t = s \<or> (\<exists>g. t = group_user uid g s)"
  by (auto simp: ensure_customer_sub_def split: option.splits if_splits prod.splits sum.splits)

lemma provision_new_store:
  "provision_new env dr od s p = (r, t, q) \<Longrightarrow> t = s \<or> (\<exists>u g. t = group_user u g s)"
  by (auto simp: provision_new_def split: option.splits prod.splits sum.splits dest: ensure_sub_store)

lemma provision_store:
  assumes "provision env dr od s p = (r, t, q)"
  shows "if o_kind od = Kind_Wallet then r = Inr None \<and> t = credit_topup (o_id od) s
    else t = s \<or> (\<exists>u g. t = group_user u g s)"
  using assms by (auto simp: provision_def split: order_kind.splits prod.splits sum.splits dest: provision_new_store)

lemma run_after:
  assumes "shop_run m k" "t = st k \<or> (\<exists>u g. t = group_user u g (st k))"
  shows "\<exists>n. shop_run m n \<and> st n = t \<and> flight n = flight k \<and> credited n = credited k"
  using assms(2)
proof
  assume "\<exists>u g. t = group_user u g (st k)"
  then obtain u g where t: "t = group_user u g (st k)" by blast
  have "shop_run m (k\<lparr>st := t\<rparr>)" unfolding t by (rule run_step [OF assms(1) shop_step.grouped])
  then show ?thesis by (intro exI [of _ "k\<lparr>st := t\<rparr>"]) simp
qed (use assms(1) in blast)

lemma group_get: "map_of (orders (group_user u g s)) = map_of (orders s)"
  by simp

lemma chain_finish: "chain s (fst (snd (finish_order env dr oid reviewer src s p)))"
proof -
  obtain e t q where f: "finish_order env dr oid reviewer src s p = (e, t, q)" by (metis prod_cases3)
  have "\<exists>n. shop_run m n \<and> st n = t \<and> flight n = None" if m: "money_inv m" "st m = s" "flight m = None" for m
  proof -
    obtain e1 t1 where b: "finish_begin (clock env) oid reviewer src (st m) = (e1, t1)" by (metis surj_pair)
    show ?thesis
    proof (cases e1)
      case (Some err)
      then have "shop_run m (m\<lparr>st := t1\<rparr>)" using run_one [OF shop_step.not_begun] m(3) b by blast
      moreover have "t = t1" using f b Some m(2) by (simp add: finish_order_def)
      ultimately show ?thesis using m(3) by (intro exI [of _ "m\<lparr>st := t1\<rparr>"]) simp
    next
      case None
      define k where "k = m\<lparr>st := t1, flight := Some (oid, src)\<rparr>"
      have run: "shop_run m k" unfolding k_def using run_one [OF shop_step.begun] m(3) b None by blast
      have inv: "money_inv k" by (rule shop_run_inv [OF run m(1)])
      from flight_get [OF inv, of oid src] obtain od where od: "map_of (orders t1) oid = Some od" "o_id od = oid" by (auto simp: k_def)
      have ok: "orders_ok (credited m) (orders (st m))" using m(1) by (simp add: money_inv_def)
      from b None have "finish_begin (clock env) oid reviewer src (st m) = (None, t1)" by simp
      from begin_at [OF ok this] obtain x where x: "map_of (orders (st m)) oid = Some x" "o_status x = entry_status src" by metis
      have fresh: "oid \<notin> credited m"
      proof
        assume "oid \<in> credited m"
        moreover have "o_id x = oid" "order_ok (credited m) x" using ok x(1) by (auto simp: orders_ok_def)
        ultimately show False using x(2) by (auto simp: order_ok_def entry_status_def split: if_splits)
      qed
      obtain r t2 q2 where pr: "provision env dr od t1 p = (r, t2, q2)" by (metis prod_cases3)
      note ps = provision_store [OF pr]
      show ?thesis
      proof (cases "o_kind od = Kind_Wallet")
        case True
        define c where "c = k\<lparr>st := credit_topup oid t1, credited := insert oid (credited m)\<rparr>"
        have "shop_step False k Credited_Topup (k\<lparr>st := credit_topup oid (st k), credited := insert oid (credited k)\<rparr>)"
          using od(1) True fresh by (intro shop_step.credited_topup) (auto simp: k_def)
        then have "shop_run m c" using run_step [OF run] by (simp add: c_def k_def)
        moreover have "shop_step False c Committed (c\<lparr>st := finish_commit (clock env) oid None (st c), flight := None\<rparr>)"
          using od(1) by (intro shop_step.committed [of c oid src od]) (auto simp: c_def k_def)
        ultimately have "shop_run m (c\<lparr>st := finish_commit (clock env) oid None (st c), flight := None\<rparr>)" by (rule run_step)
        moreover have "t = finish_commit (clock env) oid None (st c)"
          using f b None m(2) od pr ps True by (simp add: finish_order_def c_def k_def)
        ultimately show ?thesis by (intro exI [of _ "c\<lparr>st := finish_commit (clock env) oid None (st c), flight := None\<rparr>"]) simp
      next
        case False
        with ps have "t2 = st k \<or> (\<exists>u g. t2 = group_user u g (st k))" by (simp add: k_def)
        from run_after [OF run this] obtain n where n: "shop_run m n" "st n = t2" "flight n = Some (oid, src)" "credited n = credited m"
          by (auto simp: k_def)
        have od2: "map_of (orders t2) oid = Some od" using ps False od(1) by auto
        show ?thesis
        proof (cases r)
          case (Inl err)
          have "shop_run m (n\<lparr>st := finish_rollback oid src (st n), flight := None\<rparr>)"
            using run_step [OF n(1) shop_step.rolled_back [of n oid src]] n(3, 4) fresh by simp
          moreover have "t = finish_rollback oid src (st n)"
            using f b None m(2) od(1) pr Inl n(2) by (simp add: finish_order_def)
          ultimately show ?thesis by (intro exI [of _ "n\<lparr>st := finish_rollback oid src (st n), flight := None\<rparr>"]) simp
        next
          case (Inr srv)
          have "shop_run m (n\<lparr>st := finish_commit (clock env) oid srv (st n), flight := None\<rparr>)"
            using run_step [OF n(1) shop_step.committed [of n oid src od]] n(2, 3) od2 False by simp
          moreover have "t = finish_commit (clock env) oid srv (st n)"
            using f b None m(2) od(1) pr Inr n(2) by (simp add: finish_order_def)
          ultimately show ?thesis by (intro exI [of _ "n\<lparr>st := finish_commit (clock env) oid srv (st n), flight := None\<rparr>"]) simp
        qed
      qed
    qed
  qed
  then show ?thesis unfolding chain_def f by simp
qed

lemma chain_assign: "chain s (fst (snd (apply_proxy_assignment env admin cc s p)))"
  using chain_audit by (auto simp: apply_proxy_assignment_def Let_def split: option.splits)

section \<open>Every handler\<close>

definition runs :: "bot \<Rightarrow> outcome \<Rightarrow> bool" where
  "runs b r \<longleftrightarrow> chain (b_store b) (b_store (fst r))"

lemma bot_fields [simp]:
  "b_store (set_pending c pd b) = b_store b" "b_store (drop_pending c b) = b_store b" "b_store (with_store s b) = s"
  "b_store (with_both s p b) = s" "b_panel (set_pending c pd b) = b_panel b" "b_panel (drop_pending c b) = b_panel b"
  "b_panel (with_store s b) = b_panel b" "b_panel (with_both s p b) = p" "fst (say c n b) = b"
  "b_pending (with_store s b) = b_pending b" "b_pending (with_both s p b) = b_pending b"
  by (simp_all add: set_pending_def drop_pending_def with_store_def with_both_def say_def)

lemma runs_gift: "runs b (admin_gift_text env c t pd b)"
  using chain_put_gift by (auto simp: runs_def admin_gift_text_def split: pending.splits option.splits)

lemma runs_promo: "runs b (admin_promo_text env c t pd b)"
  using chain_put_promo by (auto simp: runs_def admin_promo_text_def split: pending.splits option.splits)

lemma runs_cancel: "runs b (cancel_dialogue env c pd b)"
  using chain_withdraw by (auto simp: runs_def cancel_dialogue_def Let_def split: pending.splits)

lemma runs_card: "runs b (begin_card env c oid b)"
  using chain_card [of "b_store b" "clock env" "be_timeout env" "be_admins env \<noteq> []" oid c]
  by (auto simp: runs_def begin_card_def split: prod.splits sum.splits)

lemma runs_topup: "runs b (topup_text env dr c t b)"
proof (cases "amount_in t MIN_TOPUP MAX_TOPUP")
  case (Some v)
  obtain r s where cr: "create_order (clock env) (sp_orders dr) c Kind_Wallet None None (Some v) (b_store b) = (r, s)"
    by (metis surj_pair)
  have ch: "chain (b_store b) s" using chain_create by (metis cr snd_conv)
  show ?thesis
  proof (cases r)
    case (Inr od)
    have "chain s (b_store (fst (begin_card env c (o_id od) (drop_pending c (with_store s b)))))"
      using runs_card [of "drop_pending c (with_store s b)" env c "o_id od"] by (simp add: runs_def)
    then show ?thesis using chain_trans [OF ch] cr Some Inr by (simp add: runs_def topup_text_def)
  qed (use Some cr ch in \<open>simp add: runs_def topup_text_def\<close>)
qed (simp add: runs_def topup_text_def)

lemma runs_card_text: "runs b (card_text env c s pd b)"
  using chain_put_card by (auto simp: runs_def card_text_def Let_def split: pending.splits)

lemma runs_customer: "runs b (customer_text env dr c s pd b)"
proof (cases pd)
  case (P_Discount oid)
  then show ?thesis using chain_discount [of "b_store b" "clock env" oid c s]
    by (auto simp: runs_def customer_text_def split: prod.splits sum.splits)
next
  case P_Gift_Redeem
  then show ?thesis using chain_gift [of "b_store b" "clock env" c s]
    by (auto simp: runs_def customer_text_def split: prod.splits sum.splits)
qed (simp_all add: customer_text_def runs_topup runs_card_text)

lemma runs_pending: "runs b (handle_pending_text env dr c t pd b)"
  by (auto simp: handle_pending_text_def runs_gift runs_promo runs_cancel runs_customer split: text_in.splits)

lemma runs_receipt: "runs b (handle_receipt env c doc b)"
proof -
  define which where "which = (case map_of (b_pending b) c of Some (P_Receipt oid) \<Rightarrow> if oid = [] then None else Some oid | _ \<Rightarrow> None)"
  show ?thesis
    using chain_receipt [of "b_store b" "clock env" c doc which]
    unfolding runs_def handle_receipt_def which_def [symmetric] Let_def by (auto split: prod.splits sum.splits)
qed

lemma runs_text: "runs b (handle_text env dr c t b)"
proof -
  have same: "runs b (say k n b)" "runs b (say k n (drop_pending j b))" for k n j by (simp_all add: runs_def)
  show ?thesis unfolding handle_text_def Let_def by (auto simp: same runs_pending split: option.splits pending.splits)
qed

lemma runs_greet: "runs (greet env who b) r \<Longrightarrow> runs b r"
  unfolding runs_def greet_def by (simp, rule chain_trans [OF chain_ensure])

lemma runs_message: "runs b (handle_message env dr m b)"
proof (cases "ms_private m")
  case True
  have "runs (greet env (ms_from m) b) (handle_message env dr m b)"
    using True runs_receipt runs_text by (simp add: handle_message_def Let_def split: option.split)
  then show ?thesis by (rule runs_greet)
qed (simp add: runs_def handle_message_def)

lemma runs_say [simp]: "runs b (say k n b)" "runs b (say k n (drop_pending j b))" "runs b (say k n (set_pending j pd b))" "runs b (b, out)"
  by (simp_all add: runs_def)

lemma runs_buy: "runs b (buy env dr c plan_id b)"
  using chain_create [of "b_store b" "clock env" "sp_orders dr" c Kind_New "active_plan plan_id" None None]
  by (auto simp: buy_def runs_def split: option.splits prod.splits sum.splits)

lemma runs_renew: "runs b (renew_plan env dr c rest b)"
  using chain_create [of "b_store b" "clock env" "sp_orders dr" c Kind_Renew "active_plan (after CHR '':'' rest)" "Some (before CHR '':'' rest)" None]
  by (auto simp: renew_plan_def runs_def Let_def split: option.splits prod.splits sum.splits)

lemma runs_pay: "runs b (pay_order env dr src c oid b)"
  using chain_finish [of "b_store b" env dr oid None src "b_panel b"]
  by (auto simp: pay_order_def runs_def split: option.splits prod.splits)

lemma runs_approve: "runs b (approve env dr c oid b)"
  using chain_finish [of "b_store b" env dr oid "Some c" From_Card "b_panel b"]
  by (auto simp: approve_def runs_def split: option.splits prod.splits)

lemma runs_refuse: "runs b (refuse env c oid b)"
  using chain_reject [of "b_store b" "clock env" oid c]
  by (auto simp: refuse_def runs_def split: prod.splits sum.splits)

lemma runs_confirm: "runs b (confirm_exit env c cc b)"
  using chain_assign [of "b_store b" env c cc "b_panel b"]
  by (auto simp: confirm_exit_def runs_def split: prod.splits sum.splits)

lemma runs_views: "runs b (ask_discount c oid b)" "runs b (show_services env c b)" "runs b (show_config env c uid b)"
    "runs b (show_own c uid f b)" "runs b (choose_exit env c cc b)" "runs b (show_page c text b)"
    "runs b (choose_kind c kind b)" "runs b (show_order c oid g missing b)"
  by (simp_all add: ask_discount_def show_services_def show_config_def show_own_def choose_exit_def show_page_def choose_kind_def
      show_order_def split: option.split sum.split pending.split)

lemma runs_admin: "runs b (admin_callback env dr c d b)"
  unfolding admin_callback_def by (simp add: runs_views runs_confirm runs_approve runs_refuse)

lemma pred_option_if: "(a \<Longrightarrow> pred_option P x) \<Longrightarrow> (\<not> a \<Longrightarrow> pred_option P y) \<Longrightarrow> pred_option P (if a then x else y)"
  by simp

lemma runs_customer_callback: "pred_option (runs b) (customer_callback env dr c d b)"
proof -
  have "runs b (say c N_Fixed (with_store (snd (cancel_order (clock env) oid c (b_store b))) b))"
    "runs b (say c N_Fixed (drop_pending c (with_store (snd (cancel_waiting_order (clock env) oid c (b_store b))) b)))" for oid
    using chain_cancel chain_withdraw by (simp_all add: runs_def)
  note facts = this runs_views runs_buy runs_pay runs_card runs_renew
  show ?thesis
    unfolding customer_callback_def by (intro pred_option_if; simp (no_asm) add: facts)
qed

lemma runs_callback: "runs b (handle_callback env dr cb b)"
proof -
  define b1 where "b1 = greet env (cb_from cb) b"
  have "runs b1 (case customer_callback env dr c d b1 of
          Some r \<Rightarrow> r
        | None \<Rightarrow>
           if list_ex (\<lambda>pre. starts_with pre d) ADMIN_PREFIXES \<and> \<not> is_admin env c then say c N_Refused b1
           else admin_callback env dr c d b1)" for c d
    using runs_customer_callback [of b1 env dr c d] by (cases "customer_callback env dr c d b1") (simp_all add: runs_admin)
  then have "runs b (case customer_callback env dr c d b1 of
          Some r \<Rightarrow> r
        | None \<Rightarrow>
           if list_ex (\<lambda>pre. starts_with pre d) ADMIN_PREFIXES \<and> \<not> is_admin env c then say c N_Refused b1
           else admin_callback env dr c d b1)" for c d
    unfolding b1_def by (rule runs_greet)
  then show ?thesis by (simp add: handle_callback_def Let_def b1_def [symmetric])
qed

lemma runs_update: "runs b (handle_update env dr u b)"
proof -
  define b1 where "b1 = with_store (put_offset (max (poll_offset (b_store b)) (fst u + 1)) (b_store b)) b"
  have "runs b1 (handle_update env dr u b)"
    by (simp add: handle_update_def b1_def [symmetric] runs_message runs_callback split: update.split)
  then show ?thesis unfolding runs_def by (rule chain_trans [rotated]) (simp add: b1_def chain_offset)
qed

section \<open>Who may be in which dialogue\<close>

definition privileged :: "pending \<Rightarrow> bool" where
  "privileged pd \<longleftrightarrow> is_gift_dialogue pd \<or> is_promo_dialogue pd"

definition dialogues_ok :: "int set \<Rightarrow> bot \<Rightarrow> bool" where
  "dialogues_ok A b \<longleftrightarrow> (\<forall>c pd. map_of (b_pending b) c = Some pd \<and> privileged pd \<longrightarrow> c \<in> A)"

definition keeps :: "int set \<Rightarrow> bot \<Rightarrow> outcome \<Rightarrow> bool" where
  "keeps A b r \<longleftrightarrow> (dialogues_ok A b \<longrightarrow> dialogues_ok A (fst r))"

lemma privileged_simps [simp]:
  "\<not> privileged (P_Discount oid)" "\<not> privileged P_Gift_Redeem" "\<not> privileged P_Topup" "\<not> privileged (P_Receipt oid)"
  "\<not> privileged P_Card_Number" "\<not> privileged (P_Card_Holder s)" "\<not> privileged (P_Assignment s)"
  by (simp_all add: privileged_def is_gift_dialogue_def is_promo_dialogue_def)

lemma dialogues_simps [simp]:
  "dialogues_ok A (with_store s b) = dialogues_ok A b" "dialogues_ok A (with_both s p b) = dialogues_ok A b"
  "dialogues_ok A b \<Longrightarrow> dialogues_ok A (drop_pending c b)"
  "dialogues_ok A b \<Longrightarrow> \<not> privileged pd \<or> c \<in> A \<Longrightarrow> dialogues_ok A (set_pending c pd b)"
  by (auto simp: dialogues_ok_def with_store_def with_both_def drop_pending_def set_pending_def split: if_splits)

lemma keeps_card: "keeps A b (begin_card env c oid b)"
  by (auto simp: keeps_def begin_card_def split: prod.splits sum.splits)

lemma keeps_topup: "keeps A b (topup_text env dr c t b)"
proof (cases "amount_in t MIN_TOPUP MAX_TOPUP")
  case (Some v)
  have "keeps A b (begin_card env c oid (drop_pending c (with_store s b)))" for oid s
    using keeps_card [of A "drop_pending c (with_store s b)"] by (simp add: keeps_def)
  then show ?thesis using Some by (auto simp: topup_text_def keeps_def split: prod.splits sum.splits)
qed (simp add: keeps_def topup_text_def)

lemma keeps_text: "map_of (b_pending b) c = Some pd \<Longrightarrow> keeps A b (handle_pending_text env dr c t pd b)"
proof -
  assume p: "map_of (b_pending b) c = Some pd"
  have g: "keeps A b (admin_gift_text env c t pd b)" if "is_gift_dialogue pd"
    using p that unfolding keeps_def
    by (auto simp: admin_gift_text_def dialogues_ok_def privileged_def set_pending_def drop_pending_def with_store_def say_def
        split: pending.splits option.splits if_splits)
  have k: "keeps A b (admin_promo_text env c t pd b)" if "is_promo_dialogue pd"
    using p that unfolding keeps_def
    by (auto simp: admin_promo_text_def dialogues_ok_def privileged_def set_pending_def drop_pending_def with_store_def say_def
        split: pending.splits option.splits if_splits)
  have "keeps A b (cancel_dialogue env c pd b)" by (simp add: keeps_def cancel_dialogue_def Let_def)
  moreover have "keeps A b (card_text env c s pd b)" for s
    by (auto simp: keeps_def card_text_def Let_def split: pending.splits)
  then have "keeps A b (customer_text env dr c s pd b)" for s
    by (cases pd) (auto simp: customer_text_def keeps_topup [unfolded keeps_def] keeps_def split: prod.splits sum.splits)
  ultimately show ?thesis using g k by (auto simp: handle_pending_text_def split: text_in.splits)
qed

lemma keeps_say [simp]: "keeps A b (say k n b)" "keeps A b (say k n (drop_pending j b))" "keeps A b (b, out)"
    "keeps A b (say k n (with_store s b))" "keeps A b (say k n (drop_pending j (with_store s b)))"
    "\<not> privileged pd \<Longrightarrow> keeps A b (say k n (set_pending j pd b))"
  by (simp_all add: keeps_def)

lemma keeps_message: "keeps A b (handle_message env dr m b)"
proof (cases "ms_private m")
  case True
  define b1 where "b1 = greet env (ms_from m) b"
  have "keeps A b1 (handle_receipt env c doc b1)" for c doc
    by (auto simp: keeps_def handle_receipt_def Let_def split: prod.splits sum.splits)
  moreover have "keeps A b1 (handle_text env dr c t b1)" for c t
    using keeps_text [of b1 c _ A env dr]
    by (auto simp: handle_text_def Let_def split: option.split pending.split)
  ultimately have "keeps A b1 (handle_message env dr m b)"
    using True by (simp add: handle_message_def Let_def b1_def [symmetric] split: option.split)
  then show ?thesis by (simp add: keeps_def b1_def greet_def)
qed (simp add: handle_message_def)

lemma keeps_views: "keeps A b (ask_discount c oid b)" "keeps A b (show_services env c b)" "keeps A b (show_config env c uid b)"
    "keeps A b (show_own c uid f b)" "keeps A b (choose_exit env c cc b)" "keeps A b (show_page c text b)"
    "keeps A b (show_order c oid g missing b)"
  by (simp_all add: ask_discount_def show_services_def show_config_def show_own_def choose_exit_def show_page_def
      show_order_def split: option.split sum.split)

lemma keeps_operations: "keeps A b (buy env dr c plan_id b)" "keeps A b (renew_plan env dr c rest b)" "keeps A b (pay_order env dr src c oid b)"
    "keeps A b (approve env dr c oid b)" "keeps A b (refuse env c oid b)" "keeps A b (confirm_exit env c cc b)"
  by (auto simp: keeps_def buy_def renew_plan_def pay_order_def approve_def refuse_def confirm_exit_def Let_def
      split: option.splits prod.splits sum.splits)

lemma keeps_kind: "keeps A b (choose_kind c kind b)"
  unfolding keeps_def choose_kind_def
  by (auto simp: dialogues_ok_def privileged_def is_promo_dialogue_def set_pending_def say_def split: option.splits pending.splits if_splits)

lemma keeps_admin: "c \<in> A \<Longrightarrow> keeps A b (admin_callback env dr c d b)"
proof -
  assume c: "c \<in> A"
  then have "keeps A b (say c n (set_pending c pd b))" for n pd by (simp add: keeps_def)
  then show ?thesis unfolding admin_callback_def by (simp add: keeps_views keeps_operations keeps_kind)
qed

lemma keeps_customer_callback: "pred_option (keeps A b) (customer_callback env dr c d b)"
  unfolding customer_callback_def
  by (intro pred_option_if; simp (no_asm) add: keeps_views keeps_operations keeps_card)

lemma starts_self: "starts_with p p"
  by (simp add: starts_with_def)

lemma no_admin_button: "\<not> list_ex (\<lambda>pre. starts_with pre d) ADMIN_PREFIXES \<Longrightarrow> admin_callback env dr c d b = say c N_Menu b"
proof -
  assume n: "\<not> list_ex (\<lambda>pre. starts_with pre d) ADMIN_PREFIXES"
  then have p: "\<not> starts_with pre d" if "pre \<in> set ADMIN_PREFIXES" for pre using that by (auto simp: list_ex_iff)
  then have "d \<noteq> pre" if "pre \<in> set ADMIN_PREFIXES" for pre using that starts_self by metis
  with p show ?thesis unfolding admin_callback_def ADMIN_PREFIXES_def by simp
qed

text \<open>What a permitted press leads to: a customer's button, an administrator's button, or the menu.\<close>

lemma callback_cases:
  obtains (no) "handle_callback env dr cb b = say (cb_chat cb) N_Refused b"
  | (customer) r where "fst (cb_from cb) = cb_chat cb"
      "customer_callback env dr (cb_chat cb) (cb_data cb) (greet env (cb_from cb) b) = Some r" "handle_callback env dr cb b = r"
  | (admin) "fst (cb_from cb) = cb_chat cb" "is_admin env (cb_chat cb)"
      "handle_callback env dr cb b = admin_callback env dr (cb_chat cb) (cb_data cb) (greet env (cb_from cb) b)"
  | (other) n where "fst (cb_from cb) = cb_chat cb" "handle_callback env dr cb b = say (cb_chat cb) n (greet env (cb_from cb) b)"
proof -
  let ?c = "cb_chat cb" and ?d = "cb_data cb" and ?b = "greet env (cb_from cb) b"
  consider "\<not> cb_private cb \<or> fst (cb_from cb) \<noteq> ?c \<or> ?d = [] \<or> length (bytes_of (points ?d)) > 64"
    | r where "cb_private cb" "fst (cb_from cb) = ?c" "?d \<noteq> []" "\<not> length (bytes_of (points ?d)) > 64" "customer_callback env dr ?c ?d ?b = Some r"
    | "cb_private cb" "fst (cb_from cb) = ?c" "?d \<noteq> []" "\<not> length (bytes_of (points ?d)) > 64" "customer_callback env dr ?c ?d ?b = None"
    by (cases "customer_callback env dr ?c ?d ?b") auto
  then show ?thesis
  proof cases
    case 1
    then show ?thesis using no by (auto simp: handle_callback_def Let_def)
  next
    case (2 r)
    then show ?thesis using customer [of r] by (auto simp: handle_callback_def Let_def)
  next
    case 3
    then have h: "handle_callback env dr cb b = (if list_ex (\<lambda>pre. starts_with pre ?d) ADMIN_PREFIXES \<and> \<not> is_admin env ?c
        then say ?c N_Refused ?b else admin_callback env dr ?c ?d ?b)"
      by (simp add: handle_callback_def Let_def)
    show ?thesis
    proof (cases "list_ex (\<lambda>pre. starts_with pre ?d) ADMIN_PREFIXES")
      case True
      show ?thesis
      proof (cases "is_admin env ?c")
        case True
        then show ?thesis using h 3(2) by (intro admin) simp_all
      next
        case False
        then show ?thesis using h True 3(2) by (intro other [of N_Refused]) simp_all
      qed
    next
      case False
      then show ?thesis using h 3(2) no_admin_button [OF False] by (intro other [of N_Menu]) simp_all
    qed
  qed
qed

lemma keeps_greet: "keeps A (greet env who b) r \<Longrightarrow> keeps A b r"
  by (simp add: keeps_def greet_def)

lemma keeps_update: "set (be_admins env) \<subseteq> A \<Longrightarrow> keeps A b (handle_update env dr u b)"
proof -
  assume A: "set (be_admins env) \<subseteq> A"
  define b1 where "b1 = with_store (put_offset (max (poll_offset (b_store b)) (fst u + 1)) (b_store b)) b"
  have "keeps A b1 (handle_callback env dr cb b1)" for cb
  proof (cases rule: callback_cases [of env dr cb b1])
    case no
    then show ?thesis by simp
  next
    case (customer r)
    then have "keeps A (greet env (cb_from cb) b1) r"
      using keeps_customer_callback [of A "greet env (cb_from cb) b1" env dr "cb_chat cb" "cb_data cb"] by simp
    then show ?thesis unfolding customer(3) by (rule keeps_greet)
  next
    case admin
    then have "cb_chat cb \<in> A" using A by (auto simp: is_admin_def)
    from keeps_admin [OF this] show ?thesis unfolding admin(3) by (rule keeps_greet)
  next
    case (other n)
    show ?thesis unfolding other(2) by (rule keeps_greet [where env = env and who = "cb_from cb"]) simp
  qed
  then have "keeps A b1 (handle_update env dr u b)"
    by (simp add: handle_update_def b1_def [symmetric] keeps_message split: update.split)
  then show ?thesis by (simp add: keeps_def b1_def)
qed

section \<open>The bot as a machine\<close>

text \<open>
  A step is one update with whatever clock, repository and random values it meets, under fixed
  administrators; between two updates the rest of the program may change the panel.
\<close>

datatype bot_event = Updated "int \<times> update" | Panel_Changed

inductive bot_step :: "int list \<Rightarrow> bot \<Rightarrow> bot_event \<Rightarrow> bot \<Rightarrow> bool" for admins where
  updated: "be_admins env = admins \<Longrightarrow> bot_step admins b (Updated u) (fst (handle_update env dr u b))"
| panel_changed: "bot_step admins b Panel_Changed (b\<lparr>b_panel := p\<rparr>)"

definition bot_start :: "bot \<Rightarrow> bool" where
  "bot_start b \<longleftrightarrow> (\<exists>cfg. b_store b = new_store cfg) \<and> b_pending b = []"

definition shop_of :: "bot \<Rightarrow> shop \<Rightarrow> bool" where
  "shop_of b m \<longleftrightarrow> reaches shop_start (shop_step False) m \<and> st m = b_store b \<and> flight m = None"

definition bot_inv :: "int list \<Rightarrow> bot \<Rightarrow> bool" where
  "bot_inv admins b \<longleftrightarrow> (\<exists>m. shop_of b m) \<and> dialogues_ok (set admins) b"

lemma bot_inv_start: "bot_start b \<Longrightarrow> bot_inv admins b"
proof -
  assume "bot_start b"
  then obtain cfg where s: "b_store b = new_store cfg" and p: "b_pending b = []" by (auto simp: bot_start_def)
  have "shop_of b \<lparr>st = new_store cfg, flight = None, credited = {}, granted = (\<lambda>_. 0)\<rparr>"
    unfolding shop_of_def by (intro conjI reaches.init) (auto simp: s shop_start_def)
  then show ?thesis using p by (auto simp: bot_inv_def dialogues_ok_def)
qed

lemma bot_inv_step: "bot_inv admins b \<Longrightarrow> bot_step admins b l b' \<Longrightarrow> bot_inv admins b'"
proof -
  assume inv: "bot_inv admins b" and step: "bot_step admins b l b'"
  from inv obtain m where m: "shop_of b m" and d: "dialogues_ok (set admins) b" by (auto simp: bot_inv_def)
  from step show ?thesis
  proof cases
    case (updated env u dr)
    have "money_inv m" using m money.reaches_inv by (auto simp: shop_of_def)
    with m runs_update [of b env dr u] obtain n where n: "shop_run m n" "st n = b_store b'" "flight n = None"
      using updated by (auto simp: runs_def chain_def shop_of_def)
    then have "shop_of b' n" using m shop_run_reaches by (auto simp: shop_of_def)
    moreover have "dialogues_ok (set admins) b'"
      using keeps_update [of env "set admins" b dr u] updated d by (simp add: keeps_def)
    ultimately show ?thesis by (auto simp: bot_inv_def)
  next
    case (panel_changed p)
    then show ?thesis using m d by (auto simp: bot_inv_def shop_of_def dialogues_ok_def)
  qed
qed

interpretation bot: step_machine bot_start "bot_step admins" "bot_inv admins" for admins
  by unfold_locales (fact bot_inv_start bot_inv_step)+

section \<open>The refinement\<close>


section \<open>An order that cannot be delivered\<close>

lemma begin_error: "finish_begin now oid reviewer src s = (Some e, t) \<Longrightarrow> e \<noteq> Provision_Failed"
  by (auto simp: finish_begin_def reserve_discount_def discount_valid_def split: option.splits if_splits prod.splits)

lemma finish_failed:
  assumes "finish_order env dr oid reviewer src s p = (Some Provision_Failed, t, q)"
  shows "\<exists>t1 t2. finish_begin (clock env) oid reviewer src s = (None, t1) \<and> (t2 = t1 \<or> (\<exists>u g. t2 = group_user u g t1))
    \<and> t = finish_rollback oid src t2"
proof -
  obtain e t1 where b: "finish_begin (clock env) oid reviewer src s = (e, t1)" by (metis surj_pair)
  have "e \<noteq> Some Provision_Failed" using b begin_error by blast
  then have e: "e = None" using assms b by (cases e) (auto simp: finish_order_def)
  then obtain od where od: "map_of (orders t1) oid = Some od" using assms b by (auto simp: finish_order_def split: option.splits)
  obtain r t2 q2 where pr: "provision env dr od t1 p = (r, t2, q2)" by (metis prod_cases3)
  then obtain err where r: "r = Inl err" "t = finish_rollback oid src t2"
    using assms b e od by (cases r) (auto simp: finish_order_def)
  then have "t2 = t1 \<or> (\<exists>u g. t2 = group_user u g t1)" using provision_store[OF pr] by (auto split: if_splits)
  then show ?thesis using b e r by blast
qed

text \<open>
  C28. An order that is paid but cannot be delivered is undone as a whole, the provisioning that was begun
  included: in every reachable state of the bot, when \<open>finish_order\<close> reports a failed provisioning, every wallet
  holds what it held, every other order is unchanged, no discount code (with a count that is not negative) has a
  use more or less, and the order is
  exactly what it was, except that the payment method (of a wallet or free order), the reviewer and the time of
  the attempt are noted and it is marked as failed once.
\<close>

theorem failed_order_undone:
  assumes "reaches bot_start (bot_step admins) b"
    and "finish_order env dr oid reviewer src (b_store b) p = (Some Provision_Failed, t, q)"
  shows "balance t = balance (b_store b)
    \<and> (\<exists>x. map_of (orders (b_store b)) oid = Some x \<and> o_status x = (if src = From_Card then Pending_Admin else Draft)
        \<and> map_of (orders t) oid = Some (x\<lparr>o_method := (if src = From_Card then o_method x
               else if src = From_Wallet then Some By_Wallet else Some For_Free),
             o_reviewer := reviewer, o_processing_at := Some (clock env), o_failed := True\<rparr>))
    \<and> (\<forall>i. i \<noteq> oid \<longrightarrow> map_of (orders t) i = map_of (orders (b_store b)) i)
    \<and> (\<forall>c d. map_of (promos (b_store b)) c = Some d \<and> 0 \<le> d_uses d \<longrightarrow>
         (\<exists>d'. map_of (promos t) c = Some d' \<and> d_uses d' = d_uses d \<and> d_used d' = d_used d))"
proof -
  obtain m where m: "reaches shop_start (shop_step False) m" "st m = b_store b"
    using bot.reaches_inv[OF assms(1)] by (auto simp: bot_inv_def shop_of_def)
  have inv: "money_inv m" by (rule money.reaches_inv[OF m(1)])
  obtain t1 t2 where f: "finish_begin (clock env) oid reviewer src (st m) = (None, t1)" "t2 = t1 \<or> (\<exists>u g. t2 = group_user u g t1)"
      "t = finish_rollback oid src t2" using finish_failed[OF assms(2)] m(2) by auto
  obtain x where x: "balance t = balance (st m)" "map_of (orders (st m)) oid = Some x" "o_status x = entry_status src"
      "map_of (orders t) oid = Some (undone (clock env) reviewer src x)"
      "\<forall>i. i \<noteq> oid \<longrightarrow> map_of (orders t) i = map_of (orders (st m)) i"
    using rollback_exact[OF inv f(1,2)] unfolding f(3)[symmetric] by blast
  have ok: "order_ok (credited m) x" using inv x(2) orders_ok_get by (auto simp: money_inv_def)
  have free: "src \<noteq> From_Card \<Longrightarrow> \<not> o_reserved x" using draft_free[OF ok] x(3) by (simp add: entry_status_def)
  have "\<exists>d'. map_of (promos t) c = Some d' \<and> d_uses d' = d_uses d \<and> d_used d' = d_used d"
    if d: "map_of (promos (st m)) c = Some d" "0 \<le> d_uses d" for c d
    using rollback_codes[OF f(1,2) x(2) free d] unfolding f(3)[symmetric] by (auto simp: code_counts_def)
  moreover have "undone (clock env) reviewer src x = x\<lparr>o_method := (if src = From_Card then o_method x
               else if src = From_Wallet then Some By_Wallet else Some For_Free),
             o_reviewer := reviewer, o_processing_at := Some (clock env), o_failed := True\<rparr>"
    by (cases src) (simp_all add: undone_def method_of_def)
  moreover have "entry_status src = (if src = From_Card then Pending_Admin else Draft)" by (simp add: entry_status_def)
  ultimately show ?thesis using x m(2) by auto
qed

section \<open>What the conversation does not do\<close>

text \<open>
  Every prompt of a dialogue says that /cancel ends it, and \<open>_handle_pending_text\<close> has a branch for it; but a
  text that starts with a slash is answered before the dialogue sees it, so the dialogue stays open.
\<close>

lemma slash_cancel_ignored: "handle_text env dr c (Latin ''/cancel'') b = say c N_Refused b"
proof -
  have "strip ''/cancel'' = ''/cancel''" "starts_with ''/'' ''/cancel''" by code_simp+
  then show ?thesis by (simp add: handle_text_def)
qed

text \<open>
  The name of a new discount code is compared with the names in use in the first step of the dialogue, and the
  last step writes the code without looking again. When a second administrator created the same name in
  between, the last step overwrites that code: its uses are counted from zero again, whoever holds it.
\<close>

lemma code_overwritten:
  assumes "amount_in t 0 3650 = Some days"
  shows "\<exists>d. map_of (promos (b_store (fst (admin_promo_text env c t (P_Promo_Days k kd v n) b)))) k = Some d
    \<and> d_uses d = 0 \<and> d_used d = [] \<and> orders (b_store (fst (admin_promo_text env c t (P_Promo_Days k kd v n) b))) = orders (b_store b)"
  using assms by (simp add: admin_promo_text_def say_def drop_pending_def with_store_def put_promo_def)

text \<open>
  \<open>_apply_proxy_assignment\<close> undoes its changes when \<open>save_state\<close> raises; without \<open>strict\<close> it never raises, so a
  failed save is reported as a success, with the assignment in memory and the old state on disk.
\<close>

lemma assignment_survives_failed_save:
  assumes "is_admin env admin" "find (\<lambda>x. code x = cc) (assignment_targets (be_repo env)) \<noteq> None"
    and "best_of None (records_for_country (be_repo env) cc) = Some r" "\<not> disk_ok p"
  shows "\<exists>n s' q. apply_proxy_assignment env admin cc s p = (Inr n, s', q) \<and> disk q = disk p
    \<and> links q = map (\<lambda>(uid, l). (uid, assign_exit s r l)) (links p)"
  using assms by (simp add: apply_proxy_assignment_def Let_def save_state_def)

section \<open>A sample conversation\<close>

definition sample_env :: bot_env where
  "sample_env = \<lparr>be_pf = page_platform, be_admins = [1], be_ip_limit = 2, be_timeout = 60, be_repo = new_repo, be_domain = None,
     be_host = ''app.example.com''\<rparr>"

definition sample_draws :: draws where
  "sample_draws = \<lparr>sp_group = ''g'', sp_key = ''k'', sp_link = ''u'', sp_orders = [''ab'']\<rparr>"

definition sample_bot :: bot where
  "sample_bot = \<lparr>b_store = new_store \<lparr>card_number = [], card_holder = [], support = []\<rparr>, b_panel = page_panel, b_pending = []\<rparr>"

definition writes :: "int \<Rightarrow> string \<Rightarrow> update" where
  "writes c t = Message_Update \<lparr>ms_chat = c, ms_private = True, ms_from = (c, [], []), ms_file = No_File, ms_text = Latin t\<rparr>"

definition presses :: "int \<Rightarrow> string \<Rightarrow> update" where
  "presses c d = Callback_Update \<lparr>cb_chat = c, cb_private = True, cb_from = (c, [], []), cb_data = d\<rparr>"

definition talk :: "update list \<Rightarrow> bot \<Rightarrow> bot" where
  "talk us b = fold (\<lambda>u b. fst (handle_update sample_env sample_draws (0, u) b)) us b"

definition gift_talk :: "update list" where
  "gift_talk = [presses 1 ''agift'', writes 1 ''NEW'', writes 1 ''50000'', writes 1 ''10'', writes 1 ''0'', presses 7 ''gift'', writes 7 ''new'']"

lemma talk_reached: "reaches bot_start (bot_step [1]) b \<Longrightarrow> reaches bot_start (bot_step [1]) (talk us b)"
proof (induction us arbitrary: b)
  case (Cons u us)
  have "reaches bot_start (bot_step [1]) (fst (handle_update sample_env sample_draws (0, u) b))"
    by (rule reaches.next_step [OF Cons.prems bot_step.updated]) (simp add: sample_env_def)
  from Cons.IH [OF this] show ?case by (simp add: talk_def)
qed (simp add: talk_def)

lemma sample_reached: "reaches bot_start (bot_step [1]) sample_bot"
  by (rule reaches.init) (auto simp: bot_start_def sample_bot_def)

lemma gift_talk_result: "balance (b_store (talk gift_talk sample_bot)) 7 = 50000" "orders (b_store (talk gift_talk sample_bot)) = []"
  by code_simp+


text \<open>A customer pays a new order from the wallet, and the panel cannot save.\<close>

definition order_talk :: "update list" where
  "order_talk = [presses 1 ''agift'', writes 1 ''NEW'', writes 1 ''500000'', writes 1 ''10'', writes 1 ''0'', presses 7 ''gift'',
     writes 7 ''new'', presses 7 ''buy:economic'']"

lemma failed_order_undone_witness:
  "let b = talk order_talk sample_bot; r = finish_order sample_env sample_draws ''OAB'' None From_Wallet (b_store b) (page_panel\<lparr>disk_ok := False\<rparr>)
   in fst r = Some Provision_Failed \<and> balance (fst (snd r)) 7 = 500000"
proof -
  let ?b = "talk order_talk sample_bot"
  let ?r = "finish_order sample_env sample_draws ''OAB'' None From_Wallet (b_store ?b) (page_panel\<lparr>disk_ok := False\<rparr>)"
  have f: "fst ?r = Some Provision_Failed" and bal: "balance (b_store ?b) 7 = 500000" by code_simp+
  obtain t q where r: "?r = (Some Provision_Failed, t, q)" using f by (metis prod.collapse)
  from failed_order_undone[OF talk_reached[OF sample_reached] r] bal f r show ?thesis by (simp add: Let_def)
qed

end
