(* ===== verification/Bot_Privacy.thy ===== *)
theory Bot_Privacy
  imports Bot_Laws
begin

text \<open>
  What a customer can reach through the bot. An update of a customer changes the customer's own account,
  orders and services only: not the account, the orders or the services of anybody else, no price and no
  limit of a code, not the card, and it approves nothing that is paid by card.
\<close>

section \<open>What stays\<close>

definition gift_core :: "gift \<Rightarrow> int \<times> int \<times> bool \<times> int option \<times> int" where
  "gift_core g = (g_amount g, g_max g, g_active g, g_expires g, g_by g)"

definition promo_core :: "promo \<Rightarrow> promo_kind \<times> int \<times> int \<times> bool \<times> int option \<times> int" where
  "promo_core d = (d_kind d, d_value d, d_max d, d_active d, d_expires d, d_by d)"

definition card_approved :: "order \<Rightarrow> bool" where
  "card_approved x \<longleftrightarrow> o_status x = Approved \<and> o_method x = Some By_Card"

text \<open>
  An order of somebody else stays as it is in every field, unless it has been waiting for its receipt
  for the allowed time: then the same order may be there with its code released, expired at this time.
\<close>

definition overdue :: "int \<Rightarrow> int \<Rightarrow> order \<Rightarrow> bool" where
  "overdue now allowed x \<longleftrightarrow> o_status x = Awaiting_Receipt
     \<and> allowed \<le> now - (case o_started x of Some t \<Rightarrow> t | None \<Rightarrow> o_created x)"

definition stays :: "int \<Rightarrow> int \<Rightarrow> (string, order) dict \<Rightarrow> string \<Rightarrow> order \<Rightarrow> bool" where
  "stays now allowed os oid x \<longleftrightarrow> map_of os oid = Some x
     \<or> overdue now allowed x \<and> map_of os oid = Some (x\<lparr>o_reserved := False, o_status := Expired, o_closed_at := Some now\<rparr>)"

definition others_kept :: "int \<Rightarrow> int \<Rightarrow> int \<Rightarrow> store \<Rightarrow> store \<Rightarrow> bool" where
  "others_kept now allowed c s t \<longleftrightarrow> config t = config s
     \<and> (\<forall>uid. uid \<noteq> c \<longrightarrow> map_of (users t) uid = map_of (users s) uid)
     \<and> (\<forall>k. map_option gift_core (map_of (gifts t) k) = map_option gift_core (map_of (gifts s) k))
     \<and> (\<forall>k. map_option promo_core (map_of (promos t) k) = map_option promo_core (map_of (promos s) k))
     \<and> (\<forall>oid x. map_of (orders s) oid = Some x \<and> o_user x \<noteq> c \<longrightarrow> stays now allowed (orders t) oid x)
     \<and> (\<forall>oid y. map_of (orders t) oid = Some y \<longrightarrow>
           (case map_of (orders s) oid of None \<Rightarrow> o_user y = c | Some x \<Rightarrow> o_user y = o_user x))
     \<and> (\<forall>oid y. map_of (orders t) oid = Some y \<and> card_approved y \<longrightarrow> map_of (orders s) oid = Some y)"

lemma kept_refl [simp]: "others_kept n w c s s"
  by (simp add: others_kept_def stays_def)

lemma stays_trans:
  assumes "stays n w os oid x" "o_user x \<noteq> c"
    and "\<forall>oid x. map_of os oid = Some x \<and> o_user x \<noteq> c \<longrightarrow> stays n w us oid x"
  shows "stays n w us oid x"
  using assms by (fastforce simp: stays_def overdue_def)

lemma kept_trans:
  assumes "others_kept n w c s t" "others_kept n w c t u"
  shows "others_kept n w c s u"
proof -
  have "stays n w (orders u) oid x" if "map_of (orders s) oid = Some x" "o_user x \<noteq> c" for oid x
    using stays_trans [of n w "orders t" oid x c "orders u"] that assms by (simp add: others_kept_def)
  moreover have "case map_of (orders s) oid of None \<Rightarrow> o_user y = c | Some x \<Rightarrow> o_user y = o_user x" if y: "map_of (orders u) oid = Some y" for oid y
  proof (cases "map_of (orders t) oid")
    case None
    then have "o_user y = c" using y assms(2) by (fastforce simp: others_kept_def)
    moreover have "o_user x = c" if "map_of (orders s) oid = Some x" for x
      using that None assms(1) by (fastforce simp: others_kept_def stays_def)
    ultimately show ?thesis by (simp split: option.split)
  next
    case (Some z)
    then have "o_user y = o_user z" using y assms(2) by (fastforce simp: others_kept_def)
    moreover have "case map_of (orders s) oid of None \<Rightarrow> o_user z = c | Some x \<Rightarrow> o_user z = o_user x"
      using Some assms(1) unfolding others_kept_def by metis
    ultimately show ?thesis by (cases "map_of (orders s) oid") simp_all
  qed
  ultimately show ?thesis using assms by (simp add: others_kept_def)
qed

section \<open>Changes of one order\<close>

definition owned :: "int \<Rightarrow> string \<Rightarrow> store \<Rightarrow> bool" where
  "owned c oid s \<longleftrightarrow> (\<forall>x. map_of (orders s) oid = Some x \<longrightarrow> o_user x = c \<and> o_status x \<noteq> Approved)"

definition keep_one :: "int \<Rightarrow> int \<Rightarrow> int \<Rightarrow> string \<Rightarrow> store \<Rightarrow> store \<Rightarrow> bool" where
  "keep_one n w c oid s t \<longleftrightarrow> (owned c oid s \<longrightarrow> others_kept n w c s t \<and> owned c oid t)"

lemma one_refl [simp]: "keep_one n w c oid s s"
  by (simp add: keep_one_def)

lemma one_trans: "keep_one n w c oid s t \<Longrightarrow> keep_one n w c oid t u \<Longrightarrow> keep_one n w c oid s u"
  using kept_trans by (auto simp: keep_one_def)

lemma one_order:
  assumes "\<And>x. o_user (f x) = o_user x" "\<And>x. o_status x \<noteq> Approved \<Longrightarrow> o_status (f x) \<noteq> Approved"
  shows "keep_one n w c oid s (upd_order oid f s)"
  using assms by (auto simp: keep_one_def owned_def others_kept_def upd_order_def stays_def card_approved_def split: option.split)

lemma one_promo:
  assumes "\<And>d. promo_core (f d) = promo_core d"
  shows "keep_one n w c oid s (upd_promo k f s)"
proof -
  have "map_option (promo_core \<circ> f) = map_option promo_core" using assms by (simp add: comp_def)
  then show ?thesis
    by (simp add: keep_one_def owned_def others_kept_def upd_promo_def stays_def option.map_comp split: option.split)
qed

lemma one_user: "keep_one n w c oid s (upd_user c f s)"
  by (simp add: keep_one_def owned_def others_kept_def upd_user_def stays_def split: option.split)

lemma one_reserve: "keep_one n w c oid s (snd (reserve_discount now oid s))"
proof (cases "\<exists>x k. map_of (orders s) oid = Some x \<and> o_code x = Some k \<and> \<not> o_reserved x \<and> discount_valid now (map_of (promos s) k) (o_user x) = None")
  case True
  then obtain x k where x: "map_of (orders s) oid = Some x" "o_code x = Some k" "\<not> o_reserved x"
      "discount_valid now (map_of (promos s) k) (o_user x) = None" by blast
  then have r: "snd (reserve_discount now oid s) = upd_order oid (\<lambda>x. x\<lparr>o_reserved := True\<rparr>)
      (upd_promo k (\<lambda>d. d\<lparr>d_uses := d_uses d + 1, d_used := d_used d @ [o_user x], d_orders := d_orders d @ [o_id x]\<rparr>) s)"
    by (simp add: reserve_discount_def)
  show ?thesis unfolding r by (rule one_trans [OF one_promo one_order]) (simp_all add: promo_core_def)
next
  case False
  then have "snd (reserve_discount now oid s) = s" by (auto simp: reserve_discount_def split: option.splits)
  then show ?thesis by simp
qed

lemma one_release: "keep_one n w c oid s (release_discount oid s)"
proof (cases "\<exists>x k. map_of (orders s) oid = Some x \<and> o_code x = Some k \<and> o_reserved x")
  case True
  then obtain x k where "map_of (orders s) oid = Some x" "o_code x = Some k" "o_reserved x" by blast
  then have r: "release_discount oid s = upd_order oid (\<lambda>x. x\<lparr>o_reserved := False\<rparr>)
      (upd_promo k (\<lambda>d. d\<lparr>d_uses := max 0 (d_uses d - 1), d_used := remove1 (o_user x) (d_used d), d_orders := remove1 (o_id x) (d_orders d)\<rparr>) s)"
    by (simp add: release_discount_def)
  show ?thesis unfolding r by (rule one_trans [OF one_promo one_order]) (simp_all add: promo_core_def)
next
  case False
  then have "release_discount oid s = s" by (auto simp: release_discount_def split: option.splits)
  then show ?thesis by simp
qed

lemma one_close: "why \<noteq> Approved \<Longrightarrow> keep_one n w c oid s (close_waiting now why oid s)"
  unfolding close_waiting_def by (rule one_trans [OF one_release one_order]) simp_all

lemma one_processing: "keep_one n w c oid s (start_processing now oid reviewer meth s)"
  unfolding start_processing_def by (rule one_order) simp_all

lemma one_pay: "keep_one n w c oid s (pay_in c a s)"
  unfolding pay_in_def by (rule one_user)

lemma kept_one: "keep_one n w c oid s t \<Longrightarrow> owned c oid s \<Longrightarrow> others_kept n w c s t"
  by (simp add: keep_one_def)

lemma kept_owned: "keep_one n w c oid s t \<Longrightarrow> owned c oid s \<Longrightarrow> owned c oid t"
  by (simp add: keep_one_def)

lemma ownedI: "map_of (orders s) oid = Some x \<Longrightarrow> o_user x = c \<Longrightarrow> o_status x \<noteq> Approved \<Longrightarrow> owned c oid s"
  by (simp add: owned_def)

section \<open>Finishing an own order\<close>

lemma one_begin: "map_of (orders s) oid = Some x \<Longrightarrow> o_user x = c \<Longrightarrow> keep_one n w c oid s (snd (finish_begin now oid reviewer src s))"
proof -
  assume x: "map_of (orders s) oid = Some x" and u: "o_user x = c"
  obtain e t where r: "reserve_discount now oid s = (e, t)" by (metis surj_pair)
  have t: "keep_one n w c oid s t" using one_reserve [of n w c oid s now] by (simp add: r)
  have "keep_one n w c oid t (release_discount oid t)" "keep_one n w c oid t (start_processing now oid reviewer meth (pay_in c a t))"
    "keep_one n w c oid t (start_processing now oid reviewer meth t)" for meth a
    using one_trans [OF one_pay one_processing] one_release one_processing by auto
  note steps = this [THEN one_trans [OF t]]
  show ?thesis
    using x u t steps one_processing [of n w c oid s now reviewer None] r
    by (simp add: finish_begin_def split: option.split)
qed

lemma one_credit: "map_of (orders s) oid = Some x \<Longrightarrow> o_user x = c \<Longrightarrow> keep_one n w c oid s (credit_topup oid s)"
  by (simp add: credit_topup_def one_pay)

lemma one_group: "keep_one n w c oid s (group_user c g s)"
  unfolding group_user_def by (rule one_user)

lemma one_rollback: "map_of (orders s) oid = Some x \<Longrightarrow> o_user x = c \<Longrightarrow> keep_one n w c oid s (finish_rollback oid src s)"
proof -
  assume x: "map_of (orders s) oid = Some x" and u: "o_user x = c"
  have d: "keep_one n w c oid t (upd_order oid (\<lambda>x. x\<lparr>o_status := Draft\<rparr>) t)" "keep_one n w c oid t (upd_order oid (\<lambda>x. x\<lparr>o_status := Pending_Admin\<rparr>) t)"
    "keep_one n w c oid t (upd_order oid (\<lambda>x. x\<lparr>o_failed := True\<rparr>) t)" for t
    by (rule one_order; simp)+
  note free = one_trans [OF one_trans [OF one_release d(1)] d(3)]
  show ?thesis
    using x u free one_trans [OF one_pay free] one_trans [OF d(2) d(3)]
    by (simp add: finish_rollback_def Let_def split: source.split)
qed

lemma kept_commit:
  assumes x: "map_of (orders s) oid = Some x" "o_user x = c" "o_status x = Processing" "o_method x \<noteq> Some By_Card"
  shows "others_kept n w c s (finish_commit now oid srv s)"
proof -
  define f :: "order \<Rightarrow> order" where "f y = y\<lparr>o_status := Approved, o_approved_at := Some now,
      o_service := (case srv of None \<Rightarrow> o_service y | Some v \<Rightarrow> Some v)\<rparr>" for y
  have "others_kept n w c s (upd_order oid f s)"
    using x by (auto simp: f_def others_kept_def upd_order_def stays_def card_approved_def split: option.split)
  moreover have "others_kept n w c t (upd_user c g t)" for g t
    by (simp add: others_kept_def upd_user_def stays_def split: option.split)
  ultimately show ?thesis
    using x kept_trans by (simp add: finish_commit_def Let_def f_def [symmetric])
qed

section \<open>The panel\<close>

definition panel_kept :: "int \<Rightarrow> panel \<Rightarrow> panel \<Rightarrow> bool" where
  "panel_kept c p q \<longleftrightarrow> (\<forall>uid l. map_of (links p) uid = Some l \<and> l_owner l \<noteq> Some c \<longrightarrow> map_of (links q) uid = Some l)"

lemma panel_refl [simp]: "panel_kept c p p"
  by (simp add: panel_kept_def)

definition grown :: "panel \<Rightarrow> panel \<Rightarrow> bool" where
  "grown p q \<longleftrightarrow> (\<forall>uid l. map_of (links p) uid = Some l \<longrightarrow> map_of (links q) uid = Some l)"

lemma grown_kept: "grown p q \<Longrightarrow> panel_kept c p q"
  by (simp add: grown_def panel_kept_def)

lemma grown_trans: "grown p q \<Longrightarrow> grown q r \<Longrightarrow> grown p r"
  by (simp add: grown_def)

lemma grown_same: "links q = links p \<Longrightarrow> grown p q"
  by (simp add: grown_def)

lemma saved_links: "links (snd (save_state p)) = links p"
  by (simp add: save_state_def)

lemma strict_links: "(\<And>q. links (rest q) = links q) \<Longrightarrow> links (snd (save_strict p rest r)) = links p"
  by (auto simp: save_strict_def save_state_def)

lemma log_links [simp]: "links (log_activity a k p) = links p"
  by (simp add: log_activity_def)

lemma group_links [simp]: "links (in_group g f p) = links p"
  by (simp add: in_group_def on_sub_def split: option.split)

lemma create_group_links: "links (snd (create_sub_group pf sid key n d pw p)) = links p"
  unfolding create_sub_group_def Let_def by (subst strict_links) simp_all

lemma ensure_sub_links: "ensure_customer_sub pf dr uid s p = (r, t, q) \<Longrightarrow> links q = links p"
  using create_group_links [of pf "sp_group dr" "sp_key dr" "''services of '' @ show_int uid" "[]" "[]" p]
  by (auto simp: ensure_customer_sub_def split: option.splits if_splits prod.splits sum.splits)

lemma make_link_grown:
  assumes "make_link pf n req p = (r, q)"
  shows "grown p q \<and> (\<forall>uid. r = Inr uid \<longrightarrow> map_of (links p) uid = None)"
proof (cases "check_link pf n p req")
  case (Inr y)
  obtain uid l where y: "y = (uid, l)" by fastforce
  have fresh: "map_of (links p) uid = None"
    using Inr y by (auto simp: check_link_def and_then_Inr split: if_splits prod.splits)
  have q: "q = snd (save_strict (in_group (q_sub req) (add_member uid) (p\<lparr>links := AList.update uid l (links p)\<rparr>)) (log_activity ''link'' ''ok'') uid)"
    using assms Inr y by (simp add: make_link_def Let_def)
  have "links q = AList.update uid l (links p)" unfolding q by (subst strict_links) simp_all
  moreover have "r = Inr v \<Longrightarrow> v = uid" for v
    using assms Inr y by (auto simp: make_link_def Let_def save_strict_def split: prod.splits if_splits)
  ultimately show ?thesis using fresh by (auto simp: grown_def)
qed (use assms in \<open>auto simp: make_link_def grown_def\<close>)

lemma set_sub_links: "v \<noteq> uid \<Longrightarrow> map_of (links (snd (set_link_sub pf uid g p))) v = map_of (links p) v"
proof -
  assume v: "v \<noteq> uid"
  have "links (snd (save_strict (on_link uid f p2) (log_activity a k) r)) = dmod uid f (links p2)" for f p2 a k and r :: bool
    by (subst strict_links) (simp_all add: on_link_def)
  then show ?thesis using v by (simp add: set_link_sub_def Let_def split: option.split)
qed

lemma provision_new_grown:
  assumes "provision_new env dr od s p = (r, t, q)"
  shows "grown p q \<and> (t = s \<or> (\<exists>g. t = group_user (o_user od) g s))"
proof (cases "o_plan od")
  case (Some pl)
  show ?thesis
  proof (cases "service_expiry (clock env) pl")
    case (Inr expires)
    obtain r1 t1 q1 where e: "ensure_customer_sub (be_pf env) dr (o_user od) s p = (r1, t1, q1)" by (metis prod_cases3)
    have t1: "t1 = s \<or> (\<exists>g. t1 = group_user (o_user od) g s)"
      using e by (auto simp: ensure_customer_sub_def split: option.splits if_splits prod.splits sum.splits)
    have g1: "grown p q1" using ensure_sub_links [OF e] by (rule grown_same)
    show ?thesis
    proof (cases r1)
      case (Inr sid)
      obtain r2 q2 where m: "make_link (be_pf env) (sp_link dr) (service_request env s od pl expires sid) q1 = (r2, q2)" by fastforce
      note g2 = make_link_grown [OF m]
      show ?thesis
      proof (cases r2)
        case (Inr uid)
        define q3 where "q3 = snd (set_link_sub (be_pf env) uid (Some sid) (on_link uid (mark_sold od pl) q2))"
        have "t = t1 \<and> links q = links q3"
          using assms Some \<open>service_expiry _ _ = _\<close> e \<open>r1 = _\<close> m Inr
          by (auto simp: provision_new_def q3_def saved_links split: prod.splits sum.splits)
        moreover have "map_of (links q3) v = map_of (links q2) v" if "v \<noteq> uid" for v
          unfolding q3_def using that by (subst set_sub_links) (simp_all add: on_link_def)
        moreover have "map_of (links q1) uid = None" using g2 Inr by blast
        ultimately have "grown q1 q" using g2 unfolding grown_def by (metis option.distinct(1))
        then show ?thesis using grown_trans [OF g1] t1 \<open>t = t1 \<and> _\<close> by blast
      qed (use assms Some \<open>service_expiry _ _ = _\<close> e \<open>r1 = _\<close> m g1 g2 grown_trans t1 in \<open>auto simp: provision_new_def\<close>)
    qed (use assms Some \<open>service_expiry _ _ = _\<close> e g1 t1 in \<open>auto simp: provision_new_def\<close>)
  qed (use assms Some in \<open>auto simp: provision_new_def grown_def\<close>)
qed (use assms in \<open>auto simp: provision_new_def grown_def\<close>)

lemma provision_renew_kept: "provision_renew env od p = (r, q) \<Longrightarrow> panel_kept (o_user od) p q"
proof -
  have same: "panel_kept (o_user od) p (snd (save_state (on_link uid f p)))" if "map_of (links p) uid = Some l" "l_owner l = Some (o_user od)" for uid f l
    using that by (auto simp: panel_kept_def saved_links on_link_def)
  show "provision_renew env od p = (r, q) \<Longrightarrow> panel_kept (o_user od) p q"
    by (auto simp: provision_renew_def same split: option.splits if_splits sum.splits)
qed

text \<open>What provisioning does to the store and to the panel, for an order of this customer.\<close>

lemma provision_kept:
  assumes x: "map_of (orders s) (o_id od) = Some od" and u: "o_user od = c" and r: "provision env dr od s p = (r, t, q)"
  shows "keep_one n w c (o_id od) s t \<and> panel_kept c p q \<and> orders t = orders s"
proof (cases "o_kind od")
  case Kind_Wallet
  then have "t = credit_topup (o_id od) s" "q = p" using r by (simp_all add: provision_def)
  moreover have "orders (credit_topup (o_id od) s) = orders s" by (simp add: credit_topup_def split: option.split)
  ultimately show ?thesis using one_credit [OF x u] by simp
next
  case Kind_New
  obtain r1 t1 q1 where n: "provision_new env dr od s p = (r1, t1, q1)" by (metis prod_cases3)
  then have "t = t1" "q = q1" using r Kind_New by (auto simp: provision_def split: sum.splits)
  then show ?thesis using provision_new_grown [OF n] grown_kept one_group u by (auto simp: group_user_def upd_user_def)
next
  case Kind_Renew
  obtain r1 q1 where n: "provision_renew env od p = (r1, q1)" by fastforce
  then have "t = s" "q = q1" using r Kind_Renew by (auto simp: provision_def split: sum.splits)
  then show ?thesis using provision_renew_kept [OF n] u by simp
qed

lemma finish_kept:
  assumes ok: "orders_ok cr (orders s)" and x: "map_of (orders s) oid = Some x" "o_user x = c" and src: "src \<noteq> From_Card"
    and f: "finish_order env dr oid reviewer src s p = (e, t, q)"
  shows "others_kept n w c s t \<and> panel_kept c p q"
proof -
  obtain e1 t1 where b: "finish_begin (clock env) oid reviewer src s = (e1, t1)" by (metis surj_pair)
  have k1: "keep_one n w c oid s t1" using one_begin [OF x, of n w "clock env" reviewer src] b by simp
  have st: "o_status x \<noteq> Approved \<or> t1 = s \<and> e1 \<noteq> None" using b x(1) by (auto simp: finish_begin_def)
  show ?thesis
  proof (cases e1)
    case (Some err)
    then have "t = t1" "q = p" using f b by (simp_all add: finish_order_def)
    then show ?thesis using st kept_one [OF k1 ownedI [OF x]] by auto
  next
    case None
    then have own: "owned c oid s" using st ownedI [OF x] by auto
    from begin_at [OF ok] b None obtain y where y: "map_of (orders s) oid = Some y"
        "orders t1 = AList.update oid (processed (clock env) reviewer src y) (orders s)" by metis
    define od where "od = processed (clock env) reviewer src x"
    have xy: "y = x" and ix: "o_id x = oid" using x y ok by (auto simp: orders_ok_def)
    have od: "map_of (orders t1) oid = Some od" "o_id od = oid" "o_user od = c" "o_status od = Processing" "o_method od \<noteq> Some By_Card"
      using x y(2) ix xy src by (cases src; simp add: od_def processed_def method_of_def)+
    obtain r t2 q2 where pr: "provision env dr od t1 p = (r, t2, q2)" by (metis prod_cases3)
    from provision_kept [OF _ od(3) pr] od have k2: "keep_one n w c oid t1 t2" "panel_kept c p q2" "map_of (orders t2) oid = Some od" by auto
    note k12 = one_trans [OF k1 k2(1)]
    show ?thesis
    proof (cases r)
      case (Inl err)
      then have "t = finish_rollback oid src t2" "q = q2" using f b None od(1) pr by (simp_all add: finish_order_def)
      then show ?thesis using kept_one [OF one_trans [OF k12 one_rollback [OF k2(3) od(3)]] own] k2(2) by simp
    next
      case (Inr srv)
      then have "t = finish_commit (clock env) oid srv t2" "q = q2" using f b None od(1) pr by (simp_all add: finish_order_def)
      then show ?thesis using kept_trans [OF kept_one [OF k12 own] kept_commit [OF k2(3) od(3, 4, 5)]] k2(2) by simp
    qed
  qed
qed

section \<open>The other operations of a customer\<close>

lemma kept_ensure: "others_kept n w c s (ensure_user now c name first s)"
  by (simp add: others_kept_def ensure_user_def upd_user_def stays_def split: option.split)

lemma kept_offset: "others_kept n w c s (put_offset k s)"
  by (simp add: others_kept_def put_offset_def stays_def split: option.split)

lemma kept_create: "others_kept n w c s (snd (create_order now toks c kind plan srv amount s))"
proof (cases "new_order_id toks (orders s)")
  case (Some oid)
  have "map_of (orders s) oid = None" by (rule new_order_id_fresh [OF Some])
  then show ?thesis
    by (auto simp: Some create_order_def Let_def others_kept_def stays_def card_approved_def draft_order_def split: option.split)
qed (simp add: create_order_def)

lemma kept_discount: "others_kept n w c s (snd (apply_discount now oid c text s))"
proof -
  have "others_kept n w c s (upd_order oid (\<lambda>_. x\<lparr>o_code := k, o_discount := d, o_amount := a\<rparr>) s)"
    if "map_of (orders s) oid = Some x" "o_user x = c" "o_status x = Draft" for x k d a
    using that by (auto simp: others_kept_def upd_order_def stays_def card_approved_def split: option.split)
  then show ?thesis
    by (auto simp: apply_discount_def Let_def split: option.split prod.split)
qed

lemma kept_cancel: "others_kept n w c s (snd (cancel_order now oid c s))"
proof -
  have "keep_one n w c oid s (upd_order oid (\<lambda>x. x\<lparr>o_status := Cancelled, o_closed_at := Some now\<rparr>) s)"
    by (rule one_order) simp_all
  note own = kept_one [OF this ownedI]
  show ?thesis by (simp add: cancel_order_def own split: option.split)
qed

lemma kept_withdraw: "others_kept n w c s (snd (cancel_waiting_order now oid c s))"
proof -
  have "keep_one n w c oid s (close_waiting now Cancelled oid s)" by (rule one_close) simp
  note own = kept_one [OF this ownedI]
  show ?thesis by (simp add: cancel_waiting_order_def own split: option.split)
qed

lemma release_other: "gifts (release_discount oid s) = gifts s \<and> config (release_discount oid s) = config s \<and> users (release_discount oid s) = users s
    \<and> (\<forall>k. map_option promo_core (map_of (promos (release_discount oid s)) k) = map_option promo_core (map_of (promos s) k))"
  by (simp add: release_discount_def upd_order_def upd_promo_def option.map_comp comp_def promo_core_def [abs_def] split: option.split)

lemma kept_expired:
  assumes x: "map_of (orders s) oid = Some x" and ok: "order_ok cr x" and late: "overdue now timeout x"
  shows "others_kept now timeout c s (close_waiting now Expired oid s)"
proof -
  let ?t = "close_waiting now Expired oid s"
  have o: "orders ?t = AList.update oid (x\<lparr>o_reserved := False, o_status := Expired, o_closed_at := Some now\<rparr>) (orders s)"
    using close_at [OF x ok] by simp
  have s: "stays now timeout (orders ?t) j z" if "map_of (orders s) j = Some z" for j z
    using that x late by (cases "j = oid") (simp_all add: o stays_def)
  have w: "case map_of (orders s) j of None \<Rightarrow> o_user z = c | Some x \<Rightarrow> o_user z = o_user x" if "map_of (orders ?t) j = Some z" for j z
    using that x by (cases "j = oid") (auto simp: o)
  have a: "map_of (orders s) j = Some z" if "map_of (orders ?t) j = Some z" "card_approved z" for j z
    using that by (cases "j = oid") (auto simp: o card_approved_def)
  have "gifts ?t = gifts s \<and> config ?t = config s \<and> users ?t = users s
    \<and> (\<forall>k. map_option promo_core (map_of (promos ?t) k) = map_option promo_core (map_of (promos s) k))"
    using release_other [of oid s] by (simp add: close_waiting_def upd_order_def)
  with s w a show ?thesis by (simp add: others_kept_def)
qed

lemma kept_fold: "distinct is \<Longrightarrow> (\<And>i. i \<in> set is \<Longrightarrow> \<exists>x. map_of (orders s) i = Some x \<and> order_ok cr x \<and> overdue now timeout x) \<Longrightarrow>
    others_kept now timeout c s (fold (close_waiting now Expired) is s)"
proof (induction "is" arbitrary: s)
  case (Cons i js)
  let ?t = "close_waiting now Expired i s"
  obtain x where x: "map_of (orders s) i = Some x" "order_ok cr x" "overdue now timeout x" using Cons.prems(2) [of i] by auto
  have "others_kept now timeout c ?t (fold (close_waiting now Expired) js ?t)"
  proof (rule Cons.IH)
    show "\<exists>x. map_of (orders ?t) j = Some x \<and> order_ok cr x \<and> overdue now timeout x" if "j \<in> set js" for j
      using that Cons.prems(2) [of j] Cons.prems(1) close_at [OF x(1, 2), of now Expired] by (cases "j = i") simp_all
  qed (use Cons.prems(1) in simp)
  from kept_trans [OF kept_expired [OF x] this] show ?case by simp
qed simp

lemma kept_expire: "orders_ok cr (orders s) \<Longrightarrow> others_kept now timeout c s (expire_stale_orders now timeout s)"
  unfolding expire_stale_orders_def
proof (rule kept_fold)
  assume ok: "orders_ok cr (orders s)"
  show "distinct (map fst (filter (\<lambda>(oid, x). stale (now - timeout) x) (orders s)))"
    using ok by (simp add: orders_ok_def dict_ok_def distinct_map_filter)
  show "\<exists>x. map_of (orders s) i = Some x \<and> order_ok cr x \<and> overdue now timeout x"
    if "i \<in> set (map fst (filter (\<lambda>(oid, x). stale (now - timeout) x) (orders s)))" for i
  proof -
    obtain x where "(i, x) \<in> set (orders s)" "stale (now - timeout) x" using \<open>i \<in> _\<close> by auto
    then show ?thesis using ok by (auto simp: orders_ok_def stale_def overdue_def dict_ok_get split: option.split)
  qed
qed

lemma kept_card: "orders_ok cr (orders s) \<Longrightarrow> others_kept now timeout c s (snd (start_card_payment now timeout adm oid c s))"
proof -
  assume ok: "orders_ok cr (orders s)"
  define t where "t = expire_stale_orders now timeout s"
  have st: "others_kept now timeout c s t" unfolding t_def by (rule kept_expire [OF ok])
  obtain e u where r: "reserve_discount now oid t = (e, u)" by (metis surj_pair)
  have k: "keep_one now timeout c oid t u" using one_reserve [of now timeout c oid t now] by (simp add: r)
  have k2: "keep_one now timeout c oid u (upd_order oid (\<lambda>x. x\<lparr>o_method := Some By_Card, o_status := Awaiting_Receipt, o_started := Some now\<rparr>) u)"
    by (rule one_order) simp_all
  note both = kept_one [OF k] kept_one [OF one_trans [OF k k2]]
  have "others_kept now timeout c t (snd (start_card_payment now timeout adm oid c s))"
    using both by (simp add: start_card_payment_def Let_def t_def [symmetric] r owned_def split: option.split)
  then show ?thesis by (rule kept_trans [OF st])
qed

lemma kept_receipt: "orders_ok cr (orders s) \<Longrightarrow> others_kept n w c s (snd (submit_receipt now c receipt which s))"
proof -
  assume ok: "orders_ok cr (orders s)"
  have set: "others_kept n w c s (upd_order (o_id x) (\<lambda>_. x\<lparr>o_receipt := Some receipt, o_receipt_at := Some now, o_status := Pending_Admin\<rparr>) s)"
    if "map_of (orders s) (o_id x) = Some x" "o_user x = c" for x
    using that by (auto simp: others_kept_def upd_order_def stays_def card_approved_def split: option.split)
  have "map_of (orders s) (o_id x) = Some x" if "(case which of Some i \<Rightarrow> map_of (orders s) i | None \<Rightarrow> latest (waiting_of c s)) = Some x" for x
  proof (cases which)
    case None
    then have "x \<in> set (waiting_of c s)" using that by (simp add: latest_mem)
    then obtain i where "(i, x) \<in> set (orders s)" by (auto simp: waiting_of_def)
    then have "map_of (orders s) i = Some x" using ok by (auto simp: orders_ok_def dict_ok_get)
    then show ?thesis using ok by (auto simp: orders_ok_def)
  qed (use that ok in \<open>auto simp: orders_ok_def\<close>)
  then show ?thesis using set by (auto simp: submit_receipt_def Let_def split: option.split)
qed

lemma kept_gift: "others_kept n w c s (snd (redeem_gift now c text s))"
  by (simp add: redeem_gift_def Let_def others_kept_def upd_user_def stays_def gift_core_def option.map_comp comp_def split: option.split)

section \<open>Every handler of a customer\<close>

definition sound :: "store \<Rightarrow> bool" where
  "sound s \<longleftrightarrow> (\<exists>m. money_inv m \<and> st m = s \<and> flight m = None)"

lemma sound_chain: "sound s \<Longrightarrow> chain s t \<Longrightarrow> sound t"
  unfolding sound_def chain_def using shop_run_inv by metis

lemma sound_orders: "sound s \<Longrightarrow> \<exists>cr. orders_ok cr (orders s)"
  by (auto simp: sound_def money_inv_def)

definition confines :: "bot_env \<Rightarrow> int \<Rightarrow> bot \<Rightarrow> outcome \<Rightarrow> bool" where
  "confines env c b r \<longleftrightarrow> (sound (b_store b) \<longrightarrow>
     others_kept (clock env) (be_timeout env) c (b_store b) (b_store (fst r)) \<and> panel_kept c (b_panel b) (b_panel (fst r)))"

lemma panel_trans: "panel_kept c p q \<Longrightarrow> panel_kept c q r \<Longrightarrow> panel_kept c p r"
  by (simp add: panel_kept_def)

lemma confines_trans:
  assumes "others_kept (clock env) (be_timeout env) c (b_store b) (b_store b1)" "b_panel b1 = b_panel b" "chain (b_store b) (b_store b1)" "confines env c b1 r"
  shows "confines env c b r"
  using assms kept_trans sound_chain unfolding confines_def by metis

lemma confines_store:
  "sound (b_store b) \<longrightarrow> others_kept (clock env) (be_timeout env) c (b_store b) (b_store (fst r)) \<Longrightarrow> b_panel (fst r) = b_panel b \<Longrightarrow> confines env c b r"
  by (simp add: confines_def)

lemma confines_same [simp]: "confines env c b (say k n b)" "confines env c b (say k n (drop_pending j b))"
    "confines env c b (say k n (set_pending j pd b))" "confines env c b (b, out)"
  by (simp_all add: confines_def)

lemma confines_card: "confines env c b (begin_card env c oid b)"
proof (rule confines_store)
  show "sound (b_store b) \<longrightarrow> others_kept (clock env) (be_timeout env) c (b_store b) (b_store (fst (begin_card env c oid b)))"
    using kept_card [of _ "b_store b" "clock env" "be_timeout env" c "be_admins env \<noteq> []" oid] sound_orders [of "b_store b"]
    by (auto simp: begin_card_def split: prod.split sum.split)
qed (simp add: begin_card_def split: prod.split sum.split)

lemma confines_topup: "confines env c b (topup_text env dr c t b)"
proof (cases "amount_in t MIN_TOPUP MAX_TOPUP")
  case (Some v)
  obtain r s where cr: "create_order (clock env) (sp_orders dr) c Kind_Wallet None None (Some v) (b_store b) = (r, s)"
    by (metis surj_pair)
  have k: "others_kept (clock env) (be_timeout env) c (b_store b) s" "chain (b_store b) s" using kept_create chain_create by (metis cr snd_conv)+
  have "confines env c b (begin_card env c oid (drop_pending c (with_store s b)))" for oid
    using k by (intro confines_trans [OF _ _ _ confines_card]) simp_all
  moreover have "confines env c b (with_store s b, [])" using k(1) by (intro confines_store) simp_all
  ultimately show ?thesis using Some cr by (simp add: topup_text_def split: sum.split)
qed (simp add: topup_text_def)

lemma confines_card_text: "\<not> is_admin env c \<Longrightarrow> confines env c b (card_text env c s pd b)"
  by (simp add: card_text_def split: pending.split)

lemma confines_customer: "\<not> is_admin env c \<Longrightarrow> confines env c b (customer_text env dr c s pd b)"
proof -
  assume a: "\<not> is_admin env c"
  have "confines env c b (customer_text env dr c s (P_Discount oid) b)" for oid
    using kept_discount [of "clock env" "be_timeout env" c "b_store b" "clock env" oid s]
    by (intro confines_store) (auto simp: customer_text_def split: prod.split sum.split)
  moreover have "confines env c b (customer_text env dr c s P_Gift_Redeem b)"
    using kept_gift [of "clock env" "be_timeout env" c "b_store b" "clock env" s]
    by (intro confines_store) (auto simp: customer_text_def split: prod.split sum.split)
  ultimately show ?thesis using a
    by (cases pd) (simp_all add: customer_text_def confines_topup confines_card_text)
qed

lemma confines_cancel: "confines env c b (cancel_dialogue env c pd b)"
  using kept_withdraw by (intro confines_store) (simp_all add: cancel_dialogue_def Let_def split: pending.split)

lemma confines_pending: "\<not> is_admin env c \<Longrightarrow> \<not> privileged pd \<Longrightarrow> confines env c b (handle_pending_text env dr c t pd b)"
  by (simp add: handle_pending_text_def privileged_def confines_cancel confines_customer split: text_in.split)

lemma confines_receipt: "confines env c b (handle_receipt env c doc b)"
proof -
  define which where "which = (case map_of (b_pending b) c of Some (P_Receipt oid) \<Rightarrow> if oid = [] then None else Some oid | _ \<Rightarrow> None)"
  have "others_kept (clock env) (be_timeout env) c (b_store b) (snd (submit_receipt (clock env) c doc which (b_store b)))" if "sound (b_store b)"
    using kept_receipt sound_orders [OF that] by blast
  then show ?thesis
    unfolding handle_receipt_def which_def [symmetric] Let_def
    by (intro confines_store) (auto split: prod.split sum.split)
qed

lemma confines_text:
  assumes "\<not> is_admin env c" "dialogues_ok (set (be_admins env)) b"
  shows "confines env c b (handle_text env dr c t b)"
proof -
  have "\<not> privileged pd" if "map_of (b_pending b) c = Some pd" for pd
    using that assms by (auto simp: dialogues_ok_def is_admin_def)
  then show ?thesis
    by (auto simp: handle_text_def Let_def confines_pending [OF assms(1)] split: option.split pending.split)
qed

lemma confines_greet: "fst who = c \<Longrightarrow> confines env c (greet env who b) r \<Longrightarrow> confines env c b r"
  by (rule confines_trans) (simp_all add: greet_def kept_ensure chain_ensure)

lemma confines_message:
  assumes "\<not> is_admin env c" "dialogues_ok (set (be_admins env)) b" "fst (ms_from m) = c" "ms_private m \<Longrightarrow> ms_chat m = c"
  shows "confines env c b (handle_message env dr m b)"
proof (cases "ms_private m")
  case True
  have "dialogues_ok (set (be_admins env)) (greet env (ms_from m) b)" using assms(2) by (simp add: greet_def)
  then have "confines env c (greet env (ms_from m) b) (handle_message env dr m b)"
    using assms(4) [OF True] True confines_text [OF assms(1)] confines_receipt
    by (simp add: handle_message_def Let_def split: option.split)
  then show ?thesis by (rule confines_greet [OF assms(3)])
qed (simp add: handle_message_def)

lemma confines_views: "confines env c b (ask_discount c oid b)" "confines env c b (show_services env c b)" "confines env c b (show_config env c uid b)"
    "confines env c b (show_own c uid f b)"
  by (simp_all add: ask_discount_def show_services_def show_config_def show_own_def split: option.split sum.split)

lemma confines_buy: "confines env c b (buy env dr c plan_id b)"
  using kept_create [of "clock env" "be_timeout env" c "b_store b" "clock env" "sp_orders dr" Kind_New "active_plan plan_id" None None]
  by (intro confines_store) (auto simp: buy_def split: option.splits prod.splits sum.splits)

lemma confines_renew: "confines env c b (renew_plan env dr c rest b)"
  using kept_create [of "clock env" "be_timeout env" c "b_store b" "clock env" "sp_orders dr" Kind_Renew "active_plan (after CHR '':'' rest)" "Some (before CHR '':'' rest)" None]
  by (intro confines_store) (auto simp: renew_plan_def Let_def split: option.splits prod.splits sum.splits)

lemma confines_pay: "src \<noteq> From_Card \<Longrightarrow> confines env c b (pay_order env dr src c oid b)"
proof (cases "map_of (orders (b_store b)) oid")
  case (Some x)
  assume src: "src \<noteq> From_Card"
  obtain e s p where f: "finish_order env dr oid None src (b_store b) (b_panel b) = (e, s, p)" by (metis prod_cases3)
  have "others_kept (clock env) (be_timeout env) c (b_store b) s \<and> panel_kept c (b_panel b) p" if "sound (b_store b)" "o_user x = c"
  proof -
    from sound_orders [OF that(1)] obtain cr where "orders_ok cr (orders (b_store b))" by blast
    from finish_kept [OF this Some that(2) src f] show ?thesis .
  qed
  then show ?thesis using Some f by (simp add: pay_order_def confines_def split: option.split)
qed (simp add: pay_order_def)

lemma confines_customer_callback: "pred_option (confines env c b) (customer_callback env dr c d b)"
proof -
  have "confines env c b (say c N_Fixed (with_store (snd (cancel_order (clock env) oid c (b_store b))) b))"
    "confines env c b (say c N_Fixed (drop_pending c (with_store (snd (cancel_waiting_order (clock env) oid c (b_store b))) b)))" for oid
    by (rule confines_store; simp add: kept_cancel kept_withdraw)+
  note facts = this confines_views confines_buy confines_pay confines_card confines_renew
  show ?thesis
    unfolding customer_callback_def by (intro pred_option_if; simp (no_asm) add: facts)
qed

definition sent_by :: "int \<Rightarrow> update \<Rightarrow> bool" where
  "sent_by c u = (case u of
     Message_Update m \<Rightarrow> fst (ms_from m) = c \<and> (ms_private m \<longrightarrow> ms_chat m = c)
   | Callback_Update cb \<Rightarrow> fst (cb_from cb) = c
   | Other_Update \<Rightarrow> True)"

lemma confines_update:
  assumes "\<not> is_admin env c" "dialogues_ok (set (be_admins env)) b" "sent_by c (snd u)"
  shows "confines env c b (handle_update env dr u b)"
proof -
  define b1 where "b1 = with_store (put_offset (max (poll_offset (b_store b)) (fst u + 1)) (b_store b)) b"
  have d: "dialogues_ok (set (be_admins env)) b1" using assms(2) by (simp add: b1_def)
  have "confines env c b1 (handle_callback env dr cb b1)" if "fst (cb_from cb) = c" for cb
  proof (cases rule: callback_cases [of env dr cb b1])
    case no
    then show ?thesis by simp
  next
    case (customer r)
    then have "confines env c (greet env (cb_from cb) b1) r"
      using confines_customer_callback [of env c "greet env (cb_from cb) b1" dr "cb_data cb"] that by simp
    then show ?thesis unfolding customer(3) by (rule confines_greet [OF that])
  next
    case admin
    then show ?thesis using assms(1) that by simp
  next
    case (other n)
    show ?thesis unfolding other(2) by (rule confines_greet [OF that, where env = env]) simp
  qed
  then have "confines env c b1 (handle_update env dr u b)"
    using assms(3) confines_message [OF assms(1) d]
    by (cases "snd u") (simp_all add: sent_by_def handle_update_def b1_def [symmetric])
  then show ?thesis
    by (rule confines_trans [rotated 3]) (simp_all add: b1_def kept_offset chain_offset)
qed

section \<open>The promise\<close>

text \<open>
  C3. Whatever an ordinary customer writes or presses, in any state the bot can reach, touches only
  what is the customer's own. The accounts and the configurations of all others, the card and the terms of
  every code stay as they are. An order of somebody else stays as it is in every field; the one
  exception is an order that has waited for its receipt for the allowed time or longer (a card payment
  closes these first): it is then the same order, expired at this time with its code released. A
  new order is the customer's own, the owner of an order never changes, and no payment by card is approved.
\<close>

theorem customer_confined:
  assumes "reaches bot_start (bot_step (be_admins env)) b" "c \<notin> set (be_admins env)" "sent_by c (snd u)"
  shows "others_kept (clock env) (be_timeout env) c (b_store b) (b_store (fst (handle_update env dr u b)))
    \<and> panel_kept c (b_panel b) (b_panel (fst (handle_update env dr u b)))"
proof -
  have inv: "bot_inv (be_admins env) b" by (rule bot.reaches_inv [OF assms(1)])
  then have "sound (b_store b)" using money.reaches_inv by (auto simp: bot_inv_def shop_of_def sound_def)
  moreover have "confines env c b (handle_update env dr u b)"
    using confines_update [of env c b u dr] inv assms(2, 3) by (simp add: is_admin_def bot_inv_def)
  ultimately show ?thesis by (simp add: confines_def)
qed

lemma customer_confined_witness:
  "balance (b_store (fst (handle_update sample_env sample_draws (9, presses 8 ''buy:standard'') (talk gift_talk sample_bot)))) 7 = 50000"
proof -
  have "reaches bot_start (bot_step (be_admins sample_env)) (talk gift_talk sample_bot)"
    using talk_reached [OF sample_reached, of gift_talk] by (simp add: sample_env_def)
  from customer_confined [OF this, of 8 "(9, presses 8 ''buy:standard'')" sample_draws]
  have "map_of (users (b_store (fst (handle_update sample_env sample_draws (9, presses 8 ''buy:standard'') (talk gift_talk sample_bot))))) 7
      = map_of (users (b_store (talk gift_talk sample_bot))) 7"
    by (simp add: sample_env_def sent_by_def presses_def others_kept_def)
  then show ?thesis using gift_talk_result(1) by (simp add: balance_def)
qed

end
