(* ===== verification/Link_Forms.thy ===== *)
theory Link_Forms
  imports Registry
begin

text \<open>
  The two form handlers of \<open>main.py\<close> for configurations: \<open>POST /api/links\<close> and
  \<open>PATCH /api/links/{uid}\<close>. Both read a JSON object. A field on which the code calls a string
  method must be a string, otherwise the handler fails (\<open>Crash\<close>); such a field is checked here
  before the others. A group identity is a string or absent.
\<close>

section \<open>Reading fields\<close>

definition str_field :: "body \<Rightarrow> string \<Rightarrow> string \<Rightarrow> failure + string" where
  "str_field b k d = (let v = jget b k in
     if \<not> truthy v then Inr d else (case v of JStr s \<Rightarrow> Inr s | _ \<Rightarrow> Inl Crash))"

definition need :: "'a option \<Rightarrow> failure + 'a" where
  "need v = (case v of None \<Rightarrow> Inl Crash | Some x \<Rightarrow> Inr x)"

definition group_field :: "json \<Rightarrow> string option" where
  "group_field v = (case v of JStr s \<Rightarrow> if s = [] then None else Some s | _ \<Rightarrow> None)"

definition number_or_zero :: "platform \<Rightarrow> body \<Rightarrow> string \<Rightarrow> failure + rat" where
  "number_or_zero pf b k = need (py_float (pf_float pf) (or_else (jget b k) (JInt 0)))"

definition limit_of :: "platform \<Rightarrow> body \<Rightarrow> failure + int" where
  "limit_of pf b = and_then (number_or_zero pf b ''limit_value'') (\<lambda>lv.
     if lv \<le> 0 then Inr 0
     else and_then (str_field b ''limit_unit'' ''GB'') (\<lambda>lu. Inr (parse_size_to_bytes lv lu)))"

definition speed_of :: "platform \<Rightarrow> body \<Rightarrow> failure + int" where
  "speed_of pf b = and_then (number_or_zero pf b ''speed_limit_value'') (\<lambda>sv.
     if sv \<le> 0 then Inr 0
     else and_then (str_field b ''speed_limit_unit'' ''MBIT'') (\<lambda>su. Inr (parse_speed_to_bytes sv su)))"

text \<open>\<open>datetime.now() + timedelta(days=n)\<close> overflows beyond the year 9999.\<close>

definition expiry_in :: "platform \<Rightarrow> int \<Rightarrow> failure + stamp" where
  "expiry_in pf days = (if days \<le> 0 then Inr NoTime
     else if days > MAX_DAYS \<or> pf_now pf + days * MICROS_PER_DAY > MAX_TIME then Inl Crash
     else Inr (Naive (pf_now pf + days * MICROS_PER_DAY)))"

definition expiry_of :: "platform \<Rightarrow> body \<Rightarrow> failure + stamp" where
  "expiry_of pf b = and_then (need (py_int (or_else (jget b ''expires_days'') (JInt 0)))) (expiry_in pf)"

definition int_or :: "body \<Rightarrow> string \<Rightarrow> int \<Rightarrow> int" where
  "int_or b k d = (case py_int (or_else (jget b k) (JInt d)) of None \<Rightarrow> d | Some n \<Rightarrow> n)"

section \<open>Creating\<close>

definition asked_endpoint :: "platform \<Rightarrow> body \<Rightarrow> json \<Rightarrow> failure + string \<times> string" where
  "asked_endpoint pf b protocol =
     (if protocol = JStr ''vless-tcp'' then
        (if list_ex (\<lambda>k. strip (text_or_empty (jget b k)) \<noteq> []) [''address'', ''sni'', ''alpn'', ''port'']
         then Inl (Bad_Request R_Raw_Managed) else Inr ([], []))
      else and_then (fail_with R_Address (normalize_address (pf_idna pf)
                (let a = jget b ''address'' in if truthy a then py_str a else pf_host pf))) (\<lambda>address.
           and_then (normalize_if_given (normalize_sni (pf_idna pf)) (text_or_empty (jget b ''sni''))) (\<lambda>sni.
             Inr (address, sni))))"

definition asked_exit :: "platform \<Rightarrow> body \<Rightarrow> failure + string \<times> string \<times> string" where
  "asked_exit pf b =
    (let mode = lower (let m = text_or_empty (jget b ''exit_proxy_mode'') in if m = [] then ''direct'' else m);
         proxy_id = strip (text_or_empty (jget b ''proxy_id''))
     in if mode = ''repository'' \<and> \<not> pf_receipt pf proxy_id (text_or_empty (jget b ''proxy_test_receipt''))
        then Inl (Bad_Request R_Needs_Test)
        else (case normalize_exit_proxy (pf_lookup pf) mode proxy_id (text_or_empty (jget b ''custom_proxy'')) of
            Inl e \<Rightarrow> Inl (Bad_Request e) | Inr ex \<Rightarrow> Inr ex))"

definition read_request :: "platform \<Rightarrow> body \<Rightarrow> failure + link_request" where
  "read_request pf b =
    (let protocol = (if has_key b ''protocol'' then jget b ''protocol'' else JStr DEFAULT_PROTOCOL) in
     and_then (asked_endpoint pf b protocol) (\<lambda>(address, sni).
     and_then (limit_of pf b) (\<lambda>limit.
     and_then (expiry_of pf b) (\<lambda>expires.
     and_then (speed_of pf b) (\<lambda>speed.
     and_then (asked_exit pf b) (\<lambda>(mode, proxy_id, custom).
     and_then (str_field b ''label'' NEW_LINK) (\<lambda>label.
     and_then (str_field b ''note'' []) (\<lambda>note.
     and_then (str_field b ''remark'' (if truthy (jget b ''label'') then label else BRAND)) (\<lambda>remark.
     and_then (str_field b ''fingerprint'' DEFAULT_FINGERPRINT) (\<lambda>fp.
     and_then (str_field b ''alpn'' []) (\<lambda>alpn.
       Inr \<lparr>q_label = label, q_limit = limit, q_expires = expires, q_note = note, q_remark = remark,
            q_sub = group_field (jget b ''sub_id''), q_protocol = text_or_empty protocol,
            q_settings = jget b ''transport_settings'', q_security = jget_def b ''security'' (JStr ''tls''),
            q_fingerprint = fp, q_alpn = alpn, q_port = Some (int_or b ''port'' DEFAULT_PORT),
            q_ip_limit = int_or b ''ip_limit'' 0, q_speed = speed, q_address = address, q_sni = sni,
            q_mode = mode, q_proxy = proxy_id, q_custom = custom,
            q_uuid = text_or_empty (jget b ''uuid'')\<rparr>)))))))))))"

definition create_link :: "platform \<Rightarrow> string \<Rightarrow> json \<Rightarrow> panel \<Rightarrow> (failure + string) \<times> panel" where
  "create_link pf new_uid payload p = (case payload of
     JObj b \<Rightarrow> (case read_request pf b of Inl e \<Rightarrow> (Inl e, p) | Inr q \<Rightarrow> make_link pf new_uid q p)
   | _ \<Rightarrow> (Inl (Bad_Request R_Body), p))"

section \<open>Editing\<close>

text \<open>What is checked before the lock is taken: the new transport and the new exit.\<close>

record edit_plan =
  plan_transport :: "(string \<times> body) option"
  plan_exit :: "(string \<times> string \<times> string) option"

definition plan_group :: "platform \<Rightarrow> body \<Rightarrow> link \<Rightarrow> panel \<Rightarrow> failure + unit" where
  "plan_group pf b l p =
     (if has_key b ''sub_id'' \<and> truthy (jget b ''sub_id'') then
        (case map_of (subs p) (py_str (jget b ''sub_id'')) of
           None \<Rightarrow> Inl Not_Found
         | Some s \<Rightarrow> fail_with R_Raw_Ml (validate_raw_tcp_multi_location (pf_ingress pf) (Some l) (s_ml s)))
      else Inr ())"

definition plan_transport_of :: "platform \<Rightarrow> body \<Rightarrow> link \<Rightarrow> failure + (string \<times> body) option" where
  "plan_transport_of pf b l =
     (if has_key b ''protocol'' \<or> has_key b ''transport_settings'' then
        and_then (fail_with R_Transport (transport_validate (pf_ingress pf)
            (text_or_empty (jget_def b ''protocol'' (JStr (l_protocol l))))
            (jget_def b ''transport_settings'' (JObj (l_settings l))))) (\<lambda>(protocol, settings).
          if protocol \<noteq> l_protocol l then Inl (Bad_Request R_Transport_Fixed) else Inr (Some (protocol, settings)))
      else Inr None)"

definition plan_exit_of :: "platform \<Rightarrow> body \<Rightarrow> link \<Rightarrow> failure + (string \<times> string \<times> string) option" where
  "plan_exit_of pf b l =
     (if has_key b ''exit_proxy_mode'' \<or> has_key b ''proxy_id'' \<or> has_key b ''custom_proxy'' then
        (let mode = lower (py_str (jget_def b ''exit_proxy_mode'' (JStr (l_mode l))));
             proxy_id = strip (text_or_empty (jget_def b ''proxy_id'' (JStr (l_proxy l))));
             changed = (mode \<noteq> l_mode l \<or> proxy_id \<noteq> l_proxy l)
         in if mode = ''repository'' \<and> changed \<and> \<not> pf_receipt pf proxy_id (text_or_empty (jget b ''proxy_test_receipt''))
            then Inl (Bad_Request R_Needs_Test)
            else (case normalize_exit_proxy (pf_lookup pf) mode proxy_id
                     (text_or_empty (jget_def b ''custom_proxy'' (JStr (l_custom l)))) of
                Inl e \<Rightarrow> Inl (Bad_Request e) | Inr ex \<Rightarrow> Inr (Some ex)))
      else Inr None)"

definition make_plan :: "platform \<Rightarrow> body \<Rightarrow> link \<Rightarrow> panel \<Rightarrow> failure + edit_plan" where
  "make_plan pf b l p =
     and_then (plan_group pf b l p) (\<lambda>_.
     and_then (if l_protocol l = ''vless-tcp'' \<and> list_ex (has_key b) [''address'', ''sni'', ''alpn'', ''port'']
               then Inl (Bad_Request R_Raw_Managed) else Inr ()) (\<lambda>_.
     and_then (plan_transport_of pf b l) (\<lambda>transport.
     and_then (if has_key b ''security''
               then and_then (fail_with R_Transport (validate_security (pf_ingress pf) (l_protocol l) (jget b ''security''))) (\<lambda>_. Inr ())
               else Inr ()) (\<lambda>_.
     and_then (plan_exit_of pf b l) (\<lambda>ex.
       Inr \<lparr>plan_transport = transport, plan_exit = ex\<rparr>)))))"

text \<open>
  The edits under the lock, one per \<open>if\<close>, in the order of the code. An edit that raises leaves the
  changes of the earlier ones in place.
\<close>

type_synonym edit = "panel \<Rightarrow> failure + panel"

definition edit_if :: "bool \<Rightarrow> edit \<Rightarrow> edit" where
  "edit_if c e p = (if c then e p else Inr p)"

definition set_field :: "string \<Rightarrow> (link \<Rightarrow> link) \<Rightarrow> edit" where
  "set_field uid f p = Inr (on_link uid f p)"

definition edits :: "platform \<Rightarrow> string \<Rightarrow> body \<Rightarrow> edit_plan \<Rightarrow> edit list" where
  "edits pf uid b plan =
    [edit_if (has_key b ''active'') (\<lambda>p. let on = truthy (jget b ''active'') in
        Inr (log_activity ''link'' (if on then ''ok'' else ''warn'') (on_link uid (l_active_update (\<lambda>_. on)) p))),
     edit_if (has_key b ''label'') (set_field uid (l_label_update (\<lambda>_. take 60 (py_str (jget b ''label''))))),
     edit_if (has_key b ''note'') (set_field uid (l_note_update (\<lambda>_. take 200 (py_str (jget b ''note''))))),
     edit_if (has_key b ''remark'') (set_field uid (\<lambda>l. l\<lparr>l_remark := take 120 (strip
        (if truthy (jget b ''remark'') then py_str (jget b ''remark'')
         else if l_label l \<noteq> [] then l_label l else BRAND))\<rparr>)),
     edit_if (truthy (jget b ''reset_usage'')) (\<lambda>p.
        Inr (log_activity ''link'' ''info'' (on_link uid (l_used_update (\<lambda>_. 0)) p))),
     edit_if (has_key b ''limit_value'') (\<lambda>p. and_then (limit_of pf b) (\<lambda>v. set_field uid (l_limit_update (\<lambda>_. v)) p)),
     edit_if (has_key b ''expires_days'') (\<lambda>p. and_then (expiry_of pf b) (\<lambda>v. set_field uid (l_expires_update (\<lambda>_. v)) p)),
     edit_if (has_key b ''fingerprint'') (set_field uid (l_fingerprint_update (\<lambda>_. clean_fingerprint (text_or_empty (jget b ''fingerprint''))))),
     edit_if (has_key b ''alpn'') (set_field uid (l_alpn_update (\<lambda>_. take 100 (strip (text_or_empty (jget b ''alpn'')))))),
     edit_if (has_key b ''port'') (set_field uid (l_port_update (\<lambda>_. clean_port (int_or b ''port'' DEFAULT_PORT)))),
     edit_if (has_key b ''ip_limit'') (set_field uid (l_ip_limit_update (\<lambda>_. max 0 (int_or b ''ip_limit'' 0)))),
     edit_if (has_key b ''speed_limit_value'') (\<lambda>p. and_then (speed_of pf b) (\<lambda>v.
        Inr (reset_bucket uid (on_link uid (l_speed_update (\<lambda>_. v)) p)))),
     edit_if (has_key b ''address'') (\<lambda>p. and_then (fail_with R_Address (normalize_address (pf_idna pf)
        (let a = jget b ''address'' in if truthy a then py_str a else pf_host pf)))
        (\<lambda>v. set_field uid (l_address_update (\<lambda>_. v)) p)),
     edit_if (has_key b ''sni'') (\<lambda>p. and_then (normalize_if_given (normalize_sni (pf_idna pf)) (text_or_empty (jget b ''sni'')))
        (\<lambda>v. set_field uid (l_sni_update (\<lambda>_. v)) p)),
     edit_if (plan_transport plan \<noteq> None) (set_field uid (\<lambda>l. l\<lparr>l_protocol := fst (the (plan_transport plan)),
        l_settings := snd (the (plan_transport plan))\<rparr>)),
     edit_if (plan_exit plan \<noteq> None) (set_field uid (\<lambda>l. l\<lparr>l_mode := fst (the (plan_exit plan)),
        l_proxy := fst (snd (the (plan_exit plan))), l_custom := snd (snd (the (plan_exit plan)))\<rparr>)),
     edit_if (list_ex (has_key b) [''label'', ''note'', ''remark'', ''limit_value'', ''expires_days'', ''protocol'',
        ''transport_settings'', ''fingerprint'', ''alpn'', ''port'', ''ip_limit'', ''speed_limit_value'', ''address'', ''sni'',
        ''exit_proxy_mode'', ''proxy_id'', ''custom_proxy'']) (\<lambda>p. Inr (log_activity ''link'' ''info'' p))]"

fun run_edits :: "edit list \<Rightarrow> panel \<Rightarrow> failure option \<times> panel" where
  "run_edits [] p = (None, p)"
| "run_edits (e # es) p = (case e p of Inl f \<Rightarrow> (Some f, p) | Inr q \<Rightarrow> run_edits es q)"

definition move_link :: "string \<Rightarrow> string option \<Rightarrow> string option \<Rightarrow> panel \<Rightarrow> panel" where
  "move_link uid old new p = in_group new (add_member uid) (in_group old (drop_member uid)
     (on_link uid (l_sub_update (\<lambda>_. new)) p))"

definition update_link :: "platform \<Rightarrow> string \<Rightarrow> body \<Rightarrow> panel \<Rightarrow> (failure + unit) \<times> panel" where
  "update_link pf uid b p = (case map_of (links p) uid of
     None \<Rightarrow> (Inl Not_Found, p)
   | Some l \<Rightarrow>
      (case make_plan pf b l p of
         Inl e \<Rightarrow> (Inl e, p)
       | Inr plan \<Rightarrow>
          (case run_edits (edits pf uid b plan) p of
             (Some e, q) \<Rightarrow> (Inl e, q)
           | (None, q) \<Rightarrow>
              save_strict (if has_key b ''sub_id'' then move_link uid (l_sub l) (group_field (jget b ''sub_id'')) q else q)
                (\<lambda>q. q) ())))"

end
