(* ===== verification/Membership.thy ===== *)
theory Membership
  imports Link_Forms
begin

text \<open>
  Correctness of the registry: both sides of the membership agree in every reachable state, a
  created configuration is stored as it was checked, a removed one leaves no trace, and what is
  on disk is what was in memory when the last save succeeded.
\<close>

section \<open>The invariant\<close>

definition members :: "links \<Rightarrow> string \<Rightarrow> string set" where
  "members ls sid = {uid. \<exists>l. map_of ls uid = Some l \<and> l_sub l = Some sid}"

definition synced :: "links \<Rightarrow> subs \<Rightarrow> bool" where
  "synced ls ss \<longleftrightarrow> dict_ok ls \<and> dict_ok ss \<and> map_of ss [] = None
     \<and> (\<forall>sid s. map_of ss sid = Some s \<longrightarrow> distinct (s_links s) \<and> set (s_links s) = members ls sid)"

abbreviation panel_synced :: "panel \<Rightarrow> bool" where
  "panel_synced p \<equiv> synced (links p) (subs p)"

lemma syncedI:
  "dict_ok ls \<Longrightarrow> dict_ok ss \<Longrightarrow> map_of ss [] = None \<Longrightarrow>
   (\<And>sid s. map_of ss sid = Some s \<Longrightarrow> distinct (s_links s) \<and> set (s_links s) = members ls sid) \<Longrightarrow> synced ls ss"
  by (simp add: synced_def)

lemma syncedD:
  "synced ls ss \<Longrightarrow> map_of ss sid = Some s \<Longrightarrow> distinct (s_links s) \<and> set (s_links s) = members ls sid"
  by (simp add: synced_def)

lemma synced_base: "synced ls ss \<Longrightarrow> dict_ok ls \<and> dict_ok ss \<and> map_of ss [] = None"
  by (simp add: synced_def)

section \<open>Frames\<close>

lemma links_log [simp]: "links (log_activity k lv p) = links p" "subs (log_activity k lv p) = subs p"
  "disk (log_activity k lv p) = disk p" "disk_ok (log_activity k lv p) = disk_ok p"
  by (simp_all add: log_activity_def Let_def)

lemma links_save [simp]: "links (snd (save_state p)) = links p" "subs (snd (save_state p)) = subs p"
  by (simp_all add: save_state_def)

lemma save_strict_frame:
  assumes "\<And>q. links (rest q) = links q \<and> subs (rest q) = subs q"
  shows "links (snd (save_strict p rest r)) = links p \<and> subs (snd (save_strict p rest r)) = subs p"
  using assms by (simp add: save_strict_def save_state_def)

lemma save_strict_frames [simp]:
  "links (snd (save_strict p (log_activity k lv) r)) = links p"
  "subs (snd (save_strict p (log_activity k lv) r)) = subs p"
  "links (snd (save_strict p (\<lambda>q. q) r)) = links p"
  "subs (snd (save_strict p (\<lambda>q. q) r)) = subs p"
  using save_strict_frame [of "log_activity k lv" p r] save_strict_frame [of "\<lambda>q. q" p r] by auto

lemma on_frames [simp]:
  "links (on_sub sid f p) = links p" "subs (on_sub sid f p) = dmod sid f (subs p)"
  "links (on_link uid g p) = dmod uid g (links p)" "subs (on_link uid g p) = subs p"
  "links (reset_bucket uid p) = links p" "subs (reset_bucket uid p) = subs p"
  by (simp_all add: on_sub_def on_link_def reset_bucket_def)

lemma in_group_frames [simp]:
  "links (in_group g f p) = links p"
  "subs (in_group g f p) = (case g of None \<Rightarrow> subs p | Some sid \<Rightarrow> if sid = [] then subs p else dmod sid f (subs p))"
  by (simp_all add: in_group_def split: option.split)

lemma s_links_add [simp]: "set (s_links (add_member uid s)) = insert uid (set (s_links s))"
  "distinct (s_links s) \<Longrightarrow> distinct (s_links (add_member uid s))"
  by (auto simp: add_member_def)

lemma s_links_drop [simp]: "distinct (s_links s) \<Longrightarrow> set (s_links (drop_member uid s)) = set (s_links s) - {uid}"
  "distinct (s_links s) \<Longrightarrow> distinct (s_links (drop_member uid s))"
  by (auto simp: drop_member_def)

section \<open>Each operation keeps the invariant\<close>

lemma members_update_new: "map_of ls uid = None \<Longrightarrow>
   members (AList.update uid l ls) sid = (if l_sub l = Some sid then insert uid (members ls sid) else members ls sid)"
  by (auto simp: members_def)

lemma members_delete: "members (AList.delete uid ls) sid = members ls sid - {uid}"
  by (auto simp: members_def)

lemma members_dmod_sub: "map_of ls uid = Some l \<Longrightarrow>
   members (dmod uid (l_sub_update (\<lambda>_. g)) ls) sid = (if g = Some sid then insert uid (members ls sid) else members ls sid - {uid})"
  by (auto simp: members_def split: if_splits)

lemma members_dmod_same: "(\<And>l. l_sub (f l) = l_sub l) \<Longrightarrow> members (dmod uid f ls) sid = members ls sid"
  by (auto simp: members_def)

lemma synced_add:
  assumes "synced ls ss" "map_of ls uid = None"
  shows "synced (AList.update uid l ls)
     (case l_sub l of None \<Rightarrow> ss | Some sid \<Rightarrow> if sid = [] then ss else dmod sid (add_member uid) ss)"
proof (rule syncedI)
  fix sid s
  assume s: "map_of (case l_sub l of None \<Rightarrow> ss | Some sid \<Rightarrow> if sid = [] then ss else dmod sid (add_member uid) ss) sid = Some s"
  show "distinct (s_links s) \<and> set (s_links s) = members (AList.update uid l ls) sid"
  proof (cases "l_sub l = Some sid")
    case True
    with s obtain s0 where s0: "map_of ss sid = Some s0" "s = add_member uid s0"
      using synced_base [OF assms(1)] by (cases "sid = []") auto
    then show ?thesis using syncedD [OF assms(1) s0(1)] True assms(2) by (simp add: members_update_new)
  next
    case False
    then have "map_of ss sid = Some s" using s by (auto split: option.splits if_splits)
    then show ?thesis using syncedD [OF assms(1)] False assms(2) by (simp add: members_update_new)
  qed
qed (use assms(1) synced_base [OF assms(1)] in \<open>auto split: option.split\<close>)

lemma synced_remove:
  assumes "synced ls ss" "map_of ls uid = Some l"
  shows "synced (AList.delete uid ls)
     (case l_sub l of None \<Rightarrow> ss | Some sid \<Rightarrow> if sid = [] then ss else dmod sid (drop_member uid) ss)"
proof (rule syncedI)
  fix sid s
  assume s: "map_of (case l_sub l of None \<Rightarrow> ss | Some sid \<Rightarrow> if sid = [] then ss else dmod sid (drop_member uid) ss) sid = Some s"
  show "distinct (s_links s) \<and> set (s_links s) = members (AList.delete uid ls) sid"
  proof (cases "l_sub l = Some sid")
    case True
    with s obtain s0 where s0: "map_of ss sid = Some s0" "s = drop_member uid s0"
      using synced_base [OF assms(1)] by (cases "sid = []") auto
    then show ?thesis using syncedD [OF assms(1) s0(1)] True by (simp add: members_delete)
  next
    case False
    then have s1: "map_of ss sid = Some s" using s by (auto split: option.splits if_splits)
    have "uid \<notin> members ls sid" using False assms(2) by (auto simp: members_def)
    then show ?thesis using syncedD [OF assms(1) s1] by (simp add: members_delete)
  qed
qed (use assms(1) synced_base [OF assms(1)] in \<open>auto split: option.split\<close>)

lemma synced_move:
  assumes "synced ls ss" "map_of ls uid = Some l" "\<And>sid. g = Some sid \<Longrightarrow> map_of ss sid \<noteq> None"
  defines "ss1 \<equiv> (case l_sub l of None \<Rightarrow> ss | Some sid \<Rightarrow> if sid = [] then ss else dmod sid (drop_member uid) ss)"
  shows "synced (dmod uid (l_sub_update (\<lambda>_. g)) ls)
     (case g of None \<Rightarrow> ss1 | Some sid \<Rightarrow> if sid = [] then ss1 else dmod sid (add_member uid) ss1)"
proof -
  have s1: "distinct (s_links s) \<and> set (s_links s) = members ls sid - {uid}" if a: "map_of ss1 sid = Some s" for sid s
  proof (cases "l_sub l = Some sid")
    case True
    with a obtain s0 where s0: "map_of ss sid = Some s0" "s = drop_member uid s0"
      using synced_base [OF assms(1)] by (cases "sid = []") (auto simp: ss1_def)
    then show ?thesis using syncedD [OF assms(1) s0(1)] by simp
  next
    case False
    then have s1: "map_of ss sid = Some s" using a by (auto simp: ss1_def split: option.splits if_splits)
    have "uid \<notin> members ls sid" using False assms(2) by (auto simp: members_def)
    then show ?thesis using syncedD [OF assms(1) s1] by simp
  qed
  have b: "dict_ok ss1" "map_of ss1 [] = None"
    using synced_base [OF assms(1)] by (auto simp: ss1_def split: option.split)
  show ?thesis
  proof (rule syncedI)
    fix sid s
    assume s: "map_of (case g of None \<Rightarrow> ss1 | Some sid \<Rightarrow> if sid = [] then ss1 else dmod sid (add_member uid) ss1) sid = Some s"
    show "distinct (s_links s) \<and> set (s_links s) = members (dmod uid (l_sub_update (\<lambda>_. g)) ls) sid"
    proof (cases "g = Some sid")
      case True
      with s obtain s0 where s0: "map_of ss1 sid = Some s0" "s = add_member uid s0"
        using b by (cases "sid = []") auto
      then show ?thesis using s1 [OF s0(1)] True by (auto simp: members_dmod_sub [OF assms(2)])
    next
      case False
      then have "map_of ss1 sid = Some s" using s by (auto split: option.splits if_splits)
      then show ?thesis using s1 False by (simp add: members_dmod_sub [OF assms(2)])
    qed
  qed (use b synced_base [OF assms(1)] in \<open>auto split: option.split\<close>)
qed

lemma clear_group_get: "map_of (clear_group sid ls) uid = map_option (\<lambda>l. if l_sub l = Some sid then l\<lparr>l_sub := None\<rparr> else l) (map_of ls uid)"
  unfolding clear_group_def by (rule map_of_map_snd)

lemma members_clear: "members (clear_group sid ls) g = (if g = sid then {} else members ls g)"
proof -
  have "uid \<in> members (clear_group sid ls) g \<longleftrightarrow> g \<noteq> sid \<and> uid \<in> members ls g" for uid
    by (cases "map_of ls uid") (auto simp: members_def clear_group_get)
  then show ?thesis by auto
qed

lemma map_fst_second: "map fst (map (\<lambda>(k, v). (k, f k v)) d) = map fst d"
  by (induction d) auto

lemma dict_ok_map: "dict_ok (map (\<lambda>(k, v). (k, f k v)) d) = dict_ok d"
  by (simp add: dict_ok_def map_fst_second del: map_map)

lemma synced_drop_group:
  assumes "synced ls ss"
  shows "synced (clear_group sid ls) (AList.delete sid ss)"
proof (rule syncedI)
  fix g s
  assume "map_of (AList.delete sid ss) g = Some s"
  then have "g \<noteq> sid" "map_of ss g = Some s" by (auto split: if_splits)
  then show "distinct (s_links s) \<and> set (s_links s) = members (clear_group sid ls) g"
    using syncedD [OF assms] by (simp add: members_clear)
qed (use synced_base [OF assms] in \<open>auto simp: clear_group_def dict_ok_map\<close>)

lemma synced_new_group:
  assumes "synced ls ss" "sid \<noteq> []" "members ls sid = {}" "s_links s = []"
  shows "synced ls (AList.update sid s ss)"
  using assms by (intro syncedI) (auto simp: synced_base dest: syncedD split: if_splits)

section \<open>Editing the members of a group\<close>

lemma detach_get:
  assumes "map_of (detach m ss) g = Some s'"
  shows "\<exists>s. map_of ss g = Some s \<and> (distinct (s_links s) \<longrightarrow>
     distinct (s_links s') \<and> set (s_links s') = set (s_links s) - {u. (g, u) \<in> set m})"
  using assms
proof (induction m arbitrary: ss)
  case (Cons a m)
  obtain prev uid where a: "a = (prev, uid)" by (cases a)
  from Cons.prems have "map_of (detach m (dmod prev (drop_member uid) ss)) g = Some s'"
    by (simp add: detach_def a)
  from Cons.IH [OF this] obtain s1 where s1: "map_of (dmod prev (drop_member uid) ss) g = Some s1"
    "distinct (s_links s1) \<longrightarrow> distinct (s_links s') \<and> set (s_links s') = set (s_links s1) - {u. (g, u) \<in> set m}" by blast
  show ?case
  proof (cases "g = prev")
    case True
    with s1(1) obtain s where "map_of ss g = Some s" "s1 = drop_member uid s" by auto
    then show ?thesis using s1(2) a True by auto
  next
    case False
    then show ?thesis using s1 a by auto
  qed
qed (simp add: detach_def)

lemma detach_base: "dict_ok ss \<Longrightarrow> dict_ok (detach m ss)" "map_of ss g = None \<Longrightarrow> map_of (detach m ss) g = None"
  unfolding detach_def by (induction m arbitrary: ss) (auto split: prod.split)

lemma clean_ids_ok: "distinct (clean_ids ls raw)" "uid \<in> set (clean_ids ls raw) \<Longrightarrow> map_of ls uid \<noteq> None"
  by (auto simp: clean_ids_def collect_new_distinct collect_new_set Let_def split: if_splits)

lemma members_sync:
  assumes "set old = members ls sid" "\<And>uid. uid \<in> set new \<Longrightarrow> map_of ls uid \<noteq> None"
  shows "members (map (\<lambda>(uid, l). (uid, sync_link sid old new uid l)) ls) g =
    (if g = sid then set new else members ls g - set new)"
proof -
  have sub: "(\<exists>l. map_of ls uid = Some l \<and> l_sub (sync_link sid old new uid l) = Some g) \<longleftrightarrow>
      (if g = sid then uid \<in> set new else uid \<in> members ls g - set new)" for uid
  proof (cases "map_of ls uid")
    case None
    then show ?thesis using assms(2) [of uid] by (auto simp: members_def)
  next
    case (Some l)
    have "uid \<in> set old \<longleftrightarrow> l_sub l = Some sid" using assms(1) Some by (auto simp: members_def)
    then show ?thesis using Some by (auto simp: sync_link_def members_def)
  qed
  have "uid \<in> members (map (\<lambda>(uid, l). (uid, sync_link sid old new uid l)) ls) g
      \<longleftrightarrow> (\<exists>l. map_of ls uid = Some l \<and> l_sub (sync_link sid old new uid l) = Some g)" for uid
    by (auto simp: members_def map_of_map_snd)
  then show ?thesis using sub by auto
qed

lemma moved_from_mem:
  assumes "set old = members ls sid"
  shows "(g, u) \<in> set (moved_from sid old new ls) \<longleftrightarrow> u \<in> set new \<and> g \<noteq> [] \<and> g \<noteq> sid \<and> u \<in> members ls g"
proof -
  let ?f = "\<lambda>uid. if uid \<in> set old then None
     else (case map_of ls uid of
         None \<Rightarrow> None
       | Some l \<Rightarrow> (case l_sub l of
           None \<Rightarrow> None | Some prev \<Rightarrow> if prev \<noteq> [] \<and> prev \<noteq> sid then Some (prev, uid) else None))"
  have f: "?f uid = Some (g, u) \<longleftrightarrow> uid = u \<and> g \<noteq> [] \<and> g \<noteq> sid \<and> u \<in> members ls g" for uid
  proof (cases "map_of ls uid")
    case None then show ?thesis using assms by (auto simp: members_def)
  next
    case (Some l) then show ?thesis using assms by (cases "l_sub l") (auto simp: members_def)
  qed
  show ?thesis unfolding moved_from_def set_map_filter using f by auto
qed

lemma commit_sub_synced:
  assumes "panel_synced p" "map_of (subs p) sid = Some s"
    and "\<And>new. ids = Some new \<Longrightarrow> distinct new \<and> (\<forall>uid \<in> set new. map_of (links p) uid \<noteq> None)"
  shows "panel_synced (commit_sub pf sid b ml ids s p)"
proof -
  have t: "s_links (edit_texts pf b s) = s_links s" by (simp add: edit_texts_def Let_def)
  note ss = syncedD [OF assms(1, 2)]
  have ne: "sid \<noteq> []" using assms(2) synced_base [OF assms(1)] by auto
  show ?thesis
  proof (cases ids)
    case None
    have "synced (links p) (AList.update sid s' (subs p))" if "s_links s' = s_links s" for s'
    proof (rule syncedI)
      fix g x assume "map_of (AList.update sid s' (subs p)) g = Some x"
      then show "distinct (s_links x) \<and> set (s_links x) = members (links p) g"
        using that ss syncedD [OF assms(1)] by (auto split: if_splits)
    qed (use synced_base [OF assms(1)] ne in auto)
    then show ?thesis using None t by (auto simp: commit_sub_def Let_def split: option.split)
  next
    case (Some new)
    note n = assms(3) [OF Some]
    define old where "old = s_links s"
    have o: "set old = members (links p) sid" using ss by (simp add: old_def)
    have "synced (map (\<lambda>(uid, l). (uid, sync_link sid old new uid l)) (links p))
       (detach (moved_from sid old new (links p)) (AList.update sid s' (subs p)))" if "s_links s' = new" for s'
    proof (rule syncedI)
      fix g x
      assume "map_of (detach (moved_from sid old new (links p)) (AList.update sid s' (subs p))) g = Some x"
      from detach_get [OF this] obtain y where y: "map_of (AList.update sid s' (subs p)) g = Some y"
        and x: "distinct (s_links y) \<longrightarrow> distinct (s_links x)
          \<and> set (s_links x) = set (s_links y) - {u. (g, u) \<in> set (moved_from sid old new (links p))}" by blast
      have mem: "members (map (\<lambda>(uid, l). (uid, sync_link sid old new uid l)) (links p)) g =
          (if g = sid then set new else members (links p) g - set new)"
        by (rule members_sync [OF o]) (use n in auto)
      show "distinct (s_links x) \<and> set (s_links x) =
          members (map (\<lambda>(uid, l). (uid, sync_link sid old new uid l)) (links p)) g"
      proof (cases "g = sid")
        case True
        then show ?thesis using y x that n mem moved_from_mem [OF o] by auto
      next
        case False
        then have "map_of (subs p) g = Some y" using y by simp
        with syncedD [OF assms(1) this] synced_base [OF assms(1)] have
          "distinct (s_links y)" "set (s_links y) = members (links p) g" "g \<noteq> []" by auto
        then show ?thesis using x mem False moved_from_mem [OF o] by auto
      qed
    qed (use synced_base [OF assms(1)] ne detach_base in \<open>auto simp: dict_ok_map\<close>)
    then show ?thesis using Some by (auto simp: commit_sub_def Let_def old_def [symmetric] split: option.split)
  qed
qed

section \<open>The form handlers\<close>

text \<open>An edit changes fields of one configuration, never its group, and no group.\<close>

definition keeps_groups :: "panel \<Rightarrow> panel \<Rightarrow> bool" where
  "keeps_groups p q \<longleftrightarrow> subs q = subs p \<and> (dict_ok (links p) \<longrightarrow> dict_ok (links q))
     \<and> (\<forall>uid. map_option l_sub (map_of (links q) uid) = map_option l_sub (map_of (links p) uid))"

lemma keeps_groups_refl [simp]: "keeps_groups p p"
  by (simp add: keeps_groups_def)

lemma keeps_groups_trans: "keeps_groups p q \<Longrightarrow> keeps_groups q r \<Longrightarrow> keeps_groups p r"
  by (simp add: keeps_groups_def)

lemma keeps_groups_on_link: "(\<And>l. l_sub (f l) = l_sub l) \<Longrightarrow> keeps_groups p (on_link uid f p)"
  by (auto simp: keeps_groups_def option.map_comp comp_def)

lemma keeps_groups_log [simp]: "keeps_groups p (log_activity k lv q) = keeps_groups p q"
  by (simp add: keeps_groups_def)

lemma keeps_groups_bucket [simp]: "keeps_groups p (reset_bucket uid q) = keeps_groups p q"
  by (simp add: keeps_groups_def)

lemma members_by_option: "members ls sid = {uid. map_option l_sub (map_of ls uid) = Some (Some sid)}"
  by (auto simp: members_def)

lemma keeps_groups_synced: "keeps_groups p q \<Longrightarrow> panel_synced p \<Longrightarrow> panel_synced q"
  by (auto simp: keeps_groups_def synced_def members_by_option)

lemma set_field_keeps: "(\<And>l. l_sub (f l) = l_sub l) \<Longrightarrow> set_field uid f p = Inr q \<Longrightarrow> keeps_groups p q"
  by (auto simp: set_field_def keeps_groups_on_link)

lemma edits_keep: "e \<in> set (edits pf uid b plan) \<Longrightarrow> e p = Inr q \<Longrightarrow> keeps_groups p q"
  unfolding edits_def
  by (auto simp: edit_if_def and_then_Inr Let_def set_field_def keeps_groups_on_link split: if_splits)

lemma run_edits_keep:
  "(\<And>e p q. e \<in> set es \<Longrightarrow> e p = Inr q \<Longrightarrow> keeps_groups p q) \<Longrightarrow> keeps_groups p (snd (run_edits es p))"
proof (induction es arbitrary: p)
  case (Cons e es)
  show ?case
  proof (cases "e p")
    case (Inr q)
    then have "keeps_groups p q" using Cons.prems [of e p q] by simp
    moreover have "keeps_groups q (snd (run_edits es q))" using Cons.IH [of q] Cons.prems by auto
    ultimately show ?thesis using Inr keeps_groups_trans by simp
  qed simp
qed simp

lemma create_link_synced:
  assumes "\<And>q. panel_synced p \<Longrightarrow> panel_synced (snd (make_link pf uid q p))" "panel_synced p"
  shows "panel_synced (snd (create_link pf uid payload p))"
  using assms by (simp add: create_link_def split: json.split sum.split)

lemma update_link_synced:
  assumes "panel_synced p"
  shows "panel_synced (snd (update_link pf uid b p))"
proof (cases "map_of (links p) uid")
  case (Some l)
  show ?thesis
  proof (cases "make_plan pf b l p")
    case (Inr plan)
    obtain f q where r: "run_edits (edits pf uid b plan) p = (f, q)" by fastforce
    have k: "keeps_groups p q" using run_edits_keep [of "edits pf uid b plan" p] edits_keep r by auto
    note s = keeps_groups_synced [OF k assms]
    show ?thesis
    proof (cases "f = None \<and> has_key b ''sub_id''")
      case False
      then show ?thesis using Some Inr r s by (cases f) (auto simp: update_link_def)
    next
      case True
      let ?g = "group_field (jget b ''sub_id'')"
      have "map_option l_sub (map_of (links q) uid) = Some (l_sub l)" using k Some by (simp add: keeps_groups_def)
      then obtain l' where l': "map_of (links q) uid = Some l'" "l_sub l' = l_sub l" by auto
      have g: "\<And>sid. ?g = Some sid \<Longrightarrow> map_of (subs q) sid \<noteq> None"
      proof -
        fix sid assume "?g = Some sid"
        then have "jget b ''sub_id'' = JStr sid" "sid \<noteq> []" by (auto simp: group_field_def split: json.splits if_splits)
        moreover have "plan_group pf b l p = Inr ()" using Inr by (auto simp: make_plan_def and_then_Inr)
        ultimately show "map_of (subs q) sid \<noteq> None"
          using True k by (auto simp: plan_group_def py_str_def keeps_groups_def split: option.splits)
      qed
      have "panel_synced (move_link uid (l_sub l) ?g q)"
        unfolding move_link_def in_group_frames on_frames
        by (rule synced_move [OF s l'(1), unfolded l'(2)]) (rule g)
      then show ?thesis using Some Inr r True by (simp add: update_link_def)
    qed
  qed (use assms Some in \<open>simp add: update_link_def\<close>)
qed (use assms in \<open>simp add: update_link_def\<close>)

section \<open>The registry as a step machine\<close>

datatype reg_event =
    Ev_Make string | Ev_Remove string | Ev_Active string bool | Ev_New_Group string | Ev_Set_Sub string "string option"
  | Ev_Remove_Group string | Ev_Delete_Group string | Ev_Delete_Link string | Ev_Update_Group string
  | Ev_Create string | Ev_Update string | Ev_Disk bool

inductive reg_step :: "panel \<Rightarrow> reg_event \<Rightarrow> panel \<Rightarrow> bool" where
  make: "reg_step p (Ev_Make uid) (snd (make_link pf uid q p))"
| remove: "reg_step p (Ev_Remove uid) (snd (remove_link uid p))"
| active: "reg_step p (Ev_Active uid b) (snd (set_link_active uid b p))"
| new_group: "sid \<noteq> [] \<Longrightarrow> members (links p) sid = {} \<Longrightarrow>
    reg_step p (Ev_New_Group sid) (snd (create_sub_group pf sid key name desc pw p))"
| set_sub: "reg_step p (Ev_Set_Sub uid g) (snd (set_link_sub pf uid g p))"
| remove_group: "reg_step p (Ev_Remove_Group sid) (snd (remove_sub_group sid p))"
| delete_group: "reg_step p (Ev_Delete_Group sid) (snd (delete_sub sid p))"
| delete_link: "reg_step p (Ev_Delete_Link uid) (snd (delete_link uid p))"
| update_group: "reg_step p (Ev_Update_Group sid) (snd (update_sub pf tokens sid payload p))"
| create: "reg_step p (Ev_Create uid) (snd (create_link pf uid payload p))"
| update: "reg_step p (Ev_Update uid) (snd (update_link pf uid b p))"
| disk_turns: "reg_step p (Ev_Disk b) (p\<lparr>disk_ok := b\<rparr>)"

inductive_cases reg_stepE: "reg_step p e p'"

lemma make_link_synced: "panel_synced p \<Longrightarrow> panel_synced (snd (make_link pf uid q p))"
proof (cases "check_link pf uid p q")
  case (Inr r)
  assume s: "panel_synced p"
  obtain u l where r: "r = (u, l)" by (cases r)
  then have n: "map_of (links p) u = None" and l: "l_sub l = q_sub q"
    using Inr by (auto simp: check_link_def and_then_Inr new_link_def Let_def split: if_splits prod.splits)
  show ?thesis using synced_add [OF s n, of l] l Inr r
    by (cases "q_sub q") (auto simp: make_link_def Let_def split: if_splits)
qed (simp add: make_link_def)

lemma remove_link_synced: "panel_synced p \<Longrightarrow> panel_synced (snd (remove_link uid p))"
  using synced_remove [of "links p" "subs p" uid]
  by (auto simp: remove_link_def Let_def split: option.split)

lemma delete_link_synced: "panel_synced p \<Longrightarrow> panel_synced (snd (delete_link uid p))"
  using remove_link_synced [of p uid] by (auto simp: delete_link_def split: prod.splits sum.splits option.splits)

lemma synced_same_sub: "synced ls ss \<Longrightarrow> (\<And>l. l_sub (f l) = l_sub l) \<Longrightarrow> synced (dmod uid f ls) ss"
  by (auto simp: synced_def members_dmod_same)

lemma set_link_active_synced: "panel_synced p \<Longrightarrow> panel_synced (snd (set_link_active uid b p))"
  by (auto simp: set_link_active_def synced_same_sub split: option.split)

lemma create_sub_group_synced: "panel_synced p \<Longrightarrow> sid \<noteq> [] \<Longrightarrow> members (links p) sid = {} \<Longrightarrow>
   panel_synced (snd (create_sub_group pf sid key name desc pw p))"
  by (simp add: create_sub_group_def Let_def synced_new_group)

lemma set_link_sub_synced: "panel_synced p \<Longrightarrow> panel_synced (snd (set_link_sub pf uid g p))"
proof (cases "map_of (links p) uid")
  case (Some l)
  assume s: "panel_synced p"
  show ?thesis
  proof (cases "\<exists>sid. g = Some sid \<and> map_of (subs p) sid = None")
    case True
    with s Some show ?thesis by (auto simp: set_link_sub_def)
  next
    case False
    then have k: "\<And>sid. g = Some sid \<Longrightarrow> map_of (subs p) sid \<noteq> None" by auto
    let ?p3 = "on_link uid (l_sub_update (\<lambda>_. g)) (in_group g (add_member uid) (in_group (l_sub l) (drop_member uid) p))"
    have "panel_synced ?p3"
      unfolding on_frames in_group_frames by (rule synced_move [OF s Some]) (rule k)
    then show ?thesis using s Some by (simp add: set_link_sub_def Let_def)
  qed
qed (simp add: set_link_sub_def)

lemma remove_sub_group_synced: "panel_synced p \<Longrightarrow> panel_synced (snd (remove_sub_group sid p))"
  by (auto simp: remove_sub_group_def synced_drop_group split: option.split)

lemma delete_sub_synced: "panel_synced p \<Longrightarrow> panel_synced (snd (delete_sub sid p))"
  by (auto simp: delete_sub_def synced_drop_group)

lemma update_sub_synced:
  assumes "panel_synced p"
  shows "panel_synced (snd (update_sub pf tokens sid payload p))"
proof (cases payload)
  case (JObj b)
  define r where "r = and_then (wanted_table pf tokens sid p b) (\<lambda>ml.
            and_then (wanted_ids p b) (\<lambda>ids.
            case map_of (subs p) sid of
              None \<Rightarrow> Inl Not_Found
            | Some s \<Rightarrow> and_then
                (if ml = None \<and> ids = None then Inr ()
                 else first_raw_error pf p (if ml = None then s_ml s else ml)
                        (case ids of None \<Rightarrow> s_links s | Some new \<Rightarrow> new))
                (\<lambda>_. Inr (ml, ids, s))))"
  show ?thesis
  proof (cases r)
    case (Inl e)
    then show ?thesis using assms JObj by (simp add: update_sub_def r_def)
  next
    case (Inr x)
    obtain ml ids s where x: "x = (ml, ids, s)" by (cases x)
    have i: "wanted_ids p b = Inr ids" and s: "map_of (subs p) sid = Some s"
      using Inr x by (auto simp: r_def and_then_Inr split: option.splits)
    have "ids = Some new \<Longrightarrow> distinct new \<and> (\<forall>uid \<in> set new. map_of (links p) uid \<noteq> None)" for new
      using i clean_ids_ok by (auto simp: wanted_ids_def split: if_splits json.splits)
    with commit_sub_synced [OF assms s] have "panel_synced (commit_sub pf sid b ml ids s p)" by blast
    then show ?thesis using JObj Inr x by (simp add: update_sub_def r_def)
  qed
qed (use assms in \<open>simp_all add: update_sub_def\<close>)

lemmas synced_ops = make_link_synced remove_link_synced set_link_active_synced create_sub_group_synced
  set_link_sub_synced remove_sub_group_synced delete_sub_synced delete_link_synced update_sub_synced
  update_link_synced create_link_synced [OF make_link_synced]

lemma reg_step_synced: "panel_synced p \<Longrightarrow> reg_step p e p' \<Longrightarrow> panel_synced p'"
  by (erule reg_stepE) (auto simp: synced_ops)

interpretation registry: step_machine panel_synced reg_step panel_synced
  by unfold_locales (auto intro: reg_step_synced)

text \<open>
  C5. Group membership and the configurations' own record of their group always agree: from an
  agreeing state, every sequence of creating, editing, moving and removing configurations and
  groups, with a disk that works or fails, leads to a state in which a configuration is listed
  in a group, once, exactly when it names that group.
\<close>

theorem membership_agrees:
  assumes "reaches panel_synced reg_step p" "map_of (subs p) sid = Some s"
  shows "distinct (s_links s) \<and> (\<forall>uid. uid \<in> set (s_links s) \<longleftrightarrow> (\<exists>l. map_of (links p) uid = Some l \<and> l_sub l = Some sid))"
  using syncedD [OF registry.reaches_inv [OF assms(1)] assms(2)] by (simp add: members_def)

definition sample_panel :: panel where
  "sample_panel = \<lparr>links = [(''u'', sample_link\<lparr>l_sub := Some ''a''\<rparr>)],
     subs = [(''a'', \<lparr>s_name = ''A'', s_desc = [], s_password = None, s_key = ''k'', s_created = 0, s_links = [''u''], s_ml = None\<rparr>),
             (''b'', \<lparr>s_name = ''B'', s_desc = [], s_password = None, s_key = ''l'', s_created = 0, s_links = [], s_ml = None\<rparr>)],
     buckets = [], activity = [], disk = ([], []), disk_ok = True\<rparr>"

definition sample_platform :: platform where
  "sample_platform = \<lparr>pf_idna = (\<lambda>s. None), pf_hash = (\<lambda>s. s), pf_float = (\<lambda>s. None), pf_ingress = sample_ingress,
     pf_lookup = resolve sample_repo, pf_preferred = [], pf_receipt = (\<lambda>p r. True), pf_host = ''app.example.com'', pf_now = 5\<rparr>"

lemma sample_panel_synced: "panel_synced sample_panel"
  by (rule syncedI) (auto simp: sample_panel_def sample_link_def members_def dict_ok_def split: if_splits)

lemma membership_agrees_witness: "distinct [''u'']"
proof -
  let ?p = "snd (set_link_sub sample_platform ''u'' (Some ''b'') sample_panel)"
  have r: "reaches panel_synced reg_step ?p"
    by (rule reaches.next_step, rule reaches.init, rule sample_panel_synced, rule reg_step.set_sub)
  have "map_option s_links (map_of (subs ?p) ''b'') = Some [''u'']" by code_simp
  then obtain s where "map_of (subs ?p) ''b'' = Some s" "s_links s = [''u'']" by auto
  with membership_agrees [OF r] show ?thesis by metis
qed

text \<open>
  The membership endpoint breaks that agreement: adding a configuration that is already in
  another group leaves it listed in both, and taking it out of the first group afterwards
  clears the group it had moved to, although that one still lists it.
\<close>

theorem assign_breaks_membership:
  "\<not> panel_synced (snd (assign_link_to_sub sample_platform ''b'' [(''link_id'', JStr ''u'')] sample_panel))
   \<and> (let p = snd (assign_link_to_sub sample_platform ''a'' [(''link_id'', JStr ''u''), (''action'', JStr ''remove'')]
               (snd (assign_link_to_sub sample_platform ''b'' [(''link_id'', JStr ''u'')] sample_panel)))
      in map_option l_sub (map_of (links p) ''u'') = Some None
         \<and> map_option s_links (map_of (subs p) ''b'') = Some [''u''])"
proof -
  let ?p = "snd (assign_link_to_sub sample_platform ''b'' [(''link_id'', JStr ''u'')] sample_panel)"
  have a: "map_option s_links (map_of (subs ?p) ''a'') = Some [''u'']"
    "map_option l_sub (map_of (links ?p) ''u'') = Some (Some ''b'')" by code_simp+
  have "\<not> panel_synced ?p"
  proof
    assume s: "panel_synced ?p"
    from a obtain x l where x: "map_of (subs ?p) ''a'' = Some x" "s_links x = [''u'']"
      and l: "map_of (links ?p) ''u'' = Some l" "l_sub l = Some ''b''" by auto
    from syncedD [OF s x(1)] x(2) have "''u'' \<in> members (links ?p) ''a''" by auto
    with l show False by (simp add: members_def)
  qed
  moreover have "(let p = snd (assign_link_to_sub sample_platform ''a'' [(''link_id'', JStr ''u''), (''action'', JStr ''remove'')] ?p)
      in map_option l_sub (map_of (links p) ''u'') = Some None
         \<and> map_option s_links (map_of (subs p) ''b'') = Some [''u''])" by code_simp
  ultimately show ?thesis by simp
qed

lemma exit_cases:
  assumes "normalize_exit_proxy lookup mode proxy_id custom = Inr (m, i, u)"
  shows "m = lower (if mode = [] then ''direct'' else mode)
    \<and> (m = ''direct'' \<and> i = [] \<and> u = []
     \<or> m = ''repository'' \<and> i = strip proxy_id \<and> i \<noteq> [] \<and> lookup i \<noteq> None \<and> u = []
     \<or> m = ''custom'' \<and> i = [] \<and> validate_url custom = Inr u)"
  using assms by (auto simp: normalize_exit_proxy_def Let_def simp del: not_None_eq split: if_splits sum.splits)

lemma given_cases: "normalize_if_given f t = Inr v \<Longrightarrow> (if strip t = [] then v = [] else f t = Inr v)"
  by (auto simp: normalize_if_given_def fail_with_def split: if_splits sum.splits)

lemma fingerprint_asked: "clean_fingerprint t \<in> set FINGERPRINTS"
  "lower (strip t) \<in> set FINGERPRINTS \<Longrightarrow> clean_fingerprint t = lower (strip t)"
proof -
  show "clean_fingerprint t \<in> set FINGERPRINTS"
    by (auto simp: clean_fingerprint_def Let_def DEFAULT_FINGERPRINT_def FINGERPRINTS_def)
  have "lower (strip []) \<notin> set FINGERPRINTS" by code_simp
  then show "lower (strip t) \<in> set FINGERPRINTS \<Longrightarrow> clean_fingerprint t = lower (strip t)"
    by (cases "t = []") (simp_all add: clean_fingerprint_def Let_def)
qed

text \<open>
  C30. A created configuration is the one that was asked for, checked: its identity is the asked UUID or the
  fresh one, and was not in use; it is active and unused; its volume, device and speed limits are
  the asked ones (negative ones count as none), and its expiry, group, address and TLS name the asked ones,
  normalised. Its port is the asked one when that is in range, else 443, its fingerprint is from the list, its
  transport one that can run. Its exit is the asked mode: direct, a proxy that is in the repository, or
  a custom URL that was validated (HTTP, HTTPS or SOCKS5 with a host and a port). Whatever was there before is
  unchanged, and memory is what is on disk.
\<close>

theorem created_link_checked:
  assumes "make_link pf new_uid q p = (Inr uid, p')"
  shows "map_of (links p) uid = None
    \<and> (\<exists>u. normalize_requested_uuid (q_uuid q) = Some u \<and> uid = (if u = [] then new_uid else u))
    \<and> (\<exists>l. map_of (links p') uid = Some l \<and> l_active l \<and> l_used l = 0
         \<and> l_limit l = max 0 (q_limit q) \<and> l_ip_limit l = max 0 (q_ip_limit q) \<and> l_speed l = max 0 (q_speed q)
         \<and> l_expires l = q_expires q \<and> l_sub l = q_sub q
         \<and> (if strip (q_address q) = [] then l_address l = [] else normalize_address (pf_idna pf) (q_address q) = Inr (l_address l))
         \<and> (if strip (q_sni q) = [] then l_sni l = [] else normalize_sni (pf_idna pf) (q_sni q) = Inr (l_sni l))
         \<and> l_port l = (case q_port q of None \<Rightarrow> 443
              | Some n \<Rightarrow> if l_protocol l \<noteq> ''vless-tcp'' \<and> 1 \<le> n \<and> n \<le> 65535 then n else 443)
         \<and> l_fingerprint l \<in> set FINGERPRINTS
         \<and> (lower (strip (q_fingerprint q)) \<in> set FINGERPRINTS \<longrightarrow> l_fingerprint l = lower (strip (q_fingerprint q)))
         \<and> l_protocol l = strip (q_protocol q) \<and> l_settings l = []
         \<and> (l_protocol l = ''vless-ws'' \<or> l_protocol l = ''vless-tcp'' \<and> ready (depl (pf_ingress pf)) \<and> running (lst (pf_ingress pf)))
         \<and> l_mode l = lower (if q_mode q = [] then ''direct'' else q_mode q)
         \<and> (l_mode l = ''direct'' \<and> l_proxy l = [] \<and> l_custom l = []
          \<or> l_mode l = ''repository'' \<and> l_proxy l = strip (q_proxy q) \<and> l_proxy l \<noteq> [] \<and> pf_lookup pf (l_proxy l) \<noteq> None \<and> l_custom l = []
          \<or> l_mode l = ''custom'' \<and> l_proxy l = [] \<and> validate_url (q_custom q) = Inr (l_custom l)
             \<and> (\<exists>s n h port. l_custom l = s @ ''://'' @ n \<and> s \<in> {''http'', ''https'', ''socks5''} \<and> hostname n = Some h
                  \<and> port_of n = Inr (Some port) \<and> 1 \<le> port \<and> port \<le> 65535)))
    \<and> (\<forall>u. u \<noteq> uid \<longrightarrow> map_of (links p') u = map_of (links p) u)
    \<and> disk p' = (links p', subs p')"
proof -
  from assms obtain l where c: "check_link pf new_uid p q = Inr (uid, l)"
    and p': "p' = log_activity ''link'' ''ok'' (snd (save_state (in_group (q_sub q) (add_member uid)
        (p\<lparr>links := AList.update uid l (links p)\<rparr>))))"
    and d: "disk_ok (in_group (q_sub q) (add_member uid) (p\<lparr>links := AList.update uid l (links p)\<rparr>))"
    by (auto simp: make_link_def Let_def save_strict_def save_state_def split: sum.splits prod.splits if_splits)
  from c obtain protocol settings address sni m i t u where
    v: "transport_validate (pf_ingress pf) (q_protocol q) (q_settings q) = Inr (protocol, settings)"
    and a: "normalize_if_given (normalize_address (pf_idna pf)) (q_address q) = Inr address"
    and s: "normalize_if_given (normalize_sni (pf_idna pf)) (q_sni q) = Inr sni"
    and ex: "normalize_exit_proxy (pf_lookup pf) (q_mode q) (q_proxy q) (q_custom q) = Inr (m, i, t)"
    and u: "normalize_requested_uuid (q_uuid q) = Some u" "uid = (if u = [] then new_uid else u)"
    and n: "map_of (links p) uid = None" and l: "l = new_link pf q protocol settings address sni (m, i, t)"
    by (auto simp: check_link_def and_then_Inr fail_with_def split: if_splits prod.splits sum.splits option.splits)
  note facts = given_cases[OF a] given_cases[OF s] exit_cases[OF ex] fingerprint_asked[of "q_fingerprint q"]
    validate_only_runnable[OF v] validate_url_facts[of "q_custom q" t]
  have fields: "l_active l" "l_used l = 0" "l_limit l = max 0 (q_limit q)" "l_ip_limit l = max 0 (q_ip_limit q)"
      "l_speed l = max 0 (q_speed q)" "l_expires l = q_expires q" "l_sub l = q_sub q" "l_address l = address" "l_sni l = sni"
      "l_fingerprint l = clean_fingerprint (q_fingerprint q)" "l_protocol l = protocol" "l_settings l = settings"
      "l_mode l = m" "l_proxy l = i" "l_custom l = t"
      "l_port l = (case q_port q of None \<Rightarrow> 443 | Some n \<Rightarrow> if protocol \<noteq> ''vless-tcp'' \<and> 1 \<le> n \<and> n \<le> 65535 then n else 443)"
    by (simp_all add: l new_link_def Let_def clean_port_def DEFAULT_PORT_def split: option.split)
  have stored: "map_of (links p') uid = Some l" "\<forall>u. u \<noteq> uid \<longrightarrow> map_of (links p') u = map_of (links p) u"
      "disk p' = (links p', subs p')"
    using p' d by (simp_all add: save_state_def)
  have custom: "m = ''custom'' \<Longrightarrow> \<exists>s n h port. t = s @ ''://'' @ n \<and> s \<in> {''http'', ''https'', ''socks5''} \<and> hostname n = Some h
      \<and> port_of n = Inr (Some port) \<and> 1 \<le> port \<and> port \<le> 65535"
    using facts(3,7) by auto
  show ?thesis
  proof (intro conjI exI[of _ l] exI[of _ u])
    show "l_mode l = ''direct'' \<and> l_proxy l = [] \<and> l_custom l = []
        \<or> l_mode l = ''repository'' \<and> l_proxy l = strip (q_proxy q) \<and> l_proxy l \<noteq> [] \<and> pf_lookup pf (l_proxy l) \<noteq> None \<and> l_custom l = []
        \<or> l_mode l = ''custom'' \<and> l_proxy l = [] \<and> validate_url (q_custom q) = Inr (l_custom l)
           \<and> (\<exists>s n h port. l_custom l = s @ ''://'' @ n \<and> s \<in> {''http'', ''https'', ''socks5''} \<and> hostname n = Some h
                \<and> port_of n = Inr (Some port) \<and> 1 \<le> port \<and> port \<le> 65535)"
      unfolding fields using facts(3) custom by argo
    show "l_port l = (case q_port q of None \<Rightarrow> 443
              | Some n \<Rightarrow> if l_protocol l \<noteq> ''vless-tcp'' \<and> 1 \<le> n \<and> n \<le> 65535 then n else 443)"
      unfolding fields(11) by (rule fields(16))
    show "l_mode l = lower (if q_mode q = [] then ''direct'' else q_mode q)" using facts(3) fields(13) by (simp only:)
    show "\<forall>u. u \<noteq> uid \<longrightarrow> map_of (links p') u = map_of (links p) u" by (fact stored)
    show "l_protocol l = ''vless-ws'' \<or> l_protocol l = ''vless-tcp'' \<and> ready (depl (pf_ingress pf)) \<and> running (lst (pf_ingress pf))"
      unfolding fields(11) using facts(6) by (elim conjE)
    show "uid = (if u = [] then new_uid else u)" by (fact u)
  qed (use n u(1) stored(1,3) facts(1,2,4,5,6) in \<open>simp_all add: fields\<close>)
qed

text \<open>
  An edit that is refused is not always without effect: with an invalid TLS name in the same
  request the handler answers 400, but the configuration is already switched off and renamed
  in memory, and the next successful save writes that to disk.
\<close>

theorem refused_edit_changes_link:
  "let r = update_link sample_platform ''u'' [(''active'', JBool False), (''label'', JStr ''x''), (''sni'', JStr ''1.2.3.4'')] sample_panel
   in fst r = Inl (Bad_Request (R_Address Sni_Is_Ip))
      \<and> map_option l_active (map_of (links (snd r)) ''u'') = Some False
      \<and> map_option l_label (map_of (links (snd r)) ''u'') = Some ''x''
      \<and> map_option l_active (map_of (fst (disk (snd (save_state (snd r))))) ''u'') = Some False"
  by code_simp

text \<open>
  A save that fails stops the handler but not its effect: the answer is an error, yet the new
  configuration is in memory, is listed in its group, and reaches the disk with the next
  successful save.
\<close>

theorem failed_save_keeps_link:
  assumes "check_link pf new_uid p q = Inr (uid, l)" "\<not> disk_ok p"
  shows "fst (make_link pf new_uid q p) = Inl Save_Failed
    \<and> map_of (links (snd (make_link pf new_uid q p))) uid = Some l
    \<and> map_of (fst (disk (snd (save_state ((snd (make_link pf new_uid q p))\<lparr>disk_ok := True\<rparr>))))) uid = Some l"
proof -
  have "\<not> disk_ok (in_group (q_sub q) (add_member uid) (p\<lparr>links := AList.update uid l (links p)\<rparr>))"
    using assms(2) by (simp add: in_group_def on_sub_def split: option.split)
  then show ?thesis using assms(1) by (simp add: make_link_def Let_def save_strict_def save_state_def)
qed

definition sample_request :: link_request where
  "sample_request = \<lparr>q_label = ''a'', q_limit = 0, q_expires = NoTime, q_note = [], q_remark = [], q_sub = Some ''b'',
     q_protocol = ''vless-ws'', q_settings = JNull, q_security = JStr ''tls'', q_fingerprint = [], q_alpn = [],
     q_port = None, q_ip_limit = 0, q_speed = 0, q_address = [], q_sni = [], q_mode = [], q_proxy = [], q_custom = [],
     q_uuid = []\<rparr>"

lemma sample_request_checked: "\<exists>l. check_link sample_platform ''n'' sample_panel sample_request = Inr (''n'', l)"
proof -
  have "map_option fst (ok_value (check_link sample_platform ''n'' sample_panel sample_request)) = Some ''n''" by code_simp
  then show ?thesis by (cases "check_link sample_platform ''n'' sample_panel sample_request") auto
qed

lemma failed_save_keeps_link_witness:
  "fst (make_link sample_platform ''n'' sample_request (sample_panel\<lparr>disk_ok := False\<rparr>)) = Inl Save_Failed"
proof -
  have "map_option fst (ok_value (check_link sample_platform ''n'' (sample_panel\<lparr>disk_ok := False\<rparr>) sample_request)) = Some ''n''"
    by code_simp
  then obtain l where "check_link sample_platform ''n'' (sample_panel\<lparr>disk_ok := False\<rparr>) sample_request = Inr (''n'', l)"
    by (cases "check_link sample_platform ''n'' (sample_panel\<lparr>disk_ok := False\<rparr>) sample_request") auto
  from failed_save_keeps_link [OF this] show ?thesis by simp
qed

lemma created_link_checked_witness:
  "map_of (links sample_panel) ''n'' = None
   \<and> (\<exists>l. map_of (links (snd (make_link sample_platform ''n'' sample_request sample_panel))) ''n'' = Some l
        \<and> l_limit l = max 0 (q_limit sample_request))"
proof -
  obtain l where c: "check_link sample_platform ''n'' sample_panel sample_request = Inr (''n'', l)"
    using sample_request_checked by blast
  have "disk_ok sample_panel" by (simp add: sample_panel_def)
  then have "fst (make_link sample_platform ''n'' sample_request sample_panel) = Inr ''n''"
    using c by (simp add: make_link_def Let_def save_strict_def save_state_def in_group_def on_sub_def split: option.split)
  then have "make_link sample_platform ''n'' sample_request sample_panel
      = (Inr ''n'', snd (make_link sample_platform ''n'' sample_request sample_panel))"
    by (metis prod.collapse)
  from created_link_checked [OF this] show ?thesis by blast
qed

end
