(* ===== verification/Sessions.thy ===== *)
theory Sessions
  imports Json
begin

text \<open>
  Signing in to the panel (\<open>main.py\<close>): sessions, the four authentication endpoints and the guard of
  every other endpoint. Times are whole microseconds; \<open>hash\<close> is the keyed digest of a password,
  a token is the random text the endpoint draws.
\<close>

section \<open>State and operations\<close>

definition SESSION_TTL :: int where "SESSION_TTL = 60 * 60 * 24 * 365 * 1000000"

record auth =
  password_hash :: string
  sessions :: "(string, int) dict"
  auth_log :: "string list"

datatype auth_error = Unauthorized | Wrong_Password | Wrong_Current | Too_Short

definition create_session :: "int \<Rightarrow> string \<Rightarrow> auth \<Rightarrow> auth" where
  "create_session now token a = a\<lparr>sessions := AList.update token (now + SESSION_TTL) (sessions a)\<rparr>"

definition is_valid_session :: "int \<Rightarrow> string option \<Rightarrow> auth \<Rightarrow> bool \<times> auth" where
  "is_valid_session now token a = (case token of
     None \<Rightarrow> (False, a)
   | Some t \<Rightarrow>
      if t = [] then (False, a)
      else (case map_of (sessions a) t of
          None \<Rightarrow> (False, a)
        | Some ex \<Rightarrow> if ex < now then (False, a\<lparr>sessions := AList.delete t (sessions a)\<rparr>) else (True, a)))"

definition destroy_session :: "string option \<Rightarrow> auth \<Rightarrow> auth" where
  "destroy_session token a = (case token of
     None \<Rightarrow> a | Some t \<Rightarrow> if t = [] then a else a\<lparr>sessions := AList.delete t (sessions a)\<rparr>)"

definition require_auth :: "int \<Rightarrow> string option \<Rightarrow> auth \<Rightarrow> (auth_error + string) \<times> auth" where
  "require_auth now token a = (case is_valid_session now token a of
     (ok, b) \<Rightarrow> (if ok then Inr (the token) else Inl Unauthorized, b))"

definition api_login :: "(string \<Rightarrow> string) \<Rightarrow> int \<Rightarrow> string \<Rightarrow> body \<Rightarrow> auth \<Rightarrow> (auth_error + string) \<times> auth" where
  "api_login hash now token b a =
     (if hash (py_str (jget_def b ''password'' (JStr []))) \<noteq> password_hash a
      then (Inl Wrong_Password, a\<lparr>auth_log := auth_log a @ [''err'']\<rparr>)
      else (let c = create_session now token a in (Inr token, c\<lparr>auth_log := auth_log c @ [''ok'']\<rparr>)))"

definition api_logout :: "string option \<Rightarrow> auth \<Rightarrow> auth" where
  "api_logout token a = destroy_session token a"

definition api_me :: "int \<Rightarrow> string option \<Rightarrow> auth \<Rightarrow> bool \<times> auth" where
  "api_me now token a = is_valid_session now token a"

definition api_change_password :: "(string \<Rightarrow> string) \<Rightarrow> int \<Rightarrow> string option \<Rightarrow> body \<Rightarrow> auth \<Rightarrow>
    (auth_error + unit) \<times> auth" where
  "api_change_password hash now cookie b a = (case require_auth now cookie a of
     (Inl e, c) \<Rightarrow> (Inl e, c)
   | (Inr token, c) \<Rightarrow>
      if hash (py_str (jget_def b ''current_password'' (JStr []))) \<noteq> password_hash c then (Inl Wrong_Current, c)
      else (let new = py_str (jget_def b ''new_password'' (JStr [])) in
        if length new < 4 then (Inl Too_Short, c)
        else (Inr (), c\<lparr>password_hash := hash new, sessions := [(token, now + SESSION_TTL)],
                        auth_log := auth_log c @ [''ok'']\<rparr>)))"

section \<open>Requests and runs\<close>

datatype request =
    Login int string body
  | Logout "string option"
  | Guarded int "string option"
  | Change int "string option" body

fun handle :: "(string \<Rightarrow> string) \<Rightarrow> request \<Rightarrow> auth \<Rightarrow> auth" where
  "handle hash (Login now token b) a = snd (api_login hash now token b a)"
| "handle hash (Logout token) a = api_logout token a"
| "handle hash (Guarded now token) a = snd (require_auth now token a)"
| "handle hash (Change now token b) a = snd (api_change_password hash now token b a)"

definition serve :: "(string \<Rightarrow> string) \<Rightarrow> request list \<Rightarrow> auth \<Rightarrow> auth" where
  "serve hash rs a = fold (handle hash) rs a"

text \<open>
  When a request opens a session: a sign-in with the right password, or a change of the password
  by the session itself. When it closes one: a sign-out, or a change by another session.
\<close>

fun opens :: "(string \<Rightarrow> string) \<Rightarrow> request \<Rightarrow> auth \<Rightarrow> string \<Rightarrow> int \<Rightarrow> bool" where
  "opens hash (Login now token b) a t since \<longleftrightarrow>
     t = token \<and> since = now \<and> hash (py_str (jget_def b ''password'' (JStr []))) = password_hash a"
| "opens hash (Change now token b) a t since \<longleftrightarrow>
     token = Some t \<and> since = now \<and> fst (api_change_password hash now token b a) = Inr ()"
| "opens hash _ a t since \<longleftrightarrow> False"

fun closes :: "(string \<Rightarrow> string) \<Rightarrow> request \<Rightarrow> auth \<Rightarrow> string \<Rightarrow> bool" where
  "closes hash (Logout token) a t \<longleftrightarrow> token = Some t \<and> t \<noteq> []"
| "closes hash (Change now token b) a t \<longleftrightarrow> token \<noteq> Some t \<and> fst (api_change_password hash now token b a) = Inr ()"
| "closes hash _ a t \<longleftrightarrow> False"

lemma sessions_pop: "map_of (sessions (snd (is_valid_session now token a))) t = Some ex \<Longrightarrow> map_of (sessions a) t = Some ex"
  by (auto simp: is_valid_session_def split: option.splits if_splits)

lemma require_pop: "map_of (sessions (snd (require_auth now token a))) t = Some ex \<Longrightarrow> map_of (sessions a) t = Some ex"
  using sessions_pop[of now token a t ex] by (auto simp: require_auth_def split: prod.splits)

lemma require_ok: "require_auth now token a = (Inr t, b) \<Longrightarrow> token = Some t \<and> b = a"
  by (auto simp: require_auth_def is_valid_session_def split: option.splits if_splits)

lemma change_cases:
  obtains e where "api_change_password hash now cookie b a = (Inl e, snd (require_auth now cookie a))"
  | t new where "require_auth now cookie a = (Inr t, a)" "cookie = Some t" "4 \<le> length new"
    "hash (py_str (jget_def b ''current_password'' (JStr []))) = password_hash a"
    "api_change_password hash now cookie b a = (Inr (), a\<lparr>password_hash := hash new,
       sessions := [(t, now + SESSION_TTL)], auth_log := auth_log a @ [''ok'']\<rparr>)"
proof -
  define current where "current = py_str (jget_def b ''current_password'' (JStr []))"
  define new where "new = py_str (jget_def b ''new_password'' (JStr []))"
  obtain q c where q: "require_auth now cookie a = (q, c)" by (cases "require_auth now cookie a")
  have eq: "api_change_password hash now cookie b a = (case q of Inl e \<Rightarrow> (Inl e, c) | Inr t \<Rightarrow>
      if hash current \<noteq> password_hash c then (Inl Wrong_Current, c)
      else if length new < 4 then (Inl Too_Short, c)
      else (Inr (), c\<lparr>password_hash := hash new, sessions := [(t, now + SESSION_TTL)], auth_log := auth_log c @ [''ok'']\<rparr>))"
    unfolding api_change_password_def q current_def new_def Let_def by simp
  show thesis
  proof (cases q)
    case (Inl e)
    then show thesis using that(1) eq q by simp
  next
    case (Inr t)
    with q have "cookie = Some t" "c = a" using require_ok by blast+
    then show thesis
      using that(1)[of Wrong_Current] that(1)[of Too_Short] that(2)[of t new] eq q Inr unfolding current_def[symmetric]
      by (cases "hash current = password_hash a"; cases "length new < 4"; simp)
  qed
qed

lemma login_sessions: "sessions (snd (api_login hash now token b a)) =
   (if hash (py_str (jget_def b ''password'' (JStr []))) = password_hash a
    then AList.update token (now + SESSION_TTL) (sessions a) else sessions a)"
  by (simp only: api_login_def create_session_def Let_def split: if_split) simp

lemma handle_sessions: "map_of (sessions (handle hash r a)) t = Some ex \<Longrightarrow>
   (\<exists>since. ex = since + SESSION_TTL \<and> opens hash r a t since) \<or> map_of (sessions a) t = Some ex \<and> \<not> closes hash r a t"
proof (cases r)
  case (Login now token b)
  assume "map_of (sessions (handle hash r a)) t = Some ex"
  moreover define pw where "pw = hash (py_str (jget_def b ''password'' (JStr [])))"
  ultimately show ?thesis unfolding Login handle.simps login_sessions opens.simps closes.simps pw_def[symmetric]
    by (cases "t = token"; cases "pw = password_hash a") simp_all
next
  case (Logout token)
  assume "map_of (sessions (handle hash r a)) t = Some ex"
  then show ?thesis using Logout
    by (auto simp: api_logout_def destroy_session_def split: option.splits if_splits)
next
  case (Guarded now token)
  assume "map_of (sessions (handle hash r a)) t = Some ex"
  then show ?thesis unfolding Guarded handle.simps opens.simps closes.simps using require_pop by blast
next
  case (Change now token b)
  assume ex: "map_of (sessions (handle hash r a)) t = Some ex"
  show ?thesis
  proof (cases rule: change_cases[of hash now token b a])
    case (1 e)
    show ?thesis using ex require_pop[of now token a t ex]
      unfolding Change handle.simps opens.simps closes.simps 1 by simp
  next
    case (2 u new)
    show ?thesis using ex 2(2) unfolding Change handle.simps opens.simps closes.simps 2(5)
      by (cases "t = u") simp_all
  qed
qed

text \<open>
  C38. A request passes the guard only with a session: whatever requests came before, the token was
  issued by a sign-in with the password of that moment (or renewed by its own change of the
  password), at most a year ago, and no later request signed it out or changed the password
  from another session.
\<close>

theorem guard_needs_session:
  assumes "fst (require_auth now cookie (serve hash rs \<lparr>password_hash = h, sessions = [], auth_log = []\<rparr>)) = Inr t"
  shows "\<exists>before r after since. rs = before @ r # after \<and> cookie = Some t \<and> now \<le> since + SESSION_TTL
    \<and> opens hash r (serve hash before \<lparr>password_hash = h, sessions = [], auth_log = []\<rparr>) t since
    \<and> (\<forall>i < length after. \<not> closes hash (after ! i)
          (serve hash (before @ r # take i after) \<lparr>password_hash = h, sessions = [], auth_log = []\<rparr>) t)"
proof -
  let ?a = "\<lparr>password_hash = h, sessions = [], auth_log = []\<rparr>"
  have run: "\<exists>before r after since. rs = before @ r # after \<and> ex = since + SESSION_TTL \<and> opens hash r (serve hash before ?a) t since
      \<and> (\<forall>i < length after. \<not> closes hash (after ! i) (serve hash (before @ r # take i after) ?a) t)"
    if "map_of (sessions (serve hash rs ?a)) t = Some ex" for rs ex
    using that
  proof (induction rs rule: rev_induct)
    case Nil
    then show ?case by (simp add: serve_def)
  next
    case (snoc q rs)
    then have "map_of (sessions (handle hash q (serve hash rs ?a))) t = Some ex" by (simp add: serve_def)
    from handle_sessions[OF this] show ?case
    proof
      assume "\<exists>since. ex = since + SESSION_TTL \<and> opens hash q (serve hash rs ?a) t since"
      then obtain since where "ex = since + SESSION_TTL" "opens hash q (serve hash rs ?a) t since" by blast
      then show ?case by (intro exI[of _ rs] exI[of _ q] exI[of _ "[]"] exI[of _ since]) simp
    next
      assume kept: "map_of (sessions (serve hash rs ?a)) t = Some ex \<and> \<not> closes hash q (serve hash rs ?a) t"
      then obtain p r s since where d: "rs = p @ r # s" "ex = since + SESSION_TTL" "opens hash r (serve hash p ?a) t since"
          "\<forall>i < length s. \<not> closes hash (s ! i) (serve hash (p @ r # take i s) ?a) t"
        using snoc.IH by blast
      have "\<not> closes hash ((s @ [q]) ! i) (serve hash (p @ r # take i (s @ [q])) ?a) t" if "i < length (s @ [q])" for i
        using that d(1,4) kept by (cases "i < length s") (auto simp: nth_append less_Suc_eq)
      then show ?case using d by (intro exI[of _ p] exI[of _ r] exI[of _ "s @ [q]"] exI[of _ since]) auto
    qed
  qed
  have "cookie = Some t \<and> (\<exists>ex. map_of (sessions (serve hash rs ?a)) t = Some ex \<and> now \<le> ex)"
    using assms by (auto simp: require_auth_def is_valid_session_def split: option.splits if_splits)
  then obtain ex where ex: "cookie = Some t" "map_of (sessions (serve hash rs ?a)) t = Some ex" "now \<le> ex" by blast
  from run[OF ex(2)] ex(1,3) show ?thesis by blast
qed

lemma guard_needs_session_witness:
  "\<exists>since. (7::int) \<le> since + SESSION_TTL"
proof -
  have "fst (require_auth 7 (Some ''tok'') (serve (\<lambda>p. p) [Login 5 ''tok'' [(''password'', JStr ''pw'')]]
      \<lparr>password_hash = ''pw'', sessions = [], auth_log = []\<rparr>)) = Inr ''tok''" by code_simp
  from guard_needs_session[OF this] show ?thesis by blast
qed

text \<open>
  Changing the password signs every other session out: afterwards only the session that asked
  for it is accepted, and it needed the current password and a new one of four characters.
\<close>

theorem change_signs_others_out:
  assumes "api_change_password hash now cookie b a = (Inr (), a')"
  shows "(\<forall>later t. fst (is_valid_session later (Some t) a') \<longrightarrow> cookie = Some t)
    \<and> fst (is_valid_session now cookie a')
    \<and> hash (py_str (jget_def b ''current_password'' (JStr []))) = password_hash a
    \<and> (\<exists>new. 4 \<le> length new \<and> password_hash a' = hash new)"
proof -
  obtain t new where r: "require_auth now cookie a = (Inr t, a)" "cookie = Some t" "4 \<le> length new"
      "hash (py_str (jget_def b ''current_password'' (JStr []))) = password_hash a"
      "a' = a\<lparr>password_hash := hash new, sessions := [(t, now + SESSION_TTL)], auth_log := auth_log a @ [''ok'']\<rparr>"
    using assms by (cases rule: change_cases[of hash now cookie b a]) auto
  have "t \<noteq> []" using r by (auto simp: require_auth_def is_valid_session_def split: option.splits if_splits)
  moreover have "0 \<le> SESSION_TTL" by (simp add: SESSION_TTL_def)
  ultimately show ?thesis using r by (auto simp: is_valid_session_def split: if_splits)
qed

lemma change_signs_others_out_witness:
  "\<not> fst (is_valid_session 8 (Some ''other'') (snd (api_change_password (\<lambda>p. p) 7 (Some ''tok'')
     [(''current_password'', JStr ''pw''), (''new_password'', JStr ''long'')]
     \<lparr>password_hash = ''pw'', sessions = [(''tok'', 9), (''other'', 99)], auth_log = []\<rparr>)))"
proof -
  have "api_change_password (\<lambda>p. p) 7 (Some ''tok'')
     [(''current_password'', JStr ''pw''), (''new_password'', JStr ''long'')]
     \<lparr>password_hash = ''pw'', sessions = [(''tok'', 9), (''other'', 99)], auth_log = []\<rparr>
     = (Inr (), \<lparr>password_hash = ''long'', sessions = [(''tok'', 7 + SESSION_TTL)], auth_log = [''ok'']\<rparr>)"
    by code_simp
  from change_signs_others_out[OF this] this show ?thesis by auto
qed

end
