(* ===== verification/Probe_Results.thy ===== *)
theory Probe_Results
  imports Performance Countries Net_Address
begin

text \<open>
  Measurements of proxies (\<open>main.py\<close>): the cleaning of a test result before it is kept, and the
  counting of samples. A result is a JSON object, whether it comes from a probe, from a saved state
  or from a client. \<open>shown\<close> is the text of a float, \<open>float_of\<close> the float of a text.
\<close>

section \<open>Cleaning\<close>

definition safe_diag_text :: "nat \<Rightarrow> json \<Rightarrow> string" where
  "safe_diag_text limit value = before CHR ''?'' (take limit (filter is_printable (text_or_empty value)))"

definition ms_json :: "(rat \<Rightarrow> string) \<Rightarrow> rat option \<Rightarrow> json" where
  "ms_json shown m = (case m of None \<Rightarrow> JNull | Some r \<Rightarrow> JFloat r (shown r))"

text \<open>A Python \<open>bool\<close> is an \<open>int\<close>.\<close>

definition clean_status :: "json \<Rightarrow> json" where
  "clean_status j = (case j of
     JInt i \<Rightarrow> if 0 \<le> i \<and> i \<le> 999 then JInt i else JNull
   | JBool b \<Rightarrow> JInt (if b then 1 else 0)
   | _ \<Rightarrow> JNull)"

definition clean_check :: "(rat \<Rightarrow> string) \<Rightarrow> (string \<Rightarrow> rat option) \<Rightarrow> string \<Rightarrow> body \<Rightarrow> body" where
  "clean_check shown float_of target item =
     (let ms = (\<lambda>k. bounded_ms float_of (jget item k));
          total = (case ms ''total_ms'' of Some r \<Rightarrow> Some r | None \<Rightarrow> ms ''latency_ms'')
      in [(''target'', JStr target),
          (''ok'', JBool (truthy (jget item ''ok''))),
          (''status'', clean_status (jget item ''status'')),
          (''connect_ms'', ms_json shown (ms ''connect_ms'')),
          (''handshake_ms'', ms_json shown (ms ''handshake_ms'')),
          (''request_ms'', ms_json shown (ms ''request_ms'')),
          (''total_ms'', ms_json shown total),
          (''latency_ms'', ms_json shown total),
          (''error'', if truthy (jget item ''ok'') then JNull else JStr (safe_diag_text 80 (jget item ''error'')))])"

text \<open>
  The items a \<open>for\<close> loop over \<open>result.get("checks") or []\<close> sees that can be dictionaries; \<open>None\<close> is
  the TypeError of a value that cannot be iterated. Characters and keys are never dictionaries.
\<close>

definition loop_items :: "json \<Rightarrow> json list option" where
  "loop_items j = (if \<not> truthy j then Some [] else
     case j of JArr xs \<Rightarrow> Some xs | JStr s \<Rightarrow> Some [] | JObj kvs \<Rightarrow> Some [] | _ \<Rightarrow> None)"

fun by_target :: "(rat \<Rightarrow> string) \<Rightarrow> (string \<Rightarrow> rat option) \<Rightarrow> (string, body) dict \<Rightarrow> json list \<Rightarrow> (string, body) dict" where
  "by_target shown float_of done_items [] = done_items"
| "by_target shown float_of done_items (j # js) = (case fields j of
     None \<Rightarrow> by_target shown float_of done_items js
   | Some item \<Rightarrow>
       (let target = text_or_empty (jget item ''target'') in
        if target \<notin> set REQUIRED_TARGETS \<or> map_of done_items target \<noteq> None
        then by_target shown float_of done_items js
        else by_target shown float_of (AList.update target (clean_check shown float_of target item) done_items) js))"

definition clean_counts :: "json \<Rightarrow> json \<Rightarrow> bool \<Rightarrow> int \<times> int" where
  "clean_counts samples successes good =
     (case (py_int (or_else samples (JInt 1)), py_int (or_else successes (JInt (if good then 1 else 0)))) of
        (Some sc, Some su) \<Rightarrow> (let n = clamp 1 10000 sc in (n, clamp 0 n su))
      | _ \<Rightarrow> (1, if good then 1 else 0))"

definition clean_exit_ip :: "json \<Rightarrow> string" where
  "clean_exit_ip j = (let t = strip (text_or_empty j) in
     if t = [] then [] else (case ip_address t of Some a \<Rightarrow> compressed a | None \<Rightarrow> []))"

text \<open>\<open>bool(probe_ok)\<close>: the probe's own answer, or the stored status when the key is missing.\<close>

definition probe_ok :: "body \<Rightarrow> bool" where
  "probe_ok result = (case jget result ''ok'' of
     JNull \<Rightarrow> jget result ''overall_status'' = JStr ''healthy'' | j \<Rightarrow> truthy j)"

definition assemble :: "string \<Rightarrow> body \<Rightarrow> body list \<Rightarrow> bool \<Rightarrow> int \<times> int \<Rightarrow> body" where
  "assemble proxy_id result checks good counts =
     [(''proxy_id'', JStr proxy_id),
      (''country'', JStr (safe_diag_text 80 (jget result ''country''))),
      (''overall_status'', JStr (if good then ''healthy'' else ''unhealthy'')),
      (''tested_at'', JStr (safe_diag_text 48 (jget result ''tested_at''))),
      (''checks'', JArr (map JObj checks)),
      (''exit_ip'', JStr (clean_exit_ip (jget result ''exit_ip''))),
      (''exit_location'', JStr (safe_diag_text 160 (jget result ''exit_location''))),
      (''exit_country_code'', JStr (snd (normalize_country (text_or_empty (jget result ''exit_country_code''))))),
      (''sample_count'', JInt (fst counts)),
      (''success_count'', JInt (snd counts))]"

datatype reading = Raised | Rejected | Safe body

definition sanitize_proxy_test_result :: "(rat \<Rightarrow> string) \<Rightarrow> (string \<Rightarrow> rat option) \<Rightarrow> json \<Rightarrow> json \<Rightarrow> reading" where
  "sanitize_proxy_test_result shown float_of pid_value value =
     (let proxy_id = strip (text_or_empty pid_value) in
      case fields value of
        None \<Rightarrow> Rejected
      | Some result \<Rightarrow>
          if proxy_id = [] \<or> text_or_empty (jget result ''proxy_id'') \<noteq> proxy_id then Rejected
          else (case loop_items (jget result ''checks'') of
              None \<Rightarrow> Raised
            | Some items \<Rightarrow>
                (let found = by_target shown float_of [] items in
                 if \<not> list_all (\<lambda>t. map_of found t \<noteq> None) REQUIRED_TARGETS then Rejected
                 else (let checks = map (\<lambda>t. the (map_of found t)) REQUIRED_TARGETS;
                           good = (probe_ok result \<and> list_all (\<lambda>c. truthy (jget c ''ok'')) checks);
                           counts = clean_counts (jget result ''sample_count'') (jget result ''success_count'') good;
                           safe = assemble proxy_id result checks good counts
                       in if \<not> good then Safe (safe @ [(''score'', JInt 0)])
                          else (case performance_score float_of safe of
                              None \<Rightarrow> Raised
                            | Some sc \<Rightarrow> Safe (safe @ [(''score'', JInt sc)]))))))"

section \<open>Counting samples\<close>

definition previous_counts :: "json option \<Rightarrow> int \<times> int" where
  "previous_counts previous = (let p = (case Option.bind previous fields of None \<Rightarrow> [] | Some b \<Rightarrow> b) in
     case (py_int (or_else (jget p ''sample_count'') (JInt 0)), py_int (or_else (jget p ''success_count'') (JInt 0))) of
       (Some sc, Some su) \<Rightarrow> (let n = clamp 0 9999 sc in (n, clamp 0 n su))
     | _ \<Rightarrow> (0, 0))"

text \<open>\<open>{**raw_result, ...}\<close>: the five fields the panel decides.\<close>

definition raw_with_counts :: "string \<Rightarrow> string \<Rightarrow> string \<Rightarrow> int \<times> int \<Rightarrow> body \<Rightarrow> body" where
  "raw_with_counts proxy_id cname stamp counts raw =
     AList.update ''success_count'' (JInt (snd counts + (if truthy (jget raw ''ok'') then 1 else 0)))
      (AList.update ''sample_count'' (JInt (fst counts + 1))
        (AList.update ''tested_at'' (JStr stamp)
          (AList.update ''country'' (JStr cname)
            (AList.update ''proxy_id'' (JStr proxy_id) raw))))"

definition store_proxy_test_result :: "(rat \<Rightarrow> string) \<Rightarrow> (string \<Rightarrow> rat option) \<Rightarrow> string \<Rightarrow>
    string \<Rightarrow> string \<Rightarrow> body \<Rightarrow> bool \<Rightarrow> (string, json) dict \<Rightarrow> body option \<times> (string, json) dict" where
  "store_proxy_test_result shown float_of stamp proxy_id cname raw persist tests =
     (case sanitize_proxy_test_result shown float_of (JStr proxy_id)
         (JObj (raw_with_counts proxy_id cname stamp (previous_counts (map_of tests proxy_id)) raw)) of
        Safe b \<Rightarrow> (Some b, if persist then AList.update proxy_id (JObj b) tests else tests)
      | _ \<Rightarrow> (None, tests))"

section \<open>Texts, times and codes that were cleaned once\<close>

lemma takeWhile_take: "takeWhile p (take n s) = take (length (takeWhile p (take n s))) s"
  by (metis length_takeWhile_le length_take min.bounded_iff take_take takeWhile_eq_take min_absorb1)

lemma safe_diag_text_idem [simp]: "safe_diag_text n (JStr (safe_diag_text n j)) = safe_diag_text n j"
proof -
  let ?t = "take n (filter is_printable (text_or_empty j))"
  have "set (safe_diag_text n j) \<subseteq> set ?t"
    unfolding safe_diag_text_def before_def by (rule subsetI) (rule set_takeWhileD [THEN conjunct1])
  then have "filter is_printable (safe_diag_text n j) = safe_diag_text n j"
    by (intro filter_True) (auto dest!: in_set_takeD)
  moreover have "length (safe_diag_text n j) \<le> n"
    unfolding safe_diag_text_def before_def
    by (rule order_trans[OF length_takeWhile_le]) simp
  moreover have "before CHR ''?'' (safe_diag_text n j) = safe_diag_text n j"
    by (simp add: safe_diag_text_def before_def)
  ultimately show ?thesis
    by (subst safe_diag_text_def) simp
qed

lemma clean_status_idem [simp]: "clean_status (clean_status j) = clean_status j"
  by (auto simp: clean_status_def split: json.splits)

lemma round_even_int [simp]: "round_even (of_int i) = i"
  by (simp add: round_even_def)

lemma round3_idem [simp]: "round3 (round3 r) = round3 r"
  by (simp add: round3_def)

lemma round_even_bounds: "of_int a \<le> r \<Longrightarrow> r \<le> of_int b \<Longrightarrow> a \<le> round_even r \<and> round_even r \<le> b"
proof -
  assume h: "of_int a \<le> r" "r \<le> of_int b"
  have "a \<le> \<lfloor>r\<rfloor>" using h(1) by (simp add: le_floor_iff)
  moreover have "\<lfloor>r\<rfloor> \<le> b" using h(2) floor_mono[of r "of_int b"] by simp
  moreover have "\<lfloor>r\<rfloor> + 1 \<le> b" if "r \<noteq> of_int \<lfloor>r\<rfloor>"
  proof -
    have "of_int \<lfloor>r\<rfloor> < r" using that of_int_floor_le[of r] by linarith
    then have "of_int \<lfloor>r\<rfloor> < (of_int b :: rat)" using h(2) by linarith
    then show ?thesis by simp
  qed
  ultimately show ?thesis by (auto simp: round_even_def Let_def)
qed

lemma round3_bounds: "0 \<le> r \<Longrightarrow> r \<le> MAX_METRIC_MS \<Longrightarrow> 0 \<le> round3 r \<and> round3 r \<le> MAX_METRIC_MS"
  using round_even_bounds[of 0 "r * 1000" "120000000"] by (simp add: round3_def MAX_METRIC_MS_def)

lemma bounded_ms_range: "bounded_ms f j = Some r \<Longrightarrow> 0 \<le> r \<and> r \<le> MAX_METRIC_MS \<and> round3 r = r"
  using round3_bounds by (fastforce simp: bounded_ms_def split: option.splits if_splits)

lemma ms_json_None [simp]: "ms_json shown None = JNull"
  by (simp add: ms_json_def)

lemma bounded_ms_null [simp]: "bounded_ms f JNull = None"
  by (simp add: bounded_ms_def)

lemma bounded_ms_again: "bounded_ms f j = Some r \<Longrightarrow> bounded_ms f (JFloat r t) = Some r"
  using bounded_ms_range[of f j r] by (simp add: bounded_ms_def)

lemma ms_json_again [simp]: "ms_json shown (bounded_ms f (ms_json shown (bounded_ms f j))) = ms_json shown (bounded_ms f j)"
  by (cases "bounded_ms f j") (simp_all add: ms_json_def bounded_ms_again)


text \<open>The compressed text of an address with a scope is read back as well.\<close>

lemma strip_ends: "s \<noteq> [] \<Longrightarrow> \<not> is_space (hd s) \<Longrightarrow> \<not> is_space (last s) \<Longrightarrow> strip s = s"
proof -
  assume a: "s \<noteq> []" "\<not> is_space (hd s)" "\<not> is_space (last s)"
  have id: "w \<noteq> [] \<Longrightarrow> \<not> is_space (hd w) \<Longrightarrow> dropWhile is_space w = w" for w by (cases w) auto
  show ?thesis using a id[of s] id[of "rev s"] by (simp add: strip_def strip_by_def rstrip_by_def hd_rev)
qed

lemma strip_last: "strip s \<noteq> [] \<Longrightarrow> \<not> is_space (last (strip s))"
  using dropWhile_hd_drop[of is_space "rev (dropWhile is_space s)"]
  by (auto simp: strip_def strip_by_def rstrip_by_def last_rev)

lemma before_after: "c \<in> set s \<Longrightarrow> s = before c s @ c # after c s"
  by (induction s) (auto simp: before_def after_def)

lemma before_append: "c \<notin> set a \<Longrightarrow> before c (a @ c # b) = a \<and> after c (a @ c # b) = b"
  by (induction a) (auto simp: before_def after_def)

lemma before_plain: "c \<notin> set a \<Longrightarrow> before c a = a"
  by (induction a) (auto simp: before_def)

lemma show_groups_chars:
  assumes "length gs = 8" "list_all (\<lambda>n. n < 65536) gs"
  shows "list_all ip_char (show_groups gs) \<and> show_groups gs \<noteq> []"
  using compressed_text[of "V6 gs None"] assms by simp

lemma ip_char_not: "ip_char c \<Longrightarrow> c \<noteq> CHR ''%'' \<and> c \<noteq> CHR ''/'' \<and> \<not> is_space c"
  by (auto simp: ip_char_def is_hex_def is_decimal_def is_space_def Let_def)

lemma ip_address_again:
  assumes "ip_address s = Some a" "strip s = s"
  shows "ip_address (compressed a) = Some a \<and> strip (compressed a) = compressed a \<and> compressed a \<noteq> []"
proof (cases "\<exists>gs z. a = V6 gs (Some z)")
  case False
  then have plain: "ip_ok a" "\<And>gs z. a \<noteq> V6 gs (Some z)" using ip_address_ok assms by auto
  have "\<not> is_space c" if "c \<in> set (compressed a)" for c
    using compressed_text[OF plain] that ip_char_not[of c] by (auto simp: list_all_iff)
  then show ?thesis using ip_address_compressed[OF plain] compressed_text[OF plain] strip_no_space by blast
next
  case True
  then obtain gs z where a: "a = V6 gs (Some z)" by blast
  then have p6: "parse_ipv6 s = Some (V6 gs (Some z))"
    using assms by (auto simp: ip_address_def split: option.splits if_splits)
  then have z: "CHR ''%'' \<in> set s" "CHR ''/'' \<notin> set s" "z = after CHR ''%'' s" "z \<noteq> []" "CHR ''%'' \<notin> set z"
    by (auto simp: parse_ipv6_def Let_def split: if_splits option.splits)
  have s: "s = before CHR ''%'' s @ CHR ''%'' # z" using before_after z by metis
  have ok: "length gs = 8" "list_all (\<lambda>n. n < 65536) gs" using ip_address_ok[OF assms(1)] a by auto
  have g: "list_all ip_char (show_groups gs)" "show_groups gs \<noteq> []" using show_groups_chars[OF ok] by auto
  have nopct: "CHR ''%'' \<notin> set (show_groups gs)" "CHR ''/'' \<notin> set (show_groups gs)"
    using g ip_char_not by (auto simp: list_all_iff)
  have r: "parse_ipv6 (show_groups gs) = Some (V6 gs None)" "CHR '':'' \<in> set (show_groups gs)"
    using parse_ipv6_show[OF ok] by auto
  let ?t = "show_groups gs @ CHR ''%'' # z"
  have "CHR ''/'' \<notin> set z" using z(2) s by (metis Un_iff set_append list.set_intros(2))
  then have "CHR ''/'' \<notin> set ?t" using nopct by auto
  moreover obtain ps where ps: "v6_parts (show_groups gs) = Some ps" "v6_groups ps = Some gs"
    using r(1) nopct by (auto simp: parse_ipv6_def before_plain split: option.splits)
  ultimately have p: "parse_ipv6 ?t = Some (V6 gs (Some z))"
    using before_append[OF nopct(1), of z] ps z by (simp add: parse_ipv6_def)
  have "parse_ipv4 ?t = None" by (rule parse_ipv4_colon) (use r(2) in auto)
  then have "ip_address ?t = Some a" using p a by (simp add: ip_address_def)
  moreover have "last ?t = last s" using s z(4) by (metis last_appendR list.distinct(1) last_ConsR)
  then have "strip ?t = ?t"
    using strip_last[of s] assms(2) g ip_char_not[of "hd (show_groups gs)"] s
    by (intro strip_ends) (force simp: list_all_iff)+
  ultimately show ?thesis using a g by simp
qed

lemma clean_exit_ip_again [simp]: "clean_exit_ip (JStr (clean_exit_ip j)) = clean_exit_ip j"
  using ip_address_again[of "strip (text_or_empty j)"]
  by (auto simp: clean_exit_ip_def Let_def split: option.splits)

lemma code_alias_code: "code_alias (code_alias c) = code_alias c"
proof -
  have "list_all (\<lambda>(k, v). map_of CODE_ALIASES v = None) CODE_ALIASES" by code_simp
  then have "map_of CODE_ALIASES c = Some d \<Longrightarrow> map_of CODE_ALIASES d = None" for d
    by (auto simp only: list_all_iff dest!: map_of_SomeD)
  then show ?thesis by (auto simp: code_alias_def split: option.split)
qed


lemma code_canonical:
  assumes "normalize_country raw = (n, c)"
  shows "c = [] \<or> upper_code_text c \<and> code_alias c = c"
proof -
  have "list_all (\<lambda>(k, v). map_of CODE_ALIASES k = None) ISO_COUNTRIES" by code_simp
  then have iso: "code_alias d = d" if "map_of ISO_COUNTRIES d \<noteq> None" for d
  proof -
    from that obtain n where "(d, n) \<in> set ISO_COUNTRIES" by (auto dest: map_of_SomeD)
    with \<open>list_all _ _\<close> have "map_of CODE_ALIASES d = None" by (auto simp only: list_all_iff)
    then show ?thesis by (simp add: code_alias_def)
  qed
  have pair: "code_and_name a b = Some (m, d) \<Longrightarrow> upper_code_text d \<and> code_alias d = d" for a b m d
    using code_and_name_code[of a b m d] code_alias_code by (auto simp: code_and_name_def Let_def split: if_splits)
  have plain: "normalize_country_plain t = (m, d) \<Longrightarrow> d = [] \<or> upper_code_text d \<and> code_alias d = d" for t m d
    using plain_code[of t m d] code_alias_code iso[OF name_codes[of "casefold t" d]]
    by (auto simp: normalize_country_plain_def Let_def split: if_splits option.splits)
  show ?thesis using assms pair plain
    by (auto simp: normalize_country_def Let_def split: if_splits option.splits)
qed

lemma code_again: "upper_code_text c \<Longrightarrow> code_alias c = c \<Longrightarrow> snd (normalize_country c) = c"
proof -
  assume u: "upper_code_text c" "code_alias c = c"
  then obtain a b where c: "c = [a, b]" "65 \<le> ord a" "ord a \<le> 90" "65 \<le> ord b" "ord b \<le> 90"
    by (cases c; cases "tl c") (auto simp: upper_code_text_def)
  have "strip c = c" using c by (intro strip_no_space) (auto simp: is_space_def)
  moreover have "upper c = c" using c by (simp add: upper_def upper_char_def)
  moreover have "code_shape c" using c by (auto simp: code_shape_def is_ascii_letter_def)
  moreover have "CHR ''|'' \<notin> set c" using c by auto
  ultimately show ?thesis using u c
    by (auto simp: normalize_country_def normalize_country_plain_def Let_def)
qed

lemma clean_code_again [simp]:
  "snd (normalize_country (snd (normalize_country t))) = snd (normalize_country t)"
proof -
  obtain n c where r: "normalize_country t = (n, c)" by force
  from code_canonical[OF r] show ?thesis
  proof
    assume "c = []"
    moreover have "snd (normalize_country []) = []" by (simp add: normalize_country_def)
    ultimately show ?thesis by (simp only: r snd_conv)
  next
    assume "upper_code_text c \<and> code_alias c = c" then show ?thesis using code_again by (simp add: r)
  qed
qed

section \<open>A cleaned result\<close>

lemma jget_update [simp]: "jget (AList.update k v b) q = (if q = k then v else jget b q)"
  by (simp add: jget_def)

lemma jget_Cons [simp]: "jget ((k, v) # b) q = (if q = k then v else jget b q)"
  by (simp add: jget_def)

lemma jget_Nil [simp]: "jget [] q = JNull"
  by (simp add: jget_def)

lemma clean_check_keys:
  "jget (clean_check shown f t item) ''target'' = JStr t"
  "jget (clean_check shown f t item) ''ok'' = JBool (truthy (jget item ''ok''))"
  "jget (clean_check shown f t item) ''total_ms'' = jget (clean_check shown f t item) ''latency_ms''"
  by (simp_all add: clean_check_def Let_def)

lemma ms_total: "bounded_ms f (ms_json shown (case bounded_ms f a of Some r \<Rightarrow> Some r | None \<Rightarrow> bounded_ms f b))
    = (case bounded_ms f a of Some r \<Rightarrow> Some r | None \<Rightarrow> bounded_ms f b)"
  by (auto simp: ms_json_def bounded_ms_again split: option.split)

lemma ms_once: "bounded_ms f (ms_json shown (bounded_ms f a)) = bounded_ms f a"
  by (auto simp: ms_json_def bounded_ms_again split: option.split)

lemma clean_check_again: "clean_check shown f t (clean_check shown f t item) = clean_check shown f t item"
  by (simp add: clean_check_def Let_def ms_total ms_once split: option.split)


lemma required_two: "\<exists>a b. REQUIRED_TARGETS = [a, b] \<and> a \<noteq> b"
  unfolding REQUIRED_TARGETS_def by (intro exI conjI) (rule refl, simp)

lemma by_target_get: "map_of (by_target shown f acc items) t = Some c \<Longrightarrow>
   map_of acc t = Some c \<or> (\<exists>item. JObj item \<in> set items \<and> text_or_empty (jget item ''target'') = t \<and> c = clean_check shown f t item)"
proof (induction shown f acc items rule: by_target.induct)
  case (2 shown f acc j js)
  show ?case
  proof (cases j)
    case (JObj item)
    then show ?thesis using 2 by (fastforce simp: Let_def split: if_splits)
  qed (use 2 in \<open>auto\<close>)
qed simp

definition ms_ok :: "json \<Rightarrow> bool" where
  "ms_ok j = (case j of JNull \<Rightarrow> True | JFloat r t \<Rightarrow> 0 \<le> r \<and> r \<le> MAX_METRIC_MS | _ \<Rightarrow> False)"

lemma ms_ok_bounded: "ms_ok (ms_json shown (bounded_ms f j))"
  using bounded_ms_range[of f j] by (auto simp: ms_ok_def ms_json_def split: option.split)

lemma clean_check_ms: "\<forall>key \<in> {''connect_ms'', ''handshake_ms'', ''request_ms'', ''total_ms'', ''latency_ms''}.
   ms_ok (jget (clean_check shown f t item) key)"
  using ms_ok_bounded[of shown f] by (simp add: clean_check_def Let_def split: option.split) metis

text \<open>The parts every kept result is made of.\<close>

lemma safe_parts:
  assumes "sanitize_proxy_test_result shown f pv value = Safe safe"
  obtains result pid good counts sc items where
    "value = JObj result" "pid = strip (text_or_empty pv)" "pid \<noteq> []"
    "counts = clean_counts (jget result ''sample_count'') (jget result ''success_count'') good"
    "loop_items (jget result ''checks'') = Some items"
    "good \<longleftrightarrow> probe_ok result \<and> list_all (\<lambda>t. \<exists>c. map_of (by_target shown f [] items) t = Some c \<and> truthy (jget c ''ok'')) REQUIRED_TARGETS"
    "list_all (\<lambda>t. map_of (by_target shown f [] items) t \<noteq> None) REQUIRED_TARGETS"
    "safe = assemble pid result (map (\<lambda>t. the (map_of (by_target shown f [] items) t)) REQUIRED_TARGETS) good counts @ [(''score'', JInt sc)]"
    "good \<Longrightarrow> performance_score f (assemble pid result (map (\<lambda>t. the (map_of (by_target shown f [] items) t)) REQUIRED_TARGETS) good counts) = Some sc"
    "\<not> good \<Longrightarrow> sc = 0"
proof -
  obtain result where v: "value = JObj result"
    using assms by (cases "value") (simp_all add: sanitize_proxy_test_result_def Let_def)
  define pid where "pid = strip (text_or_empty pv)"
  obtain items where it: "loop_items (jget result ''checks'') = Some items" and p: "pid \<noteq> []"
    using assms by (auto simp: sanitize_proxy_test_result_def Let_def v pid_def split: if_splits option.splits)
  define found where "found = by_target shown f [] items"
  define checks where "checks = map (\<lambda>t. the (map_of found t)) REQUIRED_TARGETS"
  define good where "good = (probe_ok result \<and> list_all (\<lambda>c. truthy (jget c ''ok'')) checks)"
  define counts where "counts = clean_counts (jget result ''sample_count'') (jget result ''success_count'') good"
  have all: "list_all (\<lambda>t. map_of found t \<noteq> None) REQUIRED_TARGETS"
    using assms it p by (auto simp: sanitize_proxy_test_result_def Let_def v pid_def found_def split: if_splits)
  have s: "(if \<not> good then Safe (assemble pid result checks good counts @ [(''score'', JInt 0)])
        else (case performance_score f (assemble pid result checks good counts) of
             None \<Rightarrow> Raised | Some sc \<Rightarrow> Safe (assemble pid result checks good counts @ [(''score'', JInt sc)]))) = Safe safe"
    using assms it p all unfolding counts_def good_def checks_def found_def pid_def
    by (auto simp add: sanitize_proxy_test_result_def Let_def v split: if_splits)
  have g: "good \<longleftrightarrow> probe_ok result \<and> list_all (\<lambda>t. \<exists>c. map_of found t = Some c \<and> truthy (jget c ''ok'')) REQUIRED_TARGETS"
    using all by (auto simp: good_def checks_def list_all_iff) (metis option.sel)
  show thesis
  proof (cases good)
    case True
    then obtain sc where "performance_score f (assemble pid result checks good counts) = Some sc"
        "safe = assemble pid result checks good counts @ [(''score'', JInt sc)]"
      using s by (auto split: option.splits)
    then show thesis
      by (intro that[OF v pid_def p counts_def it g[unfolded found_def] all[unfolded found_def], of sc])
         (use True in \<open>simp_all add: checks_def found_def\<close>)
  next
    case False
    then show thesis
      by (intro that[OF v pid_def p counts_def it g[unfolded found_def] all[unfolded found_def], of 0])
         (use s in \<open>simp_all add: checks_def found_def\<close>)
  qed
qed

lemma clean_counts_bounds:
  "clean_counts a b good = (n, k) \<Longrightarrow> 1 \<le> n \<and> n \<le> 10000 \<and> 0 \<le> k \<and> k \<le> n"
proof -
  have "1 \<le> clamp 1 10000 x \<and> clamp 1 10000 x \<le> 10000 \<and> 0 \<le> clamp 0 (clamp 1 10000 x) y
      \<and> clamp 0 (clamp 1 10000 x) y \<le> clamp 1 10000 x" for x y
    using clamp_bounds[of 1 10000 x] clamp_bounds[of 0 "clamp 1 10000 x" y] by auto
  then show "clean_counts a b good = (n, k) \<Longrightarrow> 1 \<le> n \<and> n \<le> 10000 \<and> 0 \<le> k \<and> k \<le> n"
    by (auto simp: clean_counts_def Let_def split: option.splits)
qed

text \<open>A healthy result without a counted success gets one when it is read again.\<close>

lemma clean_counts_again:
  assumes "clean_counts a b good = (n, k)" "good \<Longrightarrow> k \<noteq> 0"
  shows "clean_counts (JInt n) (JInt k) good = (n, k)"
  using clean_counts_bounds[OF assms(1)] assms(2)
  by (auto simp: clean_counts_def clamp_def Let_def or_else_def)


text \<open>
  A kept measurement is complete and bounded: at most ten thousand samples, never more
  successes than samples, exactly the two required targets in order, every time absent or between
  zero and two minutes, and healthy only when both checks succeeded.
\<close>

theorem kept_result_bounded:
  assumes "sanitize_proxy_test_result shown f pv value = Safe safe"
  shows "\<exists>n k c d. jget safe ''sample_count'' = JInt n \<and> jget safe ''success_count'' = JInt k
      \<and> 1 \<le> n \<and> n \<le> 10000 \<and> 0 \<le> k \<and> k \<le> n
      \<and> jget safe ''checks'' = JArr [JObj c, JObj d]
      \<and> map JStr REQUIRED_TARGETS = [jget c ''target'', jget d ''target'']
      \<and> (jget safe ''overall_status'' = JStr ''healthy'' \<longrightarrow> truthy (jget c ''ok'') \<and> truthy (jget d ''ok''))
      \<and> (\<forall>b \<in> {c, d}. \<forall>key \<in> {''connect_ms'', ''handshake_ms'', ''request_ms'', ''total_ms'', ''latency_ms''}.
           ms_ok (jget b key))"
proof -
  obtain t u where tu: "REQUIRED_TARGETS = [t, u]" "t \<noteq> u" using required_two by blast
  from assms obtain result pid good counts sc items where p:
      "counts = clean_counts (jget result ''sample_count'') (jget result ''success_count'') good"
      "good \<longleftrightarrow> probe_ok result \<and> list_all (\<lambda>t. \<exists>c. map_of (by_target shown f [] items) t = Some c \<and> truthy (jget c ''ok'')) REQUIRED_TARGETS"
      "list_all (\<lambda>t. map_of (by_target shown f [] items) t \<noteq> None) REQUIRED_TARGETS"
      "safe = assemble pid result (map (\<lambda>t. the (map_of (by_target shown f [] items) t)) REQUIRED_TARGETS) good counts @ [(''score'', JInt sc)]"
    by (rule safe_parts) blast
  obtain c d where cd: "map_of (by_target shown f [] items) t = Some c" "map_of (by_target shown f [] items) u = Some d"
    using p(3) unfolding tu(1) by auto
  obtain i j where ij: "c = clean_check shown f t i" "d = clean_check shown f u j"
    using by_target_get[OF cd(1)] by_target_get[OF cd(2)] by auto
  obtain n k where nk: "counts = (n, k)" by force
  show ?thesis
    using clean_counts_bounds[OF p(1)[symmetric, unfolded nk]] p(2) cd clean_check_ms[of shown f t i] clean_check_ms[of shown f u j] ij
    by (intro exI[of _ n] exI[of _ k] exI[of _ c] exI[of _ d])
       (simp add: p(4) nk tu assemble_def clean_check_keys)
qed


lemma kept_result_bounded_witness:
  "case sanitize_proxy_test_result (\<lambda>r. []) (\<lambda>t. None) (JStr ''p'')
     (JObj [(''proxy_id'', JStr ''p''), (''ok'', JBool True), (''checks'', JArr
       [JObj [(''target'', JStr ''https://google.com''), (''ok'', JBool True)],
        JObj [(''target'', JStr ''https://cloudflare.com''), (''ok'', JBool True), (''total_ms'', JInt 40)]])]) of
     Safe safe \<Rightarrow> jget safe ''overall_status'' = JStr ''healthy''
       \<and> (\<exists>n k. jget safe ''sample_count'' = JInt n \<and> jget safe ''success_count'' = JInt k \<and> k \<le> n)
   | _ \<Rightarrow> False"
proof -
  let ?r = "sanitize_proxy_test_result (\<lambda>r. []) (\<lambda>t. None) (JStr ''p'')
     (JObj [(''proxy_id'', JStr ''p''), (''ok'', JBool True), (''checks'', JArr
       [JObj [(''target'', JStr ''https://google.com''), (''ok'', JBool True)],
        JObj [(''target'', JStr ''https://cloudflare.com''), (''ok'', JBool True), (''total_ms'', JInt 40)]])])"
  have "(case ?r of Safe safe \<Rightarrow> jget safe ''overall_status'' = JStr ''healthy'' | _ \<Rightarrow> False)" by code_simp
  then obtain safe where "?r = Safe safe" "jget safe ''overall_status'' = JStr ''healthy''" by (cases ?r) auto
  with kept_result_bounded[OF this(1)] show ?thesis by auto
qed

lemma by_target_pair:
  assumes "t \<noteq> u" "REQUIRED_TARGETS = [t, u]"
  shows "by_target shown f [] [JObj (clean_check shown f t i), JObj (clean_check shown f u j)]
     = [(t, clean_check shown f t i), (u, clean_check shown f u j)]"
  using assms(1) by (simp add: assms(2) clean_check_keys clean_check_again)

lemma assemble_again:
  assumes "b = assemble pid result checks good counts @ rest"
  shows "assemble pid b checks good counts = assemble pid result checks good counts"
  by (simp add: assms assemble_def)

text \<open>
  A kept measurement survives a save and a load: cleaning it again gives the same record, unless
  it claims to be healthy without one counted success.
\<close>

theorem kept_result_fixed:
  assumes "sanitize_proxy_test_result shown f pv value = Safe safe"
    and "jget safe ''overall_status'' = JStr ''healthy'' \<Longrightarrow> jget safe ''success_count'' \<noteq> JInt 0"
  shows "sanitize_proxy_test_result shown f (jget safe ''proxy_id'') (JObj safe) = Safe safe"
proof -
  obtain t u where tu: "REQUIRED_TARGETS = [t, u]" "t \<noteq> u" using required_two by blast
  from assms(1) obtain result pid good counts sc items where p:
      "pid = strip (text_or_empty pv)" "pid \<noteq> []"
      "counts = clean_counts (jget result ''sample_count'') (jget result ''success_count'') good"
      "good \<longleftrightarrow> probe_ok result \<and> list_all (\<lambda>t. \<exists>c. map_of (by_target shown f [] items) t = Some c \<and> truthy (jget c ''ok'')) REQUIRED_TARGETS"
      "list_all (\<lambda>t. map_of (by_target shown f [] items) t \<noteq> None) REQUIRED_TARGETS"
      "safe = assemble pid result (map (\<lambda>t. the (map_of (by_target shown f [] items) t)) REQUIRED_TARGETS) good counts @ [(''score'', JInt sc)]"
      "good \<Longrightarrow> performance_score f (assemble pid result (map (\<lambda>t. the (map_of (by_target shown f [] items) t)) REQUIRED_TARGETS) good counts) = Some sc"
      "\<not> good \<Longrightarrow> sc = 0"
    by (rule safe_parts) blast
  obtain c d where cd: "map_of (by_target shown f [] items) t = Some c" "map_of (by_target shown f [] items) u = Some d"
    using p(5) unfolding tu(1) by auto
  obtain i j where ij: "c = clean_check shown f t i" "d = clean_check shown f u j"
    using by_target_get[OF cd(1)] by_target_get[OF cd(2)] by auto
  obtain n k where nk: "counts = (n, k)" by force
  have safe: "safe = assemble pid result [c, d] good counts @ [(''score'', JInt sc)]"
    using p(6) cd by (simp add: tu(1))
  have keys: "jget safe ''proxy_id'' = JStr pid" "jget safe ''checks'' = JArr [JObj c, JObj d]"
      "jget safe ''sample_count'' = JInt n" "jget safe ''success_count'' = JInt k" "jget safe ''ok'' = JNull"
      "jget safe ''overall_status'' = JStr (if good then ''healthy'' else ''unhealthy'')"
    by (simp_all add: safe assemble_def nk)
  have counts: "clean_counts (JInt n) (JInt k) good = counts"
    using clean_counts_again[OF p(3)[symmetric, unfolded nk]] assms(2) keys nk by auto
  have ok: "good \<longleftrightarrow> probe_ok safe \<and> truthy (jget c ''ok'') \<and> truthy (jget d ''ok'')"
    using p(4) cd by (auto simp: probe_ok_def keys tu(1))
  have items: "by_target shown f [] [JObj c, JObj d] = [(t, c), (u, d)]"
    using by_target_pair[OF tu(2,1)] ij by simp
  have sp: "strip pid = pid" using p(1) by simp
  have again: "assemble pid safe [c, d] good counts = assemble pid result [c, d] good counts"
    by (rule assemble_again[OF safe])
  have score: "good \<Longrightarrow> performance_score f (assemble pid result [c, d] good counts) = Some sc"
    using p(7) cd by (simp add: tu(1))
  have loop: "loop_items (jget safe ''checks'') = Some [JObj c, JObj d]" by (simp add: keys loop_items_def)
  have found: "list_all (\<lambda>t'. map_of [(t, c), (u, d)] t' \<noteq> None) REQUIRED_TARGETS"
      "map (\<lambda>t'. the (map_of [(t, c), (u, d)] t')) REQUIRED_TARGETS = [c, d]"
    using tu(2) by (simp_all add: tu(1))
  have good: "(probe_ok safe \<and> list_all (\<lambda>c. truthy (jget c ''ok'')) [c, d]) = good"
    using ok by simp
  have "sanitize_proxy_test_result shown f (JStr pid) (JObj safe) =
     (if \<not> good then Safe (assemble pid safe [c, d] good counts @ [(''score'', JInt 0)])
      else (case performance_score f (assemble pid safe [c, d] good counts) of
           None \<Rightarrow> Raised | Some sc \<Rightarrow> Safe (assemble pid safe [c, d] good counts @ [(''score'', JInt sc)])))"
    by (simp only: sanitize_proxy_test_result_def Let_def fields.simps option.case text_or_empty_JStr sp keys(1,3,4)
        loop items found good counts p(2) simp_thms if_False not_True_eq_False)
  then show ?thesis using score p(8) again safe keys(1) by (cases good) simp_all
qed

lemma kept_result_fixed_witness:
  "case sanitize_proxy_test_result (\<lambda>r. []) (\<lambda>t. None) (JStr ''p'')
     (JObj [(''proxy_id'', JStr ''p''), (''ok'', JBool False), (''checks'', JArr
       [JObj [(''target'', JStr ''https://google.com'')], JObj [(''target'', JStr ''https://cloudflare.com'')]])]) of
     Safe safe \<Rightarrow> sanitize_proxy_test_result (\<lambda>r. []) (\<lambda>t. None) (jget safe ''proxy_id'') (JObj safe) = Safe safe
   | _ \<Rightarrow> False"
proof -
  let ?r = "sanitize_proxy_test_result (\<lambda>r. []) (\<lambda>t. None) (JStr ''p'')
     (JObj [(''proxy_id'', JStr ''p''), (''ok'', JBool False), (''checks'', JArr
       [JObj [(''target'', JStr ''https://google.com'')], JObj [(''target'', JStr ''https://cloudflare.com'')]])])"
  have "(case ?r of Safe safe \<Rightarrow> jget safe ''overall_status'' = JStr ''unhealthy'' | _ \<Rightarrow> False)" by code_simp
  then obtain safe where "?r = Safe safe" "jget safe ''overall_status'' = JStr ''unhealthy''" by (cases ?r) auto
  with kept_result_fixed[OF this(1)] show ?thesis by auto
qed

text \<open>
  After ten thousand samples a failed test no longer lowers the reliability of a proxy: the
  sample count stays at its limit and the successes it is divided by are kept.
\<close>

theorem saturated_reliability_kept:
  assumes prev: "map_of tests pid = Some (JObj p)" "jget p ''sample_count'' = JInt 10000"
      "jget p ''success_count'' = JInt k" "0 < k" "k \<le> 9999"
    and fail: "jget raw ''ok'' = JBool False"
    and stored: "store_proxy_test_result shown f stamp pid cname raw persist tests = (Some safe, tests')"
  shows "jget safe ''sample_count'' = JInt 10000 \<and> jget safe ''success_count'' = JInt k"
proof -
  have counts: "previous_counts (map_of tests pid) = (9999, k)"
    using prev by (simp add: previous_counts_def or_else_def clamp_def Let_def)
  let ?raw = "raw_with_counts pid cname stamp (9999, k) raw"
  have s: "sanitize_proxy_test_result shown f (JStr pid) (JObj ?raw) = Safe safe"
    using stored counts by (auto simp: store_proxy_test_result_def split: reading.splits)
  from s obtain result pid' good counts sc items where p: "JObj ?raw = JObj result"
      "counts = clean_counts (jget result ''sample_count'') (jget result ''success_count'') good"
      "safe = assemble pid' result (map (\<lambda>t. the (map_of (by_target shown f [] items) t)) REQUIRED_TARGETS) good counts @ [(''score'', JInt sc)]"
    by (rule safe_parts) blast
  have "clean_counts (JInt 10000) (JInt k) good = (10000, k)" for good
    using prev by (simp add: clean_counts_def or_else_def clamp_def Let_def)
  then have "counts = (10000, k)" using p(1,2) fail by (auto simp: raw_with_counts_def)
  then show ?thesis by (simp add: p(3) assemble_def)
qed

lemma saturated_reliability_kept_witness:
  "\<exists>safe. jget safe ''sample_count'' = JInt 10000 \<and> jget safe ''success_count'' = JInt 9999"
proof -
  let ?tests = "[(''p'', JObj [(''sample_count'', JInt 10000), (''success_count'', JInt 9999)])]"
  let ?raw = "[(''ok'', JBool False), (''checks'', JArr
       [JObj [(''target'', JStr ''https://google.com'')], JObj [(''target'', JStr ''https://cloudflare.com'')]])]"
  let ?r = "store_proxy_test_result (\<lambda>r. []) (\<lambda>t. None) ''now'' ''p'' ''X'' ?raw False ?tests"
  have "fst ?r \<noteq> None" by code_simp
  then obtain safe rest where "?r = (Some safe, rest)" by (cases ?r) auto
  from saturated_reliability_kept[OF _ _ _ _ _ _ this] show ?thesis by (intro exI[of _ safe]) simp
qed

text \<open>A probe that answers for both targets always gives a result to keep.\<close>

definition answers_both :: "body \<Rightarrow> bool" where
  "answers_both b \<longleftrightarrow> (\<exists>js. jget b ''checks'' = JArr js \<and>
     (\<forall>t \<in> set REQUIRED_TARGETS. \<exists>item. JObj item \<in> set js \<and> jget item ''target'' = JStr t))"

lemma by_target_keep: "map_of acc t \<noteq> None \<Longrightarrow> map_of (by_target shown f acc items) t \<noteq> None"
  by (induction items arbitrary: acc) (auto simp: Let_def split: option.split)

lemma by_target_found: "JObj item \<in> set items \<Longrightarrow> jget item ''target'' = JStr t \<Longrightarrow> t \<in> set REQUIRED_TARGETS \<Longrightarrow>
   map_of (by_target shown f acc items) t \<noteq> None"
proof (induction items arbitrary: acc)
  case (Cons j js)
  show ?case
  proof (cases "j = JObj item")
    case True
    have "map_of (by_target shown f (AList.update t c acc) js) t \<noteq> None" for c
      by (rule by_target_keep) simp
    moreover have "map_of acc t \<noteq> None \<Longrightarrow> map_of (by_target shown f acc js) t \<noteq> None" by (rule by_target_keep)
    ultimately show ?thesis using True Cons.prems by (auto simp: Let_def)
  next
    case False
    then have "map_of (by_target shown f a js) t \<noteq> None" for a using Cons by auto
    then show ?thesis by (auto simp: Let_def split: option.split)
  qed
qed simp

lemma loop_items_arr: "loop_items (JArr js) = Some js"
  by (simp add: loop_items_def)

lemma score_of_ints: "jget b ''sample_count'' = JInt n \<Longrightarrow> jget b ''success_count'' = JInt k \<Longrightarrow> performance_score f b \<noteq> None"
  by (simp add: performance_score_def Let_def or_else_def)

lemma sanitize_total:
  assumes "answers_both b" "jget b ''proxy_id'' = JStr p" "strip p = p" "p \<noteq> []"
  shows "\<exists>safe. sanitize_proxy_test_result shown f (JStr p) (JObj b) = Safe safe"
proof -
  from assms(1) obtain js where js: "jget b ''checks'' = JArr js"
      "\<forall>t \<in> set REQUIRED_TARGETS. \<exists>item. JObj item \<in> set js \<and> jget item ''target'' = JStr t"
    by (auto simp: answers_both_def)
  have all: "list_all (\<lambda>t. map_of (by_target shown f [] js) t \<noteq> None) REQUIRED_TARGETS"
    unfolding list_all_iff
  proof
    fix t assume t: "t \<in> set REQUIRED_TARGETS"
    then obtain item where "JObj item \<in> set js" "jget item ''target'' = JStr t" using js(2) by blast
    with t show "map_of (by_target shown f [] js) t \<noteq> None" by (intro by_target_found)
  qed
  have "performance_score f (assemble p b cs g counts) \<noteq> None" for cs g counts
    by (rule score_of_ints[of _ "fst counts" "snd counts"]) (simp_all add: assemble_def)
  then have sc: "\<exists>sc. performance_score f (assemble p b cs g counts) = Some sc" for cs g counts by blast
  define checks where "checks = map (\<lambda>t. the (map_of (by_target shown f [] js) t)) REQUIRED_TARGETS"
  define good where "good = (probe_ok b \<and> list_all (\<lambda>c. truthy (jget c ''ok'')) checks)"
  define counts where "counts = clean_counts (jget b ''sample_count'') (jget b ''success_count'') good"
  have "sanitize_proxy_test_result shown f (JStr p) (JObj b) =
     (if \<not> good then Safe (assemble p b checks good counts @ [(''score'', JInt 0)])
      else (case performance_score f (assemble p b checks good counts) of
           None \<Rightarrow> Raised | Some sc \<Rightarrow> Safe (assemble p b checks good counts @ [(''score'', JInt sc)])))"
    by (simp only: sanitize_proxy_test_result_def Let_def fields.simps option.case text_or_empty_JStr assms(2,3,4)
        js(1) loop_items_arr all checks_def[symmetric] good_def[symmetric] counts_def[symmetric] simp_thms if_False not_True_eq_False)
  then show ?thesis using sc[of checks good counts] by (cases good) auto
qed

lemma answers_both_raw: "answers_both raw \<Longrightarrow> answers_both (raw_with_counts p n stamp c raw)"
  by (simp add: answers_both_def raw_with_counts_def)

lemma store_total:
  assumes "answers_both raw" "strip p = p" "p \<noteq> []"
  obtains safe where "store_proxy_test_result shown f stamp p cname raw persist ts
      = (Some safe, if persist then AList.update p (JObj safe) ts else ts)"
    "\<exists>value. sanitize_proxy_test_result shown f (JStr p) value = Safe safe"
proof -
  let ?raw = "raw_with_counts p cname stamp (previous_counts (map_of ts p)) raw"
  have "jget ?raw ''proxy_id'' = JStr p" by (simp add: raw_with_counts_def)
  from sanitize_total[OF answers_both_raw[OF assms(1)] this assms(2,3)]
  obtain safe where "sanitize_proxy_test_result shown f (JStr p) (JObj ?raw) = Safe safe" by blast
  then show thesis using that[of safe] by (auto simp: store_proxy_test_result_def)
qed

end
