(* ===== verification/Scan_Queue.thy ===== *)
theory Scan_Queue
  imports Probe_Results Proxy_Repository
begin

text \<open>
  The background tests of proxies (\<open>main.py\<close>): requests to test countries, the one worker that
  drains them, and the preferred proxy published for a country. Between two awaits that can suspend
  the worker runs without interruption (its locks are never held across one), so a turn of the
  worker goes from one of \<open>gather\<close>, \<open>save_state\<close> or its start to the next.
\<close>

section \<open>State\<close>

datatype worker =
    No_Task
  | Starting
  | Testing string "proxy list" "string list"
  | Saving

record scan =
  catalog :: repo
  pending :: "string list"
  scope :: "string list"
  running :: bool
  failed :: bool
  tests :: "(string, json) dict"
  preferred :: "(string, string) dict"
  task :: worker

definition add_codes :: "string list \<Rightarrow> string list \<Rightarrow> string list" where
  "add_codes cs new = cs @ filter (\<lambda>c. c \<notin> set cs) (remdups new)"

section \<open>Requests\<close>

definition requested_codes :: "repo \<Rightarrow> string list option \<Rightarrow> string list" where
  "requested_codes r codes = remdups (filter is_valid_code (case codes of
     None \<Rightarrow> map code (records_for_country r [])
   | Some cs \<Rightarrow> map (\<lambda>c. strip (upper c)) cs))"

definition schedule_scan :: "string list option \<Rightarrow> scan \<Rightarrow> bool \<times> scan" where
  "schedule_scan codes s = (let requested = requested_codes (catalog s) codes in
     if requested = [] then (False, s)
     else if task s \<noteq> No_Task then
       (False, s\<lparr>pending := add_codes (pending s) (filter (\<lambda>c. c \<notin> set (scope s)) requested)\<rparr>)
     else (True, s\<lparr>pending := add_codes (pending s) requested, task := Starting\<rparr>))"

text \<open>Which countries a refresh of the repository asks for.\<close>

definition affected_codes :: "proxy list \<Rightarrow> proxy list \<Rightarrow> string list" where
  "affected_codes old new =
     (let b = map (\<lambda>p. (pid p, code p)) old; a = map (\<lambda>p. (pid p, code p)) new in
      remdups (map snd (filter (\<lambda>(i, c). map_of (rev b) i \<noteq> Some c) a)
             @ map snd (filter (\<lambda>(i, c). map_of (rev a) i \<noteq> Some c) b)))"

section \<open>The worker\<close>

fun next_country :: "string list \<Rightarrow> scan \<Rightarrow> scan" where
  "next_country [] s = s\<lparr>task := Saving\<rparr>"
| "next_country (c # cs) s = (let rs = records_for_country (catalog s) c in
     if rs = [] then next_country cs (s\<lparr>preferred := AList.delete c (preferred s)\<rparr>)
     else s\<lparr>task := Testing c rs cs\<rparr>)"

definition take_pending :: "scan \<Rightarrow> scan" where
  "take_pending s =
     (if pending s = [] then s\<lparr>running := False, scope := [], task := No_Task\<rparr>
      else next_country (sort (pending s))
        (s\<lparr>pending := [], running := True, scope := sort (pending s), failed := False\<rparr>))"

text \<open>The exact failed test of a record whose probe raised.\<close>

definition failed_probe :: "string \<Rightarrow> string \<Rightarrow> body" where
  "failed_probe proxy_id error_name =
     [(''proxy_id'', JStr proxy_id), (''ok'', JBool False),
      (''checks'', JArr (map (\<lambda>t. JObj [(''target'', JStr t), (''ok'', JBool False), (''status'', JNull),
          (''error'', JStr error_name)]) REQUIRED_TARGETS))]"

definition raw_of :: "string \<Rightarrow> string + body \<Rightarrow> body" where
  "raw_of proxy_id answer = (case answer of Inl e \<Rightarrow> failed_probe proxy_id e | Inr b \<Rightarrow> b)"

definition test_one :: "(rat \<Rightarrow> string) \<Rightarrow> (string \<Rightarrow> rat option) \<Rightarrow> string \<Rightarrow> (string \<Rightarrow> string + body) \<Rightarrow>
    (string, json) dict \<Rightarrow> proxy \<Rightarrow> (string \<times> json) option" where
  "test_one shown f stamp answer ts p = map_option (\<lambda>b. (pid p, JObj b))
     (fst (store_proxy_test_result shown f stamp (pid p) (country p) (raw_of (pid p) (answer (pid p))) False ts))"

definition select_preferred :: "(string \<Rightarrow> rat option) \<Rightarrow> string \<Rightarrow> proxy list \<Rightarrow> scan \<Rightarrow> scan option" where
  "select_preferred f c expected s =
     (let current = map pid (records_for_country (catalog s) c) in
      if set current \<noteq> set (map pid expected) then Some (s\<lparr>pending := add_codes (pending s) [c]\<rparr>)
      else map_option (\<lambda>choice. s\<lparr>preferred := (case choice of
              Some p \<Rightarrow> AList.update c p (preferred s) | None \<Rightarrow> AList.delete c (preferred s))\<rparr>)
            (preferred_proxy_id f current (tests s)))"

definition finish_country :: "(rat \<Rightarrow> string) \<Rightarrow> (string \<Rightarrow> rat option) \<Rightarrow> string \<Rightarrow> (string \<Rightarrow> string + body) \<Rightarrow>
    string \<Rightarrow> proxy list \<Rightarrow> string list \<Rightarrow> scan \<Rightarrow> scan" where
  "finish_country shown f stamp answer c rs rest s =
     (case all_some (map (test_one shown f stamp answer (tests s)) rs) of
        None \<Rightarrow> take_pending (s\<lparr>failed := True\<rparr>)
      | Some results \<Rightarrow>
          (let s1 = s\<lparr>tests := fold (\<lambda>(k, v). AList.update k v) results (tests s)\<rparr> in
           case select_preferred f c rs s1 of
             None \<Rightarrow> take_pending (s1\<lparr>failed := True\<rparr>)
           | Some s2 \<Rightarrow> next_country rest s2))"

definition worker_turn :: "(rat \<Rightarrow> string) \<Rightarrow> (string \<Rightarrow> rat option) \<Rightarrow> string \<Rightarrow> (string \<Rightarrow> string + body) \<Rightarrow>
    scan \<Rightarrow> scan" where
  "worker_turn shown f stamp answer s = (case task s of
     No_Task \<Rightarrow> s
   | Starting \<Rightarrow> take_pending s
   | Testing c rs rest \<Rightarrow> finish_country shown f stamp answer c rs rest s
   | Saving \<Rightarrow> take_pending s)"

text \<open>\<open>stop_proxy_performance_refresh\<close>: the task is cancelled, its \<open>finally\<close> clears \<open>running\<close>.\<close>

definition stop_scan :: "scan \<Rightarrow> scan" where
  "stop_scan s = (if task s = No_Task then s else s\<lparr>running := False, task := No_Task\<rparr>)"

section \<open>What is shown\<close>

definition current_proxy_test_results :: "scan \<Rightarrow> (string, json) dict" where
  "current_proxy_test_results s = filter (\<lambda>(p, r). get_record (catalog s) p \<noteq> None) (tests s)"

definition current_preferred_proxy_by_country :: "scan \<Rightarrow> (string, string) dict" where
  "current_preferred_proxy_by_country s = filter
     (\<lambda>(c, p). (case get_record (catalog s) p of None \<Rightarrow> False | Some r \<Rightarrow> code r = c)
        \<and> current_healthy (map_of (tests s) p)) (preferred s)"

section \<open>Runs\<close>

datatype event =
    Schedule "string list option"
  | Turn string "string \<Rightarrow> string + body"
  | Catalog repo

definition scan_event :: "(rat \<Rightarrow> string) \<Rightarrow> (string \<Rightarrow> rat option) \<Rightarrow> event \<Rightarrow> scan \<Rightarrow> scan" where
  "scan_event shown f e s = (case e of
     Schedule codes \<Rightarrow> snd (schedule_scan codes s)
   | Turn stamp answer \<Rightarrow> worker_turn shown f stamp answer s
   | Catalog r \<Rightarrow> s\<lparr>catalog := r\<rparr>)"

inductive scan_step :: "(rat \<Rightarrow> string) \<Rightarrow> (string \<Rightarrow> rat option) \<Rightarrow> scan \<Rightarrow> event \<Rightarrow> scan \<Rightarrow> bool"
  for shown f where
  step: "scan_step shown f s e (scan_event shown f e s)"

inductive_cases scan_stepE: "scan_step shown f s e t"

definition scan_start :: "scan \<Rightarrow> bool" where
  "scan_start s \<longleftrightarrow> pending s = [] \<and> scope s = [] \<and> \<not> running s \<and> task s = No_Task"

section \<open>No request is lost\<close>

definition scan_inv :: "scan \<Rightarrow> bool" where
  "scan_inv s \<longleftrightarrow> distinct (pending s)
     \<and> (task s = No_Task \<longrightarrow> pending s = [] \<and> scope s = [] \<and> \<not> running s)
     \<and> (task s = Starting \<longrightarrow> pending s \<noteq> [] \<and> scope s = [] \<and> \<not> running s)
     \<and> (\<forall>c rs cs. task s = Testing c rs cs \<longrightarrow> running s \<and> c \<in> set (scope s) \<and> set cs \<subseteq> set (scope s))
     \<and> (task s = Saving \<longrightarrow> running s \<and> scope s \<noteq> [])"

lemma distinct_add_codes: "distinct cs \<Longrightarrow> distinct (add_codes cs new)"
  by (auto simp: add_codes_def)

lemma set_add_codes [simp]: "set (add_codes cs new) = set cs \<union> set new"
  by (auto simp: add_codes_def)

lemma next_country_inv:
  "distinct (pending s) \<Longrightarrow> running s \<Longrightarrow> scope s \<noteq> [] \<Longrightarrow> set cs \<subseteq> set (scope s) \<Longrightarrow> scan_inv (next_country cs s)"
  by (induction cs s rule: next_country.induct) (auto simp: scan_inv_def Let_def)

lemma sort_Nil: "sort xs = [] \<longleftrightarrow> xs = []"
  by (metis length_0_conv length_sort)

lemma take_pending_inv: "scan_inv (take_pending s)"
proof (cases "pending s = []")
  case False
  then show ?thesis unfolding take_pending_def by (simp, intro next_country_inv) (auto simp: sort_Nil)
qed (simp add: take_pending_def scan_inv_def)

lemma select_preferred_same:
  assumes "select_preferred f c rs s = Some t"
  shows "distinct (pending s) \<Longrightarrow> distinct (pending t)" "scope t = scope s" "running t = running s"
    "tests t = tests s" "catalog t = catalog s"
  using assms by (auto simp: select_preferred_def Let_def distinct_add_codes split: if_splits)

lemma scan_inv_event: "scan_inv s \<Longrightarrow> scan_inv (scan_event shown f e s)"
proof (cases e)
  case (Schedule codes)
  assume "scan_inv s"
  then show ?thesis
    by (auto simp: Schedule scan_event_def schedule_scan_def Let_def scan_inv_def distinct_add_codes)
       (auto simp: add_codes_def)
next
  case (Turn stamp answer)
  assume i: "scan_inv s"
  show ?thesis
  proof (cases "task s")
    case (Testing c rs rest)
    have "scan_inv (next_country rest t)"
      if "select_preferred f c rs (s\<lparr>tests := ts\<rparr>) = Some t" for t ts
      using select_preferred_same[OF that] i Testing by (intro next_country_inv) (auto simp: scan_inv_def)
    then show ?thesis
      by (auto simp: Turn scan_event_def worker_turn_def Testing finish_country_def Let_def take_pending_inv split: option.split)
  qed (use i take_pending_inv in \<open>auto simp: Turn scan_event_def worker_turn_def\<close>)
next
  case (Catalog r)
  assume "scan_inv s" then show ?thesis by (auto simp: Catalog scan_event_def scan_inv_def)
qed

interpretation scans: step_machine scan_start "scan_step shown f" scan_inv
proof
  show "scan_start s \<Longrightarrow> scan_inv s" for s by (auto simp: scan_start_def scan_inv_def)
  show "scan_inv s \<Longrightarrow> scan_step shown f s l t \<Longrightarrow> scan_inv t" for s l t
    by (elim scan_stepE) (simp add: scan_inv_event)
qed

text \<open>
  C35. No request for a test is forgotten by the queue: whatever requests, catalog changes and
  turns of the worker came before, a waiting country has a worker that is still to take it, there
  is never a second worker, and the panel shows a running scan exactly while one runs.
\<close>

theorem waiting_country_has_worker:
  assumes "reaches scan_start (scan_step shown f) s"
  shows "distinct (pending s) \<and> (pending s \<noteq> [] \<longrightarrow> task s \<noteq> No_Task)
    \<and> (running s \<longleftrightarrow> task s \<noteq> No_Task \<and> task s \<noteq> Starting)
    \<and> (fst (schedule_scan codes s) \<longrightarrow> task s = No_Task)"
proof -
  have "scan_inv s" using assms by (rule scans.reaches_inv)
  then show ?thesis by (cases "task s") (auto simp: scan_inv_def schedule_scan_def Let_def)
qed

lemma waiting_country_has_worker_witness:
  "pending (snd (schedule_scan (Some [''DE'']) \<lparr>catalog = new_repo\<lparr>records := [(''p'', \<lparr>pid = ''p'', endpoint = ''p'', ptype = ''http'',
       country = ''Germany'', code = ''DE'', flag = [], health = 1\<rparr>)]\<rparr>,
     pending = [], scope = [], running = False, failed = False, tests = [], preferred = [], task = No_Task\<rparr>)) = [''DE'']
   \<and> task (snd (schedule_scan (Some [''DE'']) \<lparr>catalog = new_repo\<lparr>records := [(''p'', \<lparr>pid = ''p'', endpoint = ''p'', ptype = ''http'',
       country = ''Germany'', code = ''DE'', flag = [], health = 1\<rparr>)]\<rparr>,
     pending = [], scope = [], running = False, failed = False, tests = [], preferred = [], task = No_Task\<rparr>)) \<noteq> No_Task"
proof -
  define s where "s = \<lparr>catalog = new_repo\<lparr>records := [(''p'', \<lparr>pid = ''p'', endpoint = ''p'', ptype = ''http'',
       country = ''Germany'', code = ''DE'', flag = [], health = 1\<rparr>)]\<rparr>,
     pending = [], scope = [], running = False, failed = False, tests = [], preferred = [], task = No_Task\<rparr>"
  have "reaches scan_start (scan_step (\<lambda>r. []) (\<lambda>t. None)) s" by (rule reaches.init) (simp add: scan_start_def s_def)
  then have r: "reaches scan_start (scan_step (\<lambda>r. []) (\<lambda>t. None)) (snd (schedule_scan (Some [''DE'']) s))"
    using scan_step.step[of "\<lambda>r. []" "\<lambda>t. None" s "Schedule (Some [''DE''])"]
    by (auto simp: scan_event_def intro: reaches.next_step)
  have p: "pending (snd (schedule_scan (Some [''DE'']) s)) = [''DE'']" unfolding s_def by code_simp
  show ?thesis using waiting_country_has_worker[OF r, of None] p unfolding s_def[symmetric] by simp
qed

section \<open>A scan that is left alone\<close>

text \<open>The choice for a country on the measurements of a state.\<close>

definition chosen :: "(string \<Rightarrow> rat option) \<Rightarrow> scan \<Rightarrow> string \<Rightarrow> string option" where
  "chosen f s c = Option.bind (preferred_proxy_id f (map pid (records_for_country (catalog s) c)) (tests s)) id"

definition scoreable :: "(string \<Rightarrow> rat option) \<Rightarrow> (string, json) dict \<Rightarrow> bool" where
  "scoreable f ts \<longleftrightarrow> (\<forall>p b. map_of ts p = Some (JObj b) \<longrightarrow> current_healthy (Some (JObj b)) \<longrightarrow> performance_score f b \<noteq> None)"

lemma candidates_total: "scoreable f ts \<Longrightarrow> candidates f ts ps \<noteq> None"
proof (induction ps)
  case (Cons p ps)
  show ?case
  proof (cases "current_healthy (map_of ts p)")
    case True
    then obtain j kvs where "map_of ts p = Some j" "Performance.fields j = Some kvs" using current_healthy_fields by blast
    then have b: "map_of ts p = Some (JObj kvs)" by (cases j) auto
    then obtain sc where "performance_score f kvs = Some sc" using Cons.prems True unfolding scoreable_def by fastforce
    moreover obtain ks where "candidates f ts ps = Some ks" using Cons by blast
    ultimately show ?thesis using b True by (simp add: rank_of_def)
  qed (use Cons in simp)
qed simp

lemma preferred_total: "scoreable f ts \<Longrightarrow> preferred_proxy_id f ps ts = Some (Option.bind (preferred_proxy_id f ps ts) id)"
  using candidates_total[of f ts ps] by (auto simp: preferred_proxy_id_def)

lemma candidates_local: "(\<And>p. p \<in> set ps \<Longrightarrow> map_of ts p = map_of us p) \<Longrightarrow> candidates f ts ps = candidates f us ps"
  by (induction ps) auto

lemma safe_scoreable:
  assumes "sanitize_proxy_test_result shown f pv value = Safe b"
  shows "performance_score f b \<noteq> None"
proof -
  from assms obtain result pid good counts sc items where
    "b = assemble pid result (map (\<lambda>t. the (map_of (by_target shown f [] items) t)) REQUIRED_TARGETS) good counts @ [(''score'', JInt sc)]"
    by (rule safe_parts) blast
  then show ?thesis by (intro score_of_ints[of _ "fst counts" "snd counts"]) (simp_all add: assemble_def)
qed

definition catalog_ok :: "repo \<Rightarrow> bool" where
  "catalog_ok r \<longleftrightarrow> dict_ok (records r) \<and> (\<forall>(k, p) \<in> set (records r). k = pid p \<and> strip k = k \<and> k \<noteq> [])"

definition ids_of :: "repo \<Rightarrow> string \<Rightarrow> string set" where
  "ids_of r c = pid ` set (records_for_country r c)"

lemma records_of_code: "upper_code_text c \<Longrightarrow>
   set (records_for_country r c) = {p. (\<exists>k. (k, p) \<in> set (records r)) \<and> code p = c}"
proof -
  assume "upper_code_text c"
  then obtain a b where c: "c = [a, b]" "65 \<le> ord a" "ord a \<le> 90" "65 \<le> ord b" "ord b \<le> 90"
    by (cases c; cases "tl c") (auto simp: upper_code_text_def)
  have "upper c = c" using c by (simp add: upper_def upper_char_def)
  moreover have "strip c = c" using c by (intro strip_no_space) (auto simp: is_space_def)
  ultimately show ?thesis using c by (force simp: records_for_country_def Let_def image_iff)
qed

lemma ids_disjoint:
  assumes "catalog_ok r" "upper_code_text c" "upper_code_text d" "c \<noteq> d"
  shows "ids_of r c \<inter> ids_of r d = {}"
proof (rule ccontr)
  assume "ids_of r c \<inter> ids_of r d \<noteq> {}"
  then obtain p q where "p \<in> set (records_for_country r c)" "q \<in> set (records_for_country r d)" "pid p = pid q"
    by (auto simp: ids_of_def)
  then obtain k l where kl: "(k, p) \<in> set (records r)" "(l, q) \<in> set (records r)" "code p = c" "code q = d" "pid p = pid q"
    using assms by (auto simp: records_of_code)
  then have "k = pid p" "l = pid q" using assms(1) by (auto simp only: catalog_ok_def split: prod.splits)
  then have "k = l" using kl(5) by simp
  then have "p = q" using kl assms(1) dict_ok_get[of "records r"] by (metis catalog_ok_def option.inject)
  then show False using kl assms(4) by simp
qed

lemma same_record:
  assumes "catalog_ok r" "upper_code_text c" "p \<in> set (records_for_country r c)" "q \<in> set (records_for_country r c)" "pid q = pid p"
  shows "q = p"
proof -
  obtain k l where kl: "(k, p) \<in> set (records r)" "(l, q) \<in> set (records r)" using assms(2-4) by (auto simp: records_of_code)
  then have "k = pid p" "l = pid q" using assms(1) by (auto simp only: catalog_ok_def split: prod.splits)
  then show ?thesis using kl assms(1,5) dict_ok_get[of "records r"] by (metis catalog_ok_def option.inject)
qed

lemma fold_results: "map_of (fold (\<lambda>(k, v). AList.update k v) rs ts) p =
   (case map_of (rev rs) p of None \<Rightarrow> map_of ts p | Some v \<Rightarrow> Some v)"
  by (induction rs arbitrary: ts) (auto simp: map_add_def split: option.splits)

text \<open>The result that is kept for a record: what its probe answered, counted on top of the earlier result.\<close>

definition new_result :: "(rat \<Rightarrow> string) \<Rightarrow> (string \<Rightarrow> rat option) \<Rightarrow> string \<Rightarrow> (string \<Rightarrow> string + body) \<Rightarrow>
    (string, json) dict \<Rightarrow> proxy \<Rightarrow> body \<Rightarrow> bool" where
  "new_result shown f stamp answer ts p b \<longleftrightarrow> sanitize_proxy_test_result shown f (JStr (pid p))
     (JObj (raw_with_counts (pid p) (country p) stamp (previous_counts (map_of ts (pid p))) (raw_of (pid p) (answer (pid p))))) = Safe b"

definition measured :: "(rat \<Rightarrow> string) \<Rightarrow> (string \<Rightarrow> rat option) \<Rightarrow> string \<Rightarrow> (string \<Rightarrow> string + body) \<Rightarrow>
    (string, json) dict \<Rightarrow> (string, json) dict \<Rightarrow> proxy \<Rightarrow> bool" where
  "measured shown f stamp answer old new p \<longleftrightarrow>
     (\<exists>b. map_of new (pid p) = Some (JObj b) \<and> new_result shown f stamp answer old p b)"

lemma measured_local: "map_of old (pid p) = map_of old' (pid p) \<Longrightarrow> map_of new (pid p) = map_of new' (pid p) \<Longrightarrow>
    measured shown f stamp answer old new p = measured shown f stamp answer old' new' p"
  by (simp add: measured_def new_result_def)

definition progress :: "(rat \<Rightarrow> string) \<Rightarrow> (string \<Rightarrow> rat option) \<Rightarrow> string \<Rightarrow> (string \<Rightarrow> string + body) \<Rightarrow>
    string list \<Rightarrow> scan \<Rightarrow> scan \<Rightarrow> bool" where
  "progress shown f stamp answer cs s t \<longleftrightarrow> pending t = pending s \<and> catalog t = catalog s \<and> scoreable f (tests t)
     \<and> (\<forall>c \<in> set cs. map_of (preferred t) c = chosen f t c)
     \<and> (\<forall>c. c \<notin> set cs \<longrightarrow> map_of (preferred t) c = map_of (preferred s) c)
     \<and> (\<forall>c \<in> set cs. \<forall>p \<in> set (records_for_country (catalog s) c). measured shown f stamp answer (tests s) (tests t) p)
     \<and> (\<forall>p. map_of (tests t) p \<noteq> map_of (tests s) p \<longrightarrow> (\<exists>c \<in> set cs. p \<in> ids_of (catalog s) c))"

lemma all_some_total: "(\<And>x. x \<in> set xs \<Longrightarrow> \<exists>y. g x = Some y \<and> P x y) \<Longrightarrow>
   \<exists>ys. all_some (map g xs) = Some ys \<and> list_all2 P xs ys"
proof (induction xs)
  case (Cons x xs)
  then obtain y ys where "g x = Some y" "P x y" "all_some (map g xs) = Some ys" "list_all2 P xs ys" by fastforce
  then show ?case by simp
qed simp

text \<open>One country: its records are measured and its choice published, nothing else changes.\<close>

lemma finish_progress:
  assumes ok: "catalog_ok (catalog s)" "upper_code_text c" "scoreable f (tests s)"
    and ans: "\<And>p. answers_both (raw_of p (answer p))"
    and rs: "rs = records_for_country (catalog s) c"
  shows "\<exists>t. finish_country shown f stamp answer c rs rest s = next_country rest t \<and> progress shown f stamp answer [c] s t"
proof -
  let ?P = "\<lambda>p kv. fst kv = pid p \<and> (\<exists>b. snd kv = JObj b \<and> new_result shown f stamp answer (tests s) p b)"
  have tot: "\<exists>kv. test_one shown f stamp answer (tests s) p = Some kv \<and> ?P p kv" if pr: "p \<in> set rs" for p
  proof -
    obtain k where "(k, p) \<in> set (records (catalog s))"
      using pr unfolding rs records_of_code[OF ok(2)] by blast
    then have sp: "strip (pid p) = pid p" "pid p \<noteq> []" using ok(1) by (auto simp: catalog_ok_def)
    obtain safe where "store_proxy_test_result shown f stamp (pid p) (country p) (raw_of (pid p) (answer (pid p))) False (tests s)
          = (Some safe, tests s)"
      by (rule store_total[OF ans[of "pid p"] sp, where shown = shown and f = f and stamp = stamp and cname = "country p"
            and persist = False and ts = "tests s"]) (simp only: if_False)
    then show ?thesis by (auto simp: test_one_def new_result_def store_proxy_test_result_def split: reading.splits)
  qed
  have "\<exists>results. all_some (map (test_one shown f stamp answer (tests s)) rs) = Some results \<and> list_all2 ?P rs results"
    by (rule all_some_total) (rule tot)
  then obtain results where
    res: "all_some (map (test_one shown f stamp answer (tests s)) rs) = Some results" "list_all2 ?P rs results" by blast
  define ts where "ts = fold (\<lambda>(k, v). AList.update k v) results (tests s)"
  have mem: "\<exists>p \<in> set rs. ?P p kv" if kv: "kv \<in> set results" for kv
  proof -
    obtain i where i: "i < length results" "kv = results ! i" using kv by (auto simp: in_set_conv_nth)
    then have "rs ! i \<in> set rs" "?P (rs ! i) kv"
      using list_all2_nthD2[OF res(2) i(1)] list_all2_lengthD[OF res(2)] by auto
    then show ?thesis by blast
  qed
  have sc: "scoreable f ts"
    unfolding scoreable_def
  proof (intro allI impI)
    fix p b assume b: "map_of ts p = Some (JObj b)" "current_healthy (Some (JObj b))"
    show "performance_score f b \<noteq> None"
    proof (cases "map_of (rev results) p")
      case None
      then show ?thesis using b ok(3) by (simp add: ts_def fold_results scoreable_def)
    next
      case (Some v)
      then have "(p, JObj b) \<in> set results" using b map_of_SomeD[of "rev results" p v] by (simp add: ts_def fold_results)
      from mem[OF this] show ?thesis using safe_scoreable by (fastforce simp: new_result_def)
    qed
  qed
  have frame: "map_of ts p \<noteq> map_of (tests s) p \<Longrightarrow> p \<in> ids_of (catalog s) c" for p
  proof -
    assume "map_of ts p \<noteq> map_of (tests s) p"
    then obtain v where "map_of (rev results) p = Some v" by (auto simp: ts_def fold_results split: option.splits)
    then have "(p, v) \<in> set results" using map_of_SomeD by fastforce
    from mem[OF this] show ?thesis using rs by (auto simp: ids_of_def)
  qed
  have new: "measured shown f stamp answer (tests s) ts p" if p: "p \<in> set rs" for p
  proof -
    obtain i where i: "i < length rs" "rs ! i = p" using p by (auto simp: in_set_conv_nth)
    then have "results ! i \<in> set results" "fst (results ! i) = pid p"
      using list_all2_nthD[OF res(2) i(1)] list_all2_lengthD[OF res(2)] by auto
    then have "pid p \<in> fst ` set results" by force
    then obtain v where v: "map_of (rev results) (pid p) = Some v"
      using map_of_eq_None_iff[of "rev results" "pid p"] by auto
    then have "(pid p, v) \<in> set results" using map_of_SomeD by fastforce
    from mem[OF this] obtain q b where q: "q \<in> set rs" "pid q = pid p" "v = JObj b" "new_result shown f stamp answer (tests s) q b"
      by auto
    have "q = p" using same_record[OF ok(1,2)] p q(1,2) by (simp add: rs)
    then show ?thesis using v q by (auto simp: measured_def ts_def fold_results)
  qed
  define s1 where "s1 = s\<lparr>tests := ts\<rparr>"
  obtain choice where ch: "preferred_proxy_id f (map pid (records_for_country (catalog s) c)) ts = Some choice"
    using preferred_total[OF sc] by blast
  obtain t where t: "select_preferred f c rs s1 = Some t"
      "t = s1\<lparr>preferred := (case chosen f s1 c of Some p \<Rightarrow> AList.update c p (preferred s) | None \<Rightarrow> AList.delete c (preferred s))\<rparr>"
    by (cases choice; simp add: select_preferred_def Let_def s1_def chosen_def rs ch)
  have "finish_country shown f stamp answer c rs rest s = next_country rest t"
    using t(1) by (simp add: finish_country_def res(1) ts_def[symmetric] s1_def[symmetric])
  moreover have "progress shown f stamp answer [c] s t"
    using sc frame new by (auto simp: progress_def t(2) s1_def chosen_def rs split: option.split)
  ultimately show ?thesis by blast
qed


lemma chosen_empty: "records_for_country (catalog s) c = [] \<Longrightarrow> chosen f s c = None"
  by (simp add: chosen_def preferred_proxy_id_def best_def)

lemma chosen_local:
  assumes "catalog t = catalog s" "\<And>p. p \<in> ids_of (catalog s) c \<Longrightarrow> map_of (tests t) p = map_of (tests s) p"
  shows "chosen f t c = chosen f s c"
proof -
  have "candidates f (tests t) (map pid (records_for_country (catalog s) c)) = candidates f (tests s) (map pid (records_for_country (catalog s) c))"
    by (rule candidates_local) (use assms(2) in \<open>auto simp: ids_of_def\<close>)
  then show ?thesis by (simp add: chosen_def preferred_proxy_id_def assms(1))
qed

lemma progress_trans:
  assumes p: "progress shown f stamp answer [c] s t" "progress shown f stamp answer cs t u"
    and ok: "catalog_ok (catalog s)" "\<forall>d \<in> set (c # cs). upper_code_text d" "c \<notin> set cs"
  shows "progress shown f stamp answer (c # cs) s u"
proof -
  have cat: "catalog t = catalog s" "catalog u = catalog s" using p by (auto simp: progress_def)
  have later: "map_of (tests u) q = map_of (tests t) q" if "q \<in> ids_of (catalog s) c" for q
  proof (rule ccontr)
    assume "map_of (tests u) q \<noteq> map_of (tests t) q"
    then obtain d where "d \<in> set cs" "q \<in> ids_of (catalog s) d" using p(2) cat(1) by (auto simp: progress_def)
    then show False using ids_disjoint[OF ok(1), of c d] ok(2,3) that by auto
  qed
  then have ch: "chosen f u c = chosen f t c" using cat by (intro chosen_local) auto
  have earlier: "map_of (tests t) q = map_of (tests s) q" if d: "d \<in> set cs" "q \<in> ids_of (catalog s) d" for d q
  proof (rule ccontr)
    assume "map_of (tests t) q \<noteq> map_of (tests s) q"
    then have "q \<in> ids_of (catalog s) c" using p(1) by (auto simp: progress_def)
    then show False using ids_disjoint[OF ok(1), of c d] ok(2,3) d by auto
  qed
  show ?thesis unfolding progress_def
  proof (intro conjI allI impI ballI)
    show "pending u = pending s" "catalog u = catalog s" "scoreable f (tests u)" using p by (auto simp: progress_def)
    show "map_of (preferred u) d = chosen f u d" if "d \<in> set (c # cs)" for d
      using that p ch ok(3) by (cases "d \<in> set cs") (auto simp: progress_def)
    show "map_of (preferred u) d = map_of (preferred s) d" if "d \<notin> set (c # cs)" for d
      using that p by (auto simp: progress_def)
    show "measured shown f stamp answer (tests s) (tests u) q"
      if d: "d \<in> set (c # cs)" "q \<in> set (records_for_country (catalog s) d)" for d q
    proof (cases "d \<in> set cs")
      case True
      then have "measured shown f stamp answer (tests t) (tests u) q" using p(2) cat d(2) by (auto simp: progress_def)
      moreover have "pid q \<in> ids_of (catalog s) d" using d(2) by (simp add: ids_of_def)
      then have "map_of (tests t) (pid q) = map_of (tests s) (pid q)" using earlier[OF True] by blast
      ultimately show ?thesis using measured_local[of "tests t" q "tests s" "tests u" "tests u"] by auto
    next
      case False
      then have "measured shown f stamp answer (tests s) (tests t) q" using p(1) d by (auto simp: progress_def)
      moreover have "pid q \<in> ids_of (catalog s) c" using d False by (auto simp: ids_of_def)
      then have "map_of (tests u) (pid q) = map_of (tests t) (pid q)" using later by blast
      ultimately show ?thesis using measured_local[of "tests s" q "tests s" "tests u" "tests t"] by auto
    qed
    show "\<exists>d \<in> set (c # cs). q \<in> ids_of (catalog s) d" if "map_of (tests u) q \<noteq> map_of (tests s) q" for q
      using that p cat by (cases "map_of (tests u) q = map_of (tests t) q") (auto simp: progress_def)
  qed
qed

lemma progress_refl_task: "progress shown f stamp answer cs s t \<Longrightarrow> progress shown f stamp answer cs (s\<lparr>task := w\<rparr>) t"
  by (simp add: progress_def)

lemma run_countries:
  assumes ans: "\<And>p. answers_both (raw_of p (answer p))"
  shows "catalog_ok (catalog s) \<Longrightarrow> scoreable f (tests s) \<Longrightarrow> distinct cs \<Longrightarrow> \<forall>c \<in> set cs. upper_code_text c \<Longrightarrow>
    \<exists>n t. n \<le> length cs \<and> (worker_turn shown f stamp answer ^^ n) (next_country cs s) = t \<and> task t = Saving \<and> progress shown f stamp answer cs s t"
proof (induction cs arbitrary: s)
  case Nil
  have "progress shown f stamp answer [] s (s\<lparr>task := Saving\<rparr>)" using Nil by (simp add: progress_def)
  then show ?case by (intro exI[of _ 0]) simp
next
  case (Cons c cs)
  let ?rs = "records_for_country (catalog s) c"
  show ?case
  proof (cases "?rs = []")
    case True
    define t where "t = s\<lparr>preferred := AList.delete c (preferred s)\<rparr>"
    have "progress shown f stamp answer [c] s t"
      using chosen_empty[of t c f] True Cons.prems by (auto simp: progress_def t_def)
    moreover obtain n u where nu: "n \<le> length cs" "(worker_turn shown f stamp answer ^^ n) (next_country cs t) = u"
        "task u = Saving" "progress shown f stamp answer cs t u"
      using Cons.IH[of t] Cons.prems by (auto simp: t_def)
    ultimately have "progress shown f stamp answer (c # cs) s u" using progress_trans Cons.prems by auto
    then show ?thesis using nu True by (intro exI[of _ n] exI[of _ u]) (simp add: t_def)
  next
    case False
    let ?s = "s\<lparr>task := Testing c ?rs cs\<rparr>"
    obtain t where t: "finish_country shown f stamp answer c ?rs cs ?s = next_country cs t" "progress shown f stamp answer [c] ?s t"
      using finish_progress[of ?s c f answer ?rs shown stamp cs] Cons.prems ans by auto
    obtain n u where nu: "n \<le> length cs" "(worker_turn shown f stamp answer ^^ n) (next_country cs t) = u"
        "task u = Saving" "progress shown f stamp answer cs t u"
      using Cons.IH[of t] Cons.prems t(2) by (auto simp: progress_def)
    have "progress shown f stamp answer (c # cs) ?s u" using progress_trans[OF t(2) nu(4)] Cons.prems by simp
    then have "progress shown f stamp answer (c # cs) s u" by (simp add: progress_def)
    moreover have "(worker_turn shown f stamp answer ^^ Suc n) (next_country (c # cs) s) = u"
      using nu(2) t(1) False by (simp only: funpow_Suc_right comp_apply) (simp add: Let_def worker_turn_def)
    ultimately show ?thesis using nu by (intro exI[of _ "Suc n"] exI[of _ u]) auto
  qed
qed

text \<open>The best proxy of a country on the measurements of a state, or none when none is healthy.\<close>

definition score_in :: "(string \<Rightarrow> rat option) \<Rightarrow> (string, json) dict \<Rightarrow> string \<Rightarrow> int" where
  "score_in f ts p = the (performance_score f (the (Performance.fields (the (map_of ts p)))))"

definition best_of :: "(string \<Rightarrow> rat option) \<Rightarrow> scan \<Rightarrow> string \<Rightarrow> string option \<Rightarrow> bool" where
  "best_of f s c choice = (case choice of
     None \<Rightarrow> \<forall>p \<in> ids_of (catalog s) c. \<not> current_healthy (map_of (tests s) p)
   | Some p \<Rightarrow> p \<in> ids_of (catalog s) c \<and> current_healthy (map_of (tests s) p)
       \<and> (\<forall>q \<in> ids_of (catalog s) c. current_healthy (map_of (tests s) q) \<longrightarrow> score_in f (tests s) q \<le> score_in f (tests s) p))"

lemma chosen_best:
  assumes "scoreable f (tests s)"
  shows "best_of f s c (chosen f s c)"
proof (cases "chosen f s c")
  case None
  let ?ps = "map pid (records_for_country (catalog s) c)"
  obtain ks where ks: "candidates f (tests s) ?ps = Some ks" using candidates_total[OF assms] by blast
  have "best ks = None" using None ks by (simp add: chosen_def preferred_proxy_id_def)
  then have "ks = []" by (cases ks) (simp_all add: best_def)
  then have "\<not> current_healthy (map_of (tests s) p)" if "p \<in> set ?ps" for p
    using that ks candidates_set[OF ks] candidates_None[of f "tests s" ?ps] by fastforce
  then show ?thesis using None by (simp add: best_of_def ids_of_def)
next
  case (Some p)
  then have "preferred_proxy_id f (map pid (records_for_country (catalog s) c)) (tests s) = Some (Some p)"
    using preferred_total[OF assms, of "map pid (records_for_country (catalog s) c)"] by (simp add: chosen_def)
  from preferred_is_best[OF this] Some show ?thesis by (simp add: best_of_def score_in_def ids_of_def)
qed

text \<open>
  C36. A scan that is left alone ends: with a catalog that does not change and probes that answer
  for both targets, the worker needs at most two turns more than there are waiting countries. Then
  every record of these countries has the result of its new answer, counted on top of its earlier one, no
  other result has changed, and each of the countries has a preferred proxy that is healthy on the new results
  with no healthy proxy of the country above its score, or none when none is healthy; the other
  countries keep theirs.
\<close>

theorem scan_completes:
  assumes "task s = Starting" "pending s \<noteq> []" "distinct (pending s)" "\<forall>c \<in> set (pending s). upper_code_text c"
    and "catalog_ok (catalog s)" "scoreable f (tests s)" "\<And>p. answers_both (raw_of p (answer p))"
  shows "\<exists>n t. n \<le> length (pending s) + 2 \<and> (worker_turn shown f stamp answer ^^ n) s = t
    \<and> task t = No_Task \<and> \<not> running t \<and> pending t = [] \<and> scope t = []
    \<and> (\<forall>c \<in> set (pending s). \<forall>p \<in> set (records_for_country (catalog s) c). \<exists>b. map_of (tests t) (pid p) = Some (JObj b)
         \<and> sanitize_proxy_test_result shown f (JStr (pid p)) (JObj (raw_with_counts (pid p) (country p) stamp
              (previous_counts (map_of (tests s) (pid p))) (raw_of (pid p) (answer (pid p))))) = Safe b)
    \<and> (\<forall>q. (\<forall>c \<in> set (pending s). q \<notin> ids_of (catalog s) c) \<longrightarrow> map_of (tests t) q = map_of (tests s) q)
    \<and> (\<forall>c \<in> set (pending s). best_of f t c (map_of (preferred t) c))
    \<and> (\<forall>c. c \<notin> set (pending s) \<longrightarrow> map_of (preferred t) c = map_of (preferred s) c)"
proof -
  let ?W = "worker_turn shown f stamp answer"
  let ?s = "s\<lparr>pending := [], running := True, scope := sort (pending s), failed := False\<rparr>"
  have "?W s = next_country (sort (pending s)) ?s" using assms(1,2) by (simp add: worker_turn_def take_pending_def)
  moreover obtain n t where t: "n \<le> length (pending s)" "(?W ^^ n) (next_country (sort (pending s)) ?s) = t"
      "task t = Saving" "progress shown f stamp answer (sort (pending s)) ?s t"
    using run_countries[of answer ?s f "sort (pending s)" shown stamp] assms by auto
  ultimately have "(?W ^^ Suc n) s = t" by (simp only: funpow_Suc_right comp_apply)
  moreover have "?W t = t\<lparr>running := False, scope := [], task := No_Task\<rparr>"
    using t(3,4) by (simp add: worker_turn_def take_pending_def progress_def)
  ultimately have "(?W ^^ Suc (Suc n)) s = t\<lparr>running := False, scope := [], task := No_Task\<rparr>" by simp
  moreover have "best_of f t c (map_of (preferred t) c)" if "c \<in> set (pending s)" for c
    using t(4) chosen_best[of f t c] that by (simp add: progress_def)
  moreover have "best_of f (t\<lparr>running := False, scope := [], task := No_Task\<rparr>) = best_of f t" unfolding best_of_def by simp
  ultimately show ?thesis using t(1,4)
    by (intro exI[of _ "Suc (Suc n)"] exI[of _ "t\<lparr>running := False, scope := [], task := No_Task\<rparr>"])
       (auto simp add: progress_def measured_def new_result_def)
qed

lemma failed_answers: "answers_both (failed_probe p e)"
  unfolding answers_both_def failed_probe_def
  by (rule exI[of _ "map (\<lambda>t. JObj [(''target'', JStr t), (''ok'', JBool False), (''status'', JNull),
          (''error'', JStr e)]) REQUIRED_TARGETS"]) (auto simp: image_iff)

definition sample_proxy :: "string \<Rightarrow> string \<Rightarrow> proxy" where
  "sample_proxy i c = \<lparr>pid = i, endpoint = ''http://h:1'', ptype = ''http'', country = c, code = c, flag = [], health = 90\<rparr>"

definition sample_repo :: "(string \<times> string) list \<Rightarrow> repo" where
  "sample_repo ps = new_repo\<lparr>records := map (\<lambda>(i, c). (i, sample_proxy i c)) ps\<rparr>"

lemma scan_repo_ok: "distinct (map fst ps) \<Longrightarrow> \<forall>(i, c) \<in> set ps. strip i = i \<and> i \<noteq> [] \<Longrightarrow> catalog_ok (sample_repo ps)"
  by (auto simp: catalog_ok_def sample_repo_def sample_proxy_def new_repo_def dict_ok_def comp_def case_prod_beta)

lemma scan_completes_witness:
  "\<exists>n t. (worker_turn (\<lambda>r. []) (\<lambda>t. None) ''now'' (\<lambda>p. Inl ''TimeoutError'') ^^ n)
      \<lparr>catalog = sample_repo [(''a'', ''DE'')], pending = [''DE'', ''NL''], scope = [], running = False, failed = False,
       tests = [], preferred = [(''FI'', ''b'')], task = Starting\<rparr> = t
    \<and> task t = No_Task \<and> map_of (preferred t) ''FI'' = Some ''b'' \<and> n \<le> 4"
proof -
  let ?s = "\<lparr>catalog = sample_repo [(''a'', ''DE'')], pending = [''DE'', ''NL''], scope = [], running = False, failed = False,
       tests = [], preferred = [(''FI'', ''b'')], task = Starting\<rparr>"
  have 1: "\<forall>c \<in> set (pending ?s). upper_code_text c" by (simp add: upper_code_text_def)
  have 2: "catalog_ok (catalog ?s)" using scan_repo_ok[of "[(''a'', ''DE'')]"] by (simp add: strip_def strip_by_def rstrip_by_def is_space_def)
  have 3: "scoreable (\<lambda>t. None) (tests ?s)" by (simp add: scoreable_def)
  have 4: "answers_both (raw_of p (Inl ''TimeoutError''))" for p by (simp add: raw_of_def failed_answers)
  have 5: "task ?s = Starting" "pending ?s \<noteq> []" "distinct (pending ?s)" by simp_all
  note sc = scan_completes[where shown = "\<lambda>r. []" and stamp = "''now''", OF 5 1 2 3 4]
  from sc obtain n t where r: "n \<le> length (pending ?s) + 2"
      "(worker_turn (\<lambda>r. []) (\<lambda>t. None) ''now'' (\<lambda>p. Inl ''TimeoutError'') ^^ n) ?s = t" "task t = No_Task"
      "\<forall>c. c \<notin> set (pending ?s) \<longrightarrow> map_of (preferred t) c = map_of (preferred ?s) c"
    by blast
  moreover have "map_of (preferred t) ''FI'' = Some ''b''" using r(4)[rule_format, of "''FI''"] by simp
  moreover have "n \<le> 4" using r(1) by simp
  ultimately show ?thesis by blast
qed

text \<open>
  A change of the catalog can be missed: a country whose turn in the running scan is over is
  still in the scan's scope, so a request for it is dropped. The scan then ends with nothing
  waiting, and the country keeps a preference chosen from the old catalog.
\<close>

theorem changed_country_missed:
  assumes "task s = Testing c (records_for_country (catalog s) c) rest" "pending s = []"
    and "d \<in> set (scope s)" "d \<notin> set (c # rest)" "requested_codes (catalog s) (Some [d]) = [d]"
    and "distinct (c # rest)" "\<forall>x \<in> set (c # rest). upper_code_text x"
    and "catalog_ok (catalog s)" "scoreable f (tests s)" "\<And>p. answers_both (raw_of p (answer p))"
  shows "schedule_scan (Some [d]) s = (False, s)
    \<and> (\<exists>n t. (worker_turn shown f stamp answer ^^ n) s = t \<and> task t = No_Task \<and> pending t = []
         \<and> map_of (preferred t) d = map_of (preferred s) d)"
proof -
  let ?W = "worker_turn shown f stamp answer"
  have 1: "schedule_scan (Some [d]) s = (False, s)"
    using assms(1-5) by (simp add: schedule_scan_def Let_def add_codes_def)
  obtain t where t: "?W s = next_country rest t" "progress shown f stamp answer [c] s t"
    using finish_progress[of s c f answer _ shown stamp rest] assms by (auto simp: worker_turn_def)
  obtain n u where nu: "(?W ^^ n) (next_country rest t) = u" "task u = Saving" "progress shown f stamp answer rest t u"
    using run_countries[of answer t f rest shown stamp] t(2) assms by (auto simp: progress_def)
  have pu: "progress shown f stamp answer (c # rest) s u" using progress_trans[OF t(2) nu(3)] assms by simp
  have "(?W ^^ Suc n) s = u" using nu(1) t(1) by (simp only: funpow_Suc_right comp_apply)
  moreover have "?W u = u\<lparr>running := False, scope := [], task := No_Task\<rparr>"
    using nu(2) pu assms(2) by (simp add: worker_turn_def take_pending_def progress_def)
  ultimately have "(?W ^^ Suc (Suc n)) s = u\<lparr>running := False, scope := [], task := No_Task\<rparr>" by simp
  then show ?thesis using 1 pu assms(2,4)
    by (intro conjI exI[of _ "Suc (Suc n)"] exI[of _ "u\<lparr>running := False, scope := [], task := No_Task\<rparr>"])
       (simp_all add: progress_def)
qed

lemma changed_country_missed_witness:
  "\<exists>n t. (worker_turn (\<lambda>r. []) (\<lambda>t. None) ''now'' (\<lambda>p. Inl ''TimeoutError'') ^^ n)
      \<lparr>catalog = sample_repo [(''new'', ''DE''), (''b'', ''NL'')], pending = [], scope = [''DE'', ''NL''], running = True,
       failed = False, tests = [], preferred = [(''DE'', ''old'')],
       task = Testing ''NL'' (records_for_country (sample_repo [(''new'', ''DE''), (''b'', ''NL'')]) ''NL'') []\<rparr> = t
    \<and> task t = No_Task \<and> pending t = [] \<and> map_of (preferred t) ''DE'' = Some ''old''"
proof -
  let ?s = "\<lparr>catalog = sample_repo [(''new'', ''DE''), (''b'', ''NL'')], pending = [], scope = [''DE'', ''NL''], running = True,
       failed = False, tests = [], preferred = [(''DE'', ''old'')],
       task = Testing ''NL'' (records_for_country (sample_repo [(''new'', ''DE''), (''b'', ''NL'')]) ''NL'') []\<rparr>"
  have 1: "requested_codes (catalog ?s) (Some [''DE'']) = [''DE'']" by code_simp
  have 2: "\<forall>x \<in> set (''NL'' # []). upper_code_text x" by (simp add: upper_code_text_def)
  have 3: "catalog_ok (catalog ?s)" using scan_repo_ok[of "[(''new'', ''DE''), (''b'', ''NL'')]"]
    by (simp add: strip_def strip_by_def rstrip_by_def is_space_def)
  have 4: "scoreable (\<lambda>t. None) (tests ?s)" by (simp add: scoreable_def)
  have 5: "answers_both (raw_of p (Inl ''TimeoutError''))" for p by (simp add: raw_of_def failed_answers)
  have 6: "task ?s = Testing ''NL'' (records_for_country (catalog ?s) ''NL'') []" by (simp only: scan.select_convs)
  have 7: "pending ?s = []" by simp
  have 8: "''DE'' \<in> set (scope ?s)" by simp
  have 9: "''DE'' \<notin> set (''NL'' # [])" by simp
  have 10: "distinct (''NL'' # [])" by simp
  have "\<exists>n t. (worker_turn (\<lambda>r. []) (\<lambda>t. None) ''now'' (\<lambda>p. Inl ''TimeoutError'') ^^ n) ?s = t
      \<and> task t = No_Task \<and> pending t = [] \<and> map_of (preferred t) ''DE'' = map_of (preferred ?s) ''DE''"
    by (rule changed_country_missed[of ?s "''NL''" "[]" "''DE''", THEN conjunct2, OF 6 7 8 9 1 10 2 3 4 5])
  then show ?thesis by (simp only: scan.select_convs map_of.simps fst_conv snd_conv fun_upd_same)
qed

text \<open>The preferences the panel shows are present, healthy and of their country.\<close>

lemma shown_preferences_sound:
  assumes "(c, p) \<in> set (current_preferred_proxy_by_country s)"
  shows "\<exists>r. get_record (catalog s) p = Some r \<and> code r = c \<and> current_healthy (map_of (tests s) p)"
  using assms by (auto simp: current_preferred_proxy_by_country_def split: option.splits)

end
