(* ===== verification/Persistence.thy ===== *)
theory Persistence
  imports Links Probe_Results
begin

text \<open>
  Keeping the state across restarts (\<open>main.py\<close>): the files of the data directory, the writing of
  a state as a sequence of effects that a crash can cut anywhere, the choice of the copy that is
  loaded, and the repair of old records. A file is absent, torn (its text is no JSON) or holds the
  JSON value its text stands for. Packing and signing of a snapshot are parameters.
\<close>

section \<open>Files and secrets\<close>

datatype disk_file = Absent | Torn | Text json

record disk =
  data_file :: disk_file
  backup1 :: disk_file
  backup2 :: disk_file
  tmp_file :: disk_file

text \<open>One legacy file and its current name: renamed only when the current name is free.\<close>

definition migrate_legacy :: "disk_file \<times> disk_file \<Rightarrow> disk_file \<times> disk_file" where
  "migrate_legacy p = (case p of (legacy, current) \<Rightarrow>
     if legacy \<noteq> Absent \<and> current = Absent then (Absent, legacy) else (legacy, current))"

text \<open>The secret of a start: environment, file, or a new one that is written when it can be.\<close>

definition load_or_create_secret :: "string option \<Rightarrow> bool \<Rightarrow> string \<Rightarrow> string option \<Rightarrow> string \<times> string option" where
  "load_or_create_secret env writable new stored =
     (if env \<noteq> None \<and> env \<noteq> Some [] then (the env, stored)
      else if \<not> writable then (new, stored)
      else (case stored of
          Some t \<Rightarrow> if strip t \<noteq> [] then (strip t, stored) else (new, Some new)
        | None \<Rightarrow> (new, Some new)))"

section \<open>States and snapshots\<close>

fun size_of :: "json \<Rightarrow> nat option" where
  "size_of (JObj kvs) = Some (length kvs)"
| "size_of _ = None"

definition validate_state :: "json \<Rightarrow> body option" where
  "validate_state data = (case data of
     JObj b \<Rightarrow>
       (case (size_of (jget b ''links''), size_of (jget b ''subs''),
              size_of (jget_def b ''proxy_test_results'' (JObj [])),
              size_of (jget_def b ''preferred_proxy_by_country'' (JObj []))) of
          (Some nl, Some ns, Some _, Some _) \<Rightarrow> if nl > 100000 \<or> ns > 100000 then None else Some b
        | _ \<Rightarrow> None)
   | _ \<Rightarrow> None)"

definition SNAPSHOT_MAX :: nat where "SNAPSHOT_MAX = 48 * 1024"

definition snapshot_encode :: "(string \<Rightarrow> string) \<Rightarrow> (json \<Rightarrow> string) \<Rightarrow> (string \<Rightarrow> string) \<Rightarrow> json \<Rightarrow> string option" where
  "snapshot_encode mac pack b64 data = (let zipped = pack data in
     if length zipped > SNAPSHOT_MAX then None
     else (let text = b64 zipped in Some (text @ ''.'' @ mac text)))"

definition snapshot_decode :: "(string \<Rightarrow> string) \<Rightarrow> (string \<Rightarrow> json option) \<Rightarrow> (string \<Rightarrow> string option) \<Rightarrow>
    string \<Rightarrow> body option" where
  "snapshot_decode mac unpack unb64 value =
     (if CHR ''.'' \<notin> set value then None
      else if after CHR ''.'' value \<noteq> mac (before CHR ''.'' value) then None
      else (case unb64 (before CHR ''.'' value) of
          None \<Rightarrow> None
        | Some zipped \<Rightarrow> if length zipped > SNAPSHOT_MAX then None
            else Option.bind (unpack zipped) validate_state))"

section \<open>Writing\<close>

text \<open>
  The effects of \<open>_atomic_write_state\<close> in order. A copy is not atomic: it truncates its target and
  then fills it. \<open>os.replace\<close> is atomic, and happens after the temporary file is synced.
\<close>

definition rotation :: "disk \<Rightarrow> (disk \<Rightarrow> disk) list" where
  "rotation d = (if backup1 d \<noteq> Absent
     then [\<lambda>x. x\<lparr>backup2 := Torn\<rparr>, \<lambda>x. x\<lparr>backup2 := backup1 x\<rparr>] else [])
     @ [\<lambda>x. x\<lparr>backup1 := Torn\<rparr>, \<lambda>x. x\<lparr>backup1 := data_file x\<rparr>]"

definition commit_effects :: "json \<Rightarrow> (disk \<Rightarrow> disk) list" where
  "commit_effects data = [\<lambda>x. x\<lparr>tmp_file := Torn\<rparr>, \<lambda>x. x\<lparr>tmp_file := Text data\<rparr>,
     \<lambda>x. x\<lparr>data_file := tmp_file x, tmp_file := Absent\<rparr>]"

definition write_effects :: "bool \<Rightarrow> json \<Rightarrow> disk \<Rightarrow> (disk \<Rightarrow> disk) list" where
  "write_effects rotated data d =
     (if rotated \<and> data_file d \<noteq> Absent then rotation d else []) @ commit_effects data"

definition perform :: "(disk \<Rightarrow> disk) list \<Rightarrow> disk \<Rightarrow> disk" where
  "perform es d = fold (\<lambda>e x. e x) es d"

text \<open>A write that is cut after its first \<open>n\<close> effects, by a crash or by an error of the file system.\<close>

definition atomic_write_state :: "bool \<Rightarrow> json \<Rightarrow> nat \<Rightarrow> disk \<Rightarrow> disk" where
  "atomic_write_state rotated data n d = perform (take n (write_effects rotated data d)) d"

definition write_done :: "bool \<Rightarrow> json \<Rightarrow> nat \<Rightarrow> disk \<Rightarrow> bool" where
  "write_done rotated data n d \<longleftrightarrow> length (write_effects rotated data d) \<le> n"

definition save_state :: "bool \<Rightarrow> json \<Rightarrow> nat \<Rightarrow> disk \<Rightarrow> bool \<times> disk" where
  "save_state rotated payload n d = (case validate_state payload of
     None \<Rightarrow> (False, d)
   | Some b \<Rightarrow> (write_done rotated payload n d, atomic_write_state rotated payload n d))"

section \<open>Loading\<close>

datatype source = From_Data | From_Backup1 | From_Backup2 | From_Snapshot

datatype start = Refused | Empty_Start | Loaded source body

fun read_file :: "disk_file \<Rightarrow> body option" where
  "read_file (Text j) = validate_state j"
| "read_file _ = None"

definition find_state :: "disk \<Rightarrow> (source \<times> body) option" where
  "find_state d = (case read_file (data_file d) of
     Some b \<Rightarrow> Some (From_Data, b)
   | None \<Rightarrow> (case read_file (backup1 d) of
       Some b \<Rightarrow> Some (From_Backup1, b)
     | None \<Rightarrow> (case read_file (backup2 d) of
         Some b \<Rightarrow> Some (From_Backup2, b) | None \<Rightarrow> None)))"

definition load_outcome :: "(string \<Rightarrow> body option) \<Rightarrow> string \<Rightarrow> disk \<Rightarrow> start" where
  "load_outcome decode env d = (case find_state d of
     Some (src, b) \<Rightarrow> Loaded src b
   | None \<Rightarrow>
      (let snapshot = strip env in
       if snapshot \<noteq> [] then
         (case decode snapshot of Some b \<Rightarrow> Loaded From_Snapshot b | None \<Rightarrow> Empty_Start)
       else if data_file d \<noteq> Absent \<or> backup1 d \<noteq> Absent \<or> backup2 d \<noteq> Absent then Refused
       else Empty_Start))"

section \<open>A write can be cut anywhere\<close>

lemma perform_simps [simp]: "perform [] d = d" "perform (e # es) d = perform es (e d)"
  by (simp_all add: perform_def)

lemma perform_append: "perform (xs @ ys) d = perform ys (perform xs d)"
  by (simp add: perform_def)

text \<open>The last three effects alone: only the third touches the data file.\<close>

lemma saved_frame:
  "data_file (perform (take n (commit_effects data)) x) = (if 3 \<le> n then Text data else data_file x)
    \<and> backup1 (perform (take n (commit_effects data)) x) = backup1 x
    \<and> backup2 (perform (take n (commit_effects data)) x) = backup2 x"
proof -
  consider "n = 0" | "n = 1" | "n = 2" | "3 \<le> n" by linarith
  then show ?thesis
  proof cases
    case 4
    then have "take n (commit_effects data) = commit_effects data" by (simp add: commit_effects_def)
    then show ?thesis using 4 by (simp add: commit_effects_def)
  qed (simp_all add: commit_effects_def numeral_2_eq_2)
qed

lemma rotation_frame: "set es \<subseteq> set (rotation d) \<Longrightarrow> data_file (perform es x) = data_file x"
  by (induction es arbitrary: x) (auto simp: rotation_def split: if_splits)

lemma write_data_file: "data_file (atomic_write_state rotated data n d) =
   (if write_done rotated data n d then Text data else data_file d)"
proof -
  define pre where "pre = (if rotated \<and> data_file d \<noteq> Absent then rotation d else [])"
  have w: "atomic_write_state rotated data n d = perform (take (n - length pre) (commit_effects data)) (perform (take n pre) d)"
    by (simp add: atomic_write_state_def write_effects_def pre_def[symmetric] perform_append)
  have "data_file (perform (take n pre) d) = data_file d"
  proof (cases "rotated \<and> data_file d \<noteq> Absent")
    case True
    then show ?thesis using rotation_frame[of "take n pre" d d, OF _] set_take_subset[of n pre] by (simp add: pre_def)
  qed (auto simp: pre_def)
  moreover have "write_done rotated data n d \<longleftrightarrow> 3 \<le> n - length pre"
    by (auto simp: write_done_def write_effects_def commit_effects_def pre_def[symmetric])
  ultimately show ?thesis using saved_frame[of "n - length pre" data] w by simp
qed

lemma write_backups_plain: "backup1 (atomic_write_state False data n d) = backup1 d
   \<and> backup2 (atomic_write_state False data n d) = backup2 d"
  using saved_frame[of n data d] by (simp add: atomic_write_state_def write_effects_def)

text \<open>
  C8. Saving is safe against a crash at any moment: however far a write came, the next start loads
  the state that was there before or the new one, complete, and the new one exactly when the write
  came to its end.
\<close>

theorem crash_safe_save:
  assumes "find_state d = Some (From_Data, old)" "validate_state payload = Some new"
  shows "find_state (snd (save_state rotated payload n d)) = Some (From_Data, if fst (save_state rotated payload n d) then new else old)"
  using assms write_data_file[of rotated payload n d]
  by (auto simp: find_state_def save_state_def split: option.splits)

lemma crash_safe_save_witness:
  "find_state (snd (save_state True (JObj [(''links'', JObj []), (''subs'', JObj [(''g'', JNull)])]) 5
      \<lparr>data_file = Text (JObj [(''links'', JObj []), (''subs'', JObj [])]), backup1 = Torn, backup2 = Absent, tmp_file = Torn\<rparr>))
    = Some (From_Data, [(''links'', JObj []), (''subs'', JObj [])])"
proof -
  let ?d = "\<lparr>data_file = Text (JObj [(''links'', JObj []), (''subs'', JObj [])]), backup1 = Torn, backup2 = Absent, tmp_file = Torn\<rparr>"
  have 1: "find_state ?d = Some (From_Data, [(''links'', JObj []), (''subs'', JObj [])])" by code_simp
  have 2: "validate_state (JObj [(''links'', JObj []), (''subs'', JObj [(''g'', JNull)])])
      = Some [(''links'', JObj []), (''subs'', JObj [(''g'', JNull)])]" by code_simp
  have 3: "\<not> fst (save_state True (JObj [(''links'', JObj []), (''subs'', JObj [(''g'', JNull)])]) 5 ?d)"
    by (simp add: save_state_def 2 write_done_def write_effects_def rotation_def commit_effects_def)
  show ?thesis using crash_safe_save[OF 1 2, of True 5] 3 by (simp only: if_False)
qed


text \<open>
  Recovery is safe as well: rewriting the data file from a recovered copy does not touch the
  backups, so a crash in the middle still finds the copy that was being recovered.
\<close>

theorem recovery_keeps_backups:
  assumes "find_state d = Some (src, old)" "src \<noteq> From_Data" "validate_state payload = Some new"
  shows "find_state (atomic_write_state False payload n d)
     = (if write_done False payload n d then Some (From_Data, new) else Some (src, old))"
  using assms write_data_file[of False payload n d] write_backups_plain[of payload n d]
  by (auto simp: find_state_def split: option.splits)

lemma recovery_keeps_backups_witness:
  "find_state (atomic_write_state False (JObj [(''links'', JObj []), (''subs'', JObj [])]) 1
      \<lparr>data_file = Torn, backup1 = Text (JObj [(''links'', JObj []), (''subs'', JObj [])]), backup2 = Absent, tmp_file = Absent\<rparr>)
    = Some (From_Backup1, [(''links'', JObj []), (''subs'', JObj [])])"
proof -
  let ?d = "\<lparr>data_file = Torn, backup1 = Text (JObj [(''links'', JObj []), (''subs'', JObj [])]), backup2 = Absent, tmp_file = Absent\<rparr>"
  let ?j = "JObj [(''links'', JObj []), (''subs'', JObj [])]"
  have 1: "find_state ?d = Some (From_Backup1, [(''links'', JObj []), (''subs'', JObj [])])" by code_simp
  have 2: "validate_state ?j = Some [(''links'', JObj []), (''subs'', JObj [])]" by code_simp
  have 3: "\<not> write_done False ?j 1 ?d" by (simp add: write_done_def write_effects_def commit_effects_def)
  show ?thesis using recovery_keeps_backups[OF 1 _ 2, of 1] 3 by simp
qed

text \<open>
  The refusal to overwrite damaged data has a gap: when every copy on disk is damaged, the start
  is refused without a snapshot in the environment, but with a snapshot that cannot be read the
  panel starts empty, and the next completed save puts the empty state in the place of the data.
\<close>

theorem damaged_state_overwritten:
  assumes "data_file d \<noteq> Absent" "find_state d = None"
    and "strip env \<noteq> []" "decode (strip env) = None" "validate_state payload \<noteq> None"
  shows "load_outcome decode [] d = Refused \<and> load_outcome decode env d = Empty_Start
    \<and> (fst (save_state rotated payload n d) \<longrightarrow> data_file (snd (save_state rotated payload n d)) = Text payload)"
  using assms write_data_file[of rotated payload n d]
  by (auto simp: load_outcome_def save_state_def Let_def)

lemma damaged_state_overwritten_witness:
  "load_outcome (\<lambda>t. None) ''x'' \<lparr>data_file = Torn, backup1 = Torn, backup2 = Absent, tmp_file = Absent\<rparr> = Empty_Start"
proof -
  let ?d = "\<lparr>data_file = Torn, backup1 = Torn, backup2 = Absent, tmp_file = Absent\<rparr>"
  have 1: "find_state ?d = None" by code_simp
  have 2: "strip ''x'' \<noteq> []" by code_simp
  have 3: "validate_state (JObj [(''links'', JObj []), (''subs'', JObj [])]) \<noteq> None" by code_simp
  show ?thesis using damaged_state_overwritten[of ?d "''x''" "\<lambda>t. None", OF _ 1 2 _ 3] by simp
qed

section \<open>Snapshots and secrets\<close>

text \<open>What the packing of the standard library gives: unpacking, and a text without a dot.\<close>

definition codec_ok :: "(json \<Rightarrow> string) \<Rightarrow> (string \<Rightarrow> string) \<Rightarrow> (string \<Rightarrow> json option) \<Rightarrow> (string \<Rightarrow> string option) \<Rightarrow>
    json \<Rightarrow> bool" where
  "codec_ok pack b64 unpack unb64 data \<longleftrightarrow> unpack (pack data) = Some data
     \<and> unb64 (b64 (pack data)) = Some (pack data) \<and> CHR ''.'' \<notin> set (b64 (pack data))"

text \<open>
  A snapshot that the panel made is read back as exactly its state, and the same text under any
  other signature is never taken for a state.
\<close>

theorem snapshot_round_trip:
  assumes "codec_ok pack b64 unpack unb64 data" "snapshot_encode mac pack b64 data = Some value"
  shows "snapshot_decode mac unpack unb64 value = validate_state data
    \<and> (\<forall>other. other \<noteq> after CHR ''.'' value \<longrightarrow> snapshot_decode mac unpack unb64 (before CHR ''.'' value @ ''.'' @ other) = None)"
  using assms before_append[of "CHR ''.''"]
  by (auto simp: codec_ok_def snapshot_encode_def snapshot_decode_def Let_def split: if_splits)

lemma snapshot_round_trip_witness:
  "snapshot_decode (\<lambda>t. ''m'') (\<lambda>t. Some (JObj [(''links'', JObj []), (''subs'', JObj [])])) (\<lambda>t. Some t) ''ab.m''
     = Some [(''links'', JObj []), (''subs'', JObj [])]"
proof -
  let ?j = "JObj [(''links'', JObj []), (''subs'', JObj [])]"
  have 1: "codec_ok (\<lambda>j. ''ab'') (\<lambda>t. t) (\<lambda>t. Some ?j) (\<lambda>t. Some t) ?j" by (simp add: codec_ok_def)
  have 2: "snapshot_encode (\<lambda>t. ''m'') (\<lambda>j. ''ab'') (\<lambda>t. t) ?j = Some ''ab.m''" by code_simp
  have "validate_state ?j = Some [(''links'', JObj []), (''subs'', JObj [])]" by code_simp
  then show ?thesis using snapshot_round_trip[OF 1 2] by simp
qed

text \<open>Without a secret in the environment a writable directory keeps the one it got first.\<close>

lemma secret_stable:
  assumes "load_or_create_secret None True new stored = (secret, stored')" "strip new = new" "new \<noteq> []"
  shows "load_or_create_secret None w other stored' = (if w then secret else other, stored')"
  using assms by (auto simp: load_or_create_secret_def split: option.splits if_splits)

end
