(* ===== verification/Restore.thy ===== *)
theory Restore
  imports Persistence
begin

text \<open>
  The repair of loaded records in \<open>load_state\<close> (\<open>main.py\<close>): configurations, measurements, preferred
  proxies and the Multi-Location tables of groups, on the JSON objects of the state file.
  \<open>flag_text\<close> is the text of a list of code points, \<open>token\<close> the random identity given to the
  \<open>i\<close>-th location that has none.
\<close>

section \<open>Records\<close>

definition setdefault :: "string \<Rightarrow> json \<Rightarrow> body \<Rightarrow> body" where
  "setdefault k v b = (if has_key b k then b else AList.update k v b)"

definition LEGACY_KEYS :: "string list" where
  "LEGACY_KEYS = [''proxyip'', ''proxyip_enabled'', ''proxyip_concurrency'', ''outbound'']"

definition transport_values :: "ingress \<Rightarrow> json \<Rightarrow> json \<Rightarrow> json \<times> json" where
  "transport_values i stored settings =
     (let protocol = strip (py_str (or_else stored (JStr DEFAULT_PROTOCOL))) in
      case transport_validate i protocol settings of
        Inr (p, st) \<Rightarrow> (JStr p, JObj st)
      | Inl e \<Rightarrow> (JStr protocol, case settings of JObj kvs \<Rightarrow> JObj kvs | _ \<Rightarrow> JObj []))"

definition restore_transport :: "ingress \<Rightarrow> body \<Rightarrow> body" where
  "restore_transport i b =
     (let v = transport_values i (jget b ''protocol'') (jget b ''transport_settings'')
      in AList.update ''transport_settings'' (snd v) (AList.update ''protocol'' (fst v) b))"

definition restore_alpn :: "body \<Rightarrow> body" where
  "restore_alpn b =
     (if jget b ''protocol'' = JStr ''vless-tcp'' then AList.update ''alpn'' (JStr []) b
      else if \<not> truthy (jget b ''alpn'') \<or> contains ''h2'' (py_str (jget b ''alpn''))
           then AList.update ''alpn'' (JStr ''http/1.1'') b
      else b)"

definition restore_link :: "ingress \<Rightarrow> body \<Rightarrow> body" where
  "restore_link i b =
     (let b1 = restore_transport i b;
          b2 = setdefault ''sni'' (JStr []) (setdefault ''address'' (JStr []) b1);
          b3 = setdefault ''remark'' (or_else (jget b2 ''label'') (JStr ''Lumen Relay'')) b2;
          b4 = fold AList.delete LEGACY_KEYS b3;
          b5 = setdefault ''custom_proxy'' (JStr []) (setdefault ''proxy_id'' (JStr []) (setdefault ''exit_proxy_mode'' (JStr ''direct'') b4))
      in restore_alpn b5)"

text \<open>A value that is no object has no \<open>get\<close>: the load fails, here \<open>None\<close>.\<close>

definition restore_links :: "ingress \<Rightarrow> body \<Rightarrow> body option" where
  "restore_links i links = all_some (map (\<lambda>(k, v). case v of
     JObj b \<Rightarrow> Some (k, JObj (restore_link i b)) | _ \<Rightarrow> None) links)"

text \<open>\<open>None\<close> is an exception of the cleaning, which stops the load.\<close>

fun restore_tests :: "(rat \<Rightarrow> string) \<Rightarrow> (string \<Rightarrow> rat option) \<Rightarrow> body \<Rightarrow> (string, json) dict \<Rightarrow> (string, json) dict option" where
  "restore_tests shown f [] ts = Some ts"
| "restore_tests shown f ((p, t) # rest) ts = (case sanitize_proxy_test_result shown f (JStr p) t of
     Raised \<Rightarrow> None
   | Rejected \<Rightarrow> restore_tests shown f rest ts
   | Safe b \<Rightarrow> restore_tests shown f rest (AList.update (py_str (jget b ''proxy_id'')) (JObj b) ts))"

definition restore_preferred :: "body \<Rightarrow> (string, string) dict" where
  "restore_preferred raw = fold (\<lambda>(rc, rp) d.
     let c = snd (normalize_country rc); p = strip (text_or_empty rp) in
     if c \<noteq> [] \<and> p \<noteq> [] then AList.update c p d else d) raw []"

section \<open>Location tables\<close>

definition default_table :: body where
  "default_table = [(''enabled'', JBool False), (''remark_text'', JStr []), (''locations'', JArr [])]"

definition legacy_choice :: "body \<Rightarrow> body" where
  "legacy_choice b = (let old = jget_def b ''proxy_ids'' (JArr []); c = AList.delete ''proxy_ids'' b in
     if truthy (jget c ''proxy_id'') then c
     else (case old of JArr [x] \<Rightarrow> AList.update ''proxy_id'' (JStr (text_or_empty x)) c | _ \<Rightarrow> c))"

definition restore_location :: "(nat list \<Rightarrow> string) \<Rightarrow> string \<Rightarrow> body \<Rightarrow> body" where
  "restore_location flag_text token b =
     (let b1 = AList.update ''active'' (JBool True) (setdefault ''id'' (JStr token) b);
          b2 = setdefault ''proxy_id'' (JStr []) (legacy_choice b1);
          cc = snd (normalize_country (text_or_empty (or_else (jget b2 ''code'') (jget b2 ''country''))));
          b3 = AList.update ''code'' (JStr cc) b2
      in AList.update ''flag'' (JStr (flag_text (flag_for cc)))
           (AList.update ''country''
              (if cc \<noteq> [] then JStr (country_name cc) else or_else (jget b3 ''country'') (JStr ''Unknown'')) b3))"

fun restore_locations :: "(nat list \<Rightarrow> string) \<Rightarrow> (nat \<Rightarrow> string) \<Rightarrow> nat \<Rightarrow> json list \<Rightarrow> json list" where
  "restore_locations flag_text token n [] = []"
| "restore_locations flag_text token n (j # js) =
     (case Performance.fields j of Some b \<Rightarrow> JObj (restore_location flag_text (token n) b) | None \<Rightarrow> j)
       # restore_locations flag_text token (Suc n) js"

definition chosen_mode :: "json \<Rightarrow> string" where
  "chosen_mode j = (let m = py_str (or_else j (JStr ''explicit'')) in
     if m = ''explicit'' \<or> m = ''country_preferred'' then m else ''explicit'')"

definition missing_choice :: "json list \<Rightarrow> bool" where
  "missing_choice locs = list_ex (\<lambda>j. case Performance.fields j of Some b \<Rightarrow> \<not> truthy (jget b ''proxy_id'') | None \<Rightarrow> False) locs"

definition restore_table :: "(nat list \<Rightarrow> string) \<Rightarrow> (nat \<Rightarrow> string) \<Rightarrow> json \<Rightarrow> body" where
  "restore_table flag_text token value = (case value of
     JObj b \<Rightarrow>
       (let b1 = setdefault ''remark_text'' (JStr []) (setdefault ''enabled'' (JBool False) b);
            locs = restore_locations flag_text token 0 (case jget b1 ''locations'' of JArr xs \<Rightarrow> xs | _ \<Rightarrow> []);
            b2 = AList.update ''locations'' (JArr locs) b1;
            mode = chosen_mode (jget b2 ''selection_mode'');
            b3 = setdefault ''failover'' (JBool False) (AList.update ''selection_mode'' (JStr mode) b2)
        in if truthy (jget b3 ''enabled'') \<and> (length locs \<noteq> 2 \<or> mode = ''explicit'' \<and> missing_choice locs)
           then AList.update ''migration_required'' (JBool True) b3 else b3)
   | _ \<Rightarrow> default_table)"

section \<open>Repairing twice\<close>

lemma has_key_update [simp]: "has_key (AList.update k v b) q \<longleftrightarrow> q = k \<or> has_key b q"
  by (simp add: has_key_def)

lemma jget_setdefault [simp]: "jget (setdefault k v b) q = (if q = k \<and> \<not> has_key b k then v else jget b q)"
  by (simp add: setdefault_def)

lemma has_key_setdefault [simp]: "has_key (setdefault k v b) q \<longleftrightarrow> q = k \<or> has_key b q"
  by (auto simp: setdefault_def)

lemma jget_delete [simp]: "jget (AList.delete k b) q = (if q = k then JNull else jget b q)"
  by (simp add: jget_def)

lemma has_key_delete [simp]: "has_key (AList.delete k b) q \<longleftrightarrow> q \<noteq> k \<and> has_key b q"
  by (simp add: has_key_def)

lemma update_with_same: "map_of b k = Some v \<Longrightarrow> AList.update k v b = b"
  by (induction b) auto

lemma jget_update_same: "has_key b k \<Longrightarrow> jget b k = v \<Longrightarrow> AList.update k v b = b"
  by (auto simp: has_key_def jget_def intro: update_with_same)

lemma setdefault_same [simp]: "has_key b k \<Longrightarrow> setdefault k v b = b"
  by (simp add: setdefault_def)

lemma delete_same: "\<not> has_key b k \<Longrightarrow> AList.delete k b = b"
  by (simp add: has_key_def delete_conv delete_notin_dom map_of_eq_None_iff)

lemma settings_none: "validate_settings a v = Inr s \<Longrightarrow> s = [] \<and> (v = JNull \<or> v = JObj [])"
  by (cases v) (auto simp: validate_settings_def split: list.splits)

lemma validate_parts: "transport_validate i t v = Inr ps \<Longrightarrow>
   \<exists>a. get_adapter t = Inr a \<and> ps = (aid a, []) \<and> adapter_available i a \<and> (v = JNull \<or> v = JObj [])"
  using settings_none by (fastforce simp: transport_validate_def and_then_Inr)

lemma transport_values_again:
  assumes "strip (py_str (or_else stored (JStr DEFAULT_PROTOCOL))) \<noteq> []"
  shows "transport_values i (fst (transport_values i stored settings)) (snd (transport_values i stored settings))
     = transport_values i stored settings"
proof -
  define protocol where "protocol = strip (py_str (or_else stored (JStr DEFAULT_PROTOCOL)))"
  define st' where "st' = (case settings of JObj kvs \<Rightarrow> JObj kvs | _ \<Rightarrow> JObj [])"
  have sp: "strip protocol = protocol" "protocol \<noteq> []" using assms by (simp_all add: protocol_def)
  have v: "transport_values i (JStr protocol) w = (case transport_validate i protocol w of
        Inr (p, st) \<Rightarrow> (JStr p, JObj st) | Inl e \<Rightarrow> (JStr protocol, case w of JObj kvs \<Rightarrow> JObj kvs | _ \<Rightarrow> JObj []))" for w
    using sp by (simp add: transport_values_def or_else_def py_str_def)
  have name: "transport_validate i protocol w = Inr ps \<Longrightarrow> ps = (protocol, []) \<and> (w = JNull \<or> w = JObj [])" for w ps
    using validate_parts[of i protocol w ps] get_adapter_cases[of protocol] sp by auto
  obtain kvs where kvs: "st' = JObj kvs" by (cases settings) (auto simp: st'_def)
  show ?thesis
  proof (cases "transport_validate i protocol settings")
    case (Inr ps)
    then have ps: "ps = (protocol, [])" using name by blast
    have "transport_validate i protocol (JObj []) = Inr (protocol, [])"
      using validate_parts[OF Inr] ps by (auto simp: transport_validate_def and_then_Inr validate_settings_def)
    then show ?thesis using Inr ps v by (simp add: transport_values_def[of i stored] protocol_def[symmetric])
  next
    case (Inl e)
    have "transport_values i (JStr protocol) st' = (JStr protocol, st')"
      using v[of st'] name[of st'] kvs by (cases "transport_validate i protocol st'") auto
    then show ?thesis using Inl by (simp add: transport_values_def[of i stored] protocol_def[symmetric] st'_def[symmetric])
  qed
qed

text \<open>A record whose fields are all in place is left as it is.\<close>

lemma restore_fixed:
  assumes "transport_values i (jget b ''protocol'') (jget b ''transport_settings'') = (jget b ''protocol'', jget b ''transport_settings'')"
    and "\<forall>k \<in> set [''protocol'', ''transport_settings'', ''address'', ''sni'', ''remark'', ''exit_proxy_mode'', ''proxy_id'', ''custom_proxy'', ''alpn'']. has_key b k"
    and "\<forall>k \<in> set LEGACY_KEYS. \<not> has_key b k"
    and "restore_alpn b = b"
  shows "restore_link i b = b"
proof -
  have "restore_transport i b = b"
    using assms(1,2) by (simp add: restore_transport_def Let_def jget_update_same)
  moreover have "fold AList.delete LEGACY_KEYS b = b"
    using assms(3) by (simp add: LEGACY_KEYS_def delete_same)
  ultimately show ?thesis using assms(2,4) by (simp add: restore_link_def Let_def)
qed

lemma restore_alpn_keys [simp]:
  "q \<noteq> ''alpn'' \<Longrightarrow> jget (restore_alpn b) q = jget b q"
  "q \<noteq> ''alpn'' \<Longrightarrow> has_key (restore_alpn b) q = has_key b q"
  by (auto simp: restore_alpn_def)

lemma restore_alpn_has: "has_key (restore_alpn b) ''alpn''"
proof -
  have "truthy (jget b ''alpn'') \<Longrightarrow> has_key b ''alpn''" by (auto simp: jget_def has_key_def split: option.splits)
  then show ?thesis by (auto simp: restore_alpn_def)
qed

lemma restore_alpn_again: "restore_alpn (restore_alpn b) = restore_alpn b"
proof -
  have h2: "\<not> contains ''h2'' (py_str (JStr ''http/1.1''))" by code_simp
  show ?thesis using h2 by (auto simp: restore_alpn_def jget_update_same)
qed

text \<open>
  Loading is stable: a configuration that was repaired once is never changed by a later load of
  the same deployment, provided its transport has a name that is not blank.
\<close>

theorem restore_link_stable:
  assumes "strip (py_str (or_else (jget b ''protocol'') (JStr DEFAULT_PROTOCOL))) \<noteq> []"
  shows "restore_link i (restore_link i b) = restore_link i b"
proof -
  define t where "t = restore_transport i b"
  define b2 where "b2 = setdefault ''remark'' (or_else (jget (setdefault ''sni'' (JStr []) (setdefault ''address'' (JStr []) t)) ''label'') (JStr ''Lumen Relay''))
      (setdefault ''sni'' (JStr []) (setdefault ''address'' (JStr []) t))"
  define b4 where "b4 = setdefault ''custom_proxy'' (JStr []) (setdefault ''proxy_id'' (JStr []) (setdefault ''exit_proxy_mode'' (JStr ''direct'') (fold AList.delete LEGACY_KEYS b2)))"
  have c: "restore_link i b = restore_alpn b4"
    by (simp only: restore_link_def Let_def t_def[symmetric] b2_def[symmetric] b4_def[symmetric])
  let ?v = "transport_values i (jget b ''protocol'') (jget b ''transport_settings'')"
  have t: "jget t ''protocol'' = fst ?v" "jget t ''transport_settings'' = snd ?v" "has_key t ''protocol''" "has_key t ''transport_settings''"
    by (simp_all add: t_def restore_transport_def Let_def)
  have b4: "jget b4 ''protocol'' = fst ?v" "jget b4 ''transport_settings'' = snd ?v"
      "\<forall>k \<in> set [''protocol'', ''transport_settings'', ''address'', ''sni'', ''remark'', ''exit_proxy_mode'', ''proxy_id'', ''custom_proxy'']. has_key b4 k"
      "\<forall>k \<in> set LEGACY_KEYS. \<not> has_key b4 k"
    using t by (simp_all add: b4_def b2_def LEGACY_KEYS_def)
  show ?thesis unfolding c
  proof (rule restore_fixed)
    show "transport_values i (jget (restore_alpn b4) ''protocol'') (jget (restore_alpn b4) ''transport_settings'')
        = (jget (restore_alpn b4) ''protocol'', jget (restore_alpn b4) ''transport_settings'')"
      using transport_values_again[OF assms] b4(1,2) by simp
    show "\<forall>k \<in> set [''protocol'', ''transport_settings'', ''address'', ''sni'', ''remark'', ''exit_proxy_mode'', ''proxy_id'', ''custom_proxy'', ''alpn'']. has_key (restore_alpn b4) k"
      using b4(3) restore_alpn_has by simp
    show "\<forall>k \<in> set LEGACY_KEYS. \<not> has_key (restore_alpn b4) k"
      using b4(4) by (simp add: LEGACY_KEYS_def)
    show "restore_alpn (restore_alpn b4) = restore_alpn b4" by (rule restore_alpn_again)
  qed
qed


lemma restore_link_stable_witness:
  "restore_link i (restore_link i [(''label'', JStr ''x''), (''alpn'', JStr ''h2'')])
     = restore_link i [(''label'', JStr ''x''), (''alpn'', JStr ''h2'')]"
proof -
  have "strip (py_str (or_else (jget [(''label'', JStr ''x''), (''alpn'', JStr ''h2'')] ''protocol'') (JStr DEFAULT_PROTOCOL))) \<noteq> []"
    by code_simp
  then show ?thesis by (rule restore_link_stable)
qed

text \<open>One location: its proxy is its own one, or the only one of the old list, or still to be chosen.\<close>

definition sole :: "json \<Rightarrow> json option" where
  "sole j = (case j of JArr [x] \<Rightarrow> Some x | _ \<Rightarrow> None)"

definition kept_choice :: "body \<Rightarrow> json" where
  "kept_choice e = (if truthy (jget e ''proxy_id'') then jget e ''proxy_id''
     else (case sole (jget e ''proxy_ids'') of
         Some x \<Rightarrow> JStr (text_or_empty x)
       | None \<Rightarrow> if has_key e ''proxy_id'' then jget e ''proxy_id'' else JStr []))"

lemma jget_def_sole: "sole (jget_def b k (JArr [])) = sole (jget b k)"
  by (cases "map_of b k") (simp_all add: jget_def_def jget_def sole_def)

lemma legacy_eq: "legacy_choice b = (let c = AList.delete ''proxy_ids'' b in
    if truthy (jget b ''proxy_id'') then c
    else (case sole (jget b ''proxy_ids'') of Some x \<Rightarrow> AList.update ''proxy_id'' (JStr (text_or_empty x)) c | None \<Rightarrow> c))"
proof -
  have "(case j of JArr [x] \<Rightarrow> f x | _ \<Rightarrow> d) = (case sole j of Some x \<Rightarrow> f x | None \<Rightarrow> d)" for j d and f :: "json \<Rightarrow> body"
    by (simp add: sole_def split: json.split list.split)
  then show ?thesis by (simp add: legacy_choice_def Let_def jget_def_sole)
qed

lemma legacy_keeps: "jget (legacy_choice x) ''active'' = jget x ''active''" "\<not> has_key (legacy_choice x) ''proxy_ids''"
  by (simp_all add: legacy_eq Let_def split: option.split)

lemma legacy_proxy: "jget (setdefault ''proxy_id'' (JStr []) (legacy_choice e)) ''proxy_id'' = kept_choice e"
proof -
  have "truthy (jget e ''proxy_id'') \<Longrightarrow> has_key e ''proxy_id''" by (cases "map_of e ''proxy_id''") (simp_all add: jget_def has_key_def)
  then show ?thesis by (cases "sole (jget e ''proxy_ids'')") (auto simp: legacy_eq kept_choice_def Let_def)
qed

lemma kept_same: "kept_choice (AList.update ''active'' v (setdefault ''id'' w b)) = kept_choice b"
proof -
  let ?b = "AList.update ''active'' v (setdefault ''id'' w b)"
  have "jget ?b ''proxy_id'' = jget b ''proxy_id''" "jget ?b ''proxy_ids'' = jget b ''proxy_ids''"
    "has_key ?b ''proxy_id'' = has_key b ''proxy_id''" by simp_all
  then show ?thesis by (simp only: kept_choice_def)
qed

lemma restore_location_fields:
  "let c = restore_location ft t b in jget c ''active'' = JBool True \<and> \<not> has_key c ''proxy_ids'' \<and> jget c ''proxy_id'' = kept_choice b
    \<and> (\<exists>cc. jget c ''code'' = JStr cc \<and> (cc = [] \<or> upper_code_text cc))"
proof -
  define a where "a = AList.update ''active'' (JBool True) (setdefault ''id'' (JStr t) b)"
  define d where "d = setdefault ''proxy_id'' (JStr []) (legacy_choice a)"
  define cc where "cc = snd (normalize_country (text_or_empty (or_else (jget d ''code'') (jget d ''country''))))"
  have c: "restore_location ft t b = AList.update ''flag'' (JStr (ft (flag_for cc)))
       (AList.update ''country'' (if cc \<noteq> [] then JStr (country_name cc)
            else or_else (jget (AList.update ''code'' (JStr cc) d) ''country'') (JStr ''Unknown''))
          (AList.update ''code'' (JStr cc) d))"
    by (simp only: restore_location_def Let_def a_def[symmetric] d_def[symmetric] cc_def[symmetric])
  have "jget d ''active'' = JBool True" "\<not> has_key d ''proxy_ids''" "jget d ''proxy_id'' = kept_choice b"
    using legacy_keeps legacy_proxy[of a] kept_same[of "JBool True" "JStr t" b] by (simp_all add: d_def a_def)
  moreover have "cc = [] \<or> upper_code_text cc"
    unfolding cc_def using code_canonical by (metis surjective_pairing)
  ultimately show ?thesis by (simp add: c Let_def)
qed

lemma restore_locations_nth: "length (restore_locations ft tok n js) = length js"
  "k < length js \<Longrightarrow> restore_locations ft tok n js ! k = (case Performance.fields (js ! k) of
     Some b \<Rightarrow> JObj (restore_location ft (tok (n + k)) b) | None \<Rightarrow> js ! k)"
proof -
  show "length (restore_locations ft tok n js) = length js" by (induction js arbitrary: n) auto
  show "k < length js \<Longrightarrow> restore_locations ft tok n js ! k = (case Performance.fields (js ! k) of
     Some b \<Rightarrow> JObj (restore_location ft (tok (n + k)) b) | None \<Rightarrow> js ! k)"
  proof (induction js arbitrary: n k)
    case (Cons j js)
    then show ?case by (cases k) (simp_all cong: option.case_cong)
  qed simp
qed

lemma missing_iff: "missing_choice locs \<longleftrightarrow> (\<exists>c. JObj c \<in> set locs \<and> \<not> truthy (jget c ''proxy_id''))"
proof -
  have "Performance.fields j = Some b \<longleftrightarrow> j = JObj b" for j b by (cases j) auto
  then show ?thesis by (force simp: missing_choice_def list_ex_iff split: option.splits)
qed



end
