(* ===== verification/Speed_Limit.thy ===== *)
theory Speed_Limit
  imports Links
begin

text \<open>
  \<open>speed_limit.py\<close>: the token bucket of a configuration and the batched accounting of its volume.
  Seconds and tokens are exact rationals where the code uses floats. Every reading of the monotonic
  clock is an argument. A waiting coroutine is resumed not before its sleep is over; \<open>late\<close> says how
  much later.
\<close>

section \<open>The bucket\<close>

definition MIN_RATE :: rat where "MIN_RATE = 1024"
definition MIN_BURST :: rat where "MIN_BURST = 65536"
definition MAX_SLEEP :: rat where "MAX_SLEEP = 1 / 4"
definition MIN_SLEEP :: rat where "MIN_SLEEP = 1 / 500"

record bucket =
  rate :: rat
  capacity :: rat
  tokens :: rat
  last_fill :: rat

definition new_bucket :: "rat \<Rightarrow> rat \<Rightarrow> bucket" where
  "new_bucket now r = (let rt = max r MIN_RATE; cap = max rt MIN_BURST in
     \<lparr>rate = rt, capacity = cap, tokens = cap, last_fill = now\<rparr>)"

definition refill :: "rat \<Rightarrow> bucket \<Rightarrow> bucket" where
  "refill now b =
     (if now - last_fill b > 0
      then b\<lparr>last_fill := now, tokens := min (capacity b) (tokens b + (now - last_fill b) * rate b)\<rparr>
      else b)"

text \<open>One turn of the loop in \<open>_consume_slice\<close>: \<open>None\<close> when the bytes are granted, else the sleep.\<close>

definition try_slice :: "rat \<Rightarrow> rat \<Rightarrow> bucket \<Rightarrow> rat option \<times> bucket" where
  "try_slice now n b = (let c = refill now b in
     if n \<le> tokens c then (None, c\<lparr>tokens := tokens c - n\<rparr>)
     else (Some (min (max ((n - tokens c) / rate c) MIN_SLEEP) MAX_SLEEP), c))"

fun consume_slice :: "(nat \<Rightarrow> rat) \<Rightarrow> nat \<Rightarrow> rat \<Rightarrow> rat \<Rightarrow> bucket \<Rightarrow> (rat \<times> bucket) option" where
  "consume_slice late 0 now n b = None"
| "consume_slice late (Suc k) now n b = (case try_slice now n b of
     (None, c) \<Rightarrow> Some (now, c)
   | (Some w, c) \<Rightarrow> consume_slice late k (now + w + late k) n c)"

fun consume_bytes :: "(nat \<Rightarrow> rat) \<Rightarrow> nat \<Rightarrow> nat \<Rightarrow> rat \<Rightarrow> rat \<Rightarrow> bucket \<Rightarrow> (rat \<times> bucket) option" where
  "consume_bytes late fuel 0 now remaining b = (if remaining > 0 then None else Some (now, b))"
| "consume_bytes late fuel (Suc k) now remaining b =
     (if remaining > 0 then
        (let take_now = min remaining (capacity b) in
         case consume_slice late fuel now take_now b of
           None \<Rightarrow> None
         | Some (t, c) \<Rightarrow> consume_bytes late fuel k t (remaining - take_now) c)
      else Some (now, b))"

type_synonym buckets = "(string, bucket) dict"

definition get_bucket :: "rat \<Rightarrow> string \<Rightarrow> rat \<Rightarrow> buckets \<Rightarrow> bucket \<times> buckets" where
  "get_bucket now uid r bs = (case map_of bs uid of
     Some b \<Rightarrow> if rate b \<noteq> max r MIN_RATE then (new_bucket now r, AList.update uid (new_bucket now r) bs) else (b, bs)
   | None \<Rightarrow> (new_bucket now r, AList.update uid (new_bucket now r) bs))"

definition throttle :: "(nat \<Rightarrow> rat) \<Rightarrow> nat \<Rightarrow> nat \<Rightarrow> rat \<Rightarrow> links \<Rightarrow> string \<Rightarrow> int \<Rightarrow> buckets \<Rightarrow> (rat \<times> buckets) option" where
  "throttle late fuel slices now ls uid nbytes bs =
     (if nbytes \<le> 0 then Some (now, bs)
      else (case map_of ls uid of
          None \<Rightarrow> Some (now, bs)
        | Some l \<Rightarrow>
            if l_speed l > 0 then
              (case get_bucket now uid (of_int (l_speed l)) bs of
                 (b, cs) \<Rightarrow> map_option (\<lambda>(t, c). (t, AList.update uid c cs))
                   (consume_bytes late fuel slices now (of_int nbytes) b))
            else Some (now, bs)))"

definition reset_bucket :: "string \<Rightarrow> buckets \<Rightarrow> buckets" where
  "reset_bucket uid bs = AList.delete uid bs"

definition prune_buckets :: "links \<Rightarrow> buckets \<Rightarrow> nat \<times> buckets" where
  "prune_buckets ls bs =
     (let keep = filter (\<lambda>(u, b). case map_of ls u of None \<Rightarrow> False | Some l \<Rightarrow> l_speed l > 0) bs
      in (length bs - length keep, keep))"

section \<open>The rate is kept\<close>

definition bucket_ok :: "bucket \<Rightarrow> bool" where
  "bucket_ok b \<longleftrightarrow> MIN_RATE \<le> rate b \<and> rate b \<le> capacity b \<and> 0 \<le> tokens b \<and> tokens b \<le> capacity b"

lemma new_bucket_ok: "bucket_ok (new_bucket now r)"
  by (auto simp: bucket_ok_def new_bucket_def Let_def MIN_BURST_def)

lemma refill_ok: "bucket_ok b \<Longrightarrow> bucket_ok (refill now b)"
  by (auto simp: bucket_ok_def refill_def MIN_RATE_def)

lemma refill_same [simp]: "rate (refill now b) = rate b" "capacity (refill now b) = capacity b"
  by (simp_all add: refill_def)

lemma refill_time: "last_fill b \<le> now \<Longrightarrow> last_fill (refill now b) = now"
  by (auto simp: refill_def)

lemma refill_tokens: "bucket_ok b \<Longrightarrow> last_fill b \<le> now \<Longrightarrow>
   tokens (refill now b) = min (capacity b) (tokens b + (now - last_fill b) * rate b)"
  by (auto simp: refill_def bucket_ok_def)

lemma try_slice_ok: "bucket_ok b \<Longrightarrow> 0 \<le> n \<Longrightarrow> bucket_ok (snd (try_slice now n b))"
  using refill_ok[of b now] by (auto simp: try_slice_def Let_def bucket_ok_def)

lemma try_slice_same: "rate (snd (try_slice now n b)) = rate b" "capacity (snd (try_slice now n b)) = capacity b"
  "last_fill b \<le> now \<Longrightarrow> last_fill (snd (try_slice now n b)) = now"
  by (simp_all add: try_slice_def Let_def refill_time)

text \<open>The attempts of all coroutines of a configuration in the order of the clock, with what they got.\<close>

fun granted :: "(rat \<times> rat) list \<Rightarrow> bucket \<Rightarrow> rat" where
  "granted [] b = 0"
| "granted ((now, n) # es) b = (case try_slice now n b of
     (None, c) \<Rightarrow> n + granted es c | (Some w, c) \<Rightarrow> granted es c)"

fun in_order :: "rat \<Rightarrow> (rat \<times> rat) list \<Rightarrow> rat \<Rightarrow> bool" where
  "in_order t [] stop \<longleftrightarrow> t \<le> stop"
| "in_order t ((now, n) # es) stop \<longleftrightarrow> t \<le> now \<and> 0 \<le> n \<and> in_order now es stop"

lemma granted_bound:
  "bucket_ok b \<Longrightarrow> in_order (last_fill b) es stop \<Longrightarrow> granted es b \<le> tokens b + (stop - last_fill b) * rate b"
proof (induction es arbitrary: b)
  case Nil
  then show ?case by (auto simp: bucket_ok_def MIN_RATE_def)
next
  case (Cons e es)
  obtain now n where e: "e = (now, n)" by force
  define c where "c = refill now b"
  have t: "last_fill b \<le> now" "0 \<le> n" using Cons.prems e by auto
  have c: "bucket_ok c" "last_fill c = now" "rate c = rate b"
    using Cons.prems(1) t by (simp_all add: c_def refill_ok refill_time)
  have tok: "tokens c \<le> tokens b + (now - last_fill b) * rate b"
    using refill_tokens[OF Cons.prems(1) t(1)] by (simp add: c_def)
  have order: "in_order now es stop" using Cons.prems e by simp
  show ?case
  proof (cases "n \<le> tokens c")
    case True
    let ?d = "c\<lparr>tokens := tokens c - n\<rparr>"
    have "bucket_ok ?d" using c True t by (auto simp: bucket_ok_def)
    then have "granted es ?d \<le> tokens c - n + (stop - now) * rate b"
      using Cons.IH[of ?d] order c by simp
    then have "granted (e # es) b \<le> tokens c + (stop - now) * rate b"
      using True by (simp add: e try_slice_def Let_def c_def[symmetric])
    then show ?thesis using tok by (simp add: algebra_simps)
  next
    case False
    have "granted es c \<le> tokens c + (stop - now) * rate b" using Cons.IH[OF c(1)] order c by simp
    then have "granted (e # es) b \<le> tokens c + (stop - now) * rate b"
      using False by (simp add: e try_slice_def Let_def c_def[symmetric])
    then show ?thesis using tok by (simp add: algebra_simps)
  qed
qed

text \<open>The bucket after these attempts.\<close>

fun bucket_after :: "(rat \<times> rat) list \<Rightarrow> bucket \<Rightarrow> bucket" where
  "bucket_after [] b = b"
| "bucket_after ((now, n) # es) b = bucket_after es (snd (try_slice now n b))"

lemma bucket_after_ok: "bucket_ok b \<Longrightarrow> in_order (last_fill b) es stop \<Longrightarrow>
   bucket_ok (bucket_after es b) \<and> last_fill (bucket_after es b) \<le> stop \<and> rate (bucket_after es b) = rate b \<and> capacity (bucket_after es b) = capacity b"
proof (induction es arbitrary: b)
  case (Cons e es)
  obtain now n where e: "e = (now, n)" by force
  then show ?case using Cons try_slice_ok[of b n now] try_slice_same[where now = now and n = n and b = b] by simp
qed simp

text \<open>The bucket is never fuller than its capacity, so a pause before the first attempt brings no more than one burst.\<close>

lemma granted_after_pause:
  assumes "bucket_ok b" "last_fill b \<le> begin_at" "in_order begin_at es stop"
  shows "granted es b \<le> capacity b + (stop - begin_at) * rate b"
proof (cases es)
  case Nil
  then show ?thesis using assms by (auto simp: bucket_ok_def MIN_RATE_def)
next
  case (Cons e rest)
  obtain now n where e: "e = (now, n)" by force
  define c where "c = refill now b"
  have le: "begin_at \<le> now" "last_fill b \<le> now" using assms Cons e by auto
  have c: "bucket_ok c" "last_fill c = now" "rate c = rate b"
    using assms(1) le by (simp_all add: c_def refill_ok refill_time)
  have "refill now c = c" using c by (simp add: refill_def)
  then have "granted es b = granted es c" by (simp add: Cons e try_slice_def Let_def c_def[symmetric])
  also have "\<dots> \<le> tokens c + (stop - now) * rate c"
    using granted_bound[OF c(1), of es stop] assms(3) c(2) by (simp add: Cons e)
  also have "tokens c \<le> capacity b" using refill_tokens[OF assms(1) le(2)] by (simp add: c_def)
  also have "(stop - now) * rate c \<le> (stop - begin_at) * rate b"
    using le c assms(1) by (simp add: bucket_ok_def MIN_RATE_def mult_right_mono)
  finally show ?thesis by simp
qed

text \<open>
  C31. The speed limit holds in every interval: whatever coroutines share the bucket of a
  configuration, however their attempts interleave and whatever happened before, the bytes granted
  from one moment to another are at most one burst plus the rate times the length of the interval.
  However long the bucket was idle, it saves up no more than that one burst.
\<close>

theorem speed_limit_kept:
  assumes "in_order start earlier begin_at" "in_order begin_at es stop"
  shows "granted es (bucket_after earlier (new_bucket start r)) \<le> max (max r 1024) 65536 + (stop - begin_at) * max r 1024"
proof -
  let ?b = "new_bucket start r"
  have "bucket_ok (bucket_after earlier ?b) \<and> last_fill (bucket_after earlier ?b) \<le> begin_at \<and>
    rate (bucket_after earlier ?b) = max r 1024 \<and> capacity (bucket_after earlier ?b) = max (max r 1024) 65536"
    using bucket_after_ok[OF new_bucket_ok, of start r earlier begin_at] assms(1)
    by (simp add: new_bucket_def Let_def MIN_RATE_def MIN_BURST_def)
  then show ?thesis using granted_after_pause[of "bucket_after earlier ?b" begin_at es stop] assms(2) by metis
qed

lemma speed_limit_kept_witness:
  "granted [(100, 65536), (101, 1024), (101, 1)] (bucket_after [(0, 65536), (1, 1024)] (new_bucket 0 1000)) \<le> 65536 + 2 * 1024"
  using speed_limit_kept[of 0 "[(0, 65536), (1, 1024)]" 100 "[(100, 65536), (101, 1024), (101, 1)]" 102 1000] by simp

section \<open>A waiting coroutine is served\<close>

lemma try_slice_wait:
  assumes "bucket_ok b" "last_fill b \<le> now" "try_slice now n b = (Some w, c)"
  shows "bucket_ok c" "last_fill c = now" "rate c = rate b" "capacity c = capacity b" "tokens b \<le> tokens c" "tokens c < n"
    "w = min (max ((n - tokens c) / rate b) MIN_SLEEP) MAX_SLEEP"
proof -
  have c: "c = refill now b" using assms(3) by (auto simp: try_slice_def Let_def split: if_splits)
  show "bucket_ok c" "last_fill c = now" "rate c = rate b" "capacity c = capacity b"
    using assms c by (simp_all add: refill_ok refill_time)
  have "0 \<le> (now - last_fill b) * rate b" using assms by (simp add: bucket_ok_def MIN_RATE_def)
  then show "tokens b \<le> tokens c" using refill_tokens[OF assms(1,2)] assms(1) c by (auto simp: bucket_ok_def)
  show "tokens c < n" "w = min (max ((n - tokens c) / rate b) MIN_SLEEP) MAX_SLEEP"
    using assms(3) c by (auto simp: try_slice_def Let_def split: if_splits)
qed

text \<open>A sleep is either long enough, or it brings a quarter of a second worth of tokens.\<close>

lemma consume_slice_served:
  assumes late: "\<And>k. 0 \<le> late k"
  shows "bucket_ok b \<Longrightarrow> last_fill b \<le> now \<Longrightarrow> n \<le> capacity b \<Longrightarrow>
    n - (tokens b + (now - last_fill b) * rate b) \<le> of_nat k * (rate b / 4) \<Longrightarrow>
    \<exists>t c. consume_slice late (Suc k) now n b = Some (t, c) \<and> now \<le> t"
proof (induction k arbitrary: b now)
  case 0
  then have "n \<le> tokens (refill now b)" using refill_tokens[of b now] by simp
  then show ?case by (simp add: try_slice_def Let_def)
next
  case (Suc k)
  show ?case
  proof (cases "try_slice now n b")
    case (Pair w c)
    show ?thesis
    proof (cases w)
      case None
      then show ?thesis using Pair by simp
    next
      case (Some s)
      note c = try_slice_wait[OF Suc.prems(1,2) Pair[unfolded Some]]
      have s: "0 \<le> s" by (simp add: c(7) MAX_SLEEP_def MIN_SLEEP_def le_max_iff_disj)
      have s2: "s = MAX_SLEEP \<or> (n - tokens c) / rate b \<le> s"
        by (auto simp: c(7) min_def max_def)
      let ?now = "now + s + late (Suc k)"
      have r: "0 < rate b" using Suc.prems(1) by (simp add: bucket_ok_def MIN_RATE_def)
      have tc: "tokens c = min (capacity b) (tokens b + (now - last_fill b) * rate b)"
        using refill_tokens[OF Suc.prems(1,2)] Pair Some by (auto simp: try_slice_def Let_def split: if_splits)
      then have tc': "tokens c = tokens b + (now - last_fill b) * rate b" using c(6) Suc.prems(3) by auto
      have gain: "(s + late (Suc k)) * rate b \<ge> s * rate b" using late[of "Suc k"] r by (simp add: mult_right_mono)
      have "n - (tokens c + (?now - last_fill c) * rate c) \<le> of_nat k * (rate c / 4)"
      proof (cases "s = MAX_SLEEP")
        case True
        have "n - tokens c \<le> of_nat (Suc k) * (rate b / 4)" using Suc.prems(4) tc' by simp
        moreover have s14: "s = 1 / 4" using True by (simp add: MAX_SLEEP_def)
        have "rate b / 4 \<le> (s + late (Suc k)) * rate b" using gain unfolding s14 by simp
        moreover have "?now - last_fill c = s + late (Suc k)" "rate c = rate b" using c(2,3) by simp_all
        ultimately show ?thesis by (simp add: algebra_simps)
      next
        case False
        then have "n - tokens c \<le> s * rate b" using s2 r by (simp add: divide_le_eq)
        then have "n - (tokens c + (?now - last_fill c) * rate c) \<le> 0" using gain c(2,3) by (simp add: algebra_simps)
        also have "0 \<le> of_nat k * (rate c / 4)" using r c(3) by simp
        finally show ?thesis .
      qed
      then obtain t d where "consume_slice late (Suc k) ?now n c = Some (t, d)" "?now \<le> t"
        using Suc.IH[of c ?now] c s late[of "Suc k"] Suc.prems(3) by auto
      then show ?thesis using Pair Some s late[of "Suc k"]
        by (intro exI[of _ t] exI[of _ d]) (simp del: consume_slice.simps(2) add: consume_slice.simps(2)[of late "Suc k"])
    qed
  qed
qed


lemma consume_slice_keeps:
  "bucket_ok b \<Longrightarrow> last_fill b \<le> now \<Longrightarrow> 0 \<le> n \<Longrightarrow> (\<And>k. 0 \<le> late k) \<Longrightarrow> consume_slice late k now n b = Some (t, c) \<Longrightarrow>
   bucket_ok c \<and> last_fill c = t \<and> rate c = rate b \<and> capacity c = capacity b"
proof (induction late k now n b rule: consume_slice.induct)
  case (2 late k now n b)
  show ?case
  proof (cases "try_slice now n b")
    case (Pair w d)
    show ?thesis
    proof (cases w)
      case None
      then show ?thesis using 2 Pair try_slice_ok[of b n now] try_slice_same[where now = now and n = n and b = b] by simp
    next
      case (Some s)
      note d = try_slice_wait[OF 2(2,3) Pair[unfolded Some]]
      have "0 \<le> s" by (simp add: d(7) MAX_SLEEP_def MIN_SLEEP_def le_max_iff_disj)
      then show ?thesis using 2 Pair Some d by (auto simp: add_nonneg_nonneg)
    qed
  qed
qed simp

text \<open>When a resumption is at most \<open>L\<close> late, a slice takes a bounded time.\<close>

lemma try_slice_sleep: "try_slice now n b = (Some w, c) \<Longrightarrow> w \<le> 1 / 4"
  by (auto simp: try_slice_def Let_def MAX_SLEEP_def min_def split: if_splits)

lemma consume_slice_time:
  assumes "\<And>k. 0 \<le> late k \<and> late k \<le> L"
  shows "consume_slice late k now n b = Some (t, c) \<Longrightarrow> t \<le> now + of_nat k * (1 / 4 + L)"
proof (induction k arbitrary: now b)
  case (Suc k)
  have L: "0 \<le> L" using assms[of 0] by linarith
  then have k: "(0::rat) \<le> of_nat k * (1 / 4 + L)" by simp
  show ?case
  proof (cases "try_slice now n b")
    case (Pair w d)
    show ?thesis
    proof (cases w)
      case None
      then show ?thesis using Pair Suc.prems k L by (simp add: algebra_simps)
    next
      case (Some s)
      have "t \<le> now + s + late k + of_nat k * (1 / 4 + L)"
        using Suc.IH[of "now + s + late k" d] Suc.prems Pair Some by simp
      moreover have "s \<le> 1 / 4" using try_slice_sleep Pair Some by blast
      moreover have "of_nat (Suc k) * (1 / 4 + L) = of_nat k * (1 / 4 + L) + (1 / 4 + L)" by (simp add: algebra_simps)
      moreover have "late k \<le> L" using assms by blast
      ultimately show ?thesis by linarith
    qed
  qed
qed simp

text \<open>
  C32. A throttled transfer goes on, and in bounded time: when nobody else drains the bucket
  meanwhile, each slice of the transfer is served in at most 257 turns and one slice for every
  64 KiB is enough. When the event loop resumes the coroutine at most \<open>L\<close> seconds late after each
  sleep, the transfer is let through after at most \<open>257 * (1/4 + L)\<close> seconds for each slice.
\<close>

theorem throttle_returns:
  assumes late: "\<And>k. 0 \<le> late k \<and> late k \<le> L"
    and "bucket_ok b" "capacity b = max (rate b) 65536" "last_fill b \<le> now"
    and "nbytes \<le> of_nat slices * 65536"
  shows "\<exists>t c. consume_bytes late 257 slices now nbytes b = Some (t, c) \<and> now \<le> t \<and>
    t \<le> now + of_nat slices * (257 * (1 / 4 + L))"
  using assms(2-5)
proof (induction slices arbitrary: b now nbytes)
  case 0
  then show ?case by simp
next
  case (Suc slices)
  have late0: "\<And>k. 0 \<le> late k" and L: "0 \<le> L" using late late[of 0] by (blast, linarith)
  have more: "(0::rat) \<le> of_nat m * (257 * (1 / 4 + L))" for m using L by simp
  show ?case
  proof (cases "nbytes > 0")
    case False
    then show ?thesis using more[of "Suc slices"] by simp
  next
    case True
    define n where "n = min nbytes (capacity b)"
    have r: "1024 \<le> rate b" using Suc.prems(1) by (simp add: bucket_ok_def MIN_RATE_def)
    have cap: "capacity b \<le> 64 * rate b" using Suc.prems(2) r by auto
    have n: "0 \<le> n" "n \<le> capacity b" using True Suc.prems r by (auto simp: n_def)
    have "0 \<le> (now - last_fill b) * rate b" "0 \<le> tokens b" using Suc.prems r by (auto simp: bucket_ok_def)
    then have "n - (tokens b + (now - last_fill b) * rate b) \<le> of_nat 256 * (rate b / 4)" using n cap by simp
    then obtain t c where s: "consume_slice late (Suc 256) now n b = Some (t, c)" "now \<le> t"
      using consume_slice_served[where late = late, OF late0 Suc.prems(1,3) n(2), of 256] by blast
    have s257: "consume_slice late 257 now n b = Some (t, c)" using s(1) by simp
    have time: "t \<le> now + 257 * (1 / 4 + L)" using consume_slice_time[OF late s257] by simp
    have c: "bucket_ok c" "last_fill c = t" "rate c = rate b" "capacity c = capacity b"
      using consume_slice_keeps[where late = late, OF Suc.prems(1,3) n(1) late0 s(1)] by auto
    have "nbytes - n \<le> of_nat slices * 65536"
    proof (cases "nbytes \<le> capacity b")
      case False
      then have "n = capacity b" "65536 \<le> capacity b" using Suc.prems(2) by (auto simp: n_def)
      then show ?thesis using Suc.prems(4) by simp
    qed (simp add: n_def)
    then obtain u d where "consume_bytes late 257 slices t (nbytes - n) c = Some (u, d)" "t \<le> u"
        "u \<le> t + of_nat slices * (257 * (1 / 4 + L))"
      using Suc.IH[of c t "nbytes - n"] c Suc.prems(2) by auto
    moreover have "of_nat (Suc slices) * (257 * (1 / 4 + L)) = of_nat slices * (257 * (1 / 4 + L)) + 257 * (1 / 4 + L)"
      by (simp add: algebra_simps)
    ultimately have "consume_bytes late 257 (Suc slices) now nbytes b = Some (u, d)" "now \<le> u"
        "u \<le> now + of_nat (Suc slices) * (257 * (1 / 4 + L))"
      using True s(2) s257 time by (simp_all add: Let_def n_def[symmetric] del: of_nat_Suc)
    then show ?thesis by blast
  qed
qed

lemma throttle_returns_witness: "\<exists>t c. consume_bytes (\<lambda>k. 1) 257 3 5 140000 (new_bucket 5 2000) = Some (t, c) \<and> 5 \<le> t \<and>
    t \<le> 5 + of_nat 3 * (257 * (1 / 4 + 1))"
  by (rule throttle_returns) (simp_all add: new_bucket_ok, simp_all add: new_bucket_def Let_def MIN_RATE_def MIN_BURST_def)

section \<open>Batched accounting\<close>

definition QUOTA_MIN_BATCH :: int where "QUOTA_MIN_BATCH = 65536"
definition QUOTA_METERED_MAX_BATCH :: int where "QUOTA_METERED_MAX_BATCH = 1048576"
definition QUOTA_UNLIMITED_MAX_BATCH :: int where "QUOTA_UNLIMITED_MAX_BATCH = 8388608"
definition QUOTA_METERED_START :: int where "QUOTA_METERED_START = 65536"
definition QUOTA_UNLIMITED_START :: int where "QUOTA_UNLIMITED_START = 524288"
definition QUOTA_TIME_CHECK_EVERY :: nat where "QUOTA_TIME_CHECK_EVERY = 32"

record gate =
  g_pending :: int
  last_check :: rat
  g_ok :: bool
  batch_bytes :: int
  rate_ewma :: rat
  max_batch :: int
  check_interval :: rat
  g_ticks :: nat

definition new_gate :: "rat \<Rightarrow> link option \<Rightarrow> gate" where
  "new_gate now l = (let metered = (case l of None \<Rightarrow> False | Some x \<Rightarrow> l_limit x > 0) in
     \<lparr>g_pending = 0, last_check = now, g_ok = True,
      batch_bytes = (if metered then QUOTA_METERED_START else QUOTA_UNLIMITED_START), rate_ewma = 0,
      max_batch = (if metered then QUOTA_METERED_MAX_BATCH else QUOTA_UNLIMITED_MAX_BATCH),
      check_interval = (if metered then 1 / 5 else 1 / 2), g_ticks = 0\<rparr>)"

text \<open>The size of the next batch after \<open>amount\<close> bytes in \<open>elapsed\<close> seconds.\<close>

definition retarget :: "int \<Rightarrow> rat \<Rightarrow> gate \<Rightarrow> gate" where
  "retarget amount elapsed g =
     (if elapsed > 0 then
        (let instant = of_int amount / elapsed;
             ewma = (if rate_ewma g = 0 then instant else 3 / 4 * rate_ewma g + 1 / 4 * instant);
             target = trunc (ewma * check_interval g)
         in g\<lparr>rate_ewma := ewma,
              batch_bytes := max QUOTA_MIN_BATCH (min (max_batch g) (if target \<noteq> 0 then target else QUOTA_MIN_BATCH))\<rparr>)
      else g)"

definition stage :: "rat \<Rightarrow> int \<Rightarrow> gate \<Rightarrow> int \<times> gate" where
  "stage now nbytes g =
     (if \<not> g_ok g then (-1, g)
      else if nbytes \<le> 0 then (0, g)
      else (let h = g\<lparr>g_pending := g_pending g + nbytes, g_ticks := g_ticks g + 1\<rparr> in
        if g_pending h < batch_bytes h \<and> g_ticks h mod QUOTA_TIME_CHECK_EVERY \<noteq> 0 then (0, h)
        else (let elapsed = now - last_check h in
          if g_pending h < batch_bytes h \<and> elapsed < check_interval h then (0, h)
          else (g_pending h, (retarget (g_pending h) elapsed (h\<lparr>g_pending := 0\<rparr>))\<lparr>last_check := now\<rparr>))))"

definition commit :: "(int \<Rightarrow> 's \<Rightarrow> bool \<times> 's) \<Rightarrow> int \<Rightarrow> gate \<Rightarrow> 's \<Rightarrow> bool \<times> gate \<times> 's" where
  "commit consume amount g s =
     (if amount \<le> 0 then (g_ok g, g, s)
      else (case consume amount s of
         (result, t) \<Rightarrow> (let h = g\<lparr>g_ok := g_ok g \<and> result\<rparr> in (g_ok h, h, t))))"

definition gate_add :: "(int \<Rightarrow> 's \<Rightarrow> bool \<times> 's) \<Rightarrow> rat \<Rightarrow> int \<Rightarrow> gate \<Rightarrow> 's \<Rightarrow> bool \<times> gate \<times> 's" where
  "gate_add consume now nbytes g s = (case stage now nbytes g of
     (amount, h) \<Rightarrow> if amount < 0 then (False, h, s) else if amount \<noteq> 0 then commit consume amount h s else (True, h, s))"

definition flush :: "(int \<Rightarrow> 's \<Rightarrow> bool \<times> 's) \<Rightarrow> gate \<Rightarrow> 's \<Rightarrow> bool \<times> gate \<times> 's" where
  "flush consume g s =
     (if g_pending g \<noteq> 0 then (case commit consume (g_pending g) (g\<lparr>g_pending := 0\<rparr>) s of
         (r, h, t) \<Rightarrow> (g_ok h, h, t))
      else (g_ok g, g, s))"

end
