(* ===== verification/Accounting.thy ===== *)
theory Accounting
  imports Speed_Limit
begin

text \<open>
  Counting the volume of a configuration (\<open>relay_vless.py\<close>): \<open>check_and_use\<close>, and the two relay
  loops as far as they stage, commit and flush what they forward. A frame is the clock reading of
  its \<open>stage\<close> and its size; empty frames are skipped.
\<close>

section \<open>The backend\<close>

record world =
  w_links :: links
  w_subs :: subs
  w_now :: int
  w_total :: int
  w_hour :: string
  w_hourly :: "(string, int) dict"

definition hour_bytes :: "world \<Rightarrow> int" where
  "hour_bytes w = (case map_of (w_hourly w) (w_hour w) of None \<Rightarrow> 0 | Some b \<Rightarrow> b)"

definition check_and_use :: "ingress \<Rightarrow> string \<Rightarrow> int \<Rightarrow> world \<Rightarrow> bool \<times> world" where
  "check_and_use i uid nbytes w =
     (if nbytes \<le> 0 then (True, w)
      else if \<not> is_link_allowed i (w_subs w) (w_now w) (map_of (w_links w) uid) then (False, w)
      else (True, w\<lparr>w_links := dmod uid (\<lambda>l. l\<lparr>l_used := l_used l + nbytes\<rparr>) (w_links w),
                     w_total := w_total w + nbytes,
                     w_hourly := AList.update (w_hour w) (hour_bytes w + nbytes) (w_hourly w)\<rparr>))"

definition used_of :: "string \<Rightarrow> world \<Rightarrow> int" where
  "used_of uid w = (case map_of (w_links w) uid of None \<Rightarrow> 0 | Some l \<Rightarrow> l_used l)"

section \<open>The relay loops\<close>

fun relay :: "(int \<Rightarrow> 's \<Rightarrow> bool \<times> 's) \<Rightarrow> (rat \<times> nat) list \<Rightarrow> gate \<Rightarrow> 's \<Rightarrow> nat list \<times> gate \<times> 's" where
  "relay consume [] g s = ([], g, s)"
| "relay consume ((now, n) # fs) g s =
     (if n = 0 then relay consume fs g s
      else (case stage now (int n) g of (amount, h) \<Rightarrow>
        if amount < 0 then ([], h, s)
        else (case (if amount \<noteq> 0 then commit consume amount h s else (True, h, s)) of (ok, k, t) \<Rightarrow>
          if \<not> ok then ([], k, t)
          else (case relay consume fs k t of (out, g', s') \<Rightarrow> (n # out, g', s')))))"

definition relay_session :: "(int \<Rightarrow> 's \<Rightarrow> bool \<times> 's) \<Rightarrow> rat \<Rightarrow> link option \<Rightarrow> (rat \<times> nat) list \<Rightarrow> 's \<Rightarrow>
    nat list \<times> bool \<times> 's" where
  "relay_session consume now l fs s = (case relay consume fs (new_gate now l) s of
     (out, g, t) \<Rightarrow> (case flush consume g t of (r, h, u) \<Rightarrow> (out, g_ok h, u)))"

section \<open>What a gate keeps\<close>

definition gate_ok :: "gate \<Rightarrow> bool" where
  "gate_ok g \<longleftrightarrow> 0 \<le> g_pending g \<and> (g_pending g = 0 \<or> g_pending g < batch_bytes g)
     \<and> QUOTA_MIN_BATCH \<le> batch_bytes g \<and> batch_bytes g \<le> max_batch g"

lemma new_gate_ok: "gate_ok (new_gate now l)" "g_pending (new_gate now l) = 0" "g_ok (new_gate now l)"
  by (simp_all add: gate_ok_def new_gate_def Let_def QUOTA_MIN_BATCH_def QUOTA_METERED_START_def
      QUOTA_METERED_MAX_BATCH_def QUOTA_UNLIMITED_START_def QUOTA_UNLIMITED_MAX_BATCH_def)

lemma retarget_same [simp]: "g_pending (retarget a e g) = g_pending g" "g_ok (retarget a e g) = g_ok g"
  "max_batch (retarget a e g) = max_batch g"
  by (simp_all add: retarget_def Let_def)

lemma retarget_batch: "gate_ok g \<Longrightarrow> QUOTA_MIN_BATCH \<le> batch_bytes (retarget a e g) \<and> batch_bytes (retarget a e g) \<le> max_batch g"
  by (auto simp: retarget_def Let_def gate_ok_def)

lemma stage_cases:
  assumes "gate_ok g" "0 < n" "stage now n g = (amount, h)"
  shows "gate_ok h \<and> g_ok h = g_ok g \<and> max_batch h = max_batch g \<and>
    (\<not> g_ok g \<and> amount = -1 \<and> h = g
     \<or> g_ok g \<and> amount = 0 \<and> g_pending h = g_pending g + n
     \<or> g_ok g \<and> amount = g_pending g + n \<and> 0 < amount \<and> g_pending h = 0)"
proof (cases "g_ok g")
  case False
  then show ?thesis using assms by (simp add: stage_def)
next
  case True
  define k where "k = g\<lparr>g_pending := g_pending g + n, g_ticks := g_ticks g + 1\<rparr>"
  define e where "e = now - last_check g"
  have st: "stage now n g =
      (if g_pending g + n < batch_bytes g \<and> (g_ticks g + 1) mod QUOTA_TIME_CHECK_EVERY \<noteq> 0 then (0, k)
       else if g_pending g + n < batch_bytes g \<and> e < check_interval g then (0, k)
       else (g_pending g + n, (retarget (g_pending g + n) e (k\<lparr>g_pending := 0\<rparr>))\<lparr>last_check := now\<rparr>))"
    using True assms(2) by (simp add: stage_def Let_def k_def e_def)
  have z: "gate_ok (k\<lparr>g_pending := 0\<rparr>)" using assms(1) by (simp add: gate_ok_def k_def)
  have commit: "gate_ok ((retarget a e (k\<lparr>g_pending := 0\<rparr>))\<lparr>last_check := now\<rparr>)" for a
    using retarget_batch[OF z, of a e] by (simp add: gate_ok_def)
  have hold: "g_pending g + n < batch_bytes g \<Longrightarrow> gate_ok k" using assms(1,2) by (simp add: gate_ok_def k_def)
  have pos: "0 < g_pending g + n" using assms(1,2) by (simp add: gate_ok_def)
  show ?thesis using assms(3) commit hold pos True unfolding st
    by (auto simp: k_def split: if_splits)
qed

text \<open>What the loops need of the function that counts.\<close>

locale quota_backend =
  fixes consume :: "int \<Rightarrow> 's \<Rightarrow> bool \<times> 's"
    and used :: "'s \<Rightarrow> int"
  assumes accepted: "0 < n \<Longrightarrow> consume n s = (True, t) \<Longrightarrow> used t = used s + n"
    and denied: "consume n s = (False, t) \<Longrightarrow> t = s"
begin

lemma commit_cases:
  assumes "0 < amount" "g_ok g" "commit consume amount g s = (ok, h, t)"
  shows "g_pending h = g_pending g \<and> batch_bytes h = batch_bytes g \<and> max_batch h = max_batch g \<and> g_ok h = ok
    \<and> (if ok then used t = used s + amount else t = s)"
  using assms accepted denied by (auto simp: commit_def Let_def split: prod.splits)

lemma relay_counts:
  "gate_ok g \<Longrightarrow> g_ok g \<Longrightarrow> relay consume fs g s = (out, h, t) \<Longrightarrow>
   gate_ok h \<and> max_batch h = max_batch g
   \<and> (g_ok h \<longrightarrow> used t + g_pending h = used s + g_pending g + int (sum_list out))
   \<and> (\<not> g_ok h \<longrightarrow> g_pending h = 0 \<and> used t \<le> used s + g_pending g + int (sum_list out)
        \<and> used s + g_pending g + int (sum_list out) < used t + max_batch g)"
proof (induction fs arbitrary: g s out h t)
  case Nil
  then show ?case by (auto simp: gate_ok_def)
next
  case (Cons e fs)
  obtain now n where e: "e = (now, n)" by force
  show ?case
  proof (cases "n = 0")
    case True
    then show ?thesis using Cons e by auto
  next
    case False
    obtain amount k where st: "stage now (int n) g = (amount, k)" by force
    have k: "gate_ok k" "g_ok k" "max_batch k = max_batch g"
        "amount = 0 \<and> g_pending k = g_pending g + int n
         \<or> amount = g_pending g + int n \<and> 0 < amount \<and> g_pending k = 0"
      using stage_cases[OF Cons.prems(1) _ st] Cons.prems(2) False by auto
    have na: "\<not> amount < 0" using k(4) by auto
    obtain ok l u where cm: "(if amount \<noteq> 0 then commit consume amount k s else (True, k, s)) = (ok, l, u)"
      using prod_cases3 by blast
    have l: "g_pending l = g_pending k" "batch_bytes l = batch_bytes k" "max_batch l = max_batch g" "g_ok l = ok" "gate_ok l"
        "if ok then used u = used s + amount else u = s \<and> 0 < amount"
      using cm k commit_cases[of amount k s ok l u] by (auto simp: gate_ok_def split: if_splits)
    have pend: "g_pending g < max_batch g" using Cons.prems(1) by (auto simp: gate_ok_def QUOTA_MIN_BATCH_def)
    show ?thesis
    proof (cases ok)
      case False
      then have "out = []" "h = l" "t = s" using Cons.prems(3) st na cm l(6) \<open>n \<noteq> 0\<close> by (auto simp: e)
      moreover have "g_pending l = 0" using l(1,6) k(4) False by auto
      moreover have "0 \<le> g_pending g" using Cons.prems(1) by (simp add: gate_ok_def)
      ultimately show ?thesis using l False pend by simp
    next
      case True
      obtain o' g' s' where r: "relay consume fs l u = (o', g', s')" using prod_cases3 by blast
      then have o: "out = n # o'" "h = g'" "t = s'" using Cons.prems(3) st na cm True \<open>n \<noteq> 0\<close> by (auto simp: e)
      have step: "used u + g_pending l = used s + g_pending g + int n" using k(4) l(1,6) True by auto
      show ?thesis using Cons.IH[OF l(5) _ r] l(3,4) True step o by auto
    qed
  qed
qed

lemma session_counts:
  assumes "relay_session consume now l fs s = (out, fine, t)"
  shows "used t \<le> used s + int (sum_list out) \<and> used s + int (sum_list out) - used t < max_batch (new_gate now l)
    \<and> (fine \<longrightarrow> used t = used s + int (sum_list out))"
proof -
  obtain o' g u where r: "relay consume fs (new_gate now l) s = (o', g, u)" using prod_cases3 by blast
  have mb: "0 < max_batch (new_gate now l)"
    by (simp add: new_gate_def Let_def QUOTA_METERED_MAX_BATCH_def QUOTA_UNLIMITED_MAX_BATCH_def)
  have c: "gate_ok g" "max_batch g = max_batch (new_gate now l)"
      "g_ok g \<Longrightarrow> used u + g_pending g = used s + int (sum_list o')"
      "\<not> g_ok g \<Longrightarrow> g_pending g = 0 \<and> used u \<le> used s + int (sum_list o') \<and> used s + int (sum_list o') < used u + max_batch g"
    using relay_counts[OF new_gate_ok(1,3) r] new_gate_ok(2) by auto
  show ?thesis
  proof (cases "g_pending g = 0")
    case True
    then have "out = o'" "t = u" "fine = g_ok g" using assms r by (auto simp: relay_session_def flush_def)
    then show ?thesis using c True mb by (cases "g_ok g") auto
  next
    case False
    then have ok: "g_ok g" using c(4) by blast
    have p: "0 < g_pending g" "g_pending g < max_batch g" using False c(1) by (auto simp: gate_ok_def)
    obtain res h v where cm: "commit consume (g_pending g) (g\<lparr>g_pending := 0\<rparr>) u = (res, h, v)" using prod_cases3 by blast
    then have "out = o'" "t = v" "fine = g_ok h" using assms r False by (auto simp: relay_session_def flush_def)
    moreover have "g_ok h = res" "if res then used v = used u + g_pending g else v = u"
      using commit_cases[OF p(1) _ cm] ok by auto
    ultimately show ?thesis using c(2,3) ok p by (auto split: if_splits)
  qed
qed

end

lemma check_accepts: "0 < n \<Longrightarrow> check_and_use i uid n w = (True, v) \<Longrightarrow> used_of uid v = used_of uid w + n"
  by (auto simp: check_and_use_def used_of_def is_link_allowed_def split: if_splits option.splits)

interpretation counted: quota_backend "check_and_use i uid" "used_of uid"
  by unfold_locales (auto simp: check_accepts, auto simp: check_and_use_def split: if_splits)

text \<open>
  The volume a session forwards in one direction is counted: never more than was forwarded,
  exactly the forwarded bytes when the last commit was accepted, and otherwise less than one
  batch (1 MiB with a volume limit, 8 MiB without) is missing.
\<close>

theorem session_volume_counted:
  assumes "relay_session (check_and_use i uid) now (map_of (w_links w) uid) fs w = (out, fine, v)"
  shows "used_of uid v \<le> used_of uid w + int (sum_list out)
    \<and> used_of uid w + int (sum_list out) - used_of uid v
        < (case map_of (w_links w) uid of Some l \<Rightarrow> if 0 < l_limit l then 1048576 else 8388608 | None \<Rightarrow> 8388608)
    \<and> (fine \<longrightarrow> used_of uid v = used_of uid w + int (sum_list out))"
  using counted.session_counts[OF assms]
  by (auto simp: new_gate_def Let_def QUOTA_METERED_MAX_BATCH_def QUOTA_UNLIMITED_MAX_BATCH_def split: option.splits)

definition sample_world :: world where
  "sample_world = \<lparr>w_links = [(''u'', sample_link\<lparr>l_limit := 100000, l_used := 99999\<rparr>)], w_subs = [], w_now = 7,
     w_total = 0, w_hour = ''12:00'', w_hourly = []\<rparr>"

lemma session_volume_counted_witness:
  "used_of ''u'' (snd (snd (relay_session (check_and_use sample_ingress ''u'') 0 (map_of (w_links sample_world) ''u'')
      [(0, 70000)] sample_world))) = 99999 + 70000"
proof -
  let ?r = "relay_session (check_and_use sample_ingress ''u'') 0 (map_of (w_links sample_world) ''u'') [(0, 70000)] sample_world"
  obtain out fine v where r: "?r = (out, fine, v)" using prod_cases3 by blast
  have "fst ?r = [70000] \<and> fst (snd ?r)" by code_simp
  then have "out = [70000]" "fine" by (simp_all add: r)
  moreover have "used_of ''u'' sample_world = 99999" by code_simp
  ultimately show ?thesis using session_volume_counted[OF r] r by simp
qed

text \<open>
  A volume limit is exceeded by at most one commit: bytes are counted only while the used volume
  is below the limit, and all the counters grow together.
\<close>

theorem quota_overshoot:
  assumes "check_and_use i uid n w = (True, v)" "0 < n"
  shows "\<exists>l. map_of (w_links w) uid = Some l \<and> is_link_allowed i (w_subs w) (w_now w) (Some l)
    \<and> (0 < l_limit l \<longrightarrow> used_of uid w < l_limit l \<and> used_of uid v < l_limit l + n)
    \<and> w_total v = w_total w + n \<and> hour_bytes v = hour_bytes w + n
    \<and> (\<forall>u. u \<noteq> uid \<longrightarrow> map_of (w_links v) u = map_of (w_links w) u)"
  using assms
  by (cases "map_of (w_links w) uid")
     (auto simp: check_and_use_def used_of_def hour_bytes_def is_link_allowed_def split: if_splits)


lemma quota_overshoot_witness:
  "used_of ''u'' (snd (check_and_use sample_ingress ''u'' 5 sample_world)) < 100000 + 5"
proof -
  obtain ok v where r: "check_and_use sample_ingress ''u'' 5 sample_world = (ok, v)" by force
  have "fst (check_and_use sample_ingress ''u'' 5 sample_world)" by code_simp
  with r have ok by simp
  have l: "map_of (w_links sample_world) ''u'' = Some (sample_link\<lparr>l_limit := 100000, l_used := 99999\<rparr>)"
    by (simp add: sample_world_def)
  show ?thesis using quota_overshoot[of sample_ingress "''u''" 5 sample_world v] r \<open>ok\<close> l by auto
qed

text \<open>
  The totals are not exact when a configuration runs out: the session below forwards 130000
  bytes, the first batch takes the configuration over its limit, and the final flush of the bytes
  that were already forwarded is refused, so 60000 bytes are never counted.
\<close>

theorem final_batch_uncounted:
  "case relay_session (check_and_use sample_ingress ''u'') 0 (map_of (w_links sample_world) ''u'')
      [(0, 70000), (0, 60000)] sample_world of
     (out, fine, v) \<Rightarrow> sum_list out = 130000 \<and> \<not> fine \<and> used_of ''u'' v = used_of ''u'' sample_world + 70000"
  by code_simp

end
