(* ===== verification/Turbo_Ws.thy ===== *)
theory Turbo_Ws
  imports Py_Text
begin

text \<open>
  The WebSocket protocol of the data plane (\<open>turbo_ws_protocol.py\<close>): its limits read from the
  environment, the header of an outgoing frame, the receive queue with its two watermarks, and the
  conditions of a send. Sizes are bytes; a text message is its list of code points.
\<close>

section \<open>Limits\<close>

definition env_int :: "string option \<Rightarrow> int \<Rightarrow> int \<Rightarrow> int \<Rightarrow> int" where
  "env_int raw standard minimum maximum = clamp minimum maximum
     (case raw of None \<Rightarrow> standard | Some s \<Rightarrow> (case parse_int s of Some v \<Rightarrow> v | None \<Rightarrow> standard))"

record limits =
  queue_high :: int
  queue_low :: int
  bytes_high :: int
  bytes_low :: int
  socket_buffer :: int
  write_high :: int
  write_low :: int

definition limits_of :: "(string \<Rightarrow> string option) \<Rightarrow> limits" where
  "limits_of env =
     (let qh = env_int (env ''WS_TURBO_QUEUE_HIGH'') 256 8 2048;
          ql = env_int (env ''WS_TURBO_QUEUE_LOW'') 64 1 (qh - 1);
          bh = env_int (env ''WS_TURBO_QUEUE_BYTES_HIGH'') (64 * 1024 * 1024) (4 * 1024 * 1024) (512 * 1024 * 1024);
          bl = min (env_int (env ''WS_TURBO_QUEUE_BYTES_LOW'') (16 * 1024 * 1024) (1024 * 1024) (128 * 1024 * 1024)) (bh div 2);
          sb = env_int (env ''WS_TURBO_SOCKET_BUFFER'') (32 * 1024 * 1024) (256 * 1024) (128 * 1024 * 1024);
          wh = env_int (env ''WS_TURBO_WRITE_HIGH'') (16 * 1024 * 1024) (256 * 1024) (64 * 1024 * 1024);
          wl = min (env_int (env ''WS_TURBO_WRITE_LOW'') (2 * 1024 * 1024) (64 * 1024) (16 * 1024 * 1024)) (wh div 2)
      in \<lparr>queue_high = qh, queue_low = ql, bytes_high = bh, bytes_low = bl, socket_buffer = sb,
          write_high = wh, write_low = wl\<rparr>)"

section \<open>Outgoing frames\<close>

text \<open>The \<open>k\<close> bytes of a number, most significant first.\<close>

fun big_endian :: "nat \<Rightarrow> nat \<Rightarrow> nat list" where
  "big_endian 0 n = []"
| "big_endian (Suc k) n = big_endian k (n div 256) @ [n mod 256]"

text \<open>\<open>None\<close> is the \<open>struct.error\<close> of a length that needs more than eight bytes.\<close>

definition binary_header :: "nat \<Rightarrow> nat list option" where
  "binary_header n =
     (if n < 126 then Some [0x82, n]
      else if n < 65536 then Some ([0x82, 126] @ big_endian 2 n)
      else if n < 2 ^ 64 then Some ([0x82, 127] @ big_endian 8 n)
      else None)"

section \<open>The receive queue\<close>

datatype message = Binary nat | Words "nat list"

definition utf8_len :: "nat \<Rightarrow> nat" where
  "utf8_len c = (if c < 0x80 then 1 else if c < 0x800 then 2 else if c < 0x10000 then 3 else 4)"

text \<open>The size a message arrives with, and the \<open>len\<close> of the value the application receives.\<close>

fun wire_size :: "message \<Rightarrow> nat" where
  "wire_size (Binary n) = n"
| "wire_size (Words cs) = sum_list (map utf8_len cs)"

fun value_size :: "message \<Rightarrow> nat" where
  "value_size (Binary n) = n"
| "value_size (Words cs) = length cs"

datatype incoming = Arrived message | Bad_Utf8

record conn =
  queue :: "message list"
  queue_bytes :: nat
  read_paused :: bool
  close_sent :: bool

definition new_conn :: conn where
  "new_conn = \<lparr>queue = [], queue_bytes = 0, read_paused = False, close_sent = False\<rparr>"

definition send_receive_event :: "limits \<Rightarrow> incoming \<Rightarrow> conn \<Rightarrow> conn" where
  "send_receive_event lim e c =
     (if close_sent c then c
      else (case e of
          Bad_Utf8 \<Rightarrow> c\<lparr>close_sent := True\<rparr>
        | Arrived m \<Rightarrow>
            (let q = queue c @ [m]; b = queue_bytes c + wire_size m in
             c\<lparr>queue := q, queue_bytes := b,
               read_paused := read_paused c
                 \<or> int (length q) \<ge> queue_high lim \<or> int b \<ge> bytes_high lim\<rparr>)))"

definition after_receive :: "limits \<Rightarrow> message \<Rightarrow> conn \<Rightarrow> conn" where
  "after_receive lim m c =
     (let b = queue_bytes c - value_size m in
      c\<lparr>queue_bytes := b,
        read_paused := read_paused c \<and> \<not> (int (length (queue c)) \<le> queue_low lim \<and> int b \<le> bytes_low lim)\<rparr>)"

text \<open>\<open>turbo_receive_nowait\<close>, and \<open>receive\<close> once a message is there.\<close>

definition receive_nowait :: "limits \<Rightarrow> conn \<Rightarrow> message option \<times> conn" where
  "receive_nowait lim c = (case queue c of
     [] \<Rightarrow> (None, c)
   | m # q \<Rightarrow> (Some m, after_receive lim m (c\<lparr>queue := q\<rparr>)))"

datatype send_state = Send_Refused | Send_Framed "nat list" nat | Send_Stock | Send_Failed

definition turbo_send_bytes :: "bool \<Rightarrow> bool \<Rightarrow> bool \<Rightarrow> bool \<Rightarrow> bool \<Rightarrow> nat \<Rightarrow> send_state" where
  "turbo_send_bytes disconnected closing handshaken transport_closing deflate n =
     (if disconnected \<or> closing \<or> \<not> handshaken \<or> transport_closing then Send_Refused
      else if deflate then Send_Stock
      else (case binary_header n of None \<Rightarrow> Send_Failed | Some h \<Rightarrow> Send_Framed h n))"

section \<open>Frames\<close>

fun of_bytes :: "nat list \<Rightarrow> nat" where
  "of_bytes [] = 0"
| "of_bytes (b # bs) = b * 256 ^ length bs + of_bytes bs"

lemma of_bytes_append: "of_bytes (xs @ ys) = of_bytes xs * 256 ^ length ys + of_bytes ys"
  by (induction xs) (auto simp: power_add algebra_simps)

lemma length_big_endian [simp]: "length (big_endian k n) = k"
  by (induction k arbitrary: n) auto

lemma of_bytes_big_endian: "n < 256 ^ k \<Longrightarrow> of_bytes (big_endian k n) = n"
proof (induction k arbitrary: n)
  case (Suc k)
  then have "n div 256 < 256 ^ k" by (simp add: less_mult_imp_div_less mult.commute)
  then show ?case using Suc.IH by (simp add: of_bytes_append)
qed simp

lemma big_endian_bytes: "list_all (\<lambda>b. b < 256) (big_endian k n)"
  by (induction k arbitrary: n) auto

text \<open>How a client reads the header of an unmasked frame: opcode, payload length, rest.\<close>

definition read_header :: "nat list \<Rightarrow> (nat \<times> nat \<times> nat list) option" where
  "read_header bs = (case bs of
     op # l # rest \<Rightarrow>
       (if l < 126 then Some (op, l, rest)
        else if l = 126 \<and> 2 \<le> length rest then Some (op, of_bytes (take 2 rest), drop 2 rest)
        else if l = 127 \<and> 8 \<le> length rest then Some (op, of_bytes (take 8 rest), drop 8 rest)
        else None)
   | _ \<Rightarrow> None)"

text \<open>
  The fast header is a legal final binary frame: a client reads exactly the payload length, in
  the shortest of the three forms, and finds the payload behind it; every byte is an octet.
\<close>

theorem frame_round_trip:
  assumes "binary_header n = Some h" "length payload = n"
  shows "read_header (h @ payload) = Some (0x82, n, payload) \<and> list_all (\<lambda>b. b < 256) h
    \<and> length h = (if n < 126 then 2 else if n < 65536 then 4 else 10)"
proof -
  have "n < 65536 \<Longrightarrow> of_bytes (big_endian 2 n) = n" by (rule of_bytes_big_endian) simp
  moreover have "n < 2 ^ 64 \<Longrightarrow> of_bytes (big_endian 8 n) = n" by (rule of_bytes_big_endian) simp
  ultimately show ?thesis using assms big_endian_bytes[of 2 n] big_endian_bytes[of 8 n]
    by (auto simp: binary_header_def read_header_def split: if_splits simp del: big_endian.simps)
qed

lemma frame_round_trip_witness: "read_header ([0x82, 3] @ [7, 8, 9]) = Some (0x82, 3, [7, 8, 9])"
  using frame_round_trip[of 3 "[0x82, 3]" "[7, 8, 9]"] by (simp add: binary_header_def)

section \<open>Backpressure\<close>

lemma limits_sane: "let l = limits_of env in 1 \<le> queue_low l \<and> queue_low l < queue_high l
   \<and> 2 \<le> bytes_low l \<and> 2 * bytes_low l \<le> bytes_high l \<and> 0 < write_low l \<and> 2 * write_low l \<le> write_high l"
proof -
  have b: "minimum \<le> env_int raw d minimum maximum \<and> env_int raw d minimum maximum \<le> maximum" if "minimum \<le> maximum"
    for raw d minimum maximum
    using clamp_bounds[OF that] by (auto simp: env_int_def split: option.split)
  define qh where "qh = env_int (env ''WS_TURBO_QUEUE_HIGH'') 256 8 2048"
  have q: "8 \<le> qh" using b[of 8 2048] by (simp add: qh_def)
  note ql = b[of 1 "qh - 1" "env ''WS_TURBO_QUEUE_LOW''" 64]
  note bh = b[of "4 * 1024 * 1024" "512 * 1024 * 1024" "env ''WS_TURBO_QUEUE_BYTES_HIGH''" "64 * 1024 * 1024"]
  note bl = b[of "1024 * 1024" "128 * 1024 * 1024" "env ''WS_TURBO_QUEUE_BYTES_LOW''" "16 * 1024 * 1024"]
  note wh = b[of "256 * 1024" "64 * 1024 * 1024" "env ''WS_TURBO_WRITE_HIGH''" "16 * 1024 * 1024"]
  note wl = b[of "64 * 1024" "16 * 1024 * 1024" "env ''WS_TURBO_WRITE_LOW''" "2 * 1024 * 1024"]
  show ?thesis using q ql bh bl wh wl by (auto simp: limits_of_def Let_def qh_def[symmetric] min_def)
qed

datatype action = Put incoming | Take

definition act :: "limits \<Rightarrow> action \<Rightarrow> conn \<Rightarrow> conn" where
  "act lim a c = (case a of Put e \<Rightarrow> send_receive_event lim e c | Take \<Rightarrow> snd (receive_nowait lim c))"

inductive ws_step :: "limits \<Rightarrow> conn \<Rightarrow> action \<Rightarrow> conn \<Rightarrow> bool" for lim where
  ws_act: "(\<forall>m. a = Put (Arrived m) \<longrightarrow> (\<exists>n. m = Binary n)) \<Longrightarrow> ws_step lim c a (act lim a c)"

inductive_cases ws_stepE: "ws_step lim c a d"

definition queued :: "conn \<Rightarrow> nat" where
  "queued c = sum_list (map wire_size (queue c))"

definition ws_inv :: "limits \<Rightarrow> conn \<Rightarrow> bool" where
  "ws_inv lim c \<longleftrightarrow> queue_bytes c = queued c \<and> (\<forall>m \<in> set (queue c). \<exists>n. m = Binary n)
     \<and> (\<not> read_paused c \<longrightarrow> int (length (queue c)) < queue_high lim \<and> int (queue_bytes c) < bytes_high lim)
     \<and> (read_paused c \<longrightarrow> \<not> (int (length (queue c)) \<le> queue_low lim \<and> int (queue_bytes c) \<le> bytes_low lim))"

definition limits_ok :: "limits \<Rightarrow> bool" where
  "limits_ok l \<longleftrightarrow> 1 \<le> queue_low l \<and> queue_low l < queue_high l \<and> 2 \<le> bytes_low l \<and> 2 * bytes_low l \<le> bytes_high l"

lemma limits_of_ok: "limits_ok (limits_of env)"
  using limits_sane[of env] by (simp add: limits_ok_def Let_def)

lemma ws_inv_put: "limits_ok lim \<Longrightarrow> ws_inv lim c \<Longrightarrow> (\<forall>m. e = Arrived m \<longrightarrow> (\<exists>n. m = Binary n)) \<Longrightarrow>
   ws_inv lim (send_receive_event lim e c)"
  by (auto simp: ws_inv_def send_receive_event_def queued_def limits_ok_def Let_def split: incoming.split)

lemma ws_inv_take:
  assumes "limits_ok lim" "ws_inv lim c"
  shows "ws_inv lim (snd (receive_nowait lim c))"
proof (cases "queue c")
  case Nil
  then show ?thesis using assms by (simp add: receive_nowait_def)
next
  case (Cons m q)
  then obtain n where m: "m = Binary n" using assms by (auto simp: ws_inv_def)
  then have "queue_bytes c = n + sum_list (map wire_size q)" using assms Cons by (simp add: ws_inv_def queued_def)
  then show ?thesis using assms Cons m
    by (auto simp: receive_nowait_def after_receive_def Let_def ws_inv_def queued_def limits_ok_def)
qed

interpretation turbo: step_machine "\<lambda>c. limits_ok lim \<and> c = new_conn" "ws_step lim" "\<lambda>c. limits_ok lim \<and> ws_inv lim c"
proof
  show "limits_ok lim \<and> c = new_conn \<Longrightarrow> limits_ok lim \<and> ws_inv lim c" for c
    by (auto simp: new_conn_def ws_inv_def queued_def limits_ok_def)
  show "limits_ok lim \<and> ws_inv lim c \<Longrightarrow> ws_step lim c a d \<Longrightarrow> limits_ok lim \<and> ws_inv lim d" for c a d
    by (elim ws_stepE) (auto simp: act_def ws_inv_put ws_inv_take split: action.split)
qed

text \<open>
  The receive queue of a binary stream is bounded and never stalls: the byte counter is exact,
  a connection that is being read is below both high marks, and one whose queue is empty is being
  read again.
\<close>

theorem backpressure_sound:
  assumes "reaches (\<lambda>c. limits_ok lim \<and> c = new_conn) (ws_step lim) c"
  shows "queue_bytes c = queued c
    \<and> (\<not> read_paused c \<longrightarrow> int (length (queue c)) < queue_high lim \<and> int (queue_bytes c) < bytes_high lim)
    \<and> (queue c = [] \<longrightarrow> \<not> read_paused c)"
proof -
  have "limits_ok lim \<and> ws_inv lim c" using assms by (rule turbo.reaches_inv)
  then show ?thesis by (auto simp: ws_inv_def queued_def limits_ok_def)
qed

lemma backpressure_sound_witness:
  "queue_bytes (act (limits_of (\<lambda>k. None)) (Put (Arrived (Binary 7))) new_conn) = 7"
proof -
  let ?l = "limits_of (\<lambda>k. None)"
  have "reaches (\<lambda>c. limits_ok ?l \<and> c = new_conn) (ws_step ?l) (act ?l (Put (Arrived (Binary 7))) new_conn)"
    by (rule reaches.next_step[where s = new_conn and l = "Put (Arrived (Binary 7))"])
       (auto simp: limits_of_ok intro: reaches.init ws_act)
  from backpressure_sound[OF this] show ?thesis
    by (simp add: act_def send_receive_event_def queued_def new_conn_def Let_def)
qed

text \<open>
  C104. Text messages leak into the byte counter: it grows by the encoded size and shrinks by the
  number of characters. A client that sends enough two-byte characters, each consumed at once,
  ends with an empty queue and reading paused for ever.
\<close>

definition echo_round :: "limits \<Rightarrow> conn \<Rightarrow> conn" where
  "echo_round lim c = snd (receive_nowait lim (send_receive_event lim (Arrived (Words [0x641])) c))"

lemma echo_round_leak:
  assumes "limits_ok lim" "queue c = []" "\<not> close_sent c" "\<not> read_paused c" "int (queue_bytes c) + 2 \<le> bytes_high lim"
  shows "echo_round lim c = c\<lparr>queue_bytes := queue_bytes c + 1, read_paused := (int (queue_bytes c) + 2 = bytes_high lim)\<rparr>"
proof -
  have "int (queue_bytes c) + 2 = bytes_high lim \<Longrightarrow> bytes_low lim < int (queue_bytes c) + 1"
    using assms(1) by (auto simp: limits_ok_def)
  then show ?thesis using assms
    by (cases c) (auto simp: echo_round_def send_receive_event_def receive_nowait_def after_receive_def
        Let_def utf8_len_def limits_ok_def)
qed

lemma echo_rounds:
  assumes "limits_ok lim"
  shows "int n + 2 \<le> bytes_high lim \<Longrightarrow> (echo_round lim ^^ n) new_conn = new_conn\<lparr>queue_bytes := n\<rparr>"
proof (induction n)
  case (Suc n)
  then have "(echo_round lim ^^ n) new_conn = new_conn\<lparr>queue_bytes := n\<rparr>" by simp
  then show ?case using echo_round_leak[OF assms, of "new_conn\<lparr>queue_bytes := n\<rparr>"] Suc.prems
    by (simp add: new_conn_def)
qed (simp add: new_conn_def)

theorem text_stalls_reading:
  assumes "limits_ok lim"
  shows "\<exists>n. let c = (echo_round lim ^^ n) new_conn in
    queue c = [] \<and> read_paused c \<and> receive_nowait lim c = (None, c)"
proof -
  define n where "n = nat (bytes_high lim - 2)"
  have n: "int n + 2 = bytes_high lim" using assms by (auto simp: n_def limits_ok_def)
  have "(echo_round lim ^^ n) new_conn = new_conn\<lparr>queue_bytes := n\<rparr>" using echo_rounds[OF assms] n by simp
  then have "(echo_round lim ^^ Suc n) new_conn = new_conn\<lparr>queue_bytes := n + 1, read_paused := True\<rparr>"
    using echo_round_leak[OF assms, of "new_conn\<lparr>queue_bytes := n\<rparr>"] n by (simp add: new_conn_def)
  then show ?thesis
    by (intro exI[of _ "Suc n"]) (simp only: Let_def, simp add: receive_nowait_def new_conn_def)
qed

lemma text_stalls_reading_witness:
  "\<exists>n. queue ((echo_round (limits_of (\<lambda>k. None)) ^^ n) new_conn) = [] \<and> read_paused ((echo_round (limits_of (\<lambda>k. None)) ^^ n) new_conn)"
  using text_stalls_reading[OF limits_of_ok[of "\<lambda>k. None"]] by (auto simp: Let_def)

end
