(* ===== verification/Vless_Header.thy ===== *)
theory Vless_Header
  imports Uuid Turbo_Ws
begin

text \<open>
  The request header of a tunnel (\<open>relay_vless.py\<close>): the parser, the identity of a Raw TCP client,
  and the loop that collects the header from the messages of a stream. A byte is a number below
  256; \<open>idna\<close> is the decoder of a domain, \<open>None\<close> its UnicodeError.
\<close>

section \<open>Parsing\<close>

datatype target = IPv4_Target "nat list" | IPv6_Target "nat list" | Domain_Target string

datatype header_error =
    Incomplete_Prefix | Incomplete_Options | Bad_Command nat | Bad_Port
  | Incomplete_IPv4 | Incomplete_Domain_Length | Incomplete_Domain | Bad_Domain | Incomplete_IPv6
  | Bad_Address_Type nat

record request =
  rq_command :: nat
  rq_target :: target
  rq_port :: nat
  rq_payload :: "nat list"

text \<open>The address behind \<open>pos\<close>, and where the payload starts.\<close>

definition parse_target :: "(nat list \<Rightarrow> string option) \<Rightarrow> nat list \<Rightarrow> nat \<Rightarrow> nat \<Rightarrow> header_error + target \<times> nat" where
  "parse_target idna view kind pos =
     (if kind = 1 then
        (if length view < pos + 4 then Inl Incomplete_IPv4
         else Inr (IPv4_Target (take 4 (drop pos view)), pos + 4))
      else if kind = 2 then
        (if length view < pos + 1 then Inl Incomplete_Domain_Length
         else (let n = view ! pos in
           if n = 0 \<or> length view < pos + 1 + n then Inl Incomplete_Domain
           else (case idna (take n (drop (pos + 1) view)) of
               None \<Rightarrow> Inl Bad_Domain | Some d \<Rightarrow> Inr (Domain_Target d, pos + 1 + n))))
      else if kind = 3 then
        (if length view < pos + 16 then Inl Incomplete_IPv6
         else Inr (IPv6_Target (take 16 (drop pos view)), pos + 16))
      else Inl (Bad_Address_Type kind))"

definition parse_vless_header :: "(nat list \<Rightarrow> string option) \<Rightarrow> nat list \<Rightarrow> header_error + request" where
  "parse_vless_header idna view =
     (if length view < 19 then Inl Incomplete_Prefix
      else (let addon = view ! 17; pos = 18 + addon in
        if length view < 18 + addon + 4 then Inl Incomplete_Options
        else if view ! pos \<noteq> 1 then Inl (Bad_Command (view ! pos))
        else (let port = 256 * view ! (pos + 1) + view ! (pos + 2) in
          if port = 0 then Inl Bad_Port
          else and_then (parse_target idna view (view ! (pos + 3)) (pos + 4)) (\<lambda>(t, stop).
            Inr \<lparr>rq_command = 1, rq_target = t, rq_port = port, rq_payload = drop stop view\<rparr>))))"

datatype uuid_error = Incomplete_Identity | Bad_Version

definition vless_uuid_from_header :: "nat list \<Rightarrow> uuid_error + string" where
  "vless_uuid_from_header view =
     (if length view < 17 then Inl Incomplete_Identity
      else if view ! 0 \<noteq> 0 then Inl Bad_Version
      else Inr (uuid_text (uuid_of_bytes (take 16 (drop 1 view)))))"

section \<open>Collecting\<close>

definition HEADER_MAX :: nat where "HEADER_MAX = 16 * 1024"

datatype arrival = Chunk "nat list" | Disconnected | Silence

datatype collected =
    Got request nat "string option"
  | Version_Refused
  | Header_Too_Large
  | Client_Gone
  | Timed_Out
  | Waiting "nat list"

definition parsed_now :: "(nat list \<Rightarrow> string option) \<Rightarrow> nat list \<Rightarrow> request option" where
  "parsed_now idna buffer =
     (if 19 \<le> length buffer then ok_value (parse_vless_header idna buffer) else None)"

text \<open>
  \<open>_collect_header\<close> without payload prefetch, the way both tunnels call it. A message is a chunk, a
  disconnect, or fifteen silent seconds; what is left of the messages is returned.
\<close>

fun collect_header :: "(nat list \<Rightarrow> string option) \<Rightarrow> bool \<Rightarrow> nat list \<Rightarrow> arrival list \<Rightarrow> collected \<times> arrival list" where
  "collect_header idna with_uuid buffer ms =
     (if with_uuid \<and> buffer \<noteq> [] \<and> hd buffer \<noteq> 0 then (Version_Refused, ms)
      else (case parsed_now idna buffer of
          Some r \<Rightarrow> (Got r (length buffer) (if with_uuid then ok_value (vless_uuid_from_header buffer) else None), ms)
        | None \<Rightarrow>
            if HEADER_MAX \<le> length buffer then (Header_Too_Large, ms)
            else (case ms of
                [] \<Rightarrow> (Waiting buffer, [])
              | Chunk c # r \<Rightarrow> collect_header idna with_uuid (buffer @ c) r
              | Disconnected # r \<Rightarrow> (Client_Gone, r)
              | Silence # r \<Rightarrow> (Timed_Out, r))))"

declare collect_header.simps [simp del]

section \<open>A parsed header does not depend on what follows\<close>

lemma parse_target_more:
  assumes "parse_target idna view kind pos = Inr (t, stop)"
  shows "parse_target idna (view @ rest) kind pos = Inr (t, stop) \<and> stop \<le> length view \<and> pos < stop"
  using assms by (auto simp: parse_target_def nth_append Let_def split: if_splits option.splits)

lemma parse_target_less:
  assumes "parse_target idna view kind pos = Inr (t, stop)" "stop \<le> k"
  shows "parse_target idna (take k view) kind pos = Inr (t, stop)"
  using assms by (auto simp: parse_target_def Let_def drop_take min_def split: if_splits option.splits)

lemma parse_parts:
  assumes "parse_vless_header idna view = Inr r"
  obtains t stop where "parse_target idna view (view ! (18 + view ! 17 + 3)) (18 + view ! 17 + 4) = Inr (t, stop)"
    "18 + view ! 17 + 4 \<le> length view" "view ! (18 + view ! 17) = 1"
    "256 * view ! (18 + view ! 17 + 1) + view ! (18 + view ! 17 + 2) \<noteq> 0"
    "r = \<lparr>rq_command = 1, rq_target = t,
          rq_port = 256 * view ! (18 + view ! 17 + 1) + view ! (18 + view ! 17 + 2), rq_payload = drop stop view\<rparr>"
  using assms by (auto simp: parse_vless_header_def Let_def and_then_Inr split: if_splits)

lemma parse_built:
  assumes "parse_target idna view (view ! (18 + view ! 17 + 3)) (18 + view ! 17 + 4) = Inr (t, stop)"
    "18 + view ! 17 + 4 \<le> length view" "view ! (18 + view ! 17) = 1"
    "256 * view ! (18 + view ! 17 + 1) + view ! (18 + view ! 17 + 2) \<noteq> 0"
  shows "parse_vless_header idna view = Inr \<lparr>rq_command = 1, rq_target = t,
          rq_port = 256 * view ! (18 + view ! 17 + 1) + view ! (18 + view ! 17 + 2), rq_payload = drop stop view\<rparr>"
  using assms by (simp add: parse_vless_header_def Let_def)

text \<open>The length of the header: where the payload starts.\<close>

lemma parse_more:
  assumes "parse_vless_header idna view = Inr r"
  shows "parse_vless_header idna (view @ rest) = Inr (r\<lparr>rq_payload := rq_payload r @ rest\<rparr>)"
proof -
  obtain t stop where p: "parse_target idna view (view ! (18 + view ! 17 + 3)) (18 + view ! 17 + 4) = Inr (t, stop)"
    "18 + view ! 17 + 4 \<le> length view" "view ! (18 + view ! 17) = 1"
    "256 * view ! (18 + view ! 17 + 1) + view ! (18 + view ! 17 + 2) \<noteq> 0"
    "r = \<lparr>rq_command = 1, rq_target = t,
          rq_port = 256 * view ! (18 + view ! 17 + 1) + view ! (18 + view ! 17 + 2), rq_payload = drop stop view\<rparr>"
    using assms by (rule parse_parts)
  have n: "(view @ rest) ! i = view ! i" if "i < 18 + view ! 17 + 4" for i using that p(2) by (simp add: nth_append)
  have 17: "(view @ rest) ! 17 = view ! 17" by (rule n) simp
  have "parse_vless_header idna (view @ rest) = Inr \<lparr>rq_command = 1, rq_target = t,
          rq_port = 256 * view ! (18 + view ! 17 + 1) + view ! (18 + view ! 17 + 2), rq_payload = drop stop (view @ rest)\<rparr>"
    using parse_built[of idna "view @ rest" t stop] parse_target_more[OF p(1), of rest] p(2-4) n
    by (simp add: 17)
  moreover have "stop \<le> length view" using parse_target_more[OF p(1)] by simp
  ultimately show ?thesis using p(5) by simp
qed

lemma parse_prefix:
  assumes "parse_vless_header idna view = Inr r"
  shows "\<exists>h. h \<le> length view \<and> rq_payload r = drop h view
     \<and> (\<forall>k. h \<le> k \<longrightarrow> parse_vless_header idna (take k view) = Inr (r\<lparr>rq_payload := drop h (take k view)\<rparr>))"
proof -
  obtain t stop where p: "parse_target idna view (view ! (18 + view ! 17 + 3)) (18 + view ! 17 + 4) = Inr (t, stop)"
    "18 + view ! 17 + 4 \<le> length view" "view ! (18 + view ! 17) = 1"
    "256 * view ! (18 + view ! 17 + 1) + view ! (18 + view ! 17 + 2) \<noteq> 0"
    "r = \<lparr>rq_command = 1, rq_target = t,
          rq_port = 256 * view ! (18 + view ! 17 + 1) + view ! (18 + view ! 17 + 2), rq_payload = drop stop view\<rparr>"
    using assms by (rule parse_parts)
  have st: "stop \<le> length view" "18 + view ! 17 + 4 < stop" using parse_target_more[OF p(1)] by auto
  have "parse_vless_header idna (take k view) = Inr (r\<lparr>rq_payload := drop stop (take k view)\<rparr>)" if "stop \<le> k" for k
  proof -
    have n: "take k view ! i = view ! i" if "i < 18 + view ! 17 + 4" for i using that st \<open>stop \<le> k\<close> by simp
    have 17: "take k view ! 17 = view ! 17" by (rule n) simp
    show ?thesis
      using parse_built[of idna "take k view" t stop] parse_target_less[OF p(1) that] p(2-5) n st that
      by (simp add: 17)
  qed
  then show ?thesis using st p(5) by (intro exI[of _ stop]) auto
qed

lemma parse_target_stop: "parse_target idna view kind pos = Inr (t, stop) \<Longrightarrow>
   stop \<le> pos + 16 \<or> pos < length view \<and> stop = pos + 1 + view ! pos"
  by (auto simp: parse_target_def Let_def split: if_splits option.splits)

lemma header_short:
  assumes "parse_vless_header idna view = Inr r" "list_all (\<lambda>b. b < 256) view"
  shows "length view - length (rq_payload r) \<le> 533"
proof -
  obtain t stop where p: "parse_target idna view (view ! (18 + view ! 17 + 3)) (18 + view ! 17 + 4) = Inr (t, stop)"
    "18 + view ! 17 + 4 \<le> length view" "rq_payload r = drop stop view"
    using assms(1) by (rule parse_parts) auto
  have byte: "i < length view \<Longrightarrow> view ! i \<le> 255" for i using assms(2) by (fastforce simp: list_all_length)
  have "view ! 17 \<le> 255" using byte p(2) by simp
  moreover have "stop \<le> 18 + view ! 17 + 4 + 256"
    using parse_target_stop[OF p(1)] byte[of "18 + view ! 17 + 4"] by auto
  ultimately show ?thesis using p(3) by simp
qed

lemma parse_take:
  assumes "parse_vless_header idna view = Inr r" "parse_vless_header idna (take k view) = Inr q"
  shows "q = r\<lparr>rq_payload := rq_payload q\<rparr> \<and> rq_payload q @ drop k view = rq_payload r"
  using parse_more[OF assms(2), of "drop k view"] assms(1) by simp

lemma parsed_length: "parse_vless_header idna view = Inr r \<Longrightarrow> 19 \<le> length view"
  by (auto simp: parse_vless_header_def split: if_splits)

lemma uuid_take: "17 \<le> k \<Longrightarrow> k \<le> length view \<Longrightarrow> vless_uuid_from_header (take k view) = vless_uuid_from_header view"
  by (simp add: vless_uuid_from_header_def drop_take min_def)

lemma collect_chunks:
  assumes whole: "parse_vless_header idna whole = Inr r" "list_all (\<lambda>b. b < 256) whole"
    and version: "wu \<Longrightarrow> whole ! 0 = 0"
  shows "buf @ concat cs = whole \<Longrightarrow> \<exists>n pl rest. collect_header idna wu buf (map Chunk cs)
       = (Got (r\<lparr>rq_payload := pl\<rparr>) n (if wu then ok_value (vless_uuid_from_header whole) else None), map Chunk rest)
     \<and> pl @ concat rest = rq_payload r \<and> n + length (concat rest) = length whole"
proof (induction cs arbitrary: buf)
  case Nil
  then have "buf = whole" by simp
  have "collect_header idna wu buf [] = (Got r (length whole) (if wu then ok_value (vless_uuid_from_header whole) else None), [])"
  proof -
    have ne: "whole \<noteq> []" using parsed_length[OF whole(1)] by auto
    have "parsed_now idna whole = Some r" using whole(1) parsed_length[OF whole(1)] by (simp add: parsed_now_def)
    moreover have "\<not> (wu \<and> whole \<noteq> [] \<and> hd whole \<noteq> 0)" using version ne by (auto simp: hd_conv_nth)
    ultimately show ?thesis using \<open>buf = whole\<close> by (subst collect_header.simps) simp
  qed
  then show ?case by (intro exI[of _ "length whole"] exI[of _ "rq_payload r"] exI[of _ "[]"]) simp
next
  case (Cons c cs)
  define k where "k = length buf"
  have buf: "buf = take k whole" "k \<le> length whole" "drop k whole = concat (c # cs)"
    using Cons.prems by (auto simp: k_def)
  have kl: "length buf = k" by (simp add: k_def)
  have v: "\<not> (wu \<and> buf \<noteq> [] \<and> hd buf \<noteq> 0)" using version Cons.prems by (cases buf) auto
  show ?case
  proof (cases "parsed_now idna buf")
    case (Some q)
    then have q: "19 \<le> length buf" "parse_vless_header idna (take k whole) = Inr q"
      unfolding buf(1)[symmetric] by (auto simp: parsed_now_def split: if_splits)
    have "q = r\<lparr>rq_payload := rq_payload q\<rparr>" "rq_payload q @ concat (c # cs) = rq_payload r"
      using parse_take[OF whole(1) q(2)] buf(3) by auto
    moreover have "vless_uuid_from_header buf = vless_uuid_from_header whole"
      using uuid_take[of k whole] q(1) buf(2) kl unfolding buf(1)[symmetric] by simp
    moreover have "collect_header idna wu buf (map Chunk (c # cs))
        = (Got q k (if wu then ok_value (vless_uuid_from_header buf) else None), map Chunk (c # cs))"
      using v Some by (subst collect_header.simps) (simp add: kl)
    moreover have "k + length (concat (c # cs)) = length whole" using Cons.prems kl by auto
    ultimately show ?thesis
      by (intro exI[of _ k] exI[of _ "rq_payload q"] exI[of _ "c # cs"]) simp
  next
    case None
    obtain h where h: "h \<le> length whole" "rq_payload r = drop h whole"
        "\<And>k. h \<le> k \<Longrightarrow> parse_vless_header idna (take k whole) = Inr (r\<lparr>rq_payload := drop h (take k whole)\<rparr>)"
      using parse_prefix[OF whole(1)] by blast
    have "k < h"
    proof (rule ccontr)
      assume "\<not> k < h"
      then have "parse_vless_header idna buf = Inr (r\<lparr>rq_payload := drop h buf\<rparr>)" using h(3)[of k] unfolding buf(1)[symmetric] by simp
      then show False using None parsed_length[of idna buf] by (simp add: parsed_now_def)
    qed
    also have "h \<le> 533" using header_short[OF whole] h(1,2) by simp
    finally have "\<not> HEADER_MAX \<le> length buf" by (simp add: HEADER_MAX_def kl)
    then have "collect_header idna wu buf (map Chunk (c # cs)) = collect_header idna wu (buf @ c) (map Chunk cs)"
      using v None by (subst collect_header.simps) auto
    then show ?thesis using Cons.IH[of "buf @ c"] Cons.prems by simp
  qed
qed

text \<open>
  C25. How a header is cut into messages does not matter: whenever the bytes of a stream contain a
  request, collecting their chunks finds exactly that request and identity, and its payload
  followed by the chunks not yet taken is the rest of the stream.
\<close>

theorem chunking_irrelevant:
  assumes "parse_vless_header idna (concat cs) = Inr r" "list_all (\<lambda>b. b < 256) (concat cs)"
    and "wu \<Longrightarrow> concat cs ! 0 = 0"
  shows "\<exists>n pl rest. collect_header idna wu [] (map Chunk cs)
       = (Got (r\<lparr>rq_payload := pl\<rparr>) n (if wu then ok_value (vless_uuid_from_header (concat cs)) else None), map Chunk rest)
     \<and> pl @ concat rest = rq_payload r \<and> n + length (concat rest) = length (concat cs)"
  using collect_chunks[where buf = "[]" and cs = cs, OF assms] by simp

lemma chunking_irrelevant_witness:
  "\<exists>n pl rest. collect_header (\<lambda>b. None) True [] (map Chunk [replicate 17 0 @ [0], [1, 1], [187, 1, 127, 0, 0, 1, 22], [3]])
     = (Got \<lparr>rq_command = 1, rq_target = IPv4_Target [127, 0, 0, 1], rq_port = 443, rq_payload = pl\<rparr> n
          (ok_value (vless_uuid_from_header (concat [replicate 17 0 @ [0], [1, 1], [187, 1, 127, 0, 0, 1, 22], [3]]))), map Chunk rest)
   \<and> pl @ concat rest = [22, 3]"
proof -
  let ?cs = "[replicate 17 0 @ [0], [1, 1], [187, 1, 127, 0, 0, 1, 22], [3]] :: nat list list"
  have 1: "parse_vless_header (\<lambda>b. None) (concat ?cs)
      = Inr \<lparr>rq_command = 1, rq_target = IPv4_Target [127, 0, 0, 1], rq_port = 443, rq_payload = [22, 3]\<rparr>" by code_simp
  have 2: "list_all (\<lambda>b. b < 256) (concat ?cs)" by code_simp
  have 3: "concat ?cs ! 0 = 0" by code_simp
  show ?thesis using chunking_irrelevant[OF 1 2, of True] 3 by auto
qed

lemma nth_skip3: "([a, b, c] @ w) ! (3 + j) = w ! j"
  by (simp add: nth_append)

lemma drop_skip3: "drop (3 + j) ([a, b, c] @ w) = drop j w"
  unfolding drop_append by simp

definition wire_target :: "target \<Rightarrow> (string \<Rightarrow> nat list) \<Rightarrow> nat list" where
  "wire_target t enc = (case t of
     IPv4_Target b \<Rightarrow> 1 # b
   | Domain_Target d \<Rightarrow> 2 # length (enc d) # enc d
   | IPv6_Target b \<Rightarrow> 3 # b)"

definition wire_header :: "nat \<Rightarrow> nat list \<Rightarrow> nat list \<Rightarrow> nat \<Rightarrow> target \<Rightarrow> (string \<Rightarrow> nat list) \<Rightarrow> nat list" where
  "wire_header version identity options port t enc =
     version # identity @ length options # options @ [1, port div 256, port mod 256] @ wire_target t enc"

definition target_ok :: "(nat list \<Rightarrow> string option) \<Rightarrow> (string \<Rightarrow> nat list) \<Rightarrow> target \<Rightarrow> bool" where
  "target_ok idna enc t = (case t of
     IPv4_Target b \<Rightarrow> length b = 4
   | Domain_Target d \<Rightarrow> enc d \<noteq> [] \<and> idna (enc d) = Some d
   | IPv6_Target b \<Rightarrow> length b = 16)"

text \<open>
  A request with a header in the wire format is read back: destination, port and payload are the
  ones the client wrote, whatever options it added.
\<close>

theorem header_round_trip:
  assumes "length identity = 16" "target_ok idna enc t" "0 < port"
  shows "parse_vless_header idna (wire_header version identity options port t enc @ payload)
     = Inr \<lparr>rq_command = 1, rq_target = t, rq_port = port, rq_payload = payload\<rparr>"
proof -
  let ?pre = "version # identity @ length options # options"
  let ?view = "wire_header version identity options port t enc @ payload"
  have view: "?view = ?pre @ [1, port div 256, port mod 256] @ wire_target t enc @ payload" by (simp add: wire_header_def)
  have pre: "length ?pre = 18 + length options" using assms(1) by simp
  have 17: "?view ! 17 = length options" using assms(1) by (simp add: wire_header_def nth_append)
  have at: "?view ! (18 + length options + i) = ([1, port div 256, port mod 256] @ wire_target t enc @ payload) ! i" for i
    using pre by (simp add: view nth_append del: append.simps)
  have dr: "drop (18 + length options + i) ?view = drop i ([1, port div 256, port mod 256] @ wire_target t enc @ payload)" for i
    using pre by (simp add: view del: append.simps)
  have len: "length ?view = 18 + length options + 3 + length (wire_target t enc) + length payload"
    using pre by (simp add: view del: append.simps)
  let ?p = "18 + length options + 4"
  let ?w = "wire_target t enc @ payload"
  have atw: "?view ! (18 + length options + (3 + j)) = ?w ! j" for j unfolding at by (rule nth_skip3)
  have drw: "drop (18 + length options + (3 + j)) ?view = drop j ?w" for j unfolding dr by (rule drop_skip3)
  have at3: "?view ! (18 + length options + 3) = ?w ! 0" using atw[of 0] by simp
  have at4: "?view ! ?p = ?w ! 1" using atw[of 1] by simp
  have dr4: "drop ?p ?view = drop 1 ?w" using drw[of 1] by simp
  have dr5: "drop (?p + 1) ?view = drop 2 ?w" using drw[of 2] by simp
  have "\<exists>stop. parse_target idna ?view (?view ! (18 + length options + 3)) ?p = Inr (t, stop) \<and> drop stop ?view = payload"
  proof (cases t)
    case (IPv4_Target b)
    have "drop (?p + 4) ?view = payload" using drw[of 5] assms(2) IPv4_Target by (simp add: wire_target_def target_ok_def)
    then show ?thesis using assms(2) IPv4_Target at3 dr4 len
      by (intro exI[of _ "?p + 4"]) (simp add: parse_target_def wire_target_def target_ok_def)
  next
    case (IPv6_Target b)
    have "drop (?p + 16) ?view = payload" using drw[of 17] assms(2) IPv6_Target by (simp add: wire_target_def target_ok_def)
    then show ?thesis using assms(2) IPv6_Target at3 dr4 len
      by (intro exI[of _ "?p + 16"]) (simp add: parse_target_def wire_target_def target_ok_def)
  next
    case (Domain_Target d)
    have "drop (?p + 1 + length (enc d)) ?view = payload"
      using drw[of "2 + length (enc d)"] Domain_Target by (simp add: wire_target_def ac_simps)
    then show ?thesis using assms(2) Domain_Target at3 at4 dr5 len
      by (intro exI[of _ "?p + 1 + length (enc d)"]) (simp add: parse_target_def wire_target_def target_ok_def Let_def)
  qed
  then obtain stop where st: "parse_target idna ?view (?view ! (18 + ?view ! 17 + 3)) (18 + ?view ! 17 + 4) = Inr (t, stop)"
      "drop stop ?view = payload" by (auto simp: 17)
  have port: "256 * ?view ! (18 + ?view ! 17 + 1) + ?view ! (18 + ?view ! 17 + 2) = port"
    using at[of 1] at[of 2] by (simp add: 17)
  have "?view ! (18 + ?view ! 17) = 1" using at[of 0] by (simp add: 17)
  moreover have "18 + ?view ! 17 + 4 \<le> length ?view" 
  proof -
    have "1 \<le> length (wire_target t enc)" by (cases t) (simp_all add: wire_target_def)
    then show ?thesis unfolding 17 len by simp
  qed
  moreover have "256 * ?view ! (18 + ?view ! 17 + 1) + ?view ! (18 + ?view ! 17 + 2) \<noteq> 0"
    unfolding port using assms(3) by simp
  ultimately show ?thesis using parse_built[OF st(1)] unfolding port st(2) by blast
qed

lemma header_round_trip_witness:
  "parse_vless_header (\<lambda>b. None) (wire_header 0 (replicate 16 7) [9, 9] 8443 (IPv4_Target [1, 2, 3, 4]) (\<lambda>d. []) @ [22])
     = Inr \<lparr>rq_command = 1, rq_target = IPv4_Target [1, 2, 3, 4], rq_port = 8443, rq_payload = [22]\<rparr>"
  by (rule header_round_trip) (simp_all add: target_ok_def)

end
