(* ===== verification/Outbound.thy ===== *)
theory Outbound
  imports Exit_Routing Vless_Header
begin

text \<open>
  Leaving through a proxy (\<open>outbound.py\<close>): the parts of a proxy URL, the health table, the SOCKS5
  and HTTP CONNECT exchanges as functions of what the proxy answers, and the choice of one route.
  A byte is a number below 256; \<open>b64\<close> and \<open>idna\<close> are the codecs of the standard library. A read that the
  proxy does not answer in time is the same error as one it cuts short.
\<close>

section \<open>Proxies\<close>

record proxy_params =
  px_scheme :: string
  px_host :: string
  px_port :: "nat option"
  px_user :: string
  px_pass :: string

definition parse_proxy_url :: "string \<Rightarrow> url_error + proxy_params" where
  "parse_proxy_url value = and_then (validate_url value) (\<lambda>v. case urlsplit v of
     None \<Rightarrow> Inl Bad_Url
   | Some u \<Rightarrow>
      (case port_of (netloc u) of
         Inl _ \<Rightarrow> Inl Invalid_Port
       | Inr p \<Rightarrow>
          Inr \<lparr>px_scheme = scheme u,
               px_host = (case hostname (netloc u) of None \<Rightarrow> [] | Some h \<Rightarrow> h), px_port = p,
               px_user = unquote (case fst (userinfo (netloc u)) of None \<Rightarrow> [] | Some t \<Rightarrow> t),
               px_pass = unquote (case snd (userinfo (netloc u)) of None \<Rightarrow> [] | Some t \<Rightarrow> t)\<rparr>))"

definition link_uses_proxy :: "link option \<Rightarrow> bool" where
  "link_uses_proxy l = (case l of None \<Rightarrow> False | Some x \<Rightarrow>
     (let mode = (if l_mode x = [] then ''direct'' else l_mode x) in
      mode = ''repository'' \<and> l_proxy x \<noteq> [] \<or> mode = ''custom'' \<and> l_custom x \<noteq> []))"

definition is_ip :: "string \<Rightarrow> bool" where
  "is_ip value \<longleftrightarrow> ip_address (before CHR ''%'' (strip_by (\<lambda>c. c = CHR ''['' \<or> c = CHR '']'') value)) \<noteq> None"

subsection \<open>Health\<close>

type_synonym health = "(string, nat \<times> rat) dict"

definition cooldown_of :: "nat \<Rightarrow> rat" where
  "cooldown_of fails = min (10 * 2 ^ (fails - 1)) 300"

definition record_proxy_success :: "string \<Rightarrow> health \<Rightarrow> health" where
  "record_proxy_success ep h = AList.delete ep h"

definition record_proxy_failure :: "rat \<Rightarrow> string \<Rightarrow> health \<Rightarrow> health" where
  "record_proxy_failure now ep h =
     (let fails = min ((case map_of h ep of None \<Rightarrow> 0 | Some (n, u) \<Rightarrow> n) + 1) 8;
          g = AList.update ep (fails, now + cooldown_of fails) h
      in if length g > 4096
         then fold AList.delete (take 512 (sort_key (\<lambda>k. snd (the (map_of g k))) (map fst g))) g
         else g)"

definition proxy_health_snapshot :: "rat \<Rightarrow> health \<Rightarrow> (string, nat) dict" where
  "proxy_health_snapshot now h = map (\<lambda>(ep, n, u). (ep, n)) (filter (\<lambda>(ep, n, u). u > now) h)"

section \<open>SOCKS5\<close>

datatype socks_error =
    Short_Read | Invalid_Greeting | Auth_Required | Credentials_Too_Long | Auth_Failed | Method_Rejected
  | Bad_Target | Connect_Failed nat | Invalid_Reply_Type

definition utf8 :: "string \<Rightarrow> nat list" where
  "utf8 s = concat (map (\<lambda>c. if ord c < 128 then [ord c] else [192 + ord c div 64, 128 + ord c mod 64]) s)"

definition strip_brackets :: "string \<Rightarrow> string" where
  "strip_brackets = strip_by (\<lambda>c. c = CHR ''['' \<or> c = CHR '']'')"

definition socks_target :: "(string \<Rightarrow> nat list option) \<Rightarrow> string \<Rightarrow> nat \<Rightarrow> nat list option" where
  "socks_target idna host port =
     (let bare = strip_brackets host;
          address = (case ip_address (before CHR ''%'' bare) of
            Some a \<Rightarrow> Some ((if is_v6 a then 4 else 1) # packed a)
          | None \<Rightarrow> (case idna bare of
              None \<Rightarrow> None | Some e \<Rightarrow> if length e > 255 then None else Some (3 # length e # e)))
      in map_option (\<lambda>a. a @ big_endian 2 port) address)"

definition read_exactly :: "nat \<Rightarrow> nat list \<Rightarrow> (nat list \<times> nat list) option" where
  "read_exactly n bs = (if length bs < n then None else Some (take n bs, drop n bs))"

definition read_socks_reply :: "nat list \<Rightarrow> socks_error + nat list" where
  "read_socks_reply bs = (case read_exactly 4 bs of
     None \<Rightarrow> Inl Short_Read
   | Some (head, rest) \<Rightarrow>
      if head ! 0 \<noteq> 5 \<or> head ! 1 \<noteq> 0 then Inl (Connect_Failed (head ! 1))
      else if head ! 3 = 1 then (case read_exactly 6 rest of None \<Rightarrow> Inl Short_Read | Some (a, r) \<Rightarrow> Inr r)
      else if head ! 3 = 4 then (case read_exactly 18 rest of None \<Rightarrow> Inl Short_Read | Some (a, r) \<Rightarrow> Inr r)
      else if head ! 3 = 3 then (case read_exactly 1 rest of
          None \<Rightarrow> Inl Short_Read
        | Some (n, r) \<Rightarrow> (case read_exactly (n ! 0 + 2) r of None \<Rightarrow> Inl Short_Read | Some (a, r') \<Rightarrow> Inr r'))
      else Inl Invalid_Reply_Type)"

definition has_auth :: "proxy_params \<Rightarrow> bool" where
  "has_auth p \<longleftrightarrow> px_user p \<noteq> [] \<or> px_pass p \<noteq> []"

definition socks_greeting :: "proxy_params \<Rightarrow> nat list" where
  "socks_greeting p = (if has_auth p then [5, 2, 0, 2] else [5, 1, 0])"

definition socks_credentials :: "proxy_params \<Rightarrow> nat list" where
  "socks_credentials p = [1, length (utf8 (px_user p))] @ utf8 (px_user p) @ [length (utf8 (px_pass p))] @ utf8 (px_pass p)"

text \<open>The negotiation of the method: what was sent, and the bytes of the proxy still to be read.\<close>

definition socks_method :: "proxy_params \<Rightarrow> nat list \<Rightarrow> (socks_error + nat list) \<times> nat list list" where
  "socks_method p bs = (case read_exactly 2 bs of
     None \<Rightarrow> (Inl Short_Read, [])
   | Some (resp, r1) \<Rightarrow>
      if resp ! 0 \<noteq> 5 then (Inl Invalid_Greeting, [])
      else if resp ! 1 = 2 then
        (if \<not> has_auth p then (Inl Auth_Required, [])
         else if length (utf8 (px_user p)) > 255 \<or> length (utf8 (px_pass p)) > 255 then (Inl Credentials_Too_Long, [])
         else (case read_exactly 2 r1 of
             None \<Rightarrow> (Inl Short_Read, [socks_credentials p])
           | Some (auth, r2) \<Rightarrow>
               if auth ! 0 \<noteq> 1 \<or> auth ! 1 \<noteq> 0 then (Inl Auth_Failed, [socks_credentials p])
               else (Inr r2, [socks_credentials p])))
      else if resp ! 1 \<noteq> 0 then (Inl Method_Rejected, [])
      else (Inr r1, []))"

definition socks_once :: "(string \<Rightarrow> nat list option) \<Rightarrow> proxy_params \<Rightarrow> string \<Rightarrow> nat \<Rightarrow> nat list \<Rightarrow> nat list \<Rightarrow>
    (socks_error + nat list) \<times> nat list list" where
  "socks_once idna p host port first_packet bs = (case socks_method p bs of
     (Inl e, sent) \<Rightarrow> (Inl e, socks_greeting p # sent)
   | (Inr rest, sent) \<Rightarrow>
      (case socks_target idna host port of
         None \<Rightarrow> (Inl Bad_Target, socks_greeting p # sent)
       | Some t \<Rightarrow>
          (case read_socks_reply rest of
             Inl e \<Rightarrow> (Inl e, socks_greeting p # sent @ [[5, 1, 0] @ t])
           | Inr r \<Rightarrow> (Inr r, socks_greeting p # sent @ [[5, 1, 0] @ t]
                 @ (if first_packet = [] then [] else [first_packet])))))"

section \<open>HTTP CONNECT\<close>

definition CONNECT_HEADER_MAX :: nat where "CONNECT_HEADER_MAX = 32 * 1024"

definition connect_authority :: "string \<Rightarrow> nat \<Rightarrow> string" where
  "connect_authority host port = (let bare = strip_brackets host in
     (if CHR '':'' \<in> set bare then ''['' @ bare @ '']'' else bare) @ '':'' @ show_nat port)"

definition CRLF :: string where "CRLF = [CHR 0x0D, CHR 0x0A]"

definition connect_lines :: "(nat list \<Rightarrow> string) \<Rightarrow> string \<Rightarrow> nat \<Rightarrow> proxy_params \<Rightarrow> string list" where
  "connect_lines b64 host port p = (let authority = connect_authority host port in
     [''CONNECT '' @ authority @ '' HTTP/1.1'', ''Host: '' @ authority, ''User-Agent: Mozilla/5.0'',
      ''Proxy-Connection: keep-alive'', ''Connection: keep-alive'']
     @ (if has_auth p then [''Proxy-Authorization: Basic '' @ b64 (utf8 (px_user p @ '':'' @ px_pass p))] else []))"

definition connect_request :: "(nat list \<Rightarrow> string) \<Rightarrow> string \<Rightarrow> nat \<Rightarrow> proxy_params \<Rightarrow> string" where
  "connect_request b64 host port p = join CRLF (connect_lines b64 host port p) @ CRLF @ CRLF"

text \<open>The first line of a text, and its words as \<open>split()\<close> gives them.\<close>

fun first_line :: "string \<Rightarrow> string" where
  "first_line [] = []"
| "first_line (c # s) = (if starts_with CRLF (c # s) then [] else c # first_line s)"

definition blank_byte :: "char \<Rightarrow> bool" where
  "blank_byte c \<longleftrightarrow> ord c \<in> {9, 10, 11, 12, 13, 32}"

definition status_code :: "string \<Rightarrow> int" where
  "status_code header = (case words_by blank_byte [] (first_line header) of
     v # n # r \<Rightarrow> if n \<noteq> [] \<and> list_all is_decimal n then int (digits_val n) else -1
   | _ \<Rightarrow> -1)"

datatype connect_error = Tls_Failed | No_Header | Header_Too_Long | Refused_Connect int

text \<open>\<open>_http_once\<close> once it is connected: \<open>tls\<close> is the outcome of the optional handshake, \<open>header\<close> what the proxy answered.\<close>

definition http_once :: "(nat list \<Rightarrow> string) \<Rightarrow> proxy_params \<Rightarrow> string \<Rightarrow> nat \<Rightarrow> nat list \<Rightarrow> bool \<Rightarrow> string option \<Rightarrow>
    (connect_error + unit) \<times> string option \<times> nat list" where
  "http_once b64 p host port first_packet tls header =
     (if \<not> tls then (Inl Tls_Failed, None, [])
      else (case header of
          None \<Rightarrow> (Inl No_Header, Some (connect_request b64 host port p), [])
        | Some h \<Rightarrow>
            if length h > CONNECT_HEADER_MAX then (Inl Header_Too_Long, Some (connect_request b64 host port p), [])
            else if \<not> (200 \<le> status_code h \<and> status_code h < 300)
              then (Inl (Refused_Connect (status_code h)), Some (connect_request b64 host port p), [])
            else (Inr (), Some (connect_request b64 host port p), first_packet)))"

definition http_transports :: "proxy_params \<Rightarrow> bool list" where
  "http_transports p =
     (if px_scheme p = ''https'' then (if is_ip (px_host p) then [False, True] else [True, False]) else [False])"

text \<open>The first attempt that succeeds, else the last error.\<close>

fun first_success :: "('a \<Rightarrow> 'e + 'b) \<Rightarrow> 'e option \<Rightarrow> 'a list \<Rightarrow> 'e option + 'b" where
  "first_success f last_error [] = Inl last_error"
| "first_success f last_error (x # xs) = (case f x of
     Inr b \<Rightarrow> Inr b | Inl e \<Rightarrow> first_success f (Some e) xs)"

datatype tunnel_error = Bad_Proxy url_error | Socks_Error socks_error | Http_Error "connect_error option"

text \<open>
  What a proxy answers: its bytes on the SOCKS connection, and per transport (TLS to the proxy or not) the
  outcome of the handshake and the header.
\<close>

record answers =
  an_socks :: "nat list"
  an_tls :: bool
  an_header :: "bool \<Rightarrow> string option"

definition open_via :: "(string \<Rightarrow> nat list option) \<Rightarrow> (nat list \<Rightarrow> string) \<Rightarrow> answers \<Rightarrow> string \<Rightarrow> string \<Rightarrow> nat \<Rightarrow> nat list \<Rightarrow>
    tunnel_error + unit" where
  "open_via idna b64 an ep host port packet = (case parse_proxy_url ep of
     Inl e \<Rightarrow> Inl (Bad_Proxy e)
   | Inr p \<Rightarrow>
      if px_scheme p = ''socks5'' then
        (case fst (socks_once idna p host port packet (an_socks an)) of Inl e \<Rightarrow> Inl (Socks_Error e) | Inr r \<Rightarrow> Inr ())
      else
        (case first_success (\<lambda>tls. fst (http_once b64 p host port packet (tls \<longrightarrow> an_tls an) (an_header an tls)))
                None (http_transports p) of
           Inl e \<Rightarrow> Inl (Http_Error e) | Inr r \<Rightarrow> Inr r))"

section \<open>One route\<close>

datatype route = Direct | Via string

datatype route_error =
    Not_In_Cache | Custom_Invalid | Proxy_Unresolved | Many_Endpoints | Dial_Failed | Failed_Closed

definition endpoint_from_link :: "(string \<Rightarrow> proxy option) \<Rightarrow> link option \<Rightarrow> route_error + string option" where
  "endpoint_from_link lookup l = (case l of
     None \<Rightarrow> Inr None
   | Some x \<Rightarrow>
      (let mode = (if l_mode x = [] then ''direct'' else l_mode x) in
       if mode = ''repository'' then
         (case lookup (l_proxy x) of None \<Rightarrow> Inl Not_In_Cache | Some r \<Rightarrow> Inr (Some (endpoint r)))
       else if mode = ''custom'' then
         (case validate_url (l_custom x) of Inl e \<Rightarrow> Inl Custom_Invalid | Inr ep \<Rightarrow> Inr (Some ep))
       else Inr None))"

definition exact_endpoints :: "string list \<Rightarrow> string list" where
  "exact_endpoints = collect_new (\<lambda>e. if e = [] then None else Some e) []"

definition asked_endpoints :: "(string \<Rightarrow> proxy option) \<Rightarrow> link option \<Rightarrow> string list option \<Rightarrow> route_error + string list" where
  "asked_endpoints lookup l given = (case given of
     Some es \<Rightarrow> Inr es
   | None \<Rightarrow> (case endpoint_from_link lookup l of
       Inl e \<Rightarrow> Inl e
     | Inr None \<Rightarrow> Inr []
     | Inr (Some ep) \<Rightarrow> Inr (if ep = [] then [] else [ep])))"

text \<open>\<open>direct_ok\<close>: the destination can be dialled; \<open>via ep\<close>: the proxy opens the tunnel.\<close>

definition open_outbound :: "(string \<Rightarrow> proxy option) \<Rightarrow> rat \<Rightarrow> bool \<Rightarrow> (string \<Rightarrow> tunnel_error + unit) \<Rightarrow>
    link option \<Rightarrow> string list option \<Rightarrow> health \<Rightarrow> (route_error + route) \<times> health" where
  "open_outbound lookup now direct_ok via l given h = (case asked_endpoints lookup l given of
     Inl e \<Rightarrow> (Inl e, h)
   | Inr es \<Rightarrow>
      (case exact_endpoints es of
         [] \<Rightarrow> (if link_uses_proxy l then Inl Proxy_Unresolved else if direct_ok then Inr Direct else Inl Dial_Failed, h)
       | [ep] \<Rightarrow> (case via ep of
            Inr u \<Rightarrow> (Inr (Via ep), record_proxy_success ep h)
          | Inl e \<Rightarrow> (Inl Failed_Closed, record_proxy_failure now ep h))
       | _ \<Rightarrow> (Inl Many_Endpoints, h)))"

section \<open>The exchanges\<close>

lemma read_exactly_Some: "read_exactly n bs = Some (a, r) \<longleftrightarrow> n \<le> length bs \<and> a = take n bs \<and> r = drop n bs"
  by (auto simp: read_exactly_def)

lemma read_exactly_append [simp]: "n = length a \<Longrightarrow> read_exactly n (a @ r) = Some (a, r)"
  by (simp add: read_exactly_Some)

lemma socks_method_cases:
  assumes "socks_method p bs = (r, sent)"
  shows "sent = [] \<or> sent = [socks_credentials p] \<and> has_auth p \<and> take 2 bs = [5, 2]"
    and "r = Inr rest \<Longrightarrow> sent = [] \<and> take 2 bs = [5, 0] \<and> rest = drop 2 bs
       \<or> sent = [socks_credentials p] \<and> take 4 bs = [5, 2, 1, 0] \<and> rest = drop 4 bs"
  using assms
  by (auto simp: socks_method_def read_exactly_Some Suc_le_length_iff eval_nat_numeral
      split: option.splits if_splits prod.splits)

lemma length_packed: "ip_ok a \<Longrightarrow> length (packed a) = (if is_v6 a then 16 else 4)"
  by (cases a) (auto simp: length_concat comp_def sum_list_triv)

lemma reply_accepts: "read_socks_reply bs = Inr rest \<Longrightarrow> take 2 bs = [5, 0]"
  by (auto simp: read_socks_reply_def read_exactly_Some Suc_le_length_iff eval_nat_numeral
      split: option.splits if_splits prod.splits)

text \<open>
  C24. In the SOCKS5 exchange the proxy gets the credentials only when it asks for them and they exist, and
  the first packet, if there is one, only after the proxy answered the request for the destination with
  success; it is sent once, after everything else, and a failed exchange never carries it. (The HTTP CONNECT
  client of the same file is another exchange: it sends its credentials with the request.)
\<close>

theorem socks_payload_after_acceptance:
  assumes "socks_once idna p host port packet bs = (r, sent)"
  shows "\<exists>creds t. (creds = [] \<or> creds = [socks_credentials p] \<and> has_auth p \<and> take 2 bs = [5, 2])
    \<and> (case r of
        Inl e \<Rightarrow> sent \<in> {socks_greeting p # creds, socks_greeting p # creds @ [[5, 1, 0] @ t]}
      | Inr rest \<Rightarrow> socks_target idna host port = Some t
          \<and> sent = socks_greeting p # creds @ [[5, 1, 0] @ t] @ (if packet = [] then [] else [packet])
          \<and> take 2 bs = [5, if creds = [] then 0 else 2]
          \<and> take 2 (drop (if creds = [] then 2 else 4) bs) = [5, 0]
          \<and> read_socks_reply (drop (if creds = [] then 2 else 4) bs) = Inr rest)"
proof -
  obtain m s where m: "socks_method p bs = (m, s)" by force
  have s: "s = [] \<or> s = [socks_credentials p] \<and> has_auth p \<and> take 2 bs = [5, 2]"
    using socks_method_cases(1)[OF m] .
  show ?thesis
  proof (cases m)
    case (Inl e)
    then show ?thesis using assms m s by (intro exI[of _ s]) (auto simp: socks_once_def)
  next
    case (Inr rest)
    have rest: "rest = drop (if s = [] then 2 else 4) bs" and how: "take 2 bs = [5, if s = [] then 0 else 2]"
      using socks_method_cases(2)[OF m Inr] s by auto
    show ?thesis
    proof (cases "socks_target idna host port")
      case None
      then show ?thesis using assms m s Inr by (intro exI[of _ s]) (auto simp: socks_once_def)
    next
      case (Some t)
      have r: "r = (case read_socks_reply rest of Inl e \<Rightarrow> Inl e | Inr q \<Rightarrow> Inr q)"
        "sent = socks_greeting p # s @ [[5, 1, 0] @ t] @
          (case read_socks_reply rest of Inl e \<Rightarrow> [] | Inr q \<Rightarrow> if packet = [] then [] else [packet])"
        using assms m Inr Some by (auto simp: socks_once_def split: sum.splits)
      show ?thesis
        by (intro exI[of _ s] exI[of _ t] conjI s, unfold rest[symmetric])
           (cases "read_socks_reply rest"; simp add: r Some how reply_accepts)
    qed
  qed
qed

lemma socks_payload_after_acceptance_witness:
  "socks_once (\<lambda>h. None) \<lparr>px_scheme = ''socks5'', px_host = ''p'', px_port = Some 1080, px_user = ''u'', px_pass = ''s''\<rparr>
       ''1.2.3.4'' 443 [22] [5, 2, 1, 0, 5, 0, 0, 1, 0, 0, 0, 0, 0, 0]
     = (Inr [], [[5, 2, 0, 2], [1, 1, 117, 1, 115], [5, 1, 0, 1, 1, 2, 3, 4, 1, 187], [22]])
   \<and> (\<exists>creds t. socks_target (\<lambda>h. None) ''1.2.3.4'' 443 = Some t \<and>
       [[5, 2, 0, 2], [1, 1, 117, 1, 115], [5, 1, 0, 1, 1, 2, 3, 4, 1, 187], [22]] = [5, 2, 0, 2] # creds @ [[5, 1, 0] @ t, [22]])"
proof -
  let ?p = "\<lparr>px_scheme = ''socks5'', px_host = ''p'', px_port = Some 1080, px_user = ''u'', px_pass = ''s''\<rparr>"
  let ?sent = "[[5, 2, 0, 2], [1, 1, 117, 1, 115], [5, 1, 0, 1, 1, 2, 3, 4, 1, 187], [22]] :: nat list list"
  have 1: "socks_once (\<lambda>h. None) ?p ''1.2.3.4'' 443 [22] [5, 2, 1, 0, 5, 0, 0, 1, 0, 0, 0, 0, 0, 0] = (Inr [], ?sent)"
    by code_simp
  have g: "socks_greeting ?p = [5, 2, 0, 2]" by code_simp
  show ?thesis using 1 socks_payload_after_acceptance[OF 1] unfolding g by auto
qed

lemma read_head [simp]: "read_exactly 4 ([5, 0, 0, k] @ a) = Some ([5, 0, 0, k], a)"
  by (rule read_exactly_append) simp

lemma reply_fixed:
  "length a = n \<Longrightarrow> k = 1 \<and> n = 6 \<or> k = 4 \<and> n = 18 \<Longrightarrow> read_socks_reply ([5, 0, 0, k] @ a @ rest) = Inr rest"
  unfolding read_socks_reply_def by (subst read_head) auto

lemma reply_named: "length a = n + 2 \<Longrightarrow> read_socks_reply ([5, 0, 0, 3] @ [n] @ a @ rest) = Inr rest"
  unfolding read_socks_reply_def by (subst read_head) (simp add: read_exactly_def)

text \<open>
  The reply reader and the address writer agree: a successful reply that carries any address this
  program can write is consumed to its last byte, and nothing behind it.
\<close>

theorem socks_reply_consumed:
  assumes "socks_target idna host port = Some t"
  shows "read_socks_reply ([5, 0, 0] @ t @ rest) = Inr rest"
proof -
  define bare where "bare = strip_brackets host"
  show ?thesis
  proof (cases "ip_address (before CHR ''%'' bare)")
    case (Some a)
    then have t: "t = (if is_v6 a then 4 else 1) # packed a @ big_endian 2 port" and "ip_ok a"
      using assms ip_address_ok[OF Some] by (auto simp: socks_target_def bare_def[symmetric] Let_def)
    have whole: "[5, 0, 0] @ t @ rest = [5, 0, 0, if is_v6 a then 4 else 1] @ (packed a @ big_endian 2 port) @ rest"
      by (simp add: t)
    show ?thesis unfolding whole
      by (rule reply_fixed[where n = "if is_v6 a then 18 else 6"]) (simp_all add: length_packed[OF \<open>ip_ok a\<close>])
  next
    case None
    then obtain e where t: "t = 3 # length e # e @ big_endian 2 port"
      using assms by (auto simp: socks_target_def bare_def[symmetric] Let_def split: option.splits if_splits)
    have whole: "[5, 0, 0] @ t @ rest = [5, 0, 0, 3] @ [length e] @ (e @ big_endian 2 port) @ rest" by (simp add: t)
    show ?thesis unfolding whole by (rule reply_named) simp
  qed
qed

lemma socks_reply_consumed_witness:
  "read_socks_reply ([5, 0, 0] @ [3, 3, 97, 46, 98, 1, 187] @ [7]) = Inr [7]"
proof -
  have "socks_target (\<lambda>h. Some [97, 46, 98]) ''a.b'' 443 = Some [3, 3, 97, 46, 98, 1, 187]" by code_simp
  then show ?thesis by (rule socks_reply_consumed)
qed

section \<open>The request to an HTTP proxy\<close>

text \<open>The lines of a text, as the proxy reads them.\<close>

fun crlf_lines :: "string \<Rightarrow> string list" where
  "crlf_lines [] = [[]]"
| "crlf_lines (c # s) =
     (if starts_with CRLF (c # s) then [] # crlf_lines (tl s)
      else (case crlf_lines s of w # ws \<Rightarrow> (c # w) # ws | [] \<Rightarrow> [[c]]))"

lemma crlf_lines_Cons: "CHR 0x0D \<notin> set w \<Longrightarrow> crlf_lines (w @ CRLF @ s) = w # crlf_lines s"
  by (induction w) (auto simp: CRLF_def starts_with_def)

lemma crlf_lines_join:
  "ws \<noteq> [] \<Longrightarrow> \<forall>w \<in> set ws. CHR 0x0D \<notin> set w \<Longrightarrow> crlf_lines (join CRLF ws @ CRLF @ s) = ws @ crlf_lines s"
proof (induction CRLF ws rule: join.induct)
  case (3 w v ws)
  then show ?case using crlf_lines_Cons[of w "join CRLF (v # ws) @ CRLF @ s"] by simp
qed (simp_all add: crlf_lines_Cons)

lemma show_nat_no_cr: "CHR 0x0D \<notin> set (show_nat n)"
  using show_nat_decimal by (force simp: is_decimal_def)

text \<open>
  For a destination without a carriage return the request to an HTTP proxy has exactly the lines
  the program means: the CONNECT line and four headers, the credentials when there are any, and the empty line.
\<close>

theorem connect_request_lines:
  assumes "CHR 0x0D \<notin> set host" and b64: "\<And>b. CHR 0x0D \<notin> set (b64 b)"
  shows "crlf_lines (connect_request b64 host port p) = connect_lines b64 host port p @ [[], []]
    \<and> length (connect_lines b64 host port p) = (if has_auth p then 6 else 5)
    \<and> hd (connect_lines b64 host port p) = ''CONNECT '' @ connect_authority host port @ '' HTTP/1.1''"
proof -
  have a: "CHR 0x0D \<notin> set (connect_authority host port)"
    using assms(1) strip_by_set[of _ host] show_nat_no_cr[of port]
    by (auto simp: connect_authority_def Let_def strip_brackets_def)
  then have "\<forall>w \<in> set (connect_lines b64 host port p). CHR 0x0D \<notin> set w"
    using b64 by (auto simp: connect_lines_def Let_def)
  moreover have "connect_lines b64 host port p \<noteq> []" by (simp add: connect_lines_def Let_def)
  ultimately have "crlf_lines (connect_request b64 host port p) = connect_lines b64 host port p @ crlf_lines CRLF"
    using crlf_lines_join[of "connect_lines b64 host port p" CRLF] by (simp add: connect_request_def)
  then show ?thesis by (simp add: connect_lines_def Let_def CRLF_def starts_with_def)
qed

lemma connect_request_lines_witness:
  "length (crlf_lines (connect_request (\<lambda>b. ''eDp5'') ''example.org'' 443
     \<lparr>px_scheme = ''http'', px_host = ''p'', px_port = Some 80, px_user = ''x'', px_pass = ''y''\<rparr>)) = 8"
  using connect_request_lines[of "''example.org''" "\<lambda>b. ''eDp5''" 443
      "\<lparr>px_scheme = ''http'', px_host = ''p'', px_port = Some 80, px_user = ''x'', px_pass = ''y''\<rparr>"]
  by (simp add: has_auth_def)

text \<open>The domain decoder of the library on plain ASCII: the bytes as they are.\<close>

definition ascii_idna :: "nat list \<Rightarrow> string option" where
  "ascii_idna bs = (if list_all (\<lambda>b. b < 128) bs then Some (map char_of bs) else None)"

text \<open>
  A destination is not checked before it is written into the request: the domain below passes the
  header parser, and the proxy reads a sixth line that the client of the tunnel has chosen.
\<close>

theorem connect_header_injected:
  "let request = wire_header 0 (replicate 16 7) [] 443 (Domain_Target ''x'') (\<lambda>d. map of_char (''a'' @ CRLF @ ''X-Injected: 1'' @ CRLF @ ''b''));
       host = ''a'' @ CRLF @ ''X-Injected: 1'' @ CRLF @ ''b''
   in parse_vless_header ascii_idna request
        = Inr \<lparr>rq_command = 1, rq_target = Domain_Target host, rq_port = 443, rq_payload = []\<rparr>
    \<and> crlf_lines (connect_request (\<lambda>b. []) host 443
          \<lparr>px_scheme = ''http'', px_host = ''p'', px_port = Some 80, px_user = [], px_pass = []\<rparr>) ! 1 = ''X-Injected: 1''"
  by code_simp

section \<open>The route\<close>

lemma exact_set: "set (exact_endpoints es) = set es - {[]}"
  by (auto simp: exact_endpoints_def collect_new_set split: if_splits)

text \<open>
  C9. One deterministic route: a direct one only when no endpoint is asked for and the
  configuration selects no proxy; otherwise the stream leaves through the single endpoint that was
  asked for, which opened the tunnel. Any other case is an error, never another route.
\<close>

theorem outbound_route_exact:
  assumes "open_outbound lookup now direct_ok via l given h = (Inr r, g)"
  shows "\<exists>es. asked_endpoints lookup l given = Inr es \<and>
    (case r of
       Direct \<Rightarrow> set es \<subseteq> {[]} \<and> \<not> link_uses_proxy l \<and> direct_ok \<and> g = h
         \<and> (given = None \<longrightarrow> (case l of None \<Rightarrow> True | Some x \<Rightarrow> l_mode x \<noteq> ''custom''))
     | Via ep \<Rightarrow> set es - {[]} = {ep} \<and> via ep = Inr () \<and> g = record_proxy_success ep h)"
proof -
  obtain es where es: "asked_endpoints lookup l given = Inr es"
    using assms by (auto simp: open_outbound_def split: sum.splits)
  have custom: "set es \<subseteq> {[]} \<Longrightarrow> given = None \<Longrightarrow> l = Some x \<Longrightarrow> l_mode x \<noteq> ''custom''" for x
  proof (rule notI)
    assume a: "set es \<subseteq> {[]}" "given = None" "l = Some x" "l_mode x = ''custom''"
    then obtain ep where ep: "validate_url (l_custom x) = Inr ep" "es = (if ep = [] then [] else [ep])"
      using es by (auto simp: asked_endpoints_def endpoint_from_link_def split: sum.splits)
    have "ep = []" using a(1) ep(2) by (auto split: if_splits)
    moreover have "validate_url [] \<noteq> Inr []" by code_simp
    ultimately show False using validated_fixed[OF ep(1)] by simp
  qed
  show ?thesis
  proof (cases "exact_endpoints es")
    case Nil
    then have e: "set es \<subseteq> {[]}" using exact_set[of es] by auto
    have "r = Direct" "\<not> link_uses_proxy l" "direct_ok" "g = h"
      using assms es Nil by (auto simp: open_outbound_def split: if_splits)
    then show ?thesis using es e custom by (auto split: option.split)
  next
    case (Cons ep rest)
    then have "rest = []" using assms es by (cases rest) (auto simp: open_outbound_def)
    then have "r = Via ep" "via ep = Inr ()" "g = record_proxy_success ep h"
      using assms es Cons by (auto simp: open_outbound_def split: sum.splits)
    moreover have "set es - {[]} = {ep}" using exact_set[of es] Cons \<open>rest = []\<close> by simp
    ultimately show ?thesis using es by simp
  qed
qed

lemma outbound_route_exact_witness:
  "open_outbound (\<lambda>p. None) 0 True (\<lambda>e. Inr ()) (Some (sample_link\<lparr>l_mode := ''custom'', l_custom := ''socks5://1.2.3.4:1080''\<rparr>)) None []
     = (Inr (Via ''socks5://1.2.3.4:1080''), [])
   \<and> (\<exists>es. set es - {[]} = {''socks5://1.2.3.4:1080''})"
proof -
  let ?l = "Some (sample_link\<lparr>l_mode := ''custom'', l_custom := ''socks5://1.2.3.4:1080''\<rparr>)"
  have 1: "open_outbound (\<lambda>p. None) 0 True (\<lambda>e. Inr ()) ?l None [] = (Inr (Via ''socks5://1.2.3.4:1080''), [])" by code_simp
  show ?thesis using 1 outbound_route_exact[OF 1] by auto
qed

section \<open>The health table\<close>

definition health_inv :: "health \<Rightarrow> bool" where
  "health_inv h \<longleftrightarrow> dict_ok h \<and> length h \<le> 4096 \<and> (\<forall>(ep, n, u) \<in> set h. 1 \<le> n \<and> n \<le> 8)"

lemma fold_delete: "fold AList.delete ks g = filter (\<lambda>p. fst p \<notin> set ks) g"
  by (induction ks arbitrary: g) (auto simp: AList.delete_eq split_beta intro!: filter_cong)

lemma length_update: "length (AList.update k v d) \<le> Suc (length d)"
  by (induction d) auto

lemma set_update: "p \<in> set (AList.update k v d) \<Longrightarrow> p = (k, v) \<or> p \<in> set d"
  by (induction d) (auto split: if_splits)

lemma failure_keeps:
  assumes "health_inv h"
  shows "health_inv (record_proxy_failure now ep h)"
proof -
  define n where "n = min ((case map_of h ep of None \<Rightarrow> 0 | Some (n, u) \<Rightarrow> n) + 1) 8"
  define g where "g = AList.update ep (n, now + cooldown_of n) h"
  define worst where "worst = take 512 (sort_key (\<lambda>k. snd (the (map_of g k))) (map fst g))"
  have n: "1 \<le> n" "n \<le> 8" by (auto simp: n_def)
  have g: "dict_ok g" "length g \<le> 4097" "\<forall>(ep, n, u) \<in> set g. 1 \<le> n \<and> n \<le> 8"
    using assms n length_update[of ep "(n, now + cooldown_of n)" h]
    by (auto simp: health_inv_def g_def dest!: set_update)
  have r: "record_proxy_failure now ep h = (if length g > 4096 then fold AList.delete worst g else g)"
    by (simp add: record_proxy_failure_def n_def g_def worst_def Let_def)
  have "length (fold AList.delete worst g) \<le> 4096" if "length g > 4096"
  proof -
    have "set worst \<subseteq> fst ` set g" by (auto simp: worst_def dest!: in_set_takeD)
    moreover have "0 < length worst" using that by (simp add: worst_def)
    then have "worst \<noteq> []" by simp
    ultimately obtain p where "p \<in> set g" "fst p \<in> set worst" by (cases worst) auto
    then have "length (filter (\<lambda>p. fst p \<notin> set worst) g) < length g" by (intro length_filter_less) auto
    then show ?thesis using g(2) by (simp add: fold_delete)
  qed
  moreover have "dict_ok (filter q g)" for q using g(1) by (simp add: dict_ok_def distinct_map_filter)
  ultimately show ?thesis using g unfolding r by (auto simp: health_inv_def fold_delete)
qed

lemma success_keeps: "health_inv h \<Longrightarrow> health_inv (record_proxy_success ep h)"
  by (auto simp: health_inv_def record_proxy_success_def AList.delete_eq dict_ok_def distinct_map_filter
      intro: le_trans[OF length_filter_le])

text \<open>
  Whatever is opened, the health table stays a table of at most 4096 proxies with one to
  eight counted failures, and no recorded pause is longer than 300 seconds.
\<close>

theorem health_bounded:
  assumes "health_inv h"
  shows "health_inv (snd (open_outbound lookup now direct_ok via l given h)) \<and> cooldown_of n \<le> 300"
  using assms failure_keeps[OF assms] success_keeps[OF assms]
  by (auto simp: open_outbound_def cooldown_of_def split: sum.splits list.splits)

lemma health_bounded_witness:
  "health_inv (snd (open_outbound (\<lambda>p. None) 5 True (\<lambda>e. Inl (Bad_Proxy Bad_Url)) None (Some [''a'']) []))
   \<and> snd (open_outbound (\<lambda>p. None) 5 True (\<lambda>e. Inl (Bad_Proxy Bad_Url)) None (Some [''a'']) []) = [(''a'', 1, 15)]"
proof -
  have "health_inv []" by (simp add: health_inv_def)
  from health_bounded[OF this] show ?thesis by (intro conjI) (blast, code_simp)
qed

end
