(* ===== verification/Vless_Session.thy ===== *)
theory Vless_Session
  imports Accounting Outbound
begin

text \<open>
  A session of the relay (\<open>relay_vless.py\<close>): admission, header, counting, the choice of the exit, and the
  cleanup, for both entry points. The network is an argument: what a destination or a proxy does.
  A session that relays ends later, when \<open>finish\<close> takes it out of the table.
\<close>

section \<open>State\<close>

record connection =
  c_uuid :: string
  c_ip :: string
  c_transport :: string
  c_bytes :: int
  c_proxy :: "string option"
  c_location :: "string option"

record panel_run =
  r_world :: world
  r_conns :: "(string, connection) dict"
  r_requests :: int
  r_errors :: int
  r_raw_headers :: int
  r_raw_rejected :: int
  r_health :: health

record session_env =
  e_ingress :: ingress
  e_lookup :: "string \<Rightarrow> proxy option"
  e_preferred :: "(string, string) dict"
  e_idna :: "nat list \<Rightarrow> string option"
  e_clock :: rat
  e_dial :: "target \<Rightarrow> nat \<Rightarrow> bool"
  e_via :: "target \<Rightarrow> nat \<Rightarrow> nat list \<Rightarrow> string \<Rightarrow> tunnel_error + unit"

datatype session_end =
    Rejected nat string
  | Dropped
  | Collecting
  | Relaying target nat "nat list" route

definition connections_of :: "panel_run \<Rightarrow> (string \<times> string) list" where
  "connections_of r = map (\<lambda>(cid, c). (c_uuid c, c_ip c)) (r_conns r)"

section \<open>Steps of a session\<close>

definition failed :: "panel_run \<Rightarrow> panel_run" where
  "failed r = r\<lparr>r_errors := r_errors r + 1\<rparr>"

definition finish :: "string \<Rightarrow> panel_run \<Rightarrow> panel_run" where
  "finish cid r = r\<lparr>r_conns := AList.delete cid (r_conns r)\<rparr>"

definition admit :: "session_env \<Rightarrow> string \<Rightarrow> string \<Rightarrow> string \<Rightarrow> string \<Rightarrow> panel_run \<Rightarrow> session_end option \<times> panel_run" where
  "admit env cid uuid ip transport r =
     (let w = r_world r; link = map_of (w_links w) uuid in
      if \<not> is_link_allowed (e_ingress env) (w_subs w) (w_now w) link then (Some (Rejected 1008 ''not authorized''), r)
      else if \<not> is_ip_allowed (connections_of r) link uuid ip then (Some (Rejected 1008 ''ip limit reached''), r)
      else (None, r\<lparr>r_conns := AList.update cid \<lparr>c_uuid = uuid, c_ip = ip, c_transport = transport, c_bytes = 0,
              c_proxy = None, c_location = None\<rparr> (r_conns r)\<rparr>))"

text \<open>The bytes of the header are counted before anything is opened.\<close>

definition charge :: "session_env \<Rightarrow> string \<Rightarrow> string \<Rightarrow> nat \<Rightarrow> panel_run \<Rightarrow> bool \<times> panel_run" where
  "charge env cid uuid n r = (case check_and_use (e_ingress env) uuid (int n) (r_world r) of
     (ok, w) \<Rightarrow>
       if \<not> ok then (False, r\<lparr>r_world := w\<rparr>)
       else (True, r\<lparr>r_world := w, r_requests := r_requests r + 1,
              r_conns := dmod cid (\<lambda>c. c\<lparr>c_bytes := c_bytes c + int n\<rparr>) (r_conns r)\<rparr>))"

definition route_session :: "session_env \<Rightarrow> string \<Rightarrow> string \<Rightarrow> string \<Rightarrow> request \<Rightarrow> panel_run \<Rightarrow> session_end \<times> panel_run" where
  "route_session env cid uuid loc q r =
     (let w = r_world r in
      case resolve_exit_selection (e_lookup env) (e_preferred env) (w_subs w) (map_of (w_links w) uuid) loc of
        Inl e \<Rightarrow> (Rejected 1011 ''exit proxy unavailable'', failed r)
      | Inr sel \<Rightarrow>
         (let proxy_id = (case sel of None \<Rightarrow> [] | Some s \<Rightarrow> sel_proxy s);
              s = r\<lparr>r_conns := dmod cid (\<lambda>c. c\<lparr>c_proxy := (if proxy_id = [] then None else Some proxy_id),
                     c_location := (case sel of None \<Rightarrow> None | Some x \<Rightarrow> sel_location x)\<rparr>) (r_conns r)\<rparr> in
          case open_outbound (e_lookup env) (e_clock env) (e_dial env (rq_target q) (rq_port q))
                 (e_via env (rq_target q) (rq_port q) (rq_payload q)) None
                 (Some (case sel of None \<Rightarrow> [] | Some x \<Rightarrow> [sel_endpoint x])) (r_health s) of
            (Inl e, h) \<Rightarrow> (Dropped, failed (s\<lparr>r_health := h\<rparr>))
          | (Inr rt, h) \<Rightarrow> (Relaying (rq_target q) (rq_port q) (rq_payload q) rt, s\<lparr>r_health := h\<rparr>)))"

section \<open>A session\<close>

definition is_relaying :: "session_end \<Rightarrow> bool" where
  "is_relaying e = (case e of Relaying t p b rt \<Rightarrow> True | _ \<Rightarrow> False)"

text \<open>\<open>prepared\<close> is the header a Raw TCP connection has already given, with its length.\<close>

definition run_vless_session :: "session_env \<Rightarrow> string \<Rightarrow> string \<Rightarrow> string \<Rightarrow> string \<Rightarrow> string \<Rightarrow> (request \<times> nat) option \<Rightarrow>
    nat list \<Rightarrow> arrival list \<Rightarrow> panel_run \<Rightarrow> session_end \<times> panel_run" where
  "run_vless_session env cid uuid ip loc transport prepared early ms r = (case admit env cid uuid ip transport r of
     (Some e, s) \<Rightarrow> (e, s)
   | (None, s) \<Rightarrow>
      (case (case prepared of Some (q, n) \<Rightarrow> Got q n None | None \<Rightarrow> fst (collect_header (e_idna env) False early ms)) of
         Got q n u \<Rightarrow>
           (case charge env cid uuid n s of
              (False, t) \<Rightarrow> (Rejected 1008 ''quota/disabled'', finish cid t)
            | (True, t) \<Rightarrow> (case route_session env cid uuid loc q t of
                (e, v) \<Rightarrow> (e, if is_relaying e then v else finish cid v)))
       | Waiting b \<Rightarrow> (Collecting, s)
       | _ \<Rightarrow> (Dropped, finish cid (failed s))))"

text \<open>The headers of a WebSocket request: the address of the client, and the location it asks for.\<close>

definition ws_client_ip :: "(string \<Rightarrow> string option) \<Rightarrow> string \<Rightarrow> string" where
  "ws_client_ip headers peer =
     (let fwd = (case headers ''x-forwarded-for'' of None \<Rightarrow> [] | Some v \<Rightarrow> v);
          real = (case headers ''x-real-ip'' of None \<Rightarrow> [] | Some v \<Rightarrow> v) in
      if fwd \<noteq> [] then strip (before CHR '','' fwd)
      else if real \<noteq> [] then strip real
      else peer)"

text \<open>Early data in the protocol header; \<open>b64\<close> is the URL-safe decoder of the library.\<close>

definition early_data :: "(string \<Rightarrow> nat list option) \<Rightarrow> (string \<Rightarrow> string option) \<Rightarrow> nat list" where
  "early_data b64 headers = (case headers ''sec-websocket-protocol'' of
     None \<Rightarrow> []
   | Some raw \<Rightarrow>
      (let token = strip (before CHR '','' raw) in
       if raw = [] \<or> token = [] \<or> length token > (HEADER_MAX * 4 + 2) div 3 then []
       else (case b64 (token @ replicate ((4 - length token mod 4) mod 4) CHR ''='') of None \<Rightarrow> [] | Some d \<Rightarrow> d)))"

definition websocket_tunnel :: "session_env \<Rightarrow> (string \<Rightarrow> nat list option) \<Rightarrow> (string \<Rightarrow> string option) \<Rightarrow> string \<Rightarrow> string \<Rightarrow>
    string \<Rightarrow> string \<Rightarrow> arrival list \<Rightarrow> panel_run \<Rightarrow> session_end \<times> panel_run" where
  "websocket_tunnel env b64 headers peer cid uuid loc ms r =
     run_vless_session env cid uuid (ws_client_ip headers peer) loc ''vless-ws-hyper'' None (early_data b64 headers) ms r"

definition raw_tcp_tunnel :: "session_env \<Rightarrow> string \<Rightarrow> string \<Rightarrow> string \<Rightarrow> arrival list \<Rightarrow> panel_run \<Rightarrow> session_end \<times> panel_run" where
  "raw_tcp_tunnel env cid ip loc ms r = (case fst (collect_header (e_idna env) True [] ms) of
     Got q n (Some uuid) \<Rightarrow>
       run_vless_session env cid uuid ip loc ''vless-raw-tcp'' (Some (q, n)) [] []
         (r\<lparr>r_raw_headers := r_raw_headers r + 1\<rparr>)
   | Waiting b \<Rightarrow> (Collecting, r)
   | _ \<Rightarrow> (Dropped, (failed r)\<lparr>r_raw_rejected := r_raw_rejected r + 1\<rparr>))"

section \<open>Fails closed\<close>

lemma resolve_used [simp]:
  "resolve_exit_selection lookup preferred subs (Some (l\<lparr>l_used := u\<rparr>)) loc
     = resolve_exit_selection lookup preferred subs (Some l) loc"
proof -
  have "multi_location_for_link subs (l\<lparr>l_used := u\<rparr>) = multi_location_for_link subs l"
    by (simp add: multi_location_for_link_def)
  then show ?thesis by (simp add: resolve_exit_selection_def Let_def cong: option.case_cong sum.case_cong)
qed

lemma charge_True:
  assumes "charge env cid uuid n r = (True, t)" "map_of (w_links (r_world r)) uuid = Some l"
  shows "w_subs (r_world t) = w_subs (r_world r) \<and> used_of uuid (r_world t) = used_of uuid (r_world r) + int n
    \<and> (\<exists>u. map_of (w_links (r_world t)) uuid = Some (l\<lparr>l_used := u\<rparr>)) \<and> r_health t = r_health r
    \<and> (0 < n \<longrightarrow> is_link_allowed (e_ingress env) (w_subs (r_world r)) (w_now (r_world r)) (Some l))"
proof (cases "n = 0")
  case True
  then have "r_world t = r_world r \<and> r_health t = r_health r" using assms by (auto simp: charge_def check_and_use_def)
  then show ?thesis using assms True by (auto intro: exI[of _ "l_used l"])
next
  case False
  then show ?thesis using assms
    by (auto simp: charge_def check_and_use_def used_of_def split: if_splits)
qed

lemma admit_None:
  assumes "admit env cid uuid ip transport r = (None, s)"
  shows "\<exists>l. map_of (w_links (r_world r)) uuid = Some l
    \<and> is_link_allowed (e_ingress env) (w_subs (r_world r)) (w_now (r_world r)) (Some l)
    \<and> is_ip_allowed (connections_of r) (Some l) uuid ip
    \<and> s = r\<lparr>r_conns := AList.update cid \<lparr>c_uuid = uuid, c_ip = ip, c_transport = transport, c_bytes = 0,
              c_proxy = None, c_location = None\<rparr> (r_conns r)\<rparr>"
  using assms
  by (cases "map_of (w_links (r_world r)) uuid") (auto simp: admit_def Let_def is_link_allowed_def split: if_splits)

lemma exact_one: "ep \<noteq> [] \<Longrightarrow> exact_endpoints [ep] = [ep]"
  by (simp add: exact_endpoints_def)

lemma exact_none [simp]: "exact_endpoints [] = []"
  by (simp add: exact_endpoints_def)

lemma route_relaying:
  assumes "route_session env cid uuid loc q t = (Relaying tgt port b rt, v)"
    and valid: "\<And>s. resolve_exit_selection (e_lookup env) (e_preferred env) (w_subs (r_world t))
        (map_of (w_links (r_world t)) uuid) loc = Inr (Some s) \<Longrightarrow> sel_endpoint s \<noteq> []"
  shows "\<exists>sel. resolve_exit_selection (e_lookup env) (e_preferred env) (w_subs (r_world t))
        (map_of (w_links (r_world t)) uuid) loc = Inr sel
    \<and> rt = (case sel of None \<Rightarrow> Direct | Some s \<Rightarrow> Via (sel_endpoint s)) \<and> r_world v = r_world t
    \<and> tgt = rq_target q \<and> port = rq_port q \<and> b = rq_payload q"
proof -
  obtain sel where sel: "resolve_exit_selection (e_lookup env) (e_preferred env) (w_subs (r_world t))
      (map_of (w_links (r_world t)) uuid) loc = Inr sel"
    using assms(1) by (auto simp: route_session_def Let_def split: sum.splits)
  show ?thesis
  proof (cases sel)
    case None
    then show ?thesis using assms(1) sel
      by (auto simp: route_session_def Let_def open_outbound_def asked_endpoints_def split: if_splits)
  next
    case (Some s)
    then show ?thesis using assms(1) sel exact_one[OF valid[of s]]
      by (auto simp: route_session_def Let_def open_outbound_def asked_endpoints_def split: sum.splits)
  qed
qed

text \<open>
  C12. A session relays only for a configuration that may be used, from an address within its limit,
  after its header was counted, to the destination of its header, and through exactly the exit
  that the routing resolved for it. With an enabled location table, or in repository or custom
  mode, that exit is a proxy: no session of such a configuration ever leaves directly.
\<close>

theorem session_fails_closed:
  assumes "run_vless_session env cid uuid ip loc transport prepared early ms r = (Relaying tgt port b rt, v)"
    and "e_lookup env = resolve repo" "repo_ok digest repo"
  shows "\<exists>l sel q n. map_of (w_links (r_world r)) uuid = Some l
    \<and> is_link_allowed (e_ingress env) (w_subs (r_world r)) (w_now (r_world r)) (Some l)
    \<and> is_ip_allowed (connections_of r) (Some l) uuid ip
    \<and> (prepared = Some (q, n) \<or> prepared = None \<and> (\<exists>u. fst (collect_header (e_idna env) False early ms) = Got q n u))
    \<and> tgt = rq_target q \<and> port = rq_port q \<and> b = rq_payload q
    \<and> used_of uuid (r_world v) = used_of uuid (r_world r) + int n
    \<and> resolve_exit_selection (resolve repo) (e_preferred env) (w_subs (r_world r)) (Some l) loc = Inr sel
    \<and> rt = (case sel of None \<Rightarrow> Direct | Some s \<Rightarrow> Via (sel_endpoint s))
    \<and> (rt = Direct \<longrightarrow> snd (multi_location_for_link (w_subs (r_world r)) l) = None
         \<and> l_mode l \<noteq> ''repository'' \<and> l_mode l \<noteq> ''custom'')"
proof -
  obtain s where s: "admit env cid uuid ip transport r = (None, s)"
    using assms(1) by (auto simp: run_vless_session_def admit_def Let_def split: if_splits)
  obtain l where l: "map_of (w_links (r_world r)) uuid = Some l"
      "is_link_allowed (e_ingress env) (w_subs (r_world r)) (w_now (r_world r)) (Some l)"
      "is_ip_allowed (connections_of r) (Some l) uuid ip" "r_world s = r_world r"
    using admit_None[OF s] by auto
  define got where "got = (case prepared of Some (q, n) \<Rightarrow> Got q n None | None \<Rightarrow> fst (collect_header (e_idna env) False early ms))"
  obtain q n u where g: "got = Got q n u"
    using assms(1) s unfolding run_vless_session_def got_def[symmetric] by (auto split: collected.splits)
  obtain t where t: "charge env cid uuid n s = (True, t)"
    using assms(1) s g unfolding run_vless_session_def got_def[symmetric] by (auto split: prod.splits bool.splits)
  have "fst (route_session env cid uuid loc q t) = Relaying tgt port b rt"
    "v = snd (route_session env cid uuid loc q t)"
    using assms(1) s g t unfolding run_vless_session_def got_def[symmetric] by (auto simp: is_relaying_def split: prod.splits)
  then have ro: "route_session env cid uuid loc q t = (Relaying tgt port b rt, v)" by (simp add: prod_eq_iff)
  note ch = charge_True[OF t, unfolded l(4), OF l(1)]
  have res: "resolve_exit_selection (e_lookup env) (e_preferred env) (w_subs (r_world t)) (map_of (w_links (r_world t)) uuid) loc
      = resolve_exit_selection (resolve repo) (e_preferred env) (w_subs (r_world r)) (Some l) loc"
    using ch assms(2) by auto
  have ne: "sel_endpoint x \<noteq> []" if "resolve_exit_selection (resolve repo) (e_preferred env) (w_subs (r_world r)) (Some l) loc = Inr (Some x)" for x
  proof
    assume "sel_endpoint x = []"
    then have "validate_url [] = Inr []" using managed.selection_valid[OF assms(3) that] by simp
    moreover have "validate_url [] \<noteq> Inr []" by code_simp
    ultimately show False by simp
  qed
  obtain sel where sel: "resolve_exit_selection (resolve repo) (e_preferred env) (w_subs (r_world r)) (Some l) loc = Inr sel"
      "rt = (case sel of None \<Rightarrow> Direct | Some s \<Rightarrow> Via (sel_endpoint s))" "r_world v = r_world t"
      "tgt = rq_target q" "port = rq_port q" "b = rq_payload q"
    using route_relaying[OF ro, unfolded res, OF ne] by auto
  have "snd (multi_location_for_link (w_subs (r_world r)) l) = None \<and> l_mode l \<noteq> ''repository'' \<and> l_mode l \<noteq> ''custom''"
    if "rt = Direct"
  proof -
    have "sel = None" using that sel(2) by (cases sel) auto
    then show ?thesis using sel(1)
      by (auto simp: resolve_exit_selection_def Let_def and_then_Inr split: option.splits if_splits sum.splits)
  qed
  moreover have "prepared = Some (q, n) \<or> prepared = None \<and> (\<exists>u. fst (collect_header (e_idna env) False early ms) = Got q n u)"
    using g by (auto simp: got_def split: option.splits)
  ultimately show ?thesis using l sel ch by (intro exI[of _ l] exI[of _ sel] exI[of _ q] exI[of _ n]) auto
qed

definition sample_run :: panel_run where
  "sample_run = \<lparr>r_world = \<lparr>w_links = [(''u'', sample_link\<lparr>l_mode := ''repository'', l_proxy := ''http://1.2.3.4:80''\<rparr>)], w_subs = [],
     w_now = 7, w_total = 0, w_hour = ''12:00'', w_hourly = []\<rparr>, r_conns = [], r_requests = 0, r_errors = 0,
     r_raw_headers = 0, r_raw_rejected = 0, r_health = []\<rparr>"

definition sample_env :: session_env where
  "sample_env = \<lparr>e_ingress = sample_ingress, e_lookup = resolve sample_repo, e_preferred = [], e_idna = (\<lambda>b. None), e_clock = 0,
     e_dial = (\<lambda>t p. True), e_via = (\<lambda>t p b e. Inr ())\<rparr>"

definition sample_request :: request where
  "sample_request = \<lparr>rq_command = 1, rq_target = IPv4_Target [9, 9, 9, 9], rq_port = 443, rq_payload = [22]\<rparr>"

lemma session_fails_closed_witness:
  "\<exists>v. run_vless_session sample_env ''c'' ''u'' ''7.7.7.7'' [] ''vless-ws-hyper'' (Some (sample_request, 27)) [] [] sample_run
      = (Relaying (IPv4_Target [9, 9, 9, 9]) 443 [22] (Via ''http://1.2.3.4:80''), v)
    \<and> used_of ''u'' (r_world v) = 27"
proof -
  let ?run = "run_vless_session sample_env ''c'' ''u'' ''7.7.7.7'' [] ''vless-ws-hyper'' (Some (sample_request, 27)) [] [] sample_run"
  obtain e v where ev: "?run = (e, v)" by force
  have "fst ?run = Relaying (IPv4_Target [9, 9, 9, 9]) 443 [22] (Via ''http://1.2.3.4:80'')" by code_simp
  then have run: "?run = (Relaying (IPv4_Target [9, 9, 9, 9]) 443 [22] (Via ''http://1.2.3.4:80''), v)" using ev by simp
  have u: "used_of ''u'' (r_world sample_run) = 0" by code_simp
  have "e_lookup sample_env = resolve sample_repo" by (simp add: sample_env_def)
  from session_fails_closed[OF run this sample_repo_ok] u run show ?thesis by auto
qed

section \<open>Every exit cleans up\<close>

lemma charge_conns: "charge env cid uuid n r = (b, t) \<Longrightarrow> AList.delete cid (r_conns t) = AList.delete cid (r_conns r)"
  by (auto simp: charge_def dmod_def AList.delete_update_same split: if_splits prod.splits option.splits)

lemma route_conns: "AList.delete cid (r_conns (snd (route_session env cid uuid loc q r))) = AList.delete cid (r_conns r)"
  by (auto simp: route_session_def Let_def failed_def dmod_def AList.delete_update_same split: sum.splits prod.splits option.splits)

text \<open>
  C40. Whatever goes wrong, a session that does not relay and is not waiting for its header leaves no entry
  behind: the table of connections is what it was before.
\<close>

theorem session_cleans_up:
  assumes "run_vless_session env cid uuid ip loc transport prepared early ms r = (e, v)"
    and "cid \<notin> fst ` set (r_conns r)" "\<not> is_relaying e" "e \<noteq> Collecting"
  shows "r_conns v = r_conns r"
proof (cases "fst (admit env cid uuid ip transport r)")
  case (Some x)
  then have "snd (admit env cid uuid ip transport r) = r" by (auto simp: admit_def Let_def split: if_splits)
  then show ?thesis using assms(1) Some by (auto simp: run_vless_session_def split: prod.splits)
next
  case None
  then obtain s where s: "admit env cid uuid ip transport r = (None, s)" by (metis prod.collapse)
  then have d: "AList.delete cid (r_conns s) = r_conns r"
    using admit_None[OF s] assms(2) by (auto simp: AList.delete_update_same)
  define got where "got = (case prepared of Some (q, n) \<Rightarrow> Got q n None | None \<Rightarrow> fst (collect_header (e_idna env) False early ms))"
  have run: "(case got of
         Got q n u \<Rightarrow> (case charge env cid uuid n s of
              (False, t) \<Rightarrow> (Rejected 1008 ''quota/disabled'', finish cid t)
            | (True, t) \<Rightarrow> (case route_session env cid uuid loc q t of (e, v) \<Rightarrow> (e, if is_relaying e then v else finish cid v)))
       | Waiting b \<Rightarrow> (Collecting, s) | _ \<Rightarrow> (Dropped, finish cid (failed s))) = (e, v)"
    using assms(1) s unfolding run_vless_session_def got_def by simp
  show ?thesis
  proof (cases got)
    case (Got q n u)
    obtain ok t where t: "charge env cid uuid n s = (ok, t)" by force
    note ct = charge_conns[OF t]
    show ?thesis
    proof (cases ok)
      case False
      then show ?thesis using run Got t ct d by (auto simp: finish_def)
    next
      case True
      obtain x w where w: "route_session env cid uuid loc q t = (x, w)" by force
      then have "x = e" "v = finish cid w" using run Got t True assms(3) by (auto split: if_splits)
      then show ?thesis using route_conns[of cid env uuid loc q t] w ct d by (simp add: finish_def)
    qed
  qed (use run d assms(4) in \<open>auto simp: finish_def failed_def\<close>)
qed

lemma session_cleans_up_witness:
  "r_conns (snd (run_vless_session sample_env ''c'' ''x'' ''7.7.7.7'' [] ''vless-ws-hyper'' None [] [Silence] sample_run)) = []"
proof -
  let ?run' = "run_vless_session sample_env ''c'' ''x'' ''7.7.7.7'' [] ''vless-ws-hyper'' None [] [Silence] sample_run"
  obtain e v where ev: "?run' = (e, v)" by force
  have "fst ?run' = Rejected 1008 ''not authorized''" by code_simp
  then have "e = Rejected 1008 ''not authorized''" using ev by simp
  moreover have "r_conns sample_run = []" by (simp add: sample_run_def)
  ultimately show ?thesis using session_cleans_up[OF ev] ev by (simp add: is_relaying_def)
qed

section \<open>The limit of addresses\<close>

text \<open>
  Sessions interleave at their awaits: one event is one of the steps above, the counting of relayed
  traffic, or an edit of the configurations that lowers no limit of a connected one.
\<close>

datatype session_event =
    Enter string string string string
  | Charge string string nat
  | Route string string string request
  | Traffic string int
  | Leave string
  | Edit links

definition gentle :: "panel_run \<Rightarrow> links \<Rightarrow> bool" where
  "gentle r ls \<longleftrightarrow> (\<forall>uuid l. map_of ls uuid = Some l \<and> 0 < l_ip_limit l \<longrightarrow>
     uuid \<notin> fst ` set (connections_of r)
     \<or> (\<exists>k. map_of (w_links (r_world r)) uuid = Some k \<and> 0 < l_ip_limit k \<and> l_ip_limit k \<le> l_ip_limit l))"

definition session_act :: "session_env \<Rightarrow> session_event \<Rightarrow> panel_run \<Rightarrow> panel_run" where
  "session_act env e r = (case e of
     Enter cid uuid ip tr \<Rightarrow> snd (admit env cid uuid ip tr r)
   | Charge cid uuid n \<Rightarrow> snd (charge env cid uuid n r)
   | Route cid uuid loc q \<Rightarrow> snd (route_session env cid uuid loc q r)
   | Traffic uuid n \<Rightarrow> r\<lparr>r_world := snd (check_and_use (e_ingress env) uuid n (r_world r))\<rparr>
   | Leave cid \<Rightarrow> finish cid r
   | Edit ls \<Rightarrow> r\<lparr>r_world := (r_world r)\<lparr>w_links := ls\<rparr>\<rparr>)"

inductive session_step :: "session_env \<Rightarrow> panel_run \<Rightarrow> session_event \<Rightarrow> panel_run \<Rightarrow> bool" for env where
  step: "(\<And>ls. e = Edit ls \<Longrightarrow> gentle r ls) \<Longrightarrow> session_step env r e (session_act env e r)"

inductive_cases session_stepE: "session_step env r e s"

definition addresses_within :: "panel_run \<Rightarrow> bool" where
  "addresses_within r \<longleftrightarrow> (\<forall>uuid l. map_of (w_links (r_world r)) uuid = Some l \<longrightarrow> 0 < l_ip_limit l \<longrightarrow>
     int (length (unique_ips_for_uuid (connections_of r) uuid)) \<le> l_ip_limit l)"

lemma unique_mono: "set cs \<subseteq> set ds \<Longrightarrow> length (unique_ips_for_uuid cs uuid) \<le> length (unique_ips_for_uuid ds uuid)"
  by (auto simp: unique_ips_for_uuid_def length_remdups_card_conv intro!: card_mono)

lemma within_mono:
  assumes "addresses_within r" "set (connections_of s) \<subseteq> set (connections_of r)"
    and "\<And>uuid l. map_of (w_links (r_world s)) uuid = Some l \<Longrightarrow> 0 < l_ip_limit l \<Longrightarrow>
       \<exists>k. map_of (w_links (r_world r)) uuid = Some k \<and> 0 < l_ip_limit k \<and> l_ip_limit k \<le> l_ip_limit l"
  shows "addresses_within s"
  unfolding addresses_within_def
proof (intro allI impI)
  fix uuid l assume "map_of (w_links (r_world s)) uuid = Some l" "0 < l_ip_limit l"
  from assms(3)[OF this] obtain k where k: "map_of (w_links (r_world r)) uuid = Some k" "0 < l_ip_limit k" "l_ip_limit k \<le> l_ip_limit l"
    by blast
  then have "int (length (unique_ips_for_uuid (connections_of r) uuid)) \<le> l_ip_limit k" using assms(1) by (simp add: addresses_within_def)
  then show "int (length (unique_ips_for_uuid (connections_of s) uuid)) \<le> l_ip_limit l"
    using unique_mono[OF assms(2), of uuid] k(3) by linarith
qed

lemma use_links: "map_of (w_links (snd (check_and_use i uid n w))) uuid = Some l \<Longrightarrow>
    \<exists>k. map_of (w_links w) uuid = Some k \<and> l_ip_limit k = l_ip_limit l"
  by (auto simp: check_and_use_def split: if_splits)

lemma set_update_vals: "snd ` set (AList.update k v d) \<subseteq> insert v (snd ` set d)"
  by (induction d) auto

lemma connections_values: "set (connections_of r) = (\<lambda>c. (c_uuid c, c_ip c)) ` snd ` set (r_conns r)"
  by (force simp: connections_of_def)

lemma dmod_connections:
  assumes "\<And>c. c_uuid (f c) = c_uuid c \<and> c_ip (f c) = c_ip c"
  shows "(\<lambda>c. (c_uuid c, c_ip c)) ` snd ` set (dmod cid f d) \<subseteq> (\<lambda>c. (c_uuid c, c_ip c)) ` snd ` set d"
proof (cases "map_of d cid")
  case (Some c)
  then have "c \<in> snd ` set d" by (force dest: map_of_SomeD)
  then have "(c_uuid (f c), c_ip (f c)) \<in> (\<lambda>c. (c_uuid c, c_ip c)) ` snd ` set d" using assms[of c] by (force simp: image_iff)
  moreover have "(\<lambda>c. (c_uuid c, c_ip c)) ` snd ` set (dmod cid f d) \<subseteq> (\<lambda>c. (c_uuid c, c_ip c)) ` insert (f c) (snd ` set d)"
    using set_update_vals[of cid "f c" d] Some by (intro image_mono) (simp add: dmod_def)
  ultimately show ?thesis by (simp only: image_insert insert_absorb)
qed (simp add: dmod_def)

lemma route_entry:
  "\<exists>f. (\<forall>c. c_uuid (f c) = c_uuid c \<and> c_ip (f c) = c_ip c)
    \<and> (r_conns (snd (route_session env cid uuid loc q r)) \<in> {dmod cid f (r_conns r), r_conns r})"
proof (cases "resolve_exit_selection (e_lookup env) (e_preferred env) (w_subs (r_world r)) (map_of (w_links (r_world r)) uuid) loc")
  case (Inl e)
  then show ?thesis by (intro exI[of _ id]) (simp add: route_session_def failed_def)
next
  case (Inr sel)
  show ?thesis
    by (rule exI[of _ "\<lambda>c. c\<lparr>c_proxy := (if (case sel of None \<Rightarrow> [] | Some s \<Rightarrow> sel_proxy s) = [] then None
          else Some (case sel of None \<Rightarrow> [] | Some s \<Rightarrow> sel_proxy s)),
        c_location := (case sel of None \<Rightarrow> None | Some x \<Rightarrow> sel_location x)\<rparr>"])
       (simp add: route_session_def Inr failed_def Let_def split: prod.split sum.split)
qed

lemma admit_within:
  assumes "addresses_within r"
  shows "addresses_within (snd (admit env cid uuid ip tr r))"
proof (cases "fst (admit env cid uuid ip tr r)")
  case None
  then obtain s where s: "admit env cid uuid ip tr r = (None, s)" by (metis prod.collapse)
  obtain l where l: "map_of (w_links (r_world r)) uuid = Some l" "is_ip_allowed (connections_of r) (Some l) uuid ip"
      "r_world s = r_world r"
      "r_conns s = AList.update cid \<lparr>c_uuid = uuid, c_ip = ip, c_transport = tr, c_bytes = 0, c_proxy = None, c_location = None\<rparr> (r_conns r)"
    using admit_None[OF s] by auto
  have sub: "set (connections_of s) \<subseteq> set ((uuid, ip) # connections_of r)"
    using set_update_vals[of cid "\<lparr>c_uuid = uuid, c_ip = ip, c_transport = tr, c_bytes = 0, c_proxy = None, c_location = None\<rparr>" "r_conns r"]
    unfolding connections_values l(4) by (force simp: connections_values)
  have "int (length (unique_ips_for_uuid (connections_of s) x)) \<le> l_ip_limit k"
    if k: "map_of (w_links (r_world r)) x = Some k" "0 < l_ip_limit k" for x k
  proof -
    have old: "int (length (unique_ips_for_uuid (connections_of r) x)) \<le> l_ip_limit k"
      using assms k by (simp add: addresses_within_def)
    have "int (length (unique_ips_for_uuid ((uuid, ip) # connections_of r) x)) \<le> l_ip_limit k"
    proof (cases "x = uuid")
      case True
      have "k = l" using k(1) l(1) True by simp
      show ?thesis using ip_limit_respected[of "connections_of r" l uuid ip] l(2) k(2) old True \<open>k = l\<close> by simp
    next
      case False
      then show ?thesis using old by (simp add: unique_ips_for_uuid_def)
    qed
    then show ?thesis using unique_mono[OF sub, of x] by linarith
  qed
  then show ?thesis using s l(3) by (simp add: addresses_within_def)
next
  case (Some x)
  then have "snd (admit env cid uuid ip tr r) = r" by (auto simp: admit_def Let_def split: if_splits)
  then show ?thesis using assms by simp
qed

lemma act_within:
  assumes "addresses_within r" "\<And>ls. e = Edit ls \<Longrightarrow> gentle r ls"
  shows "addresses_within (session_act env e r)"
proof (cases e)
  case (Enter cid uuid ip tr)
  then show ?thesis using admit_within[OF assms(1)] by (simp add: session_act_def)
next
  case (Charge cid uuid n)
  have w: "r_world (snd (charge env cid uuid n r)) = snd (check_and_use (e_ingress env) uuid (int n) (r_world r))"
    by (auto simp: charge_def split: prod.splits)
  have "set (connections_of (snd (charge env cid uuid n r))) \<subseteq> set (connections_of r)"
    using dmod_connections[of "\<lambda>c. c\<lparr>c_bytes := c_bytes c + int n\<rparr>" cid "r_conns r"]
    by (auto simp: charge_def connections_values split: prod.splits)
  then show ?thesis unfolding Charge session_act_def session_event.case
    by (rule within_mono[OF assms(1)]) (auto simp: w dest!: use_links)
next
  case (Route cid uuid loc q)
  have w: "r_world (snd (route_session env cid uuid loc q r)) = r_world r"
    by (auto simp: route_session_def Let_def failed_def split: sum.splits prod.splits)
  have "set (connections_of (snd (route_session env cid uuid loc q r))) \<subseteq> set (connections_of r)"
  proof -
    obtain f where f: "\<And>c. c_uuid (f c) = c_uuid c \<and> c_ip (f c) = c_ip c"
        "r_conns (snd (route_session env cid uuid loc q r)) = dmod cid f (r_conns r)
         \<or> r_conns (snd (route_session env cid uuid loc q r)) = r_conns r"
      using route_entry[of env cid uuid loc q r] by auto
    show ?thesis using f(2) dmod_connections[where f = f and cid = cid and d = "r_conns r", OF f(1)]
      unfolding connections_values by (elim disjE) simp_all
  qed
  then show ?thesis unfolding Route session_act_def session_event.case
    by (rule within_mono[OF assms(1)]) (auto simp: w)
next
  case (Traffic uuid n)
  show ?thesis unfolding Traffic session_act_def session_event.case
    by (rule within_mono[OF assms(1)]) (auto simp: connections_of_def dest!: use_links)
next
  case (Leave cid)
  show ?thesis unfolding Leave session_act_def session_event.case
    by (rule within_mono[OF assms(1)]) (auto simp: connections_of_def finish_def AList.delete_eq)
next
  case (Edit ls)
  have g: "gentle r ls" using assms(2) Edit by simp
  have "int (length (unique_ips_for_uuid (connections_of r) uuid)) \<le> l_ip_limit l"
    if l: "map_of ls uuid = Some l" "0 < l_ip_limit l" for uuid l
  proof (cases "uuid \<in> fst ` set (connections_of r)")
    case True
    then obtain k where "map_of (w_links (r_world r)) uuid = Some k" "0 < l_ip_limit k" "l_ip_limit k \<le> l_ip_limit l"
      using g l by (auto simp: gentle_def)
    then show ?thesis using assms(1) by (force simp: addresses_within_def)
  next
    case False
    then have "filter (\<lambda>(u, ip). u = uuid \<and> ip \<noteq> []) (connections_of r) = []" by (force simp: filter_empty_conv)
    then show ?thesis using l by (simp add: unique_ips_for_uuid_def)
  qed
  then show ?thesis by (simp add: Edit session_act_def addresses_within_def connections_of_def)
qed

interpretation sessions: step_machine "\<lambda>r. r_conns r = []" "session_step env" addresses_within for env
proof
  show "r_conns r = [] \<Longrightarrow> addresses_within r" for r
    by (simp add: addresses_within_def connections_of_def unique_ips_for_uuid_def)
  show "addresses_within r \<Longrightarrow> session_step env r e s \<Longrightarrow> addresses_within s" for r e s
    by (elim session_stepE) (simp add: act_within)
qed

text \<open>
  C13. At every moment, however the sessions of the panel interleave, the connections of a configuration
  with a limit come from at most that many addresses.
\<close>

theorem address_limit_invariant:
  assumes "reaches (\<lambda>r. r_conns r = []) (session_step env) r"
    and "map_of (w_links (r_world r)) uuid = Some l" "0 < l_ip_limit l"
  shows "int (length (unique_ips_for_uuid (connections_of r) uuid)) \<le> l_ip_limit l"
  using sessions.reaches_inv[OF assms(1)] assms(2,3) by (simp add: addresses_within_def)

lemma address_limit_invariant_witness:
  "int (length (unique_ips_for_uuid (connections_of (session_act sample_env (Enter ''c'' ''v'' ''7.7.7.7'' ''t'')
      (sample_run\<lparr>r_world := (r_world sample_run)\<lparr>w_links := [(''v'', sample_link\<lparr>l_ip_limit := 1\<rparr>)]\<rparr>\<rparr>))) ''v'')) \<le> 1"
proof -
  let ?r = "sample_run\<lparr>r_world := (r_world sample_run)\<lparr>w_links := [(''v'', sample_link\<lparr>l_ip_limit := 1\<rparr>)]\<rparr>\<rparr>"
  let ?e = "Enter ''c'' ''v'' ''7.7.7.7'' ''t''"
  have "reaches (\<lambda>r. r_conns r = []) (session_step sample_env) ?r" by (rule reaches.init) (simp add: sample_run_def)
  moreover have "session_step sample_env ?r ?e (session_act sample_env ?e ?r)" by (rule session_step.step) simp
  ultimately have r: "reaches (\<lambda>r. r_conns r = []) (session_step sample_env) (session_act sample_env ?e ?r)"
    by (rule reaches.next_step)
  have "r_world (session_act sample_env ?e ?r) = r_world ?r" by (simp add: session_act_def admit_def Let_def)
  then have "map_of (w_links (r_world (session_act sample_env ?e ?r))) ''v'' = Some (sample_link\<lparr>l_ip_limit := 1\<rparr>)" by simp
  from address_limit_invariant[OF r this] show ?thesis by simp
qed

end
