(* ===== verification/Psiphon_Config.thy ===== *)
theory Psiphon_Config
  imports Proxy_Url Performance
begin

text \<open>
  The settings of the Psiphon session manager and the configuration it derives for the Core process
  (\<open>psiphon/config.py\<close>).
  Errors are the categories of the code. The file system, the base64 and JSON decoders and the
  expansion of a path are arguments.
\<close>

section \<open>Settings\<close>

record settings =
  p_enabled :: bool
  p_binary :: "string option"
  p_config :: "string option"
  p_data :: string
  p_b64 :: string
  p_runtime :: string
  p_max_age :: int
  p_interval :: int
  p_connect :: int
  p_grace :: int
  p_attempts :: int
  p_backoff :: int
  p_region :: string
  p_managed :: bool
  p_env_error :: string

definition bool_env :: "string option \<Rightarrow> bool \<Rightarrow> bool" where
  "bool_env value standard = (case value of
     None \<Rightarrow> standard | Some v \<Rightarrow> lower (strip v) \<in> {''1'', ''true'', ''yes'', ''on''})"

definition bounded_env_int :: "string option \<Rightarrow> int \<Rightarrow> int \<Rightarrow> int \<Rightarrow> int" where
  "bounded_env_int value standard low high = clamp low high
     (case value of None \<Rightarrow> standard | Some s \<Rightarrow> (case parse_int s of Some v \<Rightarrow> v | None \<Rightarrow> standard))"

definition country_shape :: "string \<Rightarrow> bool" where
  "country_shape s \<longleftrightarrow> length s = 2 \<and> list_all (\<lambda>c. 65 \<le> ord c \<and> ord c \<le> 90) s"

definition text_env :: "(string \<Rightarrow> string option) \<Rightarrow> string \<Rightarrow> string" where
  "text_env env k = strip (case env k of None \<Rightarrow> [] | Some v \<Rightarrow> v)"

definition optional_path :: "(string \<Rightarrow> string) \<Rightarrow> string \<Rightarrow> string option" where
  "optional_path expand t = (if t = [] then None else Some (expand t))"

definition from_environment :: "(string \<Rightarrow> string) \<Rightarrow> string \<Rightarrow> string \<Rightarrow> (string \<Rightarrow> string option) \<Rightarrow> settings" where
  "from_environment expand data_dir runtime_dir env =
     (let raw = upper (text_env env ''PSIPHON_EGRESS_REGION'');
          region = (if raw = [] \<or> country_shape raw then raw else []) in
      \<lparr>p_enabled = bool_env (env ''PSIPHON_ENABLED'') False,
       p_binary = optional_path expand (text_env env ''PSIPHON_CONSOLE_CLIENT_PATH''),
       p_config = optional_path expand (text_env env ''PSIPHON_CONFIG_PATH''),
       p_data = expand (case env ''PSIPHON_DATA_DIR'' of None \<Rightarrow> data_dir | Some d \<Rightarrow> d),
       p_b64 = text_env env ''PSIPHON_CONFIG_B64'',
       p_runtime = expand (case env ''PSIPHON_RUNTIME_DIR'' of None \<Rightarrow> runtime_dir | Some d \<Rightarrow> d),
       p_max_age = bounded_env_int (env ''PSIPHON_SESSION_MAX_AGE_SECONDS'') 1800 60 1800,
       p_interval = bounded_env_int (env ''PSIPHON_HEALTHCHECK_INTERVAL_SECONDS'') 60 10 900,
       p_connect = bounded_env_int (env ''PSIPHON_CONNECT_TIMEOUT_SECONDS'') 45 5 120,
       p_grace = bounded_env_int (env ''PSIPHON_ROTATION_GRACE_SECONDS'') 15 1 60,
       p_attempts = bounded_env_int (env ''PSIPHON_MAX_RECONNECT_ATTEMPTS'') 3 1 8,
       p_backoff = bounded_env_int (env ''PSIPHON_RECONNECT_BACKOFF_SECONDS'') 5 1 60,
       p_region = region,
       p_managed = bool_env (env ''PSIPHON_USE_MANAGED_UPSTREAM_PROXY'') False,
       p_env_error = (if raw = [] \<or> region \<noteq> [] then [] else ''egress_region_invalid'')\<rparr>)"

definition settings_ok :: "settings \<Rightarrow> bool" where
  "settings_ok s \<longleftrightarrow> 60 \<le> p_max_age s \<and> p_max_age s \<le> 1800 \<and> 10 \<le> p_interval s \<and> p_interval s \<le> 900
     \<and> 5 \<le> p_connect s \<and> p_connect s \<le> 120 \<and> 1 \<le> p_grace s \<and> p_grace s \<le> 60
     \<and> 1 \<le> p_attempts s \<and> p_attempts s \<le> 8 \<and> 1 \<le> p_backoff s \<and> p_backoff s \<le> 60
     \<and> (p_region s = [] \<or> country_shape (p_region s))
     \<and> p_env_error s \<in> {[], ''egress_region_invalid''}"

lemma bounded_env_int_bounds:
  "low \<le> high \<Longrightarrow> low \<le> bounded_env_int v d low high \<and> bounded_env_int v d low high \<le> high"
  unfolding bounded_env_int_def by (rule clamp_bounds)

text \<open>
  Whatever the environment holds, the settings keep their bounds; thirty minutes is the longest session.
\<close>

lemma from_environment_ok: "settings_ok (from_environment expand data_dir runtime_dir env)"
  by (simp add: settings_ok_def from_environment_def Let_def bounded_env_int_bounds)

section \<open>Starting up\<close>

record fs =
  is_file :: "string \<Rightarrow> bool"
  can_run :: "string \<Rightarrow> bool"
  text_of :: "string \<Rightarrow> string option"

definition validate_startup :: "fs \<Rightarrow> settings \<Rightarrow> string + unit" where
  "validate_startup f s =
     (if \<not> p_enabled s then Inr ()
      else if p_env_error s \<noteq> [] then Inl (p_env_error s)
      else (case p_binary s of
          None \<Rightarrow> Inl ''core_binary_missing''
        | Some b \<Rightarrow>
            if \<not> is_file f b then Inl ''core_binary_missing''
            else if \<not> can_run f b then Inl ''core_binary_not_executable''
            else if p_b64 s = [] \<and> (case p_config s of None \<Rightarrow> True | Some c \<Rightarrow> \<not> is_file f c) then Inl ''core_config_missing''
            else Inr ()))"

section \<open>The configuration of the Core\<close>

definition CORE_UPSTREAM_SCHEMES :: "string list" where
  "CORE_UPSTREAM_SCHEMES = [''http'', ''socks4a'', ''socks5'']"

definition validate_upstream :: "string option \<Rightarrow> string + string" where
  "validate_upstream upstream = (case upstream of
     None \<Rightarrow> Inl ''managed_upstream_unavailable''
   | Some u \<Rightarrow>
      if u = [] then Inl ''managed_upstream_unavailable''
      else (case urlsplit u of
          None \<Rightarrow> Inl ''managed_upstream_invalid''
        | Some p \<Rightarrow>
            if lower (scheme p) \<notin> set CORE_UPSTREAM_SCHEMES \<or> hostname (netloc p) = None then Inl ''managed_upstream_invalid''
            else (case port_of (netloc p) of
                Inr (Some n) \<Rightarrow> Inr u | _ \<Rightarrow> Inl ''managed_upstream_invalid'')))"

record codecs =
  b64_text :: "string \<Rightarrow> string option"
  loads :: "string \<Rightarrow> json option"

definition config_text :: "fs \<Rightarrow> codecs \<Rightarrow> settings \<Rightarrow> string option" where
  "config_text f c s =
     (if p_b64 s \<noteq> [] then (if length (p_b64 s) > 4 * 1024 * 1024 then None else b64_text c (p_b64 s))
      else Option.bind (p_config s) (text_of f))"

definition FORCED :: body where
  "FORCED = [(''ListenInterface'', JStr []), (''UseUnixDomainSockets'', JBool False), (''DisableLocalSocksProxy'', JBool False),
     (''LocalSocksProxyPort'', JInt 0), (''DisableLocalHTTPProxy'', JBool True), (''LocalHttpProxyPort'', JInt 0),
     (''TunnelPoolSize'', JInt 1)]"

definition dict_update :: "body \<Rightarrow> body \<Rightarrow> body" where
  "dict_update new d = fold (\<lambda>(k, v). AList.update k v) new d"

definition prepare_runtime_config :: "fs \<Rightarrow> codecs \<Rightarrow> settings \<Rightarrow> string option \<Rightarrow> string + body" where
  "prepare_runtime_config f c s upstream = and_then (validate_startup f s) (\<lambda>u.
     case Option.bind (config_text f c s) (loads c) of
       Some (JObj raw) \<Rightarrow>
         if truthy (jget raw ''EnableLightProxyFallback'') \<or> truthy (jget raw ''EnableLightProxy'')
           then Inl ''light_proxy_fallback_disallowed''
         else if truthy (jget raw ''DisableTunnels'') then Inl ''tunnels_disabled''
         else if truthy (jget raw ''PacketTunnelTunFileDescriptor'') then Inl ''packet_tunnel_not_supported''
         else
           (let r1 = dict_update FORCED raw;
                r2 = (if p_region s = [] then r1 else AList.update ''EgressRegion'' (JStr (p_region s)) r1) in
            if p_managed s
            then and_then (validate_upstream upstream) (\<lambda>url. Inr (AList.update ''UpstreamProxyURL'' (JStr url) r2))
            else Inr r2)
     | _ \<Rightarrow> Inl ''core_config_invalid'')"

section \<open>What the Core is started with\<close>

definition SAFE_FAILURES :: "string list" where
  "SAFE_FAILURES = [''core_binary_missing'', ''core_binary_not_executable'', ''core_config_missing'', ''core_config_invalid'',
     ''light_proxy_fallback_disallowed'', ''tunnels_disabled'', ''packet_tunnel_not_supported'', ''egress_region_invalid'',
     ''managed_upstream_unavailable'', ''managed_upstream_invalid'', ''core_spawn_failed'', ''core_exited'',
     ''core_notice_error'', ''core_notice_too_large'', ''tunnel_ready_timeout'', ''tunnel_lost'', ''https_probe_failed'',
     ''exit_identity_unavailable'', ''proxy_retest_failed'', ''shutdown'']"

lemma dict_update_get: "map_of (dict_update new d) k =
    (case map_of (rev new) k of Some v \<Rightarrow> Some v | None \<Rightarrow> map_of d k)"
  by (induction new arbitrary: d) (auto simp: dict_update_def map_add_def split: option.splits)

lemma forced_get: "map_of (dict_update FORCED raw) k =
    (case map_of FORCED k of Some v \<Rightarrow> Some v | None \<Rightarrow> map_of raw k)"
  unfolding dict_update_get by (simp add: FORCED_def)

lemma startup_error: "validate_startup f s = Inl e \<Longrightarrow> settings_ok s \<Longrightarrow> e \<in> set SAFE_FAILURES"
  by (auto simp: validate_startup_def settings_ok_def SAFE_FAILURES_def split: if_splits option.splits)

lemma upstream_error: "validate_upstream u = Inl e \<Longrightarrow> e \<in> set SAFE_FAILURES"
  by (auto simp: validate_upstream_def SAFE_FAILURES_def split: if_splits option.splits sum.splits)

lemma config_error:
  assumes "prepare_runtime_config f c s u = Inl e" "settings_ok s"
  shows "e \<in> set SAFE_FAILURES"
  using assms startup_error[of f s] upstream_error[of u]
  by (auto simp: prepare_runtime_config_def and_then_Inl Let_def split: option.splits json.splits if_splits)
     (simp_all add: SAFE_FAILURES_def)

lemma upstream_ok: "validate_upstream upstream = Inr u \<Longrightarrow>
    \<exists>p n. upstream = Some u \<and> urlsplit u = Some p \<and> lower (scheme p) \<in> {''http'', ''socks4a'', ''socks5''}
      \<and> hostname (netloc p) \<noteq> None \<and> port_of (netloc p) = Inr (Some n)"
  by (auto simp: validate_upstream_def CORE_UPSTREAM_SCHEMES_def split: if_splits option.splits sum.splits)

lemma runtime_config_cases:
  assumes "prepare_runtime_config f c s upstream = Inr cfg"
  obtains raw r1 r2 where "Option.bind (config_text f c s) (loads c) = Some (JObj raw)"
    "r1 = dict_update FORCED raw"
    "r2 = (if p_region s = [] then r1 else AList.update ''EgressRegion'' (JStr (p_region s)) r1)"
    "\<And>k. k \<in> {''EnableLightProxyFallback'', ''EnableLightProxy'', ''DisableTunnels'', ''PacketTunnelTunFileDescriptor''} \<Longrightarrow>
       \<not> truthy (jget raw k)"
    "if p_managed s then \<exists>u. validate_upstream upstream = Inr u \<and> cfg = AList.update ''UpstreamProxyURL'' (JStr u) r2 else cfg = r2"
proof -
  obtain raw where raw: "Option.bind (config_text f c s) (loads c) = Some (JObj raw)"
    using assms by (auto simp: prepare_runtime_config_def and_then_Inr split: option.splits json.splits)
  define r1 where "r1 = dict_update FORCED raw"
  define r2 where "r2 = (if p_region s = [] then r1 else AList.update ''EgressRegion'' (JStr (p_region s)) r1)"
  have "\<not> truthy (jget raw ''EnableLightProxyFallback'')" "\<not> truthy (jget raw ''EnableLightProxy'')"
      "\<not> truthy (jget raw ''DisableTunnels'')" "\<not> truthy (jget raw ''PacketTunnelTunFileDescriptor'')"
    and cfg: "if p_managed s then \<exists>u. validate_upstream upstream = Inr u \<and> cfg = AList.update ''UpstreamProxyURL'' (JStr u) r2 else cfg = r2"
    using assms raw unfolding prepare_runtime_config_def and_then_Inr r1_def r2_def
    by (auto simp: and_then_Inr Let_def split: if_splits)
  then show ?thesis using that[OF raw r1_def r2_def _ cfg] by blast
qed

text \<open>
  C21. The configuration given to the Core keeps it on loopback, whatever the operator's file says: the
  listen interface is empty (the Core then listens on loopback only), its SOCKS listener is a local TCP one
  on a port of the Core's choice, the HTTP listener is disabled, and there is one tunnel; the light proxy,
  the light proxy fallback, the packet tunnel and the switch that disables the tunnels are off. Every other
  entry is the operator's own, except the asked region and, when a managed upstream is used, its address,
  which is an HTTP, SOCKS4a or SOCKS5 URL with a host and a port.
\<close>

theorem runtime_config_confined:
  assumes "prepare_runtime_config f c s upstream = Inr cfg"
  shows "map_of cfg ''ListenInterface'' = Some (JStr []) \<and> map_of cfg ''UseUnixDomainSockets'' = Some (JBool False)
    \<and> map_of cfg ''DisableLocalSocksProxy'' = Some (JBool False) \<and> map_of cfg ''LocalSocksProxyPort'' = Some (JInt 0)
    \<and> map_of cfg ''DisableLocalHTTPProxy'' = Some (JBool True) \<and> map_of cfg ''LocalHttpProxyPort'' = Some (JInt 0)
    \<and> map_of cfg ''TunnelPoolSize'' = Some (JInt 1)
    \<and> \<not> truthy (jget cfg ''EnableLightProxyFallback'') \<and> \<not> truthy (jget cfg ''EnableLightProxy'')
    \<and> \<not> truthy (jget cfg ''DisableTunnels'') \<and> \<not> truthy (jget cfg ''PacketTunnelTunFileDescriptor'')
    \<and> (\<exists>raw. Option.bind (config_text f c s) (loads c) = Some (JObj raw)
        \<and> (\<forall>k. k \<notin> {''ListenInterface'', ''UseUnixDomainSockets'', ''DisableLocalSocksProxy'', ''LocalSocksProxyPort'',
              ''DisableLocalHTTPProxy'', ''LocalHttpProxyPort'', ''TunnelPoolSize'', ''EgressRegion'', ''UpstreamProxyURL''}
              \<longrightarrow> map_of cfg k = map_of raw k)
        \<and> map_of cfg ''EgressRegion''
            = (if p_region s = [] then map_of raw ''EgressRegion'' else Some (JStr (p_region s)))
        \<and> (\<not> p_managed s \<longrightarrow> map_of cfg ''UpstreamProxyURL'' = map_of raw ''UpstreamProxyURL''))
    \<and> (p_managed s \<longrightarrow> (\<exists>u p n. upstream = Some u \<and> map_of cfg ''UpstreamProxyURL'' = Some (JStr u) \<and> urlsplit u = Some p
        \<and> lower (scheme p) \<in> {''http'', ''socks4a'', ''socks5''} \<and> hostname (netloc p) \<noteq> None \<and> port_of (netloc p) = Inr (Some n)))"
proof -
  obtain raw r1 r2 where raw: "Option.bind (config_text f c s) (loads c) = Some (JObj raw)" "r1 = dict_update FORCED raw"
    "r2 = (if p_region s = [] then r1 else AList.update ''EgressRegion'' (JStr (p_region s)) r1)"
    and bans: "\<And>k. k \<in> {''EnableLightProxyFallback'', ''EnableLightProxy'', ''DisableTunnels'', ''PacketTunnelTunFileDescriptor''} \<Longrightarrow>
       \<not> truthy (jget raw k)"
    and cfg: "if p_managed s then \<exists>u. validate_upstream upstream = Inr u \<and> cfg = AList.update ''UpstreamProxyURL'' (JStr u) r2 else cfg = r2"
    using runtime_config_cases[OF assms] by metis
  have get: "map_of cfg k = (case map_of FORCED k of Some v \<Rightarrow> Some v | None \<Rightarrow> map_of raw k)"
    if "k \<noteq> ''EgressRegion''" "k \<noteq> ''UpstreamProxyURL''" for k
    using cfg raw(2,3) that by (auto simp: forced_get split: if_splits)
  have forced: "map_of cfg ''ListenInterface'' = Some (JStr [])" "map_of cfg ''UseUnixDomainSockets'' = Some (JBool False)"
    "map_of cfg ''DisableLocalSocksProxy'' = Some (JBool False)" "map_of cfg ''LocalSocksProxyPort'' = Some (JInt 0)"
    "map_of cfg ''DisableLocalHTTPProxy'' = Some (JBool True)" "map_of cfg ''LocalHttpProxyPort'' = Some (JInt 0)"
    "map_of cfg ''TunnelPoolSize'' = Some (JInt 1)"
    by (simp_all add: get FORCED_def)
  have other: "map_of cfg k = map_of raw k" if "k \<notin> {''ListenInterface'', ''UseUnixDomainSockets'', ''DisableLocalSocksProxy'',
      ''LocalSocksProxyPort'', ''DisableLocalHTTPProxy'', ''LocalHttpProxyPort'', ''TunnelPoolSize'', ''EgressRegion'', ''UpstreamProxyURL''}" for k
    using that get[of k] by (simp add: FORCED_def)
  have off: "\<not> truthy (jget cfg k)"
    if k: "k \<in> {''EnableLightProxyFallback'', ''EnableLightProxy'', ''DisableTunnels'', ''PacketTunnelTunFileDescriptor''}" for k
  proof -
    have "map_of cfg k = map_of raw k" using k by (intro other) auto
    then show ?thesis using bans[OF k] by (simp add: jget_def)
  qed
  have none: "map_of FORCED ''EgressRegion'' = None" "map_of FORCED ''UpstreamProxyURL'' = None" by (simp_all add: FORCED_def)
  have region: "map_of cfg ''EgressRegion'' = (if p_region s = [] then map_of raw ''EgressRegion'' else Some (JStr (p_region s)))"
    using cfg raw(2,3) none by (auto simp: forced_get split: if_splits)
  have own: "\<not> p_managed s \<Longrightarrow> map_of cfg ''UpstreamProxyURL'' = map_of raw ''UpstreamProxyURL''"
    using cfg raw(2,3) none by (auto simp: forced_get)
  have "p_managed s \<Longrightarrow> \<exists>u. validate_upstream upstream = Inr u \<and> map_of cfg ''UpstreamProxyURL'' = Some (JStr u)"
    using cfg by auto
  then have managed: "p_managed s \<longrightarrow> (\<exists>u p n. upstream = Some u \<and> map_of cfg ''UpstreamProxyURL'' = Some (JStr u) \<and> urlsplit u = Some p
        \<and> lower (scheme p) \<in> {''http'', ''socks4a'', ''socks5''} \<and> hostname (netloc p) \<noteq> None \<and> port_of (netloc p) = Inr (Some n))"
    using upstream_ok by blast
  show ?thesis
  proof (intro conjI exI[of _ raw])
    show "\<forall>k. k \<notin> {''ListenInterface'', ''UseUnixDomainSockets'', ''DisableLocalSocksProxy'', ''LocalSocksProxyPort'',
              ''DisableLocalHTTPProxy'', ''LocalHttpProxyPort'', ''TunnelPoolSize'', ''EgressRegion'', ''UpstreamProxyURL''}
              \<longrightarrow> map_of cfg k = map_of raw k" using other by blast
    show "\<not> p_managed s \<longrightarrow> map_of cfg ''UpstreamProxyURL'' = map_of raw ''UpstreamProxyURL''" using own by blast
  qed (rule forced raw(1) region managed | rule off, simp)+
qed

definition sample_fs :: fs where
  "sample_fs = \<lparr>is_file = (\<lambda>p. True), can_run = (\<lambda>p. True), text_of = (\<lambda>p. Some ''cfg'')\<rparr>"

definition sample_codecs :: codecs where
  "sample_codecs = \<lparr>b64_text = (\<lambda>t. None),
     loads = (\<lambda>t. Some (JObj [(''ListenInterface'', JStr ''0.0.0.0''), (''LocalHttpProxyPort'', JInt 8080), (''SponsorId'', JStr ''X'')]))\<rparr>"

definition sample_settings :: "settings" where
  "sample_settings = from_environment (\<lambda>p. p) ''d'' ''r'' (\<lambda>k.
     if k = ''PSIPHON_ENABLED'' then Some ''1'' else if k = ''PSIPHON_CONSOLE_CLIENT_PATH'' then Some ''bin''
     else if k = ''PSIPHON_CONFIG_PATH'' then Some ''conf'' else None)"

lemma runtime_config_confined_witness:
  "\<exists>cfg. prepare_runtime_config sample_fs sample_codecs sample_settings None = Inr cfg
     \<and> map_of cfg ''ListenInterface'' = Some (JStr []) \<and> map_of cfg ''LocalHttpProxyPort'' = Some (JInt 0)"
proof -
  have "ok_value (prepare_runtime_config sample_fs sample_codecs sample_settings None) \<noteq> None" by code_simp
  then obtain cfg where c: "prepare_runtime_config sample_fs sample_codecs sample_settings None = Inr cfg"
    by (cases "prepare_runtime_config sample_fs sample_codecs sample_settings None") auto
  then show ?thesis using runtime_config_confined[OF c] by blast
qed

end
