(* ===== verification/Psiphon_State.thy ===== *)
theory Psiphon_State
  imports Psiphon_Config Probe_Results
begin

text \<open>
  The operational history of the Psiphon manager (\<open>psiphon/state.py\<close>, \<open>psiphon/models.py\<close>): what is written and
  what is taken from a file that anything may have changed. \<open>shown\<close> is the text of a float.
\<close>

definition PUBLIC_STATES :: "string list" where
  "PUBLIC_STATES = [''DISABLED'', ''STOPPED'', ''STARTING'', ''CONNECTING'', ''CONNECTED'', ''HEALTHY'', ''ROTATING'',
     ''RECONNECTING'', ''DEGRADED'', ''FAILED'']"

definition bounded_float :: "(string \<Rightarrow> rat option) \<Rightarrow> json \<Rightarrow> rat" where
  "bounded_float f value = (case py_float f value of
     None \<Rightarrow> 0 | Some r \<Rightarrow> if r < 0 then 0 else min r 86400000)"

definition safe_region :: "json \<Rightarrow> string" where
  "safe_region value = (let t = strip (upper (text_or_empty value)) in
     if length t = 2 \<and> list_all is_alpha t then t else [])"

definition safe_timestamp :: "json \<Rightarrow> string" where
  "safe_timestamp value = (let t = strip (text_or_empty value) in
     if CHR ''T'' \<in> set t \<and> length t \<le> 64 then take 64 t else [])"

definition bounded_int :: "json \<Rightarrow> int \<Rightarrow> int \<Rightarrow> int" where
  "bounded_int value standard high = (case py_int value of None \<Rightarrow> standard | Some i \<Rightarrow> max 0 (min i high))"

definition round2 :: "rat \<Rightarrow> rat" where
  "round2 r = of_int (round_even (r * 100)) / 100"

definition safe_state :: "json \<Rightarrow> string" where
  "safe_state value = (let s = upper (text_or_empty value) in if s \<in> set PUBLIC_STATES then s else [])"

definition sanitize :: "(rat \<Rightarrow> string) \<Rightarrow> (string \<Rightarrow> rat option) \<Rightarrow> json \<Rightarrow> body" where
  "sanitize shown f data =
     (let raw = (case data of JObj d \<Rightarrow> d | _ \<Rightarrow> []); ms = round2 (bounded_float f (jget raw ''last_successful_setup_ms'')) in
      [(''schema_version'', JInt 1),
       (''last_successful_location'', JStr (safe_region (jget raw ''last_successful_location''))),
       (''last_successful_setup_ms'', JFloat ms (shown ms)),
       (''last_rotation_at'', JStr (safe_timestamp (jget raw ''last_rotation_at''))),
       (''rotation_count'', JInt (bounded_int (jget raw ''rotation_count'') 0 1000000)),
       (''last_proxy_retest_at'', JStr (safe_timestamp (jget raw ''last_proxy_retest_at''))),
       (''last_successful_health_check_at'', JStr (safe_timestamp (jget raw ''last_successful_health_check_at''))),
       (''last_state'', JStr (safe_state (jget raw ''last_state'')))])"

text \<open>\<open>_load_sync\<close>: an unreadable file is an empty history.\<close>

definition load_history :: "(rat \<Rightarrow> string) \<Rightarrow> (string \<Rightarrow> rat option) \<Rightarrow> (string \<Rightarrow> json option) \<Rightarrow> string option \<Rightarrow> body" where
  "load_history shown f decode file = sanitize shown f (case Option.bind file decode of None \<Rightarrow> JObj [] | Some j \<Rightarrow> j)"

definition save_history :: "(rat \<Rightarrow> string) \<Rightarrow> (string \<Rightarrow> rat option) \<Rightarrow> (json \<Rightarrow> string) \<Rightarrow> body \<Rightarrow> string" where
  "save_history shown f encode data = encode (JObj (sanitize shown f (JObj data)))"

section \<open>Cleaning twice\<close>

lemma upper_char_again: "d \<in> set (upper_char c) \<Longrightarrow> upper_char d = [d]"
  by (auto simp: upper_char_def Let_def split: if_splits)

lemma upper_fixed: "(\<And>d. d \<in> set t \<Longrightarrow> upper_char d = [d]) \<Longrightarrow> upper t = t"
  by (induction t) (auto simp: upper_def)

lemma upper_Nil [simp]: "upper [] = []"
  by (simp add: upper_def)

lemma upper_upper [simp]: "upper (upper s) = upper s"
  by (rule upper_fixed) (auto simp: upper_def dest: upper_char_again)

lemma safe_region_again [simp]: "safe_region (JStr (safe_region j)) = safe_region j"
proof -
  define t where "t = strip (upper (text_or_empty j))"
  have "set t \<subseteq> set (upper (text_or_empty j))" unfolding t_def strip_def by (rule strip_by_set)
  then have "upper t = t" by (intro upper_fixed) (auto simp: upper_def dest: upper_char_again)
  then have "strip (upper t) = t" by (simp add: t_def)
  moreover have "safe_region j = (if length t = 2 \<and> list_all is_alpha t then t else [])"
    unfolding safe_region_def t_def Let_def ..
  ultimately show ?thesis by (simp add: safe_region_def Let_def)
qed

lemma safe_timestamp_again [simp]: "safe_timestamp (JStr (safe_timestamp j)) = safe_timestamp j"
  by (auto simp: safe_timestamp_def Let_def)

lemma safe_state_again [simp]: "safe_state (JStr (safe_state j)) = safe_state j"
  by (simp add: safe_state_def Let_def)

lemma bounded_int_again [simp]: "0 \<le> h \<Longrightarrow> bounded_int (JInt (bounded_int j 0 h)) 0 h = bounded_int j 0 h"
  by (auto simp: bounded_int_def split: option.splits)

lemma round2_idem [simp]: "round2 (round2 r) = round2 r"
  by (simp add: round2_def)

lemma round2_bounds: "0 \<le> r \<Longrightarrow> r \<le> 86400000 \<Longrightarrow> 0 \<le> round2 r \<and> round2 r \<le> 86400000"
  using round_even_bounds[of 0 "r * 100" "8640000000"] by (simp add: round2_def)

lemma bounded_float_range: "0 \<le> bounded_float f j \<and> bounded_float f j \<le> 86400000"
  by (auto simp: bounded_float_def split: option.split)

lemma bounded_float_again [simp]:
  "bounded_float f (JFloat (round2 (bounded_float f j)) t) = round2 (bounded_float f j)"
  using round2_bounds[of "bounded_float f j"] bounded_float_range[of f j] by (simp add: bounded_float_def min_def)

text \<open>What may be written, and nothing else.\<close>

definition history_ok :: "body \<Rightarrow> bool" where
  "history_ok b \<longleftrightarrow> map fst b = [''schema_version'', ''last_successful_location'', ''last_successful_setup_ms'', ''last_rotation_at'',
       ''rotation_count'', ''last_proxy_retest_at'', ''last_successful_health_check_at'', ''last_state'']
     \<and> length (text_or_empty (jget b ''last_successful_location'')) \<in> {0, 2}
     \<and> (\<forall>k \<in> {''last_rotation_at'', ''last_proxy_retest_at'', ''last_successful_health_check_at''}.
          length (text_or_empty (jget b k)) \<le> 64)
     \<and> (\<exists>i. jget b ''rotation_count'' = JInt i \<and> 0 \<le> i \<and> i \<le> 1000000)
     \<and> (\<exists>r t. jget b ''last_successful_setup_ms'' = JFloat r t \<and> 0 \<le> r \<and> r \<le> 86400000)
     \<and> text_or_empty (jget b ''last_state'') \<in> set ([] # PUBLIC_STATES)"

lemma sanitize_ok: "history_ok (sanitize shown f data)"
proof -
  have "0 \<le> round2 (bounded_float f j) \<and> round2 (bounded_float f j) \<le> 86400000" for j
    using round2_bounds bounded_float_range by blast
  then show ?thesis
    by (simp add: history_ok_def sanitize_def Let_def jget_def safe_region_def safe_timestamp_def safe_state_def bounded_int_def
        split: option.split)
qed

text \<open>
  What the manager saves is what it reads again, for any decoder that inverts the encoder on this
  object; and whatever a file holds, only the eight bounded fields are taken from it.
\<close>

theorem history_round_trip:
  assumes "decode (save_history shown f encode data) = Some (JObj (sanitize shown f (JObj data)))"
  shows "load_history shown f decode (Some (save_history shown f encode data)) = sanitize shown f (JObj data)
    \<and> history_ok (load_history shown f decode file)"
proof -
  have "sanitize shown f (JObj (sanitize shown f (JObj data))) = sanitize shown f (JObj data)"
    by (simp add: sanitize_def Let_def jget_def)
  then show ?thesis using assms sanitize_ok by (simp add: load_history_def)
qed

lemma history_round_trip_witness:
  "load_history (\<lambda>r. ''1.5'') (\<lambda>t. None) (\<lambda>t. Some (JObj (sanitize (\<lambda>r. ''1.5'') (\<lambda>t. None) (JObj [(''rotation_count'', JInt (-3))]))))
      (Some (save_history (\<lambda>r. ''1.5'') (\<lambda>t. None) (\<lambda>j. ''x'') [(''rotation_count'', JInt (-3))]))
    = sanitize (\<lambda>r. ''1.5'') (\<lambda>t. None) (JObj [(''rotation_count'', JInt (-3))])"
  by (rule history_round_trip[THEN conjunct1]) simp

end
