(* ===== verification/Psiphon_Manager.thy ===== *)
theory Psiphon_Manager
  imports Psiphon_State
begin

text \<open>
  The supervisor of the Psiphon Core (\<open>psiphon/manager.py\<close>): one process, one loopback SOCKS port, the
  leases of the sessions that use it. The phase of the record is where the supervisor task stands; an
  operation is what it does up to its next await. What the process, the probes and the clock do is
  an argument of the operation.
\<close>

section \<open>State\<close>

datatype pstate =
    DISABLED | STOPPED | STARTING | CONNECTING | CONNECTED | HEALTHY | ROTATING | RECONNECTING | DEGRADED | FAILED

datatype phase = Offline | Launch | Awaiting | Probing | Active | Backoff int | Given_Up

text \<open>A process is absent, running (\<open>Some None\<close>) or has an exit code.\<close>

record manager =
  g_settings :: "settings"
  g_state :: pstate
  g_error :: string
  g_process :: "int option option"
  g_port :: "int option"
  g_tunnels :: int
  g_ready :: bool
  g_notice :: string
  g_stable :: bool
  g_generation :: nat
  g_accepting :: bool
  g_leases :: "string list"
  g_active :: nat
  g_location :: string
  g_exit_ip :: string
  g_exit_country :: string
  g_exit_region :: string
  g_exit_code :: "int option"
  g_probe :: string
  g_session :: string
  g_restarts :: int
  g_rotations :: int
  g_phase :: phase
  g_tries :: int
  g_rotate :: bool
  g_retest :: bool

definition new_manager :: "settings \<Rightarrow> manager" where
  "new_manager s = \<lparr>g_settings = s, g_state = DISABLED, g_error = [], g_process = None, g_port = None, g_tunnels = 0,
     g_ready = False, g_notice = [], g_stable = False, g_generation = 0, g_accepting = False, g_leases = [], g_active = 0,
     g_location = [], g_exit_ip = [], g_exit_country = [], g_exit_region = [], g_exit_code = None, g_probe = ''UNKNOWN'', g_session = [], g_restarts = 0,
     g_rotations = 0, g_phase = Offline, g_tries = 0, g_rotate = False, g_retest = True\<rparr>"

definition set_state :: "pstate \<Rightarrow> string \<Rightarrow> manager \<Rightarrow> manager" where
  "set_state st reason m = m\<lparr>g_state := st, g_error := (if reason \<in> set SAFE_FAILURES then reason else [])\<rparr>"

definition fail :: "string \<Rightarrow> manager \<Rightarrow> manager" where
  "fail reason m = set_state FAILED reason m"

section \<open>Leases\<close>

definition vless_transport_available :: "manager \<Rightarrow> bool" where
  "vless_transport_available m \<longleftrightarrow> g_accepting m \<and> g_state m = HEALTHY \<and> g_port m \<noteq> None"

record lease =
  le_id :: string
  le_generation :: nat
  le_host :: string
  le_port :: int

definition acquire :: "string \<Rightarrow> manager \<Rightarrow> lease option \<times> manager" where
  "acquire lid m =
     (if \<not> vless_transport_available m then (None, m)
      else (let ls = List.insert lid (g_leases m) in
        (Some \<lparr>le_id = lid, le_generation = g_generation m, le_host = ''127.0.0.1'',
               le_port = (case g_port m of None \<Rightarrow> 0 | Some p \<Rightarrow> p)\<rparr>,
         m\<lparr>g_leases := ls, g_active := length ls\<rparr>)))"

definition release :: "lease option \<Rightarrow> manager \<Rightarrow> manager" where
  "release l m = (case l of
     None \<Rightarrow> m
   | Some x \<Rightarrow> (let ls = removeAll (le_id x) (g_leases m) in m\<lparr>g_leases := ls, g_active := length ls\<rparr>))"

section \<open>Notices\<close>

definition mark_ready :: "manager \<Rightarrow> manager" where
  "mark_ready m = (if g_port m \<noteq> None \<and> 0 < g_tunnels m then m\<lparr>g_ready := True\<rparr> else m)"

definition handle_notice :: "json option \<Rightarrow> manager \<Rightarrow> manager" where
  "handle_notice line m = (case line of
     Some (JObj notice) \<Rightarrow>
       (let kind = text_or_empty (jget notice ''noticeType'');
            data = (case jget notice ''data'' of JObj d \<Rightarrow> d | _ \<Rightarrow> []) in
        if kind = ''ListeningSocksProxyPort'' then
          (case py_int (jget data ''port'') of
             None \<Rightarrow> m
           | Some p \<Rightarrow> mark_ready (if 1 \<le> p \<and> p \<le> 65535 then m\<lparr>g_port := Some p\<rparr> else m))
        else if kind = ''Tunnels'' then
          (case py_int (jget data ''count'') of None \<Rightarrow> m | Some n \<Rightarrow> mark_ready (m\<lparr>g_tunnels := max 0 n\<rparr>))
        else if kind = ''ConnectedServerRegion'' then mark_ready (m\<lparr>g_location := safe_region (jget data ''serverRegion'')\<rparr>)
        else if kind = ''Error'' then mark_ready (m\<lparr>g_notice := ''core_notice_error''\<rparr>)
        else mark_ready m)
   | _ \<Rightarrow> m)"

definition notice_too_large :: "manager \<Rightarrow> manager" where
  "notice_too_large m = m\<lparr>g_notice := ''core_notice_too_large'', g_ready := True\<rparr>"

section \<open>Ending a process\<close>

text \<open>\<open>code\<close> is the exit code of a process that has to be terminated, \<open>None\<close> when it never reports one.\<close>

definition stop_active :: "int option \<Rightarrow> manager \<Rightarrow> manager" where
  "stop_active code m = m\<lparr>g_accepting := False, g_process := None,
     g_exit_code := (case g_process m of
        None \<Rightarrow> g_exit_code m
      | Some (Some c) \<Rightarrow> Some c
      | Some None \<Rightarrow> (case code of None \<Rightarrow> g_exit_code m | Some c \<Rightarrow> Some c)),
     g_port := None, g_tunnels := 0, g_ready := False, g_session := [], g_exit_ip := [],
     g_exit_country := [], g_exit_region := [], g_probe := ''UNKNOWN''\<rparr>"

definition backoff :: "manager \<Rightarrow> int" where
  "backoff m = min 60 (p_backoff (g_settings m) * 2 ^ nat (g_tries m - 1))"

section \<open>Starting a session\<close>

definition reset_session :: "manager \<Rightarrow> manager" where
  "reset_session m = (set_state (if g_rotate m then ROTATING else STARTING) [] m)\<lparr>g_notice := [], g_ready := False, g_port := None,
     g_tunnels := 0, g_stable := False, g_accepting := False\<rparr>"

definition start_failed :: "manager \<Rightarrow> manager" where
  "start_failed m =
     (let n = m\<lparr>g_tries := g_tries m + 1, g_restarts := g_tries m + 1, g_retest := False\<rparr> in
      if p_attempts (g_settings n) \<le> g_tries n
      then (fail (if g_error n = [] then ''core_spawn_failed'' else g_error n) n)\<lparr>g_phase := Given_Up\<rparr>
      else (set_state RECONNECTING (g_error n) n)\<lparr>g_phase := Backoff (backoff n)\<rparr>)"

record launching =
  la_retest :: bool
  la_upstream :: "string option"
  la_spawned :: bool
  la_session :: string
  la_code :: "int option"

definition launch :: "fs \<Rightarrow> codecs \<Rightarrow> launching \<Rightarrow> manager \<Rightarrow> manager" where
  "launch f c x m0 =
     (let m = reset_session m0; s = g_settings m in
      if g_retest m \<and> p_managed s \<and> \<not> la_retest x then start_failed (fail ''proxy_retest_failed'' m)
      else if p_managed s \<and> la_upstream x = None then start_failed (fail ''managed_upstream_unavailable'' m)
      else (case prepare_runtime_config f c s (if p_managed s then la_upstream x else None) of
          Inl e \<Rightarrow> start_failed (stop_active (la_code x) (fail e m))
        | Inr cfg \<Rightarrow>
            if \<not> la_spawned x then start_failed (stop_active (la_code x) (fail ''core_spawn_failed'' m))
            else (set_state CONNECTING [] (m\<lparr>g_process := Some None, g_session := la_session x\<rparr>))\<lparr>g_phase := Awaiting\<rparr>))"

text \<open>\<open>_wait_for_ready\<close>: the ready event, the exit of the process, or neither in time.\<close>

definition awaited :: "bool \<Rightarrow> int option \<Rightarrow> manager \<Rightarrow> manager" where
  "awaited ready exited m =
     (if ready \<and> g_ready m \<and> g_notice m = [] then (set_state CONNECTED [] m)\<lparr>g_phase := Probing\<rparr>
      else (let n = (case exited of
               None \<Rightarrow> m
             | Some c \<Rightarrow> m\<lparr>g_process := Some (Some c), g_exit_code := Some c,
                 g_notice := (if g_notice m = [] then ''core_exited'' else g_notice m)\<rparr>) in
        start_failed (stop_active exited (fail (if g_notice n = [] then ''tunnel_ready_timeout'' else g_notice n) n))))"

record tunnel_health =
  th_ok :: bool
  th_latency :: rat
  th_ip :: string
  th_country :: string
  th_region :: string
  th_reason :: string

definition health_checked :: "tunnel_health \<Rightarrow> manager \<Rightarrow> tunnel_health \<times> manager" where
  "health_checked h m =
     (if g_port m = None then (\<lparr>th_ok = False, th_latency = 0, th_ip = [], th_country = [], th_region = [], th_reason = ''tunnel_ready_timeout''\<rparr>, m)
      else (h, m\<lparr>g_probe := (if th_ok h then ''PASS'' else ''FAIL'')\<rparr>))"

definition failure_of :: "tunnel_health \<Rightarrow> string" where
  "failure_of h = (if th_reason h = [] then ''https_probe_failed'' else th_reason h)"

text \<open>The first probe; a success ends the start and, after a rotation, counts it.\<close>

definition probed :: "int option \<Rightarrow> tunnel_health \<Rightarrow> manager \<Rightarrow> manager" where
  "probed code h0 m0 = (case health_checked h0 m0 of (h, m) \<Rightarrow>
     if \<not> th_ok h then start_failed (stop_active code (fail (failure_of h) m))
     else (let n = (set_state HEALTHY (th_reason h) m)\<lparr>g_exit_ip := th_ip h, g_exit_country := th_country h,
               g_exit_region := th_region h, g_generation := g_generation m + 1,
               g_accepting := True, g_phase := Active, g_retest := False\<rparr> in
       if g_rotate n then n\<lparr>g_tries := 0, g_restarts := 0, g_rotations := g_rotations n + 1, g_rotate := False\<rparr>
       else n))"

section \<open>Watching a session\<close>

definition session_over :: "int option \<Rightarrow> string \<Rightarrow> manager \<Rightarrow> manager" where
  "session_over code reason m =
     (let expired = (reason = ''expired''); n = m\<lparr>g_rotate := expired, g_retest := expired\<rparr> in
      if expired then (stop_active code (set_state ROTATING [] n))\<lparr>g_phase := Launch\<rparr>
      else (let t = (if g_stable n then 0 else g_tries n) + 1; k = n\<lparr>g_tries := t, g_restarts := t\<rparr> in
        if p_attempts (g_settings k) \<le> t then (fail reason (stop_active code k))\<lparr>g_phase := Given_Up\<rparr>
        else (stop_active code (set_state RECONNECTING reason k))\<lparr>g_phase := Backoff (backoff k)\<rparr>))"

definition monitor_reason :: "bool \<Rightarrow> manager \<Rightarrow> string option" where
  "monitor_reason expired m = (case g_process m of
     None \<Rightarrow> Some ''core_exited''
   | Some (Some c) \<Rightarrow> Some ''core_exited''
   | Some None \<Rightarrow>
      if g_notice m \<noteq> [] then Some (g_notice m)
      else if g_tunnels m \<le> 0 then Some ''tunnel_lost''
      else if expired then Some ''expired''
      else None)"

definition look :: "int option \<Rightarrow> bool \<Rightarrow> manager \<Rightarrow> manager" where
  "look code expired m = (case monitor_reason expired m of None \<Rightarrow> m | Some r \<Rightarrow> session_over code r m)"

definition rechecked :: "int option \<Rightarrow> tunnel_health \<Rightarrow> manager \<Rightarrow> manager" where
  "rechecked code h0 m0 = (case health_checked h0 m0 of (h, m) \<Rightarrow>
     if \<not> th_ok h then session_over code (failure_of h) m
     else m\<lparr>g_exit_ip := (if th_ip h = [] then g_exit_ip m else th_ip h),
            g_exit_country := (if th_country h = [] then g_exit_country m else th_country h),
            g_exit_region := (if th_region h = [] then g_exit_region m else th_region h),
            g_error := (if th_reason h \<in> set SAFE_FAILURES then th_reason h else []), g_stable := True\<rparr>)"

section \<open>Starting and stopping the supervisor\<close>

definition supervised :: "manager \<Rightarrow> bool" where
  "supervised m \<longleftrightarrow> g_phase m \<noteq> Offline \<and> g_phase m \<noteq> Given_Up"

definition start_manager :: "fs \<Rightarrow> string \<Rightarrow> int \<Rightarrow> manager \<Rightarrow> manager" where
  "start_manager f location rotations m =
     (if \<not> p_enabled (g_settings m) then set_state DISABLED [] m
      else if supervised m then m
      else (case validate_startup f (g_settings m) of
          Inl e \<Rightarrow> fail e m
        | Inr u \<Rightarrow> m\<lparr>g_location := location, g_rotations := rotations, g_phase := Launch, g_tries := 0, g_rotate := False, g_retest := True\<rparr>))"

definition stop_manager :: "int option \<Rightarrow> manager \<Rightarrow> manager" where
  "stop_manager code m0 =
     (let m = (stop_active code m0)\<lparr>g_phase := Offline\<rparr> in
      if p_enabled (g_settings m) then set_state STOPPED ''shutdown'' m else set_state DISABLED [] m)"

definition public_state :: "manager \<Rightarrow> string" where
  "public_state m =
     (if \<not> p_enabled (g_settings m) then ''DISABLED''
      else if g_error m \<in> {''core_binary_missing'', ''core_binary_not_executable'', ''core_config_missing'', ''core_config_invalid''}
        then ''UNAVAILABLE''
      else if vless_transport_available m then ''ACTIVE''
      else if g_state m = STOPPED then ''STOPPED''
      else if g_state m = FAILED then ''FAILED''
      else ''STARTING'')"

section \<open>Runs\<close>

datatype event =
    Start string int
  | Stop "int option"
  | Launching launching
  | Ready bool "int option"
  | Probe "int option" tunnel_health
  | Look "int option" bool
  | Recheck "int option" tunnel_health
  | Wake
  | Notice "json option"
  | Notice_Too_Large
  | Exited int
  | Acquire string
  | Release lease

fun enabled_event :: "event \<Rightarrow> manager \<Rightarrow> bool" where
  "enabled_event (Launching x) m = (g_phase m = Launch)"
| "enabled_event (Ready r e) m = (g_phase m = Awaiting)"
| "enabled_event (Probe c h) m = (g_phase m = Probing)"
| "enabled_event (Look c x) m = (g_phase m = Active)"
| "enabled_event (Recheck c h) m = (g_phase m = Active)"
| "enabled_event Wake m = (case g_phase m of Backoff d \<Rightarrow> True | _ \<Rightarrow> False)"
| "enabled_event (Notice l) m = (g_process m \<noteq> None)"
| "enabled_event Notice_Too_Large m = (g_process m \<noteq> None)"
| "enabled_event (Exited c) m = (g_process m = Some None)"
| "enabled_event e m = True"

fun perform :: "fs \<Rightarrow> codecs \<Rightarrow> event \<Rightarrow> manager \<Rightarrow> manager" where
  "perform f c (Start loc n) m = start_manager f loc n m"
| "perform f c (Stop code) m = stop_manager code m"
| "perform f c (Launching x) m = launch f c x m"
| "perform f c (Ready r e) m = awaited r e m"
| "perform f c (Probe code h) m = probed code h m"
| "perform f c (Look code x) m = look code x m"
| "perform f c (Recheck code h) m = rechecked code h m"
| "perform f c Wake m = m\<lparr>g_phase := Launch\<rparr>"
| "perform f c (Notice l) m = handle_notice l m"
| "perform f c Notice_Too_Large m = notice_too_large m"
| "perform f c (Exited code) m = m\<lparr>g_process := Some (Some code)\<rparr>"
| "perform f c (Acquire lid) m = snd (acquire lid m)"
| "perform f c (Release l) m = release (Some l) m"

inductive manager_step :: "fs \<Rightarrow> codecs \<Rightarrow> manager \<Rightarrow> event \<Rightarrow> manager \<Rightarrow> bool" for f c where
  step: "enabled_event e m \<Longrightarrow> manager_step f c m e (perform f c e m)"

inductive_cases manager_stepE: "manager_step f c m e n"

section \<open>Invariant\<close>

definition error_ok :: "manager \<Rightarrow> bool" where
  "error_ok m \<longleftrightarrow> g_error m = [] \<or> g_error m \<in> set SAFE_FAILURES"

definition leases_ok :: "manager \<Rightarrow> bool" where
  "leases_ok m \<longleftrightarrow> distinct (g_leases m) \<and> g_active m = length (g_leases m)"

definition port_ok :: "manager \<Rightarrow> bool" where
  "port_ok m \<longleftrightarrow> (\<forall>p. g_port m = Some p \<longrightarrow> 1 \<le> p \<and> p \<le> 65535)"

definition live_ok :: "manager \<Rightarrow> bool" where
  "live_ok m \<longleftrightarrow> (g_accepting m \<longleftrightarrow> g_phase m = Active) \<and> (g_state m = HEALTHY \<longleftrightarrow> g_phase m = Active)
     \<and> (g_phase m = Active \<longrightarrow> g_process m \<noteq> None \<and> g_port m \<noteq> None)
     \<and> (g_phase m \<in> {Awaiting, Probing} \<longrightarrow> g_process m \<noteq> None)"

definition tries_ok :: "manager \<Rightarrow> bool" where
  "tries_ok m \<longleftrightarrow> 0 \<le> g_tries m \<and> (supervised m \<longrightarrow> g_tries m < p_attempts (g_settings m))
     \<and> (\<forall>d. g_phase m = Backoff d \<longrightarrow> 1 \<le> d \<and> d \<le> 60)"

definition manager_inv :: "manager \<Rightarrow> bool" where
  "manager_inv m \<longleftrightarrow> settings_ok (g_settings m) \<and> error_ok m \<and> leases_ok m \<and> port_ok m \<and> live_ok m \<and> tries_ok m"

lemmas inv_defs = manager_inv_def error_ok_def leases_ok_def port_ok_def live_ok_def tries_ok_def supervised_def

lemma backoff_range: "settings_ok (g_settings m) \<Longrightarrow> 1 \<le> backoff m \<and> backoff m \<le> 60"
proof -
  assume "settings_ok (g_settings m)"
  then have b: "1 \<le> p_backoff (g_settings m)" by (simp add: settings_ok_def)
  have "(1::int) \<le> 2 ^ nat (g_tries m - 1)" by simp
  then have "1 * 1 \<le> p_backoff (g_settings m) * 2 ^ nat (g_tries m - 1)" using b by (intro mult_mono) auto
  then show ?thesis by (simp add: backoff_def)
qed

lemma safe_named [simp]: "''core_spawn_failed'' \<in> set SAFE_FAILURES" "''core_exited'' \<in> set SAFE_FAILURES"
  "''tunnel_lost'' \<in> set SAFE_FAILURES" "''shutdown'' \<in> set SAFE_FAILURES" "''proxy_retest_failed'' \<in> set SAFE_FAILURES"
  by (simp_all add: SAFE_FAILURES_def)

lemma set_state_fields [simp]:
  "g_settings (set_state st r m) = g_settings m" "g_process (set_state st r m) = g_process m" "g_port (set_state st r m) = g_port m"
  "g_leases (set_state st r m) = g_leases m" "g_active (set_state st r m) = g_active m" "g_accepting (set_state st r m) = g_accepting m"
  "g_tries (set_state st r m) = g_tries m" "g_phase (set_state st r m) = g_phase m" "g_state (set_state st r m) = st"
  "g_error (set_state st r m) = (if r \<in> set SAFE_FAILURES then r else [])" "g_rotate (set_state st r m) = g_rotate m"
  "g_retest (set_state st r m) = g_retest m" "g_rotations (set_state st r m) = g_rotations m" "g_stable (set_state st r m) = g_stable m"
  by (simp_all add: set_state_def)

lemma fail_fields [simp]:
  "g_settings (fail r m) = g_settings m" "g_process (fail r m) = g_process m" "g_port (fail r m) = g_port m"
  "g_leases (fail r m) = g_leases m" "g_active (fail r m) = g_active m" "g_accepting (fail r m) = g_accepting m"
  "g_tries (fail r m) = g_tries m" "g_phase (fail r m) = g_phase m" "g_state (fail r m) = FAILED"
  "g_error (fail r m) = (if r \<in> set SAFE_FAILURES then r else [])" "g_rotate (fail r m) = g_rotate m" "g_retest (fail r m) = g_retest m"
  by (simp_all add: fail_def)

lemma stop_fields [simp]:
  "g_settings (stop_active code m) = g_settings m" "g_process (stop_active code m) = None" "g_port (stop_active code m) = None"
  "g_leases (stop_active code m) = g_leases m" "g_active (stop_active code m) = g_active m" "\<not> g_accepting (stop_active code m)"
  "g_tries (stop_active code m) = g_tries m" "g_phase (stop_active code m) = g_phase m" "g_state (stop_active code m) = g_state m"
  "g_error (stop_active code m) = g_error m" "g_rotate (stop_active code m) = g_rotate m" "g_retest (stop_active code m) = g_retest m"
  by (simp_all add: stop_active_def)

text \<open>What ending a start or a session needs of the state before, however far it had come.\<close>

definition core_ok :: "manager \<Rightarrow> bool" where
  "core_ok m \<longleftrightarrow> settings_ok (g_settings m) \<and> leases_ok m \<and> port_ok m \<and> 0 \<le> g_tries m \<and> \<not> g_accepting m"

lemma start_failed_inv:
  assumes "core_ok m" "error_ok m"
  shows "manager_inv (start_failed m)"
proof -
  define n where "n = m\<lparr>g_tries := g_tries m + 1, g_restarts := g_tries m + 1, g_retest := False\<rparr>"
  have n: "core_ok n" "error_ok n" using assms by (simp_all add: n_def core_ok_def inv_defs)
  have b: "1 \<le> backoff n \<and> backoff n \<le> 60" using n(1) by (intro backoff_range) (simp add: core_ok_def)
  show ?thesis
  proof (cases "p_attempts (g_settings n) \<le> g_tries n")
    case True
    then have e: "start_failed m = (fail (if g_error n = [] then ''core_spawn_failed'' else g_error n) n)\<lparr>g_phase := Given_Up\<rparr>"
      by (simp add: start_failed_def Let_def n_def)
    show ?thesis using n unfolding e by (simp add: inv_defs core_ok_def)
  next
    case False
    then have e: "start_failed m = (set_state RECONNECTING (g_error n) n)\<lparr>g_phase := Backoff (backoff n)\<rparr>"
      by (simp add: start_failed_def Let_def n_def)
    show ?thesis using n b False unfolding e by (simp add: inv_defs core_ok_def)
  qed
qed

lemma core_fail [simp]: "core_ok (fail r m) = core_ok m" "error_ok (fail r m)"
  by (simp_all add: core_ok_def inv_defs)

lemma core_stop: "settings_ok (g_settings m) \<Longrightarrow> leases_ok m \<Longrightarrow> 0 \<le> g_tries m \<Longrightarrow> core_ok (stop_active code m)"
  by (simp add: core_ok_def inv_defs)

lemma error_stop [simp]: "error_ok (stop_active code m) = error_ok m"
  by (simp add: inv_defs)

lemma core_stop_fail: "settings_ok (g_settings m) \<Longrightarrow> leases_ok m \<Longrightarrow> 0 \<le> g_tries m \<Longrightarrow> core_ok (stop_active code (fail r m))"
  by (intro core_stop) (simp_all add: leases_ok_def)

lemma reset_fields: "g_settings (reset_session m) = g_settings m" "g_phase (reset_session m) = g_phase m"
  "g_tries (reset_session m) = g_tries m" "g_state (reset_session m) \<noteq> HEALTHY" "\<not> g_accepting (reset_session m)"
  "g_port (reset_session m) = None" "g_leases (reset_session m) = g_leases m" "g_active (reset_session m) = g_active m"
  "g_retest (reset_session m) = g_retest m"
  by (simp_all add: reset_session_def)

lemma core_reset: "manager_inv m \<Longrightarrow> core_ok (reset_session m)"
proof -
  assume "manager_inv m"
  then have "settings_ok (g_settings m)" "leases_ok m" "0 \<le> g_tries m" by (simp_all add: manager_inv_def tries_ok_def)
  then show ?thesis by (simp add: core_ok_def reset_fields leases_ok_def port_ok_def)
qed

lemma launch_inv:
  assumes "manager_inv m" "g_phase m = Launch"
  shows "manager_inv (launch f c x m)"
proof -
  define r where "r = reset_session m"
  have r: "core_ok r" "g_phase r = Launch" "g_tries r < p_attempts (g_settings r)" "g_state r \<noteq> HEALTHY"
    using core_reset[OF assms(1)] assms by (auto simp: r_def reset_fields manager_inv_def tries_ok_def supervised_def)
  have stop: "manager_inv (start_failed (stop_active code (fail e r)))" for code e
    using r(1) by (intro start_failed_inv core_stop_fail) (simp_all add: core_ok_def)
  have early: "manager_inv (start_failed (fail e r))" for e using r(1) by (intro start_failed_inv) simp_all
  have go: "manager_inv ((set_state CONNECTING [] (r\<lparr>g_process := Some None, g_session := la_session x\<rparr>))\<lparr>g_phase := Awaiting\<rparr>)"
    using r by (simp add: core_ok_def inv_defs)
  show ?thesis using stop early go
    unfolding launch_def Let_def r_def[symmetric] by (auto split: sum.split)
qed

lemma awaited_inv:
  assumes "manager_inv m" "g_phase m = Awaiting"
  shows "manager_inv (awaited ready exited m)"
proof (cases "ready \<and> g_ready m \<and> g_notice m = []")
  case True
  then show ?thesis using assms by (simp add: awaited_def) (auto simp: inv_defs)
next
  case False
  define n where "n = (case exited of None \<Rightarrow> m
      | Some c \<Rightarrow> m\<lparr>g_process := Some (Some c), g_exit_code := Some c,
          g_notice := (if g_notice m = [] then ''core_exited'' else g_notice m)\<rparr>)"
  have "settings_ok (g_settings n)" "leases_ok n" "0 \<le> g_tries n"
    using assms by (auto simp: n_def manager_inv_def leases_ok_def tries_ok_def split: option.split)
  then have "manager_inv (start_failed (stop_active exited (fail e n)))" for e
    by (intro start_failed_inv core_stop_fail) simp_all
  moreover have "awaited ready exited m
      = start_failed (stop_active exited (fail (if g_notice n = [] then ''tunnel_ready_timeout'' else g_notice n) n))"
    using False by (simp only: awaited_def n_def[symmetric] Let_def if_False)
  ultimately show ?thesis by simp
qed

lemma checked_same:
  assumes "health_checked h0 m0 = (h, m)"
  shows "settings_ok (g_settings m) = settings_ok (g_settings m0)" "leases_ok m = leases_ok m0" "g_tries m = g_tries m0"
    "g_settings m = g_settings m0" "g_port m = g_port m0" "g_process m = g_process m0" "g_phase m = g_phase m0"
    "g_state m = g_state m0" "g_accepting m = g_accepting m0" "g_error m = g_error m0" "th_ok h \<Longrightarrow> g_port m0 \<noteq> None"
  using assms by (auto simp: health_checked_def leases_ok_def split: if_splits)

lemma probed_inv:
  assumes "manager_inv m" "g_phase m = Probing"
  shows "manager_inv (probed code h0 m)"
proof -
  obtain h k where hk: "health_checked h0 m = (h, k)" by force
  note same = checked_same[OF hk]
  have k: "settings_ok (g_settings k)" "leases_ok k" "0 \<le> g_tries k"
    using assms by (auto simp: same manager_inv_def tries_ok_def)
  show ?thesis
  proof (cases "th_ok h")
    case False
    have "manager_inv (start_failed (stop_active code (fail (failure_of h) k)))"
      using k by (intro start_failed_inv core_stop_fail) simp_all
    then show ?thesis using hk False by (simp add: probed_def)
  next
    case True
    have a: "1 \<le> p_attempts (g_settings k)" using k(1) by (simp add: settings_ok_def)
    show ?thesis using True assms hk same k a
      by (simp add: probed_def Let_def) (auto simp: inv_defs)
  qed
qed

lemma session_over_inv:
  assumes "settings_ok (g_settings m)" "leases_ok m" "0 \<le> g_tries m" "g_tries m < p_attempts (g_settings m)"
  shows "manager_inv (session_over code r m)"
proof -
  have b: "1 \<le> backoff k \<and> backoff k \<le> 60" if "g_settings k = g_settings m" for k
    using backoff_range[of k] that assms(1) by simp
  have "1 \<le> p_attempts (g_settings m)" using assms(1) by (simp add: settings_ok_def)
  then show ?thesis using assms b
    by (simp add: session_over_def Let_def inv_defs)
qed

lemma look_inv:
  assumes "manager_inv m" "g_phase m = Active"
  shows "manager_inv (look code x m)"
proof -
  have "manager_inv (session_over code r m)" for r
    using assms by (intro session_over_inv) (simp_all add: manager_inv_def tries_ok_def supervised_def)
  then show ?thesis using assms by (simp add: look_def split: option.split)
qed

lemma rechecked_inv:
  assumes "manager_inv m" "g_phase m = Active"
  shows "manager_inv (rechecked code h0 m)"
proof -
  obtain h k where hk: "health_checked h0 m = (h, k)" by force
  note same = checked_same[OF hk]
  have "manager_inv (session_over code e k)" for e
    using assms by (intro session_over_inv) (auto simp: same manager_inv_def tries_ok_def supervised_def)
  moreover have "manager_inv (k\<lparr>g_exit_ip := i, g_exit_country := co, g_exit_region := re, g_error := (if r \<in> set SAFE_FAILURES then r else []), g_stable := True\<rparr>)" for i co re r
    using assms same by (simp add: inv_defs)
  ultimately show ?thesis using hk by (simp add: rechecked_def)
qed

lemma mark_ready_inv [simp]: "manager_inv (mark_ready m) = manager_inv m"
  by (simp add: mark_ready_def inv_defs)

lemma same_inv [simp]: "manager_inv (m\<lparr>g_tunnels := n\<rparr>) = manager_inv m" "manager_inv (m\<lparr>g_location := t\<rparr>) = manager_inv m"
  "manager_inv (m\<lparr>g_notice := t\<rparr>) = manager_inv m" "manager_inv (m\<lparr>g_notice := t, g_ready := b\<rparr>) = manager_inv m"
  by (simp_all add: inv_defs)

lemma new_port_inv:
  assumes "manager_inv m" "1 \<le> p" "p \<le> 65535"
  shows "manager_inv (m\<lparr>g_port := Some p\<rparr>)"
proof -
  have "live_ok m \<Longrightarrow> live_ok (m\<lparr>g_port := Some p\<rparr>)" unfolding live_ok_def by simp
  moreover have "error_ok (m\<lparr>g_port := Some p\<rparr>) = error_ok m" "leases_ok (m\<lparr>g_port := Some p\<rparr>) = leases_ok m"
    "tries_ok (m\<lparr>g_port := Some p\<rparr>) = tries_ok m" "port_ok (m\<lparr>g_port := Some p\<rparr>)"
    using assms(2,3) by (simp_all add: error_ok_def leases_ok_def tries_ok_def supervised_def port_ok_def)
  ultimately show ?thesis using assms(1) by (simp add: manager_inv_def)
qed

lemma inv_if: "manager_inv a \<Longrightarrow> manager_inv b \<Longrightarrow> manager_inv (if c then a else b)"
  by simp

lemma port_inv: "manager_inv m \<Longrightarrow> manager_inv (case i of None \<Rightarrow> m
    | Some p \<Rightarrow> mark_ready (if 1 \<le> p \<and> p \<le> 65535 then m\<lparr>g_port := Some p\<rparr> else m))"
  by (cases i) (simp_all add: new_port_inv)

lemma count_inv: "manager_inv m \<Longrightarrow> manager_inv (case i of None \<Rightarrow> m | Some n \<Rightarrow> mark_ready (m\<lparr>g_tunnels := max 0 n\<rparr>))"
  by (cases i) (simp_all add: new_port_inv)

lemma notice_inv:
  assumes "manager_inv m"
  shows "manager_inv (handle_notice l m)"
proof (cases "\<exists>n. l = Some (JObj n)")
  case True
  then obtain n where "l = Some (JObj n)" by blast
  then show ?thesis unfolding handle_notice_def Let_def
    by (simp only: option.case json.case) (intro inv_if port_inv count_inv, simp_all add: assms)
next
  case False
  then show ?thesis using assms by (cases l) (auto simp: handle_notice_def split: json.split)
qed

lemma idle_inv:
  assumes "manager_inv m" "\<not> g_accepting m"
    and "g_settings k = g_settings m" "g_leases k = g_leases m" "g_active k = g_active m" "g_port k \<in> {None, g_port m}"
    and "\<not> g_accepting k" "g_state k \<noteq> HEALTHY" "g_phase k \<in> {Launch, Offline, Given_Up}" "g_tries k \<in> {0, g_tries m}"
    and "error_ok k" "g_phase k = Launch \<Longrightarrow> g_tries k < p_attempts (g_settings m)"
  shows "manager_inv k"
proof -
  have "settings_ok (g_settings k)" "leases_ok k" using assms(1,3-5) by (simp_all add: manager_inv_def leases_ok_def)
  moreover have "port_ok k" using assms(1,6) by (auto simp: manager_inv_def port_ok_def)
  moreover have "live_ok k" using assms(7-9) by (auto simp: live_ok_def)
  moreover have "0 \<le> g_tries m" using assms(1) by (simp add: manager_inv_def tries_ok_def)
  then have "tries_ok k" using assms(3,9,10,12) by (auto simp: tries_ok_def supervised_def)
  ultimately show ?thesis using assms(11) by (simp add: manager_inv_def)
qed

lemma start_inv:
  assumes "manager_inv m" "p_enabled (g_settings m)"
  shows "manager_inv (start_manager f loc n m)"
proof (cases "supervised m")
  case True
  then show ?thesis using assms by (simp add: start_manager_def)
next
  case False
  have idle: "\<not> g_accepting m" "g_state m \<noteq> HEALTHY" "g_phase m \<in> {Launch, Offline, Given_Up}" "g_phase m \<noteq> Launch"
    using assms(1) False by (auto simp: manager_inv_def live_ok_def supervised_def)
  have a: "1 \<le> p_attempts (g_settings m)" using assms(1) by (simp add: manager_inv_def settings_ok_def)
  have "manager_inv (fail e m)" for e by (rule idle_inv[OF assms(1) idle(1)]) (use idle in \<open>simp_all\<close>)
  moreover have "manager_inv (m\<lparr>g_location := loc, g_rotations := n, g_phase := Launch, g_tries := 0, g_rotate := False, g_retest := True\<rparr>)"
    by (rule idle_inv[OF assms(1) idle(1)]) (use idle a assms(1) in \<open>simp_all add: manager_inv_def error_ok_def\<close>)
  ultimately show ?thesis using False assms(2) by (simp add: start_manager_def split: sum.split)
qed

lemma stop_inv:
  assumes "manager_inv m"
  shows "manager_inv (stop_manager code m)"
proof -
  have "manager_inv (set_state st r ((stop_active code m)\<lparr>g_phase := Offline\<rparr>))" if "st \<noteq> HEALTHY" for st r
  proof -
    have "settings_ok (g_settings m)" "leases_ok m" "0 \<le> g_tries m" using assms by (simp_all add: manager_inv_def tries_ok_def)
    then show ?thesis using that
      by (simp add: manager_inv_def error_ok_def leases_ok_def port_ok_def live_ok_def tries_ok_def supervised_def)
  qed
  then show ?thesis by (simp add: stop_manager_def Let_def)
qed

lemma lease_inv:
  assumes "manager_inv m" "distinct ls"
  shows "manager_inv (m\<lparr>g_leases := ls, g_active := length ls\<rparr>)"
proof -
  have "error_ok (m\<lparr>g_leases := ls, g_active := length ls\<rparr>) = error_ok m" "port_ok (m\<lparr>g_leases := ls, g_active := length ls\<rparr>) = port_ok m"
    "live_ok (m\<lparr>g_leases := ls, g_active := length ls\<rparr>) = live_ok m" "tries_ok (m\<lparr>g_leases := ls, g_active := length ls\<rparr>) = tries_ok m"
    by (simp_all add: error_ok_def port_ok_def live_ok_def tries_ok_def supervised_def)
  then show ?thesis using assms by (simp add: manager_inv_def leases_ok_def)
qed

lemma acquire_inv: "manager_inv m \<Longrightarrow> manager_inv (snd (acquire lid m))"
proof -
  assume m: "manager_inv m"
  then have "distinct (List.insert lid (g_leases m))" by (simp add: manager_inv_def leases_ok_def)
  from lease_inv[OF m this] m show ?thesis by (simp add: acquire_def Let_def)
qed

lemma release_inv: "manager_inv m \<Longrightarrow> manager_inv (release l m)"
proof -
  assume m: "manager_inv m"
  then have "distinct (removeAll x (g_leases m))" for x by (simp add: manager_inv_def leases_ok_def distinct_removeAll)
  from lease_inv[OF m this] m show ?thesis by (simp add: release_def Let_def split: option.split)
qed

lemma wake_inv: "manager_inv m \<Longrightarrow> g_phase m = Backoff d \<Longrightarrow> manager_inv (m\<lparr>g_phase := Launch\<rparr>)"
  by (rule idle_inv) (auto simp: manager_inv_def live_ok_def tries_ok_def supervised_def error_ok_def)

lemma exited_inv: "manager_inv m \<Longrightarrow> manager_inv (m\<lparr>g_process := Some (Some code)\<rparr>)"
proof -
  assume m: "manager_inv m"
  have "live_ok m \<Longrightarrow> live_ok (m\<lparr>g_process := Some (Some code)\<rparr>)" unfolding live_ok_def by simp
  moreover have "error_ok (m\<lparr>g_process := Some (Some code)\<rparr>) = error_ok m" "port_ok (m\<lparr>g_process := Some (Some code)\<rparr>) = port_ok m"
    "leases_ok (m\<lparr>g_process := Some (Some code)\<rparr>) = leases_ok m" "tries_ok (m\<lparr>g_process := Some (Some code)\<rparr>) = tries_ok m"
    by (simp_all add: error_ok_def port_ok_def leases_ok_def tries_ok_def supervised_def)
  ultimately show ?thesis using m by (simp add: manager_inv_def)
qed

lemma perform_inv:
  "manager_inv m \<Longrightarrow> p_enabled (g_settings m) \<Longrightarrow> enabled_event e m \<Longrightarrow> manager_inv (perform f c e m)"
  by (cases e) (auto simp: notice_too_large_def intro: start_inv stop_inv launch_inv awaited_inv probed_inv look_inv rechecked_inv
      wake_inv notice_inv exited_inv acquire_inv release_inv split: phase.splits)

lemma start_failed_settings [simp]: "g_settings (start_failed m) = g_settings m"
  by (simp add: start_failed_def Let_def)

lemma session_over_settings [simp]: "g_settings (session_over code r m) = g_settings m"
  by (simp add: session_over_def Let_def)

lemma mark_ready_settings [simp]: "g_settings (mark_ready m) = g_settings m"
  by (simp add: mark_ready_def)

lemma launch_settings [simp]: "g_settings (launch f c x m) = g_settings m"
  by (simp add: launch_def Let_def reset_fields split: sum.split)

lemma awaited_settings [simp]: "g_settings (awaited r e m) = g_settings m"
  by (simp add: awaited_def Let_def split: option.split)

lemma health_settings [simp]: "g_settings (snd (health_checked h m)) = g_settings m"
  by (simp add: health_checked_def)

lemma probed_settings [simp]: "g_settings (probed code h m) = g_settings m"
  by (simp add: probed_def Let_def split_beta)

lemma look_settings [simp]: "g_settings (look code x m) = g_settings m" "g_settings (rechecked code h m) = g_settings m"
  by (simp_all add: look_def rechecked_def split_beta split: option.split)

lemma supervisor_settings [simp]: "g_settings (start_manager f loc n m) = g_settings m" "g_settings (stop_manager code m) = g_settings m"
  by (simp_all add: start_manager_def stop_manager_def Let_def split: sum.split)

lemma notice_settings [simp]: "g_settings (handle_notice l m) = g_settings m"
proof (cases "\<exists>n. l = Some (JObj n)")
  case True
  then obtain n where "l = Some (JObj n)" by blast
  then show ?thesis unfolding handle_notice_def Let_def
    by (simp only: option.case json.case) (simp split: option.split)
next
  case False
  then show ?thesis by (cases l) (auto simp: handle_notice_def split: json.split)
qed

lemma perform_settings: "g_settings (perform f c e m) = g_settings m"
  by (cases e) (simp_all add: notice_too_large_def acquire_def release_def Let_def)

lemma start_failed_leases [simp]: "g_leases (start_failed m) = g_leases m"
  by (simp add: start_failed_def Let_def)

lemma session_over_leases [simp]: "g_leases (session_over code r m) = g_leases m"
  by (simp add: session_over_def Let_def)

lemma mark_ready_leases [simp]: "g_leases (mark_ready m) = g_leases m"
  by (simp add: mark_ready_def)

lemma health_leases [simp]: "g_leases (snd (health_checked h m)) = g_leases m"
  by (simp add: health_checked_def)

text \<open>The supervisor never touches a lease.\<close>

lemma leases_kept:
  "g_leases (launch f c x m) = g_leases m" "g_leases (awaited r e m) = g_leases m" "g_leases (probed code h m) = g_leases m"
  "g_leases (look code b m) = g_leases m" "g_leases (rechecked code h m) = g_leases m"
  "g_leases (start_manager f loc n m) = g_leases m" "g_leases (stop_manager code m) = g_leases m"
proof -
  show "g_leases (launch f c x m) = g_leases m" by (simp add: launch_def Let_def reset_fields split: sum.split)
  show "g_leases (awaited r e m) = g_leases m" by (simp add: awaited_def Let_def split: option.split)
  show "g_leases (probed code h m) = g_leases m" by (simp add: probed_def Let_def split_beta)
  show "g_leases (look code b m) = g_leases m" "g_leases (rechecked code h m) = g_leases m"
    by (simp_all add: look_def rechecked_def split_beta split: option.split)
  show "g_leases (start_manager f loc n m) = g_leases m" "g_leases (stop_manager code m) = g_leases m"
    by (simp_all add: start_manager_def stop_manager_def Let_def split: sum.split)
qed

lemma notice_leases: "g_leases (handle_notice l m) = g_leases m"
proof (cases "\<exists>n. l = Some (JObj n)")
  case True
  then obtain n where "l = Some (JObj n)" by blast
  then show ?thesis unfolding handle_notice_def Let_def
    by (simp only: option.case json.case) (simp split: option.split)
next
  case False
  then show ?thesis by (cases l) (auto simp: handle_notice_def split: json.split)
qed

interpretation psiphon: step_machine
  "\<lambda>m. \<exists>s. settings_ok s \<and> p_enabled s \<and> m = new_manager s"
  "manager_step f c" "\<lambda>m. manager_inv m \<and> p_enabled (g_settings m)" for f c
proof
  show "\<exists>s. settings_ok s \<and> p_enabled s \<and> m = new_manager s \<Longrightarrow> manager_inv m \<and> p_enabled (g_settings m)" for m
    by (auto simp: new_manager_def inv_defs)
  show "manager_inv m \<and> p_enabled (g_settings m) \<Longrightarrow> manager_step f c m e n \<Longrightarrow> manager_inv n \<and> p_enabled (g_settings n)" for m e n
    by (elim manager_stepE) (simp add: perform_inv perform_settings)
qed

text \<open>Every event of the run may happen where it stands.\<close>

fun enabled_run :: "fs \<Rightarrow> codecs \<Rightarrow> event list \<Rightarrow> manager \<Rightarrow> bool" where
  "enabled_run f c [] m = True"
| "enabled_run f c (e # es) m = (enabled_event e m \<and> enabled_run f c es (perform f c e m))"

lemma enabled_append: "enabled_run f c (es @ ds) m \<longleftrightarrow> enabled_run f c es m \<and> enabled_run f c ds (fold (perform f c) es m)"
  by (induction es arbitrary: m) auto

lemma run_reaches: "enabled_run f c es m \<Longrightarrow> reaches S (manager_step f c) m \<Longrightarrow> reaches S (manager_step f c) (fold (perform f c) es m)"
proof (induction es arbitrary: m)
  case (Cons e es)
  then show ?case using reaches.next_step[OF Cons.prems(2) manager_step.step[of e m f c]] by simp
qed simp

lemma sample_reaches: "enabled_run f c es (new_manager s) \<Longrightarrow> settings_ok s \<Longrightarrow> p_enabled s \<Longrightarrow>
    reaches (\<lambda>m. \<exists>s. settings_ok s \<and> p_enabled s \<and> m = new_manager s) (manager_step f c) (fold (perform f c) es (new_manager s))"
  by (rule run_reaches) (auto intro: reaches.init)

text \<open>What ends a session: a new launch, a stop, a new first probe, a later probe that fails.\<close>

fun ends_session :: "event \<Rightarrow> bool" where
  "ends_session (Launching x) = True"
| "ends_session (Stop c) = True"
| "ends_session (Probe c h) = True"
| "ends_session (Recheck c h) = (\<not> th_ok h)"
| "ends_session _ = False"

lemma notice_phase: "g_phase (handle_notice l m) = g_phase m"
proof (cases "\<exists>n. l = Some (JObj n)")
  case True
  then obtain n where "l = Some (JObj n)" by blast
  then show ?thesis unfolding handle_notice_def Let_def
    by (simp only: option.case json.case) (simp add: mark_ready_def split: option.split)
next
  case False
  then show ?thesis by (cases l) (auto simp: handle_notice_def split: json.split)
qed

lemma not_active [simp]: "g_phase (start_failed m) \<noteq> Active" "g_phase (session_over code r m) \<noteq> Active"
  "g_phase (launch f c x m) \<noteq> Active" "g_phase (stop_manager code m) \<noteq> Active"
proof -
  show 1: "g_phase (start_failed m) \<noteq> Active" for m by (simp add: start_failed_def Let_def)
  show "g_phase (session_over code r m) \<noteq> Active" by (simp add: session_over_def Let_def)
  show "g_phase (launch f c x m) \<noteq> Active" using 1 by (simp add: launch_def Let_def split: sum.split)
  show "g_phase (stop_manager code m) \<noteq> Active" by (simp add: stop_manager_def Let_def)
qed

lemma awaited_not_active: "g_phase (awaited r e m) \<noteq> Active"
proof (cases "r \<and> g_ready m \<and> g_notice m = []")
  case False
  then show ?thesis unfolding awaited_def Let_def by (simp only: if_False not_active not_False_eq_True)
qed (simp add: awaited_def)

lemma probed_active: "g_phase (probed code h m) = Active \<Longrightarrow> th_ok h \<and> g_port m \<noteq> None"
  by (cases "g_port m") (auto simp: probed_def health_checked_def split: if_splits)

lemma rechecked_active: "g_phase (rechecked code h m) = Active \<Longrightarrow> th_ok h"
  by (auto simp: rechecked_def health_checked_def split: if_splits)

text \<open>A step that leaves the supervisor watching a Core either is a first probe that passed, or goes on with the session.\<close>

lemma active_step:
  assumes "enabled_event e m" "g_phase (perform f c e m) = Active"
  shows "(g_phase m = Active \<and> \<not> ends_session e) \<or> (\<exists>code h. e = Probe code h \<and> th_ok h \<and> g_port m \<noteq> None)"
  using assms
proof (cases e)
  case (Start loc n)
  then show ?thesis using assms by (auto simp: start_manager_def set_state_def fail_def supervised_def split: if_splits sum.splits)
next
  case (Probe code h)
  then show ?thesis using assms probed_active[of code h m] by simp
next
  case (Recheck code h)
  then show ?thesis using assms rechecked_active[of code h m] by simp
qed (auto simp: awaited_not_active notice_phase notice_too_large_def acquire_def release_def Let_def split: option.splits if_splits)

lemma active_probed:
  assumes "enabled_run f c es m" "g_phase m \<noteq> Active" "g_phase (fold (perform f c) es m) = Active"
  shows "\<exists>before code h after. es = before @ Probe code h # after \<and> th_ok h
    \<and> g_port (fold (perform f c) before m) \<noteq> None \<and> (\<forall>e\<in>set after. \<not> ends_session e)"
  using assms
proof (induction es rule: rev_induct)
  case (snoc e es)
  let ?k = "fold (perform f c) es m"
  have k: "enabled_event e ?k" "g_phase (perform f c e ?k) = Active" using snoc.prems by (simp_all add: enabled_append)
  show ?case
  proof (cases "g_phase ?k = Active \<and> \<not> ends_session e")
    case True
    then obtain before code h after where "es = before @ Probe code h # after" "th_ok h"
        "g_port (fold (perform f c) before m) \<noteq> None" "\<forall>e\<in>set after. \<not> ends_session e"
      using snoc.IH snoc.prems by (auto simp: enabled_append)
    then show ?thesis using True
      by (intro exI[of _ before] exI[of _ code] exI[of _ h] exI[of _ "after @ [e]"]) auto
  next
    case False
    then obtain code h where "e = Probe code h" "th_ok h" "g_port ?k \<noteq> None" using active_step[OF k] by blast
    then show ?thesis by (intro exI[of _ es] exI[of _ code] exI[of _ h] exI[of _ "[]"]) simp
  qed
qed simp

text \<open>
  C17. At every moment of any run: a session is given the tunnel only while the supervisor watches a Core
  whose first probe passed at a known port, and since that probe there was no new launch, no stop and no
  failed later probe; the lease is for the loopback address and a valid port, of a Core that was started;
  the shown error is one of the fixed categories; the number of active sessions is the number of leases; an
  attempt is always left to a running supervisor, and no pause is longer than a minute.
\<close>

theorem manager_sound:
  assumes "settings_ok s" "p_enabled s" "enabled_run f c es (new_manager s)" "m = fold (perform f c) es (new_manager s)"
  shows "(fst (acquire lid m) \<noteq> None \<longleftrightarrow> g_phase m = Active)
    \<and> (\<forall>l. fst (acquire lid m) = Some l \<longrightarrow> le_host l = ''127.0.0.1'' \<and> 1 \<le> le_port l \<and> le_port l \<le> 65535 \<and> g_process m \<noteq> None
        \<and> (\<exists>before code h after. es = before @ Probe code h # after \<and> th_ok h
            \<and> g_port (fold (perform f c) before (new_manager s)) \<noteq> None \<and> (\<forall>e\<in>set after. \<not> ends_session e)))
    \<and> (g_error m = [] \<or> g_error m \<in> set SAFE_FAILURES)
    \<and> distinct (g_leases m) \<and> g_active m = length (g_leases m)
    \<and> (supervised m \<longrightarrow> 0 \<le> g_tries m \<and> g_tries m < p_attempts (g_settings m))
    \<and> (\<forall>d. g_phase m = Backoff d \<longrightarrow> 1 \<le> d \<and> d \<le> 60)"
proof -
  have "reaches (\<lambda>m. \<exists>s. settings_ok s \<and> p_enabled s \<and> m = new_manager s) (manager_step f c) m"
    unfolding assms(4) by (rule sample_reaches[OF assms(3,1,2)])
  then have "manager_inv m" using psiphon.reaches_inv by blast
  then have i: "error_ok m" "leases_ok m" "port_ok m" "live_ok m" "tries_ok m" by (simp_all add: manager_inv_def)
  have "vless_transport_available m \<longleftrightarrow> g_phase m = Active" using i(4) by (auto simp: vless_transport_available_def live_ok_def)
  then have active: "fst (acquire lid m) \<noteq> None \<longleftrightarrow> g_phase m = Active"
    and lease: "\<forall>l. fst (acquire lid m) = Some l \<longrightarrow> le_host l = ''127.0.0.1'' \<and> 1 \<le> le_port l \<and> le_port l \<le> 65535 \<and> g_process m \<noteq> None"
    using i(3,4) by (auto simp: acquire_def Let_def port_ok_def live_ok_def)
  have "g_phase (new_manager s) \<noteq> Active" by (simp add: new_manager_def)
  then have "g_phase m = Active \<Longrightarrow> \<exists>before code h after. es = before @ Probe code h # after \<and> th_ok h
      \<and> g_port (fold (perform f c) before (new_manager s)) \<noteq> None \<and> (\<forall>e\<in>set after. \<not> ends_session e)"
    using active_probed[OF assms(3)] assms(4) by blast
  then show ?thesis using active lease i(1,2,5) unfolding error_ok_def leases_ok_def tries_ok_def by fastforce
qed

text \<open>A run up to a healthy session: start, launch, notices of the Core, the first probe.\<close>

definition sample_events :: "event list" where
  "sample_events = [Start [] 0,
     Launching \<lparr>la_retest = True, la_upstream = None, la_spawned = True, la_session = ''s'', la_code = None\<rparr>,
     Notice (Some (JObj [(''noticeType'', JStr ''ListeningSocksProxyPort''), (''data'', JObj [(''port'', JInt 4567)])])),
     Notice (Some (JObj [(''noticeType'', JStr ''Tunnels''), (''data'', JObj [(''count'', JInt 1)])])),
     Ready True None, Probe None \<lparr>th_ok = True, th_latency = 80, th_ip = ''9.9.9.9'', th_country = ''DE'', th_region = [], th_reason = []\<rparr>]"

definition sample_manager :: manager where
  "sample_manager = fold (perform sample_fs sample_codecs) sample_events (new_manager sample_settings)"

lemma manager_sound_witness:
  "g_phase sample_manager = Active \<and> fst (acquire ''l'' sample_manager) \<noteq> None \<and> g_active sample_manager = 0"
proof -
  have r: "enabled_run sample_fs sample_codecs sample_events (new_manager sample_settings)" by code_simp
  have s: "settings_ok sample_settings" unfolding sample_settings_def by (rule from_environment_ok)
  have e: "p_enabled sample_settings" by code_simp
  have "g_phase sample_manager = Active" "g_leases sample_manager = []" by code_simp+
  then show ?thesis using manager_sound[OF s e r sample_manager_def, of "''l''"] by simp
qed

section \<open>Giving up\<close>

definition try_again :: "fs \<Rightarrow> codecs \<Rightarrow> launching \<Rightarrow> manager \<Rightarrow> manager" where
  "try_again f c x m = (case g_phase m of
     Launch \<Rightarrow> launch f c x m | Backoff d \<Rightarrow> m\<lparr>g_phase := Launch\<rparr> | _ \<Rightarrow> m)"

text \<open>The supervisor after \<open>i\<close> of its steps, launches and pauses taken in turn, each with an outcome of its own.\<close>

fun retrying :: "fs \<Rightarrow> codecs \<Rightarrow> (nat \<Rightarrow> launching) \<Rightarrow> nat \<Rightarrow> manager \<Rightarrow> manager" where
  "retrying f c x 0 m = m"
| "retrying f c x (Suc i) m = try_again f c (x i) (retrying f c x i m)"

lemma start_failed_cases:
  "p_attempts (g_settings m) \<le> g_tries m + 1 \<Longrightarrow> g_phase (start_failed m) = Given_Up \<and> g_state (start_failed m) = FAILED
     \<and> (error_ok m \<longrightarrow> g_error (start_failed m) \<in> set SAFE_FAILURES)"
  "g_tries m + 1 < p_attempts (g_settings m) \<Longrightarrow> g_phase (start_failed m) = Backoff (min 60 (p_backoff (g_settings m) * 2 ^ nat (g_tries m)))
     \<and> g_tries (start_failed m) = g_tries m + 1 \<and> \<not> g_retest (start_failed m)"
  by (auto simp: start_failed_def Let_def error_ok_def backoff_def)

lemma launch_fails:
  assumes "\<not> la_spawned x"
  shows "\<exists>r. launch f c x m = start_failed r \<and> g_tries r = g_tries m \<and> g_settings r = g_settings m \<and> error_ok r"
proof -
  define k where "k = reset_session m"
  have k: "g_tries k = g_tries m" "g_settings k = g_settings m" by (simp_all add: k_def reset_fields)
  have "\<exists>r. start_failed (fail e k) = start_failed r \<and> g_tries r = g_tries m \<and> g_settings r = g_settings m \<and> error_ok r" for e
    by (rule exI[of _ "fail e k"]) (simp add: k)
  moreover have "\<exists>r. start_failed (stop_active code (fail e k)) = start_failed r \<and> g_tries r = g_tries m
      \<and> g_settings r = g_settings m \<and> error_ok r" for e code
    by (rule exI[of _ "stop_active code (fail e k)"]) (simp add: k)
  ultimately show ?thesis using assms unfolding launch_def Let_def k_def[symmetric] by (auto split: sum.split)
qed

text \<open>Until the last attempt: before each launch the supervisor stands at it with one attempt less left.\<close>

lemma retrying_launch:
  assumes "g_phase m = Launch" "0 \<le> g_tries m" "\<And>i. \<not> la_spawned (x i)"
  shows "g_tries m + int i < p_attempts (g_settings m) \<Longrightarrow>
    (let k = retrying f c x (2 * i) m in g_phase k = Launch \<and> g_tries k = g_tries m + int i \<and> g_settings k = g_settings m)"
proof (induction i)
  case 0
  then show ?case using assms(1) by simp
next
  case (Suc i)
  define k where "k = retrying f c x (2 * i) m"
  have k: "g_phase k = Launch" "g_tries k = g_tries m + int i" "g_settings k = g_settings m"
    using Suc by (simp_all add: k_def Let_def)
  obtain r where r: "launch f c (x (2 * i)) k = start_failed r" "g_tries r = g_tries k" "g_settings r = g_settings k"
    using launch_fails[OF assms(3), of f c "2 * i" k] by blast
  have "g_tries r + 1 < p_attempts (g_settings r)" using r k Suc.prems by simp
  note sf = start_failed_cases(2)[OF this]
  have "retrying f c x (2 * Suc i) m = (start_failed r)\<lparr>g_phase := Launch\<rparr>"
    using sf k(1) r(1) by (simp add: k_def[symmetric] try_again_def)
  then show ?case using sf r k by simp
qed

text \<open>What one more failing launch makes of it: the last one gives up, an earlier one leads to its pause.\<close>

lemma retrying_failed:
  assumes "g_phase m = Launch" "0 \<le> g_tries m" "\<And>i. \<not> la_spawned (x i)" "g_tries m + int i < p_attempts (g_settings m)"
  shows "\<exists>r. retrying f c x (2 * i + 1) m = start_failed r \<and> g_tries r = g_tries m + int i \<and> g_settings r = g_settings m \<and> error_ok r"
proof -
  define k where "k = retrying f c x (2 * i) m"
  have k: "g_phase k = Launch" "g_tries k = g_tries m + int i" "g_settings k = g_settings m"
    using retrying_launch[OF assms] by (simp_all add: k_def Let_def)
  obtain r where r: "launch f c (x (2 * i)) k = start_failed r" "g_tries r = g_tries k" "g_settings r = g_settings k" "error_ok r"
    using launch_fails[OF assms(3), of f c "2 * i" k] by blast
  have "retrying f c x (2 * i + 1) m = start_failed r" using k(1) r(1) by (simp add: k_def[symmetric] try_again_def)
  then show ?thesis using r k by auto
qed

text \<open>
  C33. A Core that cannot be started is given up after exactly the configured number of launches. As long as
  fewer have failed, the supervisor is not given up: it stands at the next launch, and after that launch it
  pauses for the configured pause, doubled with each attempt and never more than a minute. The last of the
  configured launches ends in the failed state with a safe reason. The launches may fail for different reasons.
\<close>

theorem supervisor_gives_up:
  assumes "g_phase m = Launch" "g_tries m = 0" "p_attempts (g_settings m) = int (Suc n)" "\<And>i. \<not> la_spawned (x i)"
  shows "(\<forall>i\<le>n. g_phase (retrying f c x (2 * i) m) = Launch)
    \<and> (\<forall>i<n. g_phase (retrying f c x (2 * i + 1) m) = Backoff (min 60 (p_backoff (g_settings m) * 2 ^ i)))
    \<and> (let k = retrying f c x (2 * n + 1) m in g_phase k = Given_Up \<and> g_state k = FAILED \<and> g_error k \<in> set SAFE_FAILURES)"
proof (intro conjI)
  have le: "i \<le> n \<Longrightarrow> g_tries m + int i < p_attempts (g_settings m)" for i using assms(2,3) by simp
  have t: "0 \<le> g_tries m" using assms(2) by simp
  show "\<forall>i\<le>n. g_phase (retrying f c x (2 * i) m) = Launch"
    using retrying_launch[OF assms(1) t assms(4) le] by (auto simp: Let_def)
  show "\<forall>i<n. g_phase (retrying f c x (2 * i + 1) m) = Backoff (min 60 (p_backoff (g_settings m) * 2 ^ i))"
  proof (intro allI impI)
    fix i assume "i < n"
    then obtain r where r: "retrying f c x (2 * i + 1) m = start_failed r" "g_tries r = int i" "g_settings r = g_settings m"
      using retrying_failed[where x = x, OF assms(1) t assms(4) le, of i f c] assms(2)
      by (metis add_0 less_imp_le)
    have "g_tries r + 1 < p_attempts (g_settings r)" using r assms(3) \<open>i < n\<close> by simp
    from start_failed_cases(2)[OF this] show "g_phase (retrying f c x (2 * i + 1) m) = Backoff (min 60 (p_backoff (g_settings m) * 2 ^ i))"
      unfolding r(1) by (simp add: r)
  qed
  obtain r where r: "retrying f c x (2 * n + 1) m = start_failed r" "g_tries r = int n" "g_settings r = g_settings m" "error_ok r"
    using retrying_failed[where x = x, OF assms(1) t assms(4) le, of n f c] assms(2) by (metis add_0 order_refl)
  have "p_attempts (g_settings r) \<le> g_tries r + 1" using r assms(3) by simp
  from start_failed_cases(1)[OF this] r(4)
  show "let k = retrying f c x (2 * n + 1) m in g_phase k = Given_Up \<and> g_state k = FAILED \<and> g_error k \<in> set SAFE_FAILURES"
    unfolding r(1) Let_def by blast
qed

definition dead_launch :: launching where
  "dead_launch = \<lparr>la_retest = True, la_upstream = None, la_spawned = False, la_session = [], la_code = None\<rparr>"

lemma supervisor_gives_up_witness:
  "let m = start_manager sample_fs [] 0 (new_manager sample_settings); go = retrying sample_fs sample_codecs (\<lambda>i. dead_launch) in
    g_phase (go 4 m) = Launch \<and> g_phase (go 5 m) = Given_Up"
proof -
  let ?m = "start_manager sample_fs [] 0 (new_manager sample_settings)"
  have 1: "g_phase ?m = Launch" "g_tries ?m = 0" by code_simp+
  have "p_attempts (g_settings ?m) = 3" by code_simp
  then have 2: "p_attempts (g_settings ?m) = int (Suc 2)" by simp
  have 3: "\<not> la_spawned ((\<lambda>i. dead_launch) (i::nat))" for i by (simp add: dead_launch_def)
  have "2 * 2 + 1 = (5::nat)" "2 * 2 = (4::nat)" by simp_all
  then show ?thesis using supervisor_gives_up[where x = "\<lambda>i. dead_launch" and f = sample_fs and c = sample_codecs, OF 1 2 3]
    unfolding Let_def by (metis order_refl)
qed

section \<open>A test that is not repeated\<close>

text \<open>
  The source says that a session over a managed upstream must not start from stale data. After a retest
  that failed, the next attempt starts the Core without any: below no retest ever succeeded, and the
  Core is running.
\<close>

theorem stale_upstream_started:
  assumes "g_phase m = Launch" "g_retest m" "p_managed (g_settings m)" "g_tries m + 1 < p_attempts (g_settings m)"
    and "\<not> la_retest x" "\<not> la_retest y" "la_upstream y = Some u" "la_spawned y"
    and "prepare_runtime_config f c (g_settings m) (Some u) = Inr cfg"
  shows "\<exists>d. g_phase (launch f c x m) = Backoff d \<and> g_error (launch f c x m) = ''proxy_retest_failed''
    \<and> (let k = launch f c y ((launch f c x m)\<lparr>g_phase := Launch\<rparr>) in g_phase k = Awaiting \<and> g_process k = Some None)"
proof -
  define r where "r = fail ''proxy_retest_failed'' (reset_session m)"
  have x: "launch f c x m = start_failed r"
    using assms by (simp add: launch_def Let_def reset_fields r_def)
  have r: "g_tries r + 1 < p_attempts (g_settings r)" "g_settings r = g_settings m" using assms by (simp_all add: r_def reset_fields)
  note sf = start_failed_cases(2)[OF r(1)]
  have e: "g_error (start_failed r) = ''proxy_retest_failed''" using r(1) by (simp add: start_failed_def Let_def r_def)
  define k where "k = (start_failed r)\<lparr>g_phase := Launch\<rparr>"
  have k: "\<not> g_retest (reset_session k)" "g_settings (reset_session k) = g_settings m" using sf r(2) by (simp_all add: k_def reset_fields)
  have "g_phase (launch f c y k) = Awaiting \<and> g_process (launch f c y k) = Some None"
    using assms(3,7-9) k by (simp add: launch_def Let_def)
  then show ?thesis using sf e unfolding x k_def[symmetric] by (simp add: Let_def)
qed

definition managed_settings :: "settings" where
  "managed_settings = sample_settings\<lparr>p_managed := True\<rparr>"

lemma stale_upstream_started_witness:
  "let x = dead_launch\<lparr>la_retest := False\<rparr>; y = x\<lparr>la_upstream := Some ''socks5://1.2.3.4:1080'', la_spawned := True\<rparr>;
       m = start_manager sample_fs [] 0 (new_manager managed_settings)
   in g_phase (launch sample_fs sample_codecs y ((launch sample_fs sample_codecs x m)\<lparr>g_phase := Launch\<rparr>)) = Awaiting"
proof -
  let ?x = "dead_launch\<lparr>la_retest := False\<rparr>"
  let ?y = "?x\<lparr>la_upstream := Some ''socks5://1.2.3.4:1080'', la_spawned := True\<rparr>"
  let ?m = "start_manager sample_fs [] 0 (new_manager managed_settings)"
  have m: "g_phase ?m = Launch" "g_retest ?m" "p_managed (g_settings ?m)" "g_tries ?m + 1 < p_attempts (g_settings ?m)" by code_simp+
  have "ok_value (prepare_runtime_config sample_fs sample_codecs (g_settings ?m) (Some ''socks5://1.2.3.4:1080'')) \<noteq> None" by code_simp
  then obtain cfg where cfg: "prepare_runtime_config sample_fs sample_codecs (g_settings ?m) (Some ''socks5://1.2.3.4:1080'') = Inr cfg"
    by (cases "prepare_runtime_config sample_fs sample_codecs (g_settings ?m) (Some ''socks5://1.2.3.4:1080'')") auto
  have l: "\<not> la_retest ?x" "\<not> la_retest ?y" "la_upstream ?y = Some ''socks5://1.2.3.4:1080''" "la_spawned ?y" by simp_all
  from stale_upstream_started[OF m l cfg] show ?thesis by (auto simp: Let_def)
qed

end
