(* ===== verification/Psiphon_Health.thy ===== *)
theory Psiphon_Health
  imports Psiphon_Manager Outbound
begin

text \<open>
  How the panel reaches a destination through the Core (\<open>psiphon/health.py\<close>): the small SOCKS5 client for
  its loopback listener, the HTTPS requests of the probe, and the verdict of the probe. What the
  Core and the servers answer is an argument.
\<close>

section \<open>The client of the loopback listener\<close>

datatype core_error =
    Core_Short_Read | Core_Auth_Refused | Core_Bad_Target | Core_Connect_Failed | Core_Bad_Reply | Core_Not_Loopback

definition core_request :: "nat list \<Rightarrow> nat \<Rightarrow> nat list" where
  "core_request name port = [5, 1, 0, 3, length name] @ name @ big_endian 2 port"

definition core_address :: "nat \<Rightarrow> nat list \<Rightarrow> core_error + nat list" where
  "core_address n bs = (case read_exactly (n + 2) bs of None \<Rightarrow> Inl Core_Short_Read | Some (a, rest) \<Rightarrow> Inr rest)"

definition core_reply :: "nat list \<Rightarrow> core_error + nat list" where
  "core_reply bs = (case read_exactly 4 bs of
     None \<Rightarrow> Inl Core_Short_Read
   | Some (head, rest) \<Rightarrow>
      if head ! 0 \<noteq> 5 \<or> head ! 1 \<noteq> 0 then Inl Core_Connect_Failed
      else if head ! 3 = 3 then
        (case read_exactly 1 rest of None \<Rightarrow> Inl Core_Short_Read | Some (n, r) \<Rightarrow> core_address (n ! 0) r)
      else if head ! 3 = 1 then core_address 4 rest
      else if head ! 3 = 4 then core_address 16 rest
      else Inl Core_Bad_Reply)"

text \<open>
  What was sent, and the bytes of the stream that follow the reply. \<open>idna\<close> is the codec of the library,
  \<open>None\<close> its UnicodeError.
\<close>

definition socks_connect :: "(string \<Rightarrow> nat list option) \<Rightarrow> string \<Rightarrow> nat \<Rightarrow> nat list \<Rightarrow> (core_error + nat list) \<times> nat list list" where
  "socks_connect idna host port bs = (case read_exactly 2 bs of
     None \<Rightarrow> (Inl Core_Short_Read, [[5, 1, 0]])
   | Some (resp, rest) \<Rightarrow>
      if resp \<noteq> [5, 0] then (Inl Core_Auth_Refused, [[5, 1, 0]])
      else (case idna host of
          None \<Rightarrow> (Inl Core_Bad_Target, [[5, 1, 0]])
        | Some e \<Rightarrow>
            if \<not> (1 \<le> length e \<and> length e \<le> 255) \<or> port > 65535 then (Inl Core_Bad_Target, [[5, 1, 0]])
            else (core_reply rest, [[5, 1, 0], core_request e port])))"

definition open_loopback :: "(string \<Rightarrow> nat list option) \<Rightarrow> string \<Rightarrow> string \<Rightarrow> nat \<Rightarrow> nat list \<Rightarrow>
    (core_error + nat list) \<times> nat list list" where
  "open_loopback idna socks_host host port bs =
     (if socks_host \<noteq> ''127.0.0.1'' then (Inl Core_Not_Loopback, []) else socks_connect idna host port bs)"

section \<open>The HTTPS requests of the probe\<close>

definition PROBE_LIMIT :: nat where "PROBE_LIMIT = 16 * 1024"

record http_result =
  hr_ok :: bool
  hr_status :: "nat option"
  hr_body :: string
  hr_latency :: rat

definition no_result :: "rat \<Rightarrow> http_result" where
  "no_result ms = \<lparr>hr_ok = False, hr_status = None, hr_body = [], hr_latency = ms\<rparr>"

definition probe_status :: "string \<Rightarrow> nat option" where
  "probe_status header = (case words_by blank_byte [] (first_line header) of
     v # n # r \<Rightarrow> if n \<noteq> [] \<and> list_all is_decimal n then Some (digits_val n) else None
   | _ \<Rightarrow> None)"

text \<open>\<open>answer\<close> is the header and the body when both were read in time through a verified TLS session.\<close>

definition https_get :: "(string \<times> string) option \<Rightarrow> rat \<Rightarrow> http_result" where
  "https_get answer ms = (case answer of
     None \<Rightarrow> no_result ms
   | Some (header, body) \<Rightarrow>
      if length header > PROBE_LIMIT then no_result ms
      else \<lparr>hr_ok = (case probe_status header of None \<Rightarrow> False | Some s \<Rightarrow> 200 \<le> s \<and> s < 400),
            hr_status = probe_status header, hr_body = take PROBE_LIMIT body, hr_latency = ms\<rparr>)"

section \<open>The probe\<close>

definition CONNECTIVITY :: "string \<times> string" where "CONNECTIVITY = (''www.cloudflare.com'', ''/cdn-cgi/trace'')"
definition IPIFY :: "string \<times> string" where "IPIFY = (''api.ipify.org'', ''/?format=json'')"
definition GEO_HOST :: string where "GEO_HOST = ''ipapi.co''"

definition bare_health :: "bool \<Rightarrow> rat \<Rightarrow> string \<Rightarrow> tunnel_health" where
  "bare_health ok ms why = \<lparr>th_ok = ok, th_latency = ms, th_ip = [], th_country = [], th_region = [],
     th_reason = why\<rparr>"

text \<open>\<open>exit_identity\<close> is the address in the answer of the identity server, when it is one.\<close>

definition exit_identity :: "(string \<Rightarrow> json option) \<Rightarrow> http_result \<Rightarrow> string option" where
  "exit_identity parse r = (case parse (hr_body r) of
     Some (JObj d) \<Rightarrow> (let ip = strip (text_or_empty (jget d ''ip'')) in if ip_address ip = None then None else Some ip)
   | _ \<Rightarrow> None)"

definition exit_place :: "(string \<Rightarrow> json option) \<Rightarrow> http_result \<Rightarrow> string \<times> string" where
  "exit_place parse r =
     (if \<not> hr_ok r then ([], [])
      else (case parse (hr_body r) of
          Some (JObj d) \<Rightarrow> (safe_region (jget d ''country_code''), take 80 (strip (text_or_empty (jget d ''region''))))
        | _ \<Rightarrow> ([], [])))"

definition probe_tunnel :: "(string \<Rightarrow> rat option) \<Rightarrow> (string \<Rightarrow> json option) \<Rightarrow> (string \<times> string \<Rightarrow> http_result) \<Rightarrow> tunnel_health" where
  "probe_tunnel f parse get =
     (let c = get CONNECTIVITY in
      if \<not> hr_ok c then bare_health False (hr_latency c) ''https_probe_failed''
      else (let i = get IPIFY in
        if \<not> hr_ok i then bare_health True (hr_latency c) ''exit_identity_unavailable''
        else (case exit_identity parse i of
            None \<Rightarrow> bare_health True (hr_latency c) ''exit_identity_unavailable''
          | Some ip \<Rightarrow>
              (let place = exit_place parse (get (GEO_HOST, ''/'' @ ip @ ''/json/'')) in
               \<lparr>th_ok = True, th_latency = bounded_float f (JFloat (hr_latency c) []), th_ip = ip,
                th_country = fst place, th_region = snd place, th_reason = []\<rparr>))))"

section \<open>What the client shares with the one of the exit proxies\<close>

lemma core_reply_agrees: "ok_value (core_reply bs) = ok_value (read_socks_reply bs)"
  by (auto simp: core_reply_def read_socks_reply_def core_address_def split: option.split)

lemma read_two: "read_exactly 2 bs = Some (resp, rest) \<Longrightarrow> \<exists>a b. resp = [a, b] \<and> bs = a # b # rest"
  by (cases bs; cases "tl bs") (auto simp: read_exactly_def split: if_splits)

text \<open>
  C26. The client of the Core and the client of the exit proxies are two programs for one protocol. Without
  credentials and for a host name they accept the same answers, leave the same bytes of the
  stream, and have then sent the same bytes.
\<close>

theorem core_client_agrees:
  assumes "\<not> has_auth p" "strip_brackets host = host" "ip_address (before CHR ''%'' host) = None"
    and "idna host = Some e" "e \<noteq> []" "port \<le> 65535"
  shows "ok_value (fst (socks_connect idna host port bs)) = ok_value (fst (socks_once idna p host port [] bs))
    \<and> (ok_value (fst (socks_connect idna host port bs)) \<noteq> None \<longrightarrow>
        snd (socks_connect idna host port bs) = snd (socks_once idna p host port [] bs))"
proof (cases "read_exactly 2 bs")
  case None
  then show ?thesis by (simp add: socks_connect_def socks_once_def socks_method_def)
next
  case (Some pr)
  obtain resp rest where pr: "pr = (resp, rest)" by force
  obtain a b where ab: "resp = [a, b]" using read_two Some pr by blast
  have t: "socks_target idna host port = (if length e > 255 then None else Some (3 # length e # e @ big_endian 2 port))"
    using assms(2-4) by (simp add: socks_target_def Let_def)
  have g: "socks_greeting p = [5, 1, 0]" using assms(1) by (simp add: socks_greeting_def)
  show ?thesis
  proof (cases "a = 5 \<and> b = 0")
    case True
    then have m: "socks_method p bs = (Inr rest, [])" using Some pr ab by (simp add: socks_method_def)
    have c: "socks_connect idna host port bs = (if length e > 255 then (Inl Core_Bad_Target, [[5, 1, 0]])
        else (core_reply rest, [[5, 1, 0], core_request e port]))"
      using Some pr ab True assms(4-6) by (cases e) (auto simp: socks_connect_def)
    have s: "ok_value (fst (socks_once idna p host port [] bs))
        = (if length e > 255 then None else ok_value (read_socks_reply rest))"
      using m t by (auto simp: socks_once_def split: sum.split)
    have "snd (socks_once idna p host port [] bs) = [[5, 1, 0], core_request e port]" if "length e \<le> 255"
      using m t that g by (auto simp: socks_once_def core_request_def split: sum.split)
    then show ?thesis using c s core_reply_agrees[of rest] by auto
  next
    case False
    then have "ok_value (fst (socks_once idna p host port [] bs)) = None"
      using Some pr ab assms(1) by (auto simp: socks_once_def socks_method_def split: sum.split prod.split)
    moreover have "socks_connect idna host port bs = (Inl Core_Auth_Refused, [[5, 1, 0]])"
      using Some pr ab False by (auto simp: socks_connect_def)
    ultimately show ?thesis by auto
  qed
qed

definition plain_proxy :: proxy_params where
  "plain_proxy = \<lparr>px_scheme = ''socks5'', px_host = ''127.0.0.1'', px_port = Some 1080, px_user = [], px_pass = []\<rparr>"

definition ascii_bytes :: "string \<Rightarrow> nat list option" where
  "ascii_bytes s = Some (map (\<lambda>c. ord c) s)"

definition sample_answer :: "nat list" where
  "sample_answer = [5, 0, 5, 0, 0, 1, 1, 2, 3, 4, 0, 80, 22, 3]"

lemma core_client_agrees_witness:
  "ok_value (fst (socks_connect ascii_bytes ''ex.org'' 443 sample_answer)) = Some [22, 3]
   \<and> snd (socks_connect ascii_bytes ''ex.org'' 443 sample_answer) = snd (socks_once ascii_bytes plain_proxy ''ex.org'' 443 [] sample_answer)"
proof -
  have "\<not> has_auth plain_proxy" "strip_brackets ''ex.org'' = ''ex.org''" "ip_address (before CHR ''%'' ''ex.org'') = None"
    "ascii_bytes ''ex.org'' = Some (map (\<lambda>c. ord c) ''ex.org'')" by code_simp+
  moreover have "map (\<lambda>c. ord c) ''ex.org'' \<noteq> []" "(443::nat) \<le> 65535" by simp_all
  moreover have "ok_value (fst (socks_connect ascii_bytes ''ex.org'' 443 sample_answer)) = Some [22, 3]" by code_simp
  ultimately show ?thesis
    using core_client_agrees[where p = plain_proxy and host = "''ex.org''" and idna = ascii_bytes and port = 443
        and e = "map (\<lambda>c. ord c) ''ex.org''" and bs = sample_answer] by simp
qed

section \<open>The verdict\<close>

text \<open>
  A tunnel passes exactly when a page was read through it; the shown address is then an address or
  missing, the country two letters or missing, and the reason one of the fixed categories.
\<close>

lemma probe_sound:
  fixes f parse get
  defines "h \<equiv> probe_tunnel f parse get"
  shows "th_ok h = hr_ok (get CONNECTIVITY)"
    "th_reason h \<in> set ([] # SAFE_FAILURES)"
    "th_ip h = [] \<or> ip_address (th_ip h) \<noteq> None"
    "length (th_country h) \<in> {0, 2}" "length (th_region h) \<le> 80"
    "th_ip h = [] \<longleftrightarrow> th_reason h \<noteq> []"
proof -
  have e: "ip_address [] = None" by code_simp
  have sr: "length (safe_region j) \<in> {0, 2}" for j by (simp add: safe_region_def Let_def)
  have ip: "exit_identity parse i = Some ip \<Longrightarrow> ip \<noteq> [] \<and> ip_address ip \<noteq> None" for i ip
    using e by (auto simp: exit_identity_def Let_def split: option.splits json.splits if_splits)
  have pl: "length (fst (exit_place parse i)) \<in> {0, 2} \<and> length (snd (exit_place parse i)) \<le> 80" for i
    using sr by (simp add: exit_place_def split: option.split json.split)
  have r: "''https_probe_failed'' \<in> set SAFE_FAILURES" "''exit_identity_unavailable'' \<in> set SAFE_FAILURES"
    by (simp_all add: SAFE_FAILURES_def)
  show "th_ok h = hr_ok (get CONNECTIVITY)"
    by (auto simp: h_def probe_tunnel_def Let_def bare_health_def split: option.split)
  show "th_reason h \<in> set ([] # SAFE_FAILURES)" using r
    by (auto simp: h_def probe_tunnel_def Let_def bare_health_def split: option.split)
  show "th_ip h = [] \<or> ip_address (th_ip h) \<noteq> None" using ip
    by (auto simp: h_def probe_tunnel_def Let_def bare_health_def split: option.split)
  show "length (th_country h) \<in> {0, 2}" "length (th_region h) \<le> 80" using pl
    by (auto simp: h_def probe_tunnel_def Let_def bare_health_def split: option.split)
  show "th_ip h = [] \<longleftrightarrow> th_reason h \<noteq> []" using ip
    by (auto simp: h_def probe_tunnel_def Let_def bare_health_def split: option.split)
qed

end
