(* ===== verification/Psiphon_Session.thy ===== *)
theory Psiphon_Session
  imports Vless_Session Psiphon_Health
begin

text \<open>
  The sessions of the Psiphon route (\<open>relay_psiphon.py\<close>, \<open>psiphon/backend.py\<close>) together with the manager
  whose tunnel they borrow. A session stands at one of its awaits: reading its header, dialling with
  a lease, or relaying with it. The steps of sessions and supervisor interleave freely.
\<close>

section \<open>State\<close>

datatype stage_of = Reading | Dialling lease request | Carrying lease request

record route_state =
  y_run :: panel_run
  y_core :: manager
  y_held :: "(string, stage_of) dict"

datatype psiphon_end = Entered | Going_On | Ended | Closed nat string

definition lease_of :: "stage_of \<Rightarrow> lease option" where
  "lease_of s = (case s of Reading \<Rightarrow> None | Dialling l q \<Rightarrow> Some l | Carrying l q \<Rightarrow> Some l)"

section \<open>The backend\<close>

datatype open_error = No_Tunnel | Dial_Timeout | Core_Refused core_error

definition target_text :: "(nat list \<Rightarrow> string) \<Rightarrow> target \<Rightarrow> string" where
  "target_text ntop6 t = (case t of IPv4_Target b \<Rightarrow> show_ipv4 b | IPv6_Target b \<Rightarrow> ntop6 b | Domain_Target d \<Rightarrow> d)"

record core_env =
  ce_idna :: "string \<Rightarrow> nat list option"
  ce_ntop6 :: "nat list \<Rightarrow> string"

text \<open>
  \<open>PsiphonVlessBackend.open\<close> after it has a lease: \<open>answer\<close> is what the Core sends, \<open>None\<close> when a wait times out;
  \<open>drained\<close> whether the first packet left in time. The second part is what was sent.
\<close>

definition backend_dial :: "core_env \<Rightarrow> lease \<Rightarrow> request \<Rightarrow> nat list option \<Rightarrow> bool \<Rightarrow> (open_error + nat list) \<times> nat list list" where
  "backend_dial env l q answer drained = (case answer of
     None \<Rightarrow> (Inl Dial_Timeout, [])
   | Some bs \<Rightarrow>
      (case open_loopback (ce_idna env) (le_host l) (target_text (ce_ntop6 env) (rq_target q)) (rq_port q) bs of
         (Inl e, sent) \<Rightarrow> (Inl (Core_Refused e), sent)
       | (Inr rest, sent) \<Rightarrow>
          if rq_payload q = [] then (Inr rest, sent)
          else if drained then (Inr rest, sent @ [rq_payload q])
          else (Inl Dial_Timeout, sent @ [rq_payload q])))"

section \<open>Steps of a session\<close>

definition psiphon_enter :: "session_env \<Rightarrow> string \<Rightarrow> string \<Rightarrow> string \<Rightarrow> route_state \<Rightarrow> psiphon_end \<times> route_state" where
  "psiphon_enter env cid uuid ip t = (case admit env cid uuid ip ''vless-ws-psiphon'' (y_run t) of
     (Some (session_end.Rejected n why), r) \<Rightarrow> (Closed n why, t)
   | (Some e, r) \<Rightarrow> (Ended, t)
   | (None, r) \<Rightarrow> (Entered, t\<lparr>y_run := r, y_held := AList.update cid Reading (y_held t)\<rparr>))"

text \<open>The \<open>finally\<close>: the lease goes back, the connection leaves the table.\<close>

definition psiphon_leave :: "string \<Rightarrow> route_state \<Rightarrow> route_state" where
  "psiphon_leave cid t = t\<lparr>y_core := release (Option.bind (map_of (y_held t) cid) lease_of) (y_core t),
     y_run := finish cid (y_run t), y_held := AList.delete cid (y_held t)\<rparr>"

definition psiphon_failed :: "string \<Rightarrow> nat \<Rightarrow> string \<Rightarrow> route_state \<Rightarrow> psiphon_end \<times> route_state" where
  "psiphon_failed cid n why t = (Closed n why, psiphon_leave cid (t\<lparr>y_run := failed (y_run t)\<rparr>))"

text \<open>The header is there, or will never be; with it the session is counted and takes a lease.\<close>

definition psiphon_header :: "session_env \<Rightarrow> string \<Rightarrow> string \<Rightarrow> collected \<Rightarrow> string \<Rightarrow> route_state \<Rightarrow> psiphon_end \<times> route_state" where
  "psiphon_header env cid uuid got lid t = (case got of
     Got q n u \<Rightarrow>
       (case charge env cid uuid n (y_run t) of
          (False, r) \<Rightarrow> (Closed 1008 ''quota/disabled'', psiphon_leave cid (t\<lparr>y_run := r\<rparr>))
        | (True, r) \<Rightarrow>
           (case acquire lid (y_core t) of
              (None, m) \<Rightarrow> psiphon_failed cid 1013 ''psiphon unavailable'' (t\<lparr>y_run := r, y_core := m\<rparr>)
            | (Some l, m) \<Rightarrow> (Going_On, t\<lparr>y_run := r, y_core := m, y_held := AList.update cid (Dialling l q) (y_held t)\<rparr>)))
   | Waiting b \<Rightarrow> (Going_On, t)
   | Timed_Out \<Rightarrow> psiphon_failed cid 1011 ''psiphon timeout'' t
   | _ \<Rightarrow> psiphon_failed cid 1011 ''psiphon backend failure'' t)"

definition psiphon_dialled :: "core_env \<Rightarrow> string \<Rightarrow> nat list option \<Rightarrow> bool \<Rightarrow> route_state \<Rightarrow> psiphon_end \<times> route_state" where
  "psiphon_dialled env cid answer drained t = (case map_of (y_held t) cid of
     Some (Dialling l q) \<Rightarrow>
       (case fst (backend_dial env l q answer drained) of
          Inr rest \<Rightarrow> (Going_On, t\<lparr>y_held := AList.update cid (Carrying l q) (y_held t)\<rparr>)
        | Inl Dial_Timeout \<Rightarrow> psiphon_failed cid 1011 ''psiphon timeout'' t
        | Inl No_Tunnel \<Rightarrow> psiphon_failed cid 1013 ''psiphon unavailable'' t
        | Inl (Core_Refused e) \<Rightarrow> psiphon_failed cid 1011 ''psiphon backend failure'' t)
   | _ \<Rightarrow> (Ended, t))"

text \<open>How a relaying session ends: both directions done, the client gone, or an error.\<close>

datatype ending = Done | Client_Left | Ended_Timeout | Broken

definition psiphon_over :: "string \<Rightarrow> ending \<Rightarrow> route_state \<Rightarrow> psiphon_end \<times> route_state" where
  "psiphon_over cid how t = (case how of
     Ended_Timeout \<Rightarrow> psiphon_failed cid 1011 ''psiphon timeout'' t
   | Broken \<Rightarrow> psiphon_failed cid 1011 ''psiphon backend failure'' t
   | _ \<Rightarrow> (Ended, psiphon_leave cid t))"

section \<open>Runs\<close>

datatype route_event =
    Y_Enter string string string
  | Y_Header string string collected string
  | Y_Dialled string "nat list option" bool
  | Y_Over string ending
  | Y_Traffic string int
  | Y_Core event

definition held_ids :: "(string, stage_of) dict \<Rightarrow> string list" where
  "held_ids d = List.map_filter (\<lambda>(cid, s). map_option le_id (lease_of s)) d"

text \<open>A new session has a new identifier, a new lease a new UUID; leases move only through sessions.\<close>

fun route_enabled :: "route_event \<Rightarrow> route_state \<Rightarrow> bool" where
  "route_enabled (Y_Enter cid uuid ip) t = (map_of (y_held t) cid = None \<and> map_of (r_conns (y_run t)) cid = None)"
| "route_enabled (Y_Header cid uuid got lid) t = (map_of (y_held t) cid = Some Reading \<and> lid \<notin> set (g_leases (y_core t)))"
| "route_enabled (Y_Dialled cid answer drained) t = (case map_of (y_held t) cid of Some (Dialling l q) \<Rightarrow> True | _ \<Rightarrow> False)"
| "route_enabled (Y_Over cid how) t = (case map_of (y_held t) cid of Some (Carrying l q) \<Rightarrow> True | _ \<Rightarrow> False)"
| "route_enabled (Y_Traffic uuid n) t = True"
| "route_enabled (Y_Core e) t = (enabled_event e (y_core t) \<and> (case e of Acquire x \<Rightarrow> False | Release x \<Rightarrow> False | _ \<Rightarrow> True))"

fun route_act :: "session_env \<Rightarrow> core_env \<Rightarrow> fs \<Rightarrow> codecs \<Rightarrow> route_event \<Rightarrow> route_state \<Rightarrow> route_state" where
  "route_act env ce f c (Y_Enter cid uuid ip) t = snd (psiphon_enter env cid uuid ip t)"
| "route_act env ce f c (Y_Header cid uuid got lid) t = snd (psiphon_header env cid uuid got lid t)"
| "route_act env ce f c (Y_Dialled cid answer drained) t = snd (psiphon_dialled ce cid answer drained t)"
| "route_act env ce f c (Y_Over cid how) t = snd (psiphon_over cid how t)"
| "route_act env ce f c (Y_Traffic uuid n) t =
     t\<lparr>y_run := (y_run t)\<lparr>r_world := snd (check_and_use (e_ingress env) uuid n (r_world (y_run t)))\<rparr>\<rparr>"
| "route_act env ce f c (Y_Core e) t = t\<lparr>y_core := perform f c e (y_core t)\<rparr>"

inductive route_step :: "session_env \<Rightarrow> core_env \<Rightarrow> fs \<Rightarrow> codecs \<Rightarrow> route_state \<Rightarrow> route_event \<Rightarrow> route_state \<Rightarrow> bool" for env ce f c where
  step: "route_enabled e t \<Longrightarrow> route_step env ce f c t e (route_act env ce f c e t)"

inductive_cases route_stepE: "route_step env ce f c t e u"

section \<open>Leases and sessions\<close>

definition holds :: "route_state \<Rightarrow> string \<Rightarrow> lease option" where
  "holds t cid = Option.bind (map_of (y_held t) cid) lease_of"

definition leases_match :: "(string \<Rightarrow> lease option) \<Rightarrow> string list \<Rightarrow> bool" where
  "leases_match h ls \<longleftrightarrow> set ls = le_id ` ran h \<and> inj_on (\<lambda>cid. le_id (the (h cid))) (dom h)"

lemma match_new:
  assumes "leases_match h ls" "le_id l \<notin> set ls" "h cid = None"
  shows "leases_match (h(cid \<mapsto> l)) (List.insert (le_id l) ls)"
proof -
  have "ran (h(cid \<mapsto> l)) = insert l (ran h)" using assms(3) by (rule ran_map_upd)
  moreover have "inj_on (\<lambda>x. le_id (the ((h(cid \<mapsto> l)) x))) (dom (h(cid \<mapsto> l)))"
  proof (rule inj_onI)
    fix x y assume x: "x \<in> dom (h(cid \<mapsto> l))" and y: "y \<in> dom (h(cid \<mapsto> l))"
      and eq: "le_id (the ((h(cid \<mapsto> l)) x)) = le_id (the ((h(cid \<mapsto> l)) y))"
    have fresh: "le_id (the (h z)) \<noteq> le_id l" if z: "z \<in> dom h" for z
    proof -
      obtain k where "h z = Some k" using z by blast
      then have "le_id k \<in> set ls" using assms(1) by (auto simp: leases_match_def intro: ranI)
      then show ?thesis using \<open>h z = Some k\<close> assms(2) by auto
    qed
    show "x = y"
    proof (cases "x = cid \<or> y = cid")
      case True
      then show ?thesis using eq fresh[of x] fresh[of y] x y by (auto split: if_splits)
    next
      case False
      then show ?thesis using eq x y assms(1) by (auto simp: leases_match_def dest: inj_onD)
    qed
  qed
  ultimately show ?thesis using assms(1) by (simp add: leases_match_def)
qed

lemma match_gone:
  assumes "leases_match h ls" "h cid = Some l"
  shows "leases_match (h(cid := None)) (removeAll (le_id l) ls)"
proof -
  have other: "le_id k = le_id l \<Longrightarrow> h x = Some k \<Longrightarrow> x = cid" for x k
    using assms by (auto simp: leases_match_def inj_on_def dom_def)
  have "le_id ` ran (h(cid := None)) = le_id ` ran h - {le_id l}"
  proof
    show "le_id ` ran (h(cid := None)) \<subseteq> le_id ` ran h - {le_id l}"
      using other by (auto simp: ran_def split: if_splits)
    show "le_id ` ran h - {le_id l} \<subseteq> le_id ` ran (h(cid := None))"
    proof
      fix i assume "i \<in> le_id ` ran h - {le_id l}"
      then obtain x k where k: "h x = Some k" "i = le_id k" "i \<noteq> le_id l" by (auto simp: ran_def)
      then have "(h(cid := None)) x = Some k" using assms(2) by auto
      then show "i \<in> le_id ` ran (h(cid := None))" using k(2) ranI by fast
    qed
  qed
  moreover have "inj_on (\<lambda>x. le_id (the ((h(cid := None)) x))) (dom (h(cid := None)))"
    using assms(1) by (auto simp: leases_match_def inj_on_def)
  ultimately show ?thesis using assms(1) by (simp add: leases_match_def)
qed

lemma match_card: "leases_match h ls \<Longrightarrow> distinct ls \<Longrightarrow> length ls = card (dom h)"
proof -
  assume m: "leases_match h ls" and d: "distinct ls"
  have "ran h = (\<lambda>cid. the (h cid)) ` dom h" by (force simp: ran_def dom_def)
  then have "set ls = (\<lambda>cid. le_id (the (h cid))) ` dom h" using m by (simp add: leases_match_def image_image)
  then show ?thesis using m distinct_card[OF d] card_image by (metis leases_match_def)
qed

definition route_inv :: "route_state \<Rightarrow> bool" where
  "route_inv t \<longleftrightarrow> manager_inv (y_core t) \<and> p_enabled (g_settings (y_core t))
     \<and> leases_match (holds t) (g_leases (y_core t))
     \<and> (\<forall>cid l. holds t cid = Some l \<longrightarrow> le_host l = ''127.0.0.1'' \<and> 1 \<le> le_port l \<and> le_port l \<le> 65535)
     \<and> (\<forall>cid. map_of (y_held t) cid \<noteq> None \<longrightarrow> map_of (r_conns (y_run t)) cid \<noteq> None)"

subsection \<open>The steps keep the agreement\<close>

lemma core_leases: "(case e of Acquire x \<Rightarrow> False | Release x \<Rightarrow> False | _ \<Rightarrow> True) \<Longrightarrow> g_leases (perform f c e m) = g_leases m"
  by (cases e) (simp_all add: notice_too_large_def leases_kept notice_leases)

lemma release_leases: "g_leases (release l m) = (case l of None \<Rightarrow> g_leases m | Some x \<Rightarrow> removeAll (le_id x) (g_leases m))"
  by (simp add: release_def Let_def split: option.split)

lemma release_settings: "g_settings (release l m) = g_settings m"
  by (simp add: release_def Let_def split: option.split)

lemma holds_leave: "holds (psiphon_leave cid t) = (holds t)(cid := None)"
  by (rule ext) (simp add: holds_def psiphon_leave_def)

lemma leave_inv:
  assumes "route_inv t"
  shows "route_inv (psiphon_leave cid t)"
proof -
  have m: "leases_match ((holds t)(cid := None)) (g_leases (release (holds t cid) (y_core t)))"
  proof (cases "holds t cid")
    case None
    then have "(holds t)(cid := None) = holds t" by auto
    then show ?thesis using assms None by (simp add: release_leases route_inv_def)
  next
    case (Some l)
    then show ?thesis using assms match_gone[of "holds t" "g_leases (y_core t)" cid l] by (simp add: release_leases route_inv_def)
  qed
  have c: "y_core (psiphon_leave cid t) = release (holds t cid) (y_core t)" by (simp add: psiphon_leave_def holds_def)
  have h: "y_held (psiphon_leave cid t) = AList.delete cid (y_held t)"
    "r_conns (y_run (psiphon_leave cid t)) = AList.delete cid (r_conns (y_run t))" by (simp_all add: psiphon_leave_def finish_def)
  show ?thesis using assms m
    by (auto simp: route_inv_def c h holds_leave release_settings intro: release_inv)
qed

lemma run_inv: "route_inv t \<Longrightarrow> (\<And>cid. map_of (r_conns (y_run t)) cid \<noteq> None \<Longrightarrow> map_of (r_conns r) cid \<noteq> None) \<Longrightarrow>
    route_inv (t\<lparr>y_run := r\<rparr>)"
  unfolding route_inv_def holds_def by simp

lemma failed_conns [simp]: "r_conns (failed r) = r_conns r"
  by (simp add: failed_def)

lemma psiphon_failed_inv: "route_inv t \<Longrightarrow> route_inv (snd (psiphon_failed cid n why t))"
  unfolding psiphon_failed_def snd_conv by (intro leave_inv run_inv) simp_all

lemma enter_inv:
  assumes "route_inv t" "map_of (y_held t) cid = None"
  shows "route_inv (snd (psiphon_enter env cid uuid ip t))"
proof (cases "fst (admit env cid uuid ip ''vless-ws-psiphon'' (y_run t))")
  case None
  then obtain r where r: "admit env cid uuid ip ''vless-ws-psiphon'' (y_run t) = (None, r)" by (metis prod.collapse)
  have e: "snd (psiphon_enter env cid uuid ip t) = t\<lparr>y_run := r, y_held := AList.update cid Reading (y_held t)\<rparr>"
    using r by (simp add: psiphon_enter_def)
  have h: "holds (t\<lparr>y_run := r, y_held := AList.update cid Reading (y_held t)\<rparr>) = holds t"
    using assms(2) by (auto simp: holds_def lease_of_def)
  have "\<And>x. map_of (r_conns (y_run t)) x \<noteq> None \<or> x = cid \<Longrightarrow> map_of (r_conns r) x \<noteq> None" using admit_None[OF r] by auto
  then show ?thesis using assms unfolding e by (auto simp: route_inv_def h split: if_splits)
next
  case (Some x)
  then obtain r where "admit env cid uuid ip ''vless-ws-psiphon'' (y_run t) = (Some x, r)" by (metis prod.collapse)
  then show ?thesis using assms(1) by (cases x) (simp_all add: psiphon_enter_def)
qed

lemma charge_keys: "map_of (r_conns r) x \<noteq> None \<Longrightarrow> map_of (r_conns (snd (charge env cid uuid n r))) x \<noteq> None"
  by (auto simp: charge_def split: prod.split)

lemma acquire_result:
  assumes "acquire lid m = (Some l, n)" "manager_inv m"
  shows "le_id l = lid \<and> le_host l = ''127.0.0.1'' \<and> 1 \<le> le_port l \<and> le_port l \<le> 65535
    \<and> g_leases n = List.insert lid (g_leases m) \<and> g_settings n = g_settings m"
  using assms by (auto simp: acquire_def Let_def vless_transport_available_def manager_inv_def port_ok_def split: if_splits)

lemma header_inv:
  assumes "route_inv t" "map_of (y_held t) cid = Some Reading" "lid \<notin> set (g_leases (y_core t))"
  shows "route_inv (snd (psiphon_header env cid uuid got lid t))"
proof (cases got)
  case (Got q n u)
  obtain ok r where r: "charge env cid uuid n (y_run t) = (ok, r)" by force
  have tr: "route_inv (t\<lparr>y_run := r\<rparr>)"
    using run_inv[OF assms(1), of r] charge_keys[of "y_run t" _ env cid uuid n] r by simp
  obtain x m where m: "acquire lid (y_core t) = (x, m)" by force
  have mi: "manager_inv m" using acquire_inv[of "y_core t" lid] m assms(1) by (simp add: route_inv_def)
  show ?thesis
  proof (cases "ok \<and> x \<noteq> None")
    case True
    then obtain l where l: "x = Some l" by blast
    note a = acquire_result[OF m[unfolded l]]
    let ?t = "t\<lparr>y_run := r, y_core := m, y_held := AList.update cid (Dialling l q) (y_held t)\<rparr>"
    have "holds ?t = (holds t)(cid \<mapsto> l)" by (auto simp: holds_def lease_of_def)
    moreover have "holds t cid = None" using assms(2) by (simp add: holds_def lease_of_def)
    moreover have "manager_inv (y_core t)" using assms(1) by (simp add: route_inv_def)
    ultimately have "route_inv ?t" using tr mi a match_new[of "holds t" "g_leases (y_core t)" l cid] assms
      by (auto simp: route_inv_def holds_def split: if_splits)
    then show ?thesis using Got r m l True by (simp add: psiphon_header_def)
  next
    case False
    have "x = None \<Longrightarrow> m = y_core t" using m by (auto simp: acquire_def Let_def split: if_splits)
    then have "x = None \<Longrightarrow> t\<lparr>y_run := r, y_core := m\<rparr> = t\<lparr>y_run := r\<rparr>" by simp
    then show ?thesis using Got r m False leave_inv[OF tr, of cid] psiphon_failed_inv[OF tr, of cid]
      by (cases ok) (auto simp: psiphon_header_def)
  qed
qed (use assms(1) psiphon_failed_inv in \<open>simp_all add: psiphon_header_def\<close>)

lemma dialled_inv:
  assumes "route_inv t"
  shows "route_inv (snd (psiphon_dialled ce cid answer drained t))"
proof (cases "\<exists>l q. map_of (y_held t) cid = Some (Dialling l q)")
  case True
  then obtain l q where h: "map_of (y_held t) cid = Some (Dialling l q)" by blast
  have "holds (t\<lparr>y_held := AList.update cid (Carrying l q) (y_held t)\<rparr>) = holds t"
    using h by (auto simp: holds_def lease_of_def)
  then have "route_inv (t\<lparr>y_held := AList.update cid (Carrying l q) (y_held t)\<rparr>)"
    using assms h by (auto simp: route_inv_def)
  then show ?thesis using h psiphon_failed_inv[OF assms]
    by (auto simp: psiphon_dialled_def split: sum.split open_error.split)
next
  case False
  then show ?thesis using assms by (auto simp: psiphon_dialled_def split: option.split stage_of.split)
qed

lemma over_inv: "route_inv t \<Longrightarrow> route_inv (snd (psiphon_over cid how t))"
  using leave_inv psiphon_failed_inv by (cases how) (auto simp: psiphon_over_def)

lemma route_act_inv:
  assumes "route_inv t" "route_enabled e t"
  shows "route_inv (route_act env ce f c e t)"
proof (cases e)
  case (Y_Core x)
  have m: "manager_inv (y_core t)" "p_enabled (g_settings (y_core t))" using assms(1) by (simp_all add: route_inv_def)
  have "holds (t\<lparr>y_core := k\<rparr>) = holds t" for k by (rule ext) (simp add: holds_def)
  then show ?thesis using assms Y_Core perform_inv[OF m, of x f c] perform_settings[of f c x "y_core t"] core_leases[of x f c "y_core t"]
    by (simp add: route_inv_def)
next
  case (Y_Traffic uuid n)
  then show ?thesis using run_inv[OF assms(1)] by simp
qed (use assms enter_inv header_inv dialled_inv over_inv in \<open>auto\<close>)

definition route_start :: "route_state \<Rightarrow> bool" where
  "route_start t \<longleftrightarrow> y_held t = [] \<and> (\<exists>s. settings_ok s \<and> p_enabled s \<and> y_core t = new_manager s)"

interpretation psiphon_route: step_machine route_start "route_step env ce f c" route_inv for env ce f c
proof
  show "route_start t \<Longrightarrow> route_inv t" for t
  proof -
    assume t: "route_start t"
    then have "holds t = Map.empty" by (auto simp: route_start_def holds_def)
    then show "route_inv t" using t by (auto simp: route_start_def route_inv_def leases_match_def new_manager_def inv_defs)
  qed
  show "route_inv t \<Longrightarrow> route_step env ce f c t e u \<Longrightarrow> route_inv u" for t e u
    by (elim route_stepE) (simp add: route_act_inv)
qed


text \<open>A run: a healthy Core, one session that takes a lease and relays.\<close>

definition sample_core_env :: core_env where
  "sample_core_env = \<lparr>ce_idna = ascii_bytes, ce_ntop6 = (\<lambda>b. [])\<rparr>"

definition sample_route :: "route_state" where
  "sample_route = \<lparr>y_run = sample_run\<lparr>r_world := (r_world sample_run)\<lparr>w_links := [(''v'', sample_link)]\<rparr>\<rparr>,
     y_core = new_manager sample_settings, y_held = []\<rparr>"

definition sample_request :: request where
  "sample_request = \<lparr>rq_command = 1, rq_target = IPv4_Target [1, 2, 3, 4], rq_port = 443, rq_payload = [22]\<rparr>"

definition sample_route_events :: "route_event list" where
  "sample_route_events = map Y_Core sample_events @ [Y_Enter ''c'' ''v'' ''7.7.7.7'',
     Y_Header ''c'' ''v'' (Got sample_request 30 None) ''lease'',
     Y_Dialled ''c'' (Some [5, 0, 5, 0, 0, 1, 1, 2, 3, 4, 0, 80]) True]"

fun run_route :: "route_event list \<Rightarrow> route_state \<Rightarrow> route_state option" where
  "run_route [] t = Some t"
| "run_route (e # es) t = (if route_enabled e t then run_route es (route_act sample_env sample_core_env sample_fs sample_codecs e t) else None)"

lemma run_route_reaches:
  "run_route es t = Some u \<Longrightarrow> reaches S (route_step sample_env sample_core_env sample_fs sample_codecs) t \<Longrightarrow>
   reaches S (route_step sample_env sample_core_env sample_fs sample_codecs) u"
  by (induction es t rule: run_route.induct) (auto split: if_splits intro: reaches.next_step route_step.step)


section \<open>Only through the Core\<close>

text \<open>
  A session relays only after the Core, on loopback, accepted its destination by name; the bytes sent
  before are the greeting and that one request, and the first packet follows them. Without a lease, or
  with any other answer, it is closed with an error code and holds nothing.
\<close>

theorem psiphon_route_exact:
  assumes "map_of (y_held t) cid = Some (Dialling l q)"
  shows "case psiphon_dialled ce cid answer drained t of (r, u) \<Rightarrow>
     (r = Going_On \<longrightarrow> map_of (y_held u) cid = Some (Carrying l q) \<and> le_host l = ''127.0.0.1''
        \<and> (\<exists>e. ce_idna ce (target_text (ce_ntop6 ce) (rq_target q)) = Some e
            \<and> snd (backend_dial ce l q answer drained)
                = [[5, 1, 0], core_request e (rq_port q)] @ (if rq_payload q = [] then [] else [rq_payload q])))
     \<and> (r \<noteq> Going_On \<longrightarrow> (\<exists>n why. r = Closed n why \<and> n \<noteq> 1000) \<and> map_of (y_held u) cid = None
        \<and> map_of (r_conns (y_run u)) cid = None \<and> le_id l \<notin> set (g_leases (y_core u)))"
proof (cases "fst (backend_dial ce l q answer drained)")
  case (Inr rest)
  then obtain bs where bs: "answer = Some bs" by (auto simp: backend_dial_def split: option.splits)
  let ?name = "target_text (ce_ntop6 ce) (rq_target q)"
  have o: "open_loopback (ce_idna ce) (le_host l) ?name (rq_port q) bs
      = (Inr x, s) \<Longrightarrow> le_host l = ''127.0.0.1'' \<and> (\<exists>e. ce_idna ce ?name = Some e \<and> s = [[5, 1, 0], core_request e (rq_port q)])" for x s
    by (auto simp: open_loopback_def socks_connect_def split: if_splits option.splits)
  obtain x s where xs: "open_loopback (ce_idna ce) (le_host l) ?name (rq_port q) bs = (x, s)" by force
  then obtain y where "x = Inr y" using Inr bs by (cases x) (auto simp: backend_dial_def)
  with xs have xs: "open_loopback (ce_idna ce) (le_host l) ?name (rq_port q) bs = (Inr y, s)" by simp
  have "snd (backend_dial ce l q answer drained) = s @ (if rq_payload q = [] then [] else [rq_payload q])"
    using xs bs by (simp add: backend_dial_def)
  then show ?thesis using assms Inr o[OF xs] by (auto simp: psiphon_dialled_def)
next
  case (Inl e)
  have f: "map_of (y_held (snd (psiphon_failed cid n why t))) cid = None
      \<and> map_of (r_conns (y_run (snd (psiphon_failed cid n why t)))) cid = None
      \<and> le_id l \<notin> set (g_leases (y_core (snd (psiphon_failed cid n why t))))" for n why
    using assms by (simp add: psiphon_failed_def psiphon_leave_def finish_def release_leases lease_of_def)
  have "\<exists>n why. psiphon_dialled ce cid answer drained t = psiphon_failed cid n why t \<and> n \<noteq> 1000"
    using assms Inl by (cases e) (auto simp: psiphon_dialled_def)
  then obtain n why where d: "psiphon_dialled ce cid answer drained t = psiphon_failed cid n why t" "n \<noteq> 1000" by blast
  have "fst (psiphon_failed cid n why t) = Closed n why" by (simp add: psiphon_failed_def)
  then show ?thesis using f[of n why] d by (simp add: split_beta)
qed

lemma psiphon_route_exact_witness:
  "snd (backend_dial sample_core_env \<lparr>le_id = ''l'', le_generation = 1, le_host = ''127.0.0.1'', le_port = 4567\<rparr> sample_request
      (Some [5, 0, 5, 0, 0, 1, 1, 2, 3, 4, 0, 80]) True)
    = [[5, 1, 0], core_request (map (\<lambda>c. ord c) ''1.2.3.4'') 443, [22]]"
proof -
  let ?l = "\<lparr>le_id = ''l'', le_generation = 1, le_host = ''127.0.0.1'', le_port = 4567\<rparr>"
  let ?t = "sample_route\<lparr>y_held := [(''c'', Dialling ?l sample_request)]\<rparr>"
  let ?a = "Some [5, 0, 5, 0, 0, 1, 1, 2, 3, 4, 0, 80] :: nat list option"
  have h: "map_of (y_held ?t) ''c'' = Some (Dialling ?l sample_request)" by simp
  have "fst (psiphon_dialled sample_core_env ''c'' ?a True ?t) = Going_On" by code_simp
  moreover have "target_text (ce_ntop6 sample_core_env) (rq_target sample_request) = ''1.2.3.4''" by code_simp
  ultimately show ?thesis using psiphon_route_exact[OF h, of sample_core_env ?a True]
    by (auto simp: split_beta sample_core_env_def ascii_bytes_def sample_request_def)
qed

end
