(* ===== verification/Updater.thy ===== *)
theory Updater
  imports Json Text_Codecs "HOL-Library.Product_Lexorder"
begin

text \<open>
  The updater (\<open>updater.py\<close>): the settings read from the environment, their validation, the calls of GitHub
  and Railway with their errors, saving of credentials, the check of the latest release and the
  deployment. The services are a list of replies that the calls consume in order; every call is
  recorded with its address, its token and its payload. \<open>parse\<close> is the JSON parser of the library.
  Version components of more than 4300 digits, which \<open>int\<close> refuses, are not treated separately.
\<close>

section \<open>Constants and errors\<close>

definition CURRENT_VERSION :: string where "CURRENT_VERSION = ''28.0.0''"
definition UPSTREAM_REPOSITORY :: string where "UPSTREAM_REPOSITORY = ''highisabella52213/Lumen-Project-Final''"
definition GITHUB_API :: string where "GITHUB_API = ''https://api.github.com''"
definition RAILWAY_GRAPHQL :: string where "RAILWAY_GRAPHQL = ''https://backboard.railway.com/graphql/v2''"
definition CHECK_SECONDS :: rat where "CHECK_SECONDS = 300"
definition MAX_RESPONSE_BYTES :: nat where "MAX_RESPONSE_BYTES = 1024 * 1024"

text \<open>\<open>Crashed\<close> is any other exception: an answer whose JSON is not of the shape the code reads.\<close>

datatype update_error = Update_Error string nat | Crashed

section \<open>Validation\<close>

definition repo_char :: "char \<Rightarrow> bool" where
  "repo_char c \<longleftrightarrow> is_ascii_letter c \<or> is_decimal c \<or> c \<in> {CHR ''_'', CHR ''.'', CHR ''-''}"

definition repo_shape :: "string \<Rightarrow> bool" where
  "repo_shape v = (case split_char CHR ''/'' v of
     [owner, name] \<Rightarrow> owner \<noteq> [] \<and> name \<noteq> [] \<and> list_all repo_char owner \<and> list_all repo_char name
   | _ \<Rightarrow> False)"

definition drop_prefix :: "string \<Rightarrow> string \<Rightarrow> string" where
  "drop_prefix p v = (if starts_with p v then drop (length p) v else v)"

definition repository :: "string \<Rightarrow> string \<Rightarrow> update_error + string" where
  "repository field value =
     (let v = drop_prefix ''https://github.com/'' (strip_by (\<lambda>c. c = CHR ''/'') (strip value));
          w = (if ends_with ''.git'' v then take (length v - 4) v else v) in
      if repo_shape w then Inr w else Inl (Update_Error (field @ '' must use owner/repository format'') 400))"

definition branch_char :: "char \<Rightarrow> bool" where
  "branch_char c \<longleftrightarrow> \<not> is_space c \<and> ord c \<notin> {126, 94, 58, 63, 42, 92, 91}"

definition git_branch :: "string \<Rightarrow> update_error + string" where
  "git_branch value =
     (let v = strip (if value = [] then ''main'' else value) in
      if v = [] \<or> length v > 200 \<or> starts_with ''-'' v \<or> starts_with ''.'' v \<or> contains ''..'' v \<or> \<not> list_all branch_char v
      then Inl (Update_Error ''Invalid Git branch'' 400) else Inr v)"

definition valid_token :: "string \<Rightarrow> string \<Rightarrow> update_error + string" where
  "valid_token field value =
     (let t = strip value in
      if length t < 20 \<or> length t > 600 \<or> list_ex (\<lambda>c. ord c < 32 \<or> ord c = 127) t
      then Inl (Update_Error (field @ '' token format is invalid'') 400) else Inr t)"

section \<open>The environment\<close>

type_synonym environ = "(string, string) dict"

definition env_value :: "environ \<Rightarrow> string \<Rightarrow> string" where
  "env_value env k = (case map_of env k of None \<Rightarrow> [] | Some v \<Rightarrow> v)"

definition github_token :: "environ \<Rightarrow> string" where
  "github_token env = strip (env_value env ''LUMEN_GITHUB_TOKEN'')"

definition railway_token :: "environ \<Rightarrow> string" where
  "railway_token env = strip (env_value env ''LUMEN_RAILWAY_TOKEN'')"

definition detected_fork :: "environ \<Rightarrow> string" where
  "detected_fork env =
     (let explicit = strip (env_value env ''LUMEN_FORK_REPO'');
          owner = strip (env_value env ''RAILWAY_GIT_REPO_OWNER'');
          name = strip (env_value env ''RAILWAY_GIT_REPO_NAME'') in
      if explicit \<noteq> [] then explicit
      else if owner \<noteq> [] \<and> name \<noteq> [] then owner @ ''/'' @ name else [])"

definition credential_source :: "environ \<Rightarrow> string" where
  "credential_source env =
     (let source = lower (strip (env_value env ''LUMEN_CREDENTIAL_SOURCE'')) in
      if source \<noteq> [] then source
      else if github_token env \<noteq> [] \<or> railway_token env \<noteq> [] then ''environment'' else ''none'')"

record update_setup =
  su_configured :: bool
  su_fork :: string
  su_branch :: string
  su_github :: bool
  su_railway :: bool
  su_locked :: bool
  su_source :: string
  su_installer :: bool
  su_context :: bool

definition setup_status :: "environ \<Rightarrow> update_setup" where
  "setup_status env =
     (let fork = detected_fork env;
          b1 = env_value env ''RAILWAY_GIT_BRANCH''; b2 = env_value env ''LUMEN_GIT_BRANCH'';
          branch = strip (if b1 \<noteq> [] then b1 else if b2 \<noteq> [] then b2 else ''main'');
          gh = github_token env \<noteq> []; rw = railway_token env \<noteq> [];
          ctx = list_all (\<lambda>k. env_value env k \<noteq> []) [''RAILWAY_PROJECT_ID'', ''RAILWAY_SERVICE_ID'', ''RAILWAY_ENVIRONMENT_ID''] in
      \<lparr>su_configured = gh \<and> rw \<and> fork \<noteq> [] \<and> ctx, su_fork = fork, su_branch = branch, su_github = gh, su_railway = rw,
       su_locked = gh \<or> rw, su_source = credential_source env, su_installer = credential_source env = ''installer'',
       su_context = ctx\<rparr>)"

section \<open>Calls\<close>

text \<open>What a service does: a body, an HTTP error with the JSON of its body, no connection, bytes that are not UTF-8.\<close>

datatype reply = Answer string | Http_Error nat "body option" | Unreachable string | Undecodable

record api_call =
  cl_url :: string
  cl_method :: string
  cl_token :: string
  cl_payload :: "json option"

record release =
  re_setup :: update_setup
  re_latest :: string
  re_tag :: string
  re_available :: bool
  re_url :: string
  re_published :: string

record gateway =
  n_env :: environ
  n_replies :: "reply list"
  n_sent :: "api_call list"
  n_cache :: "(rat \<times> release) option"

type_synonym 'a io = "gateway \<Rightarrow> (update_error + 'a) \<times> gateway"

definition io_bind :: "'a io \<Rightarrow> ('a \<Rightarrow> 'b io) \<Rightarrow> 'b io" where
  "io_bind m f g = (case m g of (Inl e, h) \<Rightarrow> (Inl e, h) | (Inr x, h) \<Rightarrow> f x h)"

definition io_result :: "update_error + 'a \<Rightarrow> 'a io" where
  "io_result r g = (r, g)"

definition http_detail :: "nat \<Rightarrow> body option \<Rightarrow> string" where
  "http_detail code b =
     (let detail = (case b of None \<Rightarrow> JNull | Some d \<Rightarrow> or_else (jget d ''message'') (jget d ''error'')) in
      take 220 (if truthy detail then py_str detail else ''Remote API returned HTTP '' @ show_nat code))"

definition request_json :: "(string \<Rightarrow> json option) \<Rightarrow> reply \<Rightarrow> update_error + json" where
  "request_json parse r = (case r of
     Answer raw \<Rightarrow>
       if length raw > MAX_RESPONSE_BYTES then Inl (Update_Error ''Remote response is too large'' 502)
       else (case parse (if raw = [] then ''{}'' else raw) of
           None \<Rightarrow> Inl (Update_Error ''Could not reach update service: '' 502) | Some j \<Rightarrow> Inr j)
   | Http_Error n b \<Rightarrow>
       Inl (Update_Error (http_detail n b) (if n = 401 \<or> n = 403 then 401 else if n = 409 then 409 else 502))
   | Unreachable why \<Rightarrow> Inl (Update_Error (''Could not reach update service: '' @ take 160 why) 502)
   | Undecodable \<Rightarrow> Inl Crashed)"

definition call :: "(string \<Rightarrow> json option) \<Rightarrow> api_call \<Rightarrow> json io" where
  "call parse c g = (case n_replies g of
     [] \<Rightarrow> (Inl (Update_Error ''Could not reach update service: '' 502), g\<lparr>n_sent := n_sent g @ [c]\<rparr>)
   | r # rs \<Rightarrow> (request_json parse r, g\<lparr>n_sent := n_sent g @ [c], n_replies := rs\<rparr>))"

text \<open>\<open>result.get\<close> on a value that is no object raises.\<close>

definition as_object :: "json \<Rightarrow> update_error + body" where
  "as_object j = (case j of JObj d \<Rightarrow> Inr d | _ \<Rightarrow> Inl Crashed)"

definition github :: "(string \<Rightarrow> json option) \<Rightarrow> string \<Rightarrow> string \<Rightarrow> json option \<Rightarrow> string \<Rightarrow> body io" where
  "github parse method route payload token =
     io_bind (call parse \<lparr>cl_url = GITHUB_API @ route, cl_method = method, cl_token = token, cl_payload = payload\<rparr>)
       (\<lambda>j. io_result (as_object j))"

definition railway_message :: "json \<Rightarrow> string" where
  "railway_message errors = (case errors of
     JArr (JObj d # r) \<Rightarrow> py_str (jget d ''message'') | _ \<Rightarrow> py_str errors)"

definition railway_payload :: "string \<Rightarrow> body \<Rightarrow> json" where
  "railway_payload gql variables = JObj [(''query'', JStr gql), (''variables'', JObj variables)]"

definition railway :: "(string \<Rightarrow> json option) \<Rightarrow> string \<Rightarrow> body \<Rightarrow> string \<Rightarrow> json io" where
  "railway parse gql variables token =
     io_bind (call parse \<lparr>cl_url = RAILWAY_GRAPHQL, cl_method = ''POST'', cl_token = token,
                         cl_payload = Some (railway_payload gql variables)\<rparr>)
       (\<lambda>j. io_result (and_then (as_object j) (\<lambda>d.
          if truthy (jget d ''errors'')
          then Inl (Update_Error (''Railway rejected the request: '' @ take 180 (railway_message (jget d ''errors''))) 502)
          else Inr (or_else (jget d ''data'') (JObj [])))))"

section \<open>Saving credentials\<close>

definition IDENTITY_QUERY :: string where
  "IDENTITY_QUERY = ''query LumenCredentialIdentity { me { id name email } }''"

definition SAVE_MUTATION :: string where
  "SAVE_MUTATION = ''mutation SaveLumenCredentials($input: VariableCollectionUpsertInput!) { variableCollectionUpsert(input: $input) }''"

definition SNAPSHOT_MUTATION :: string where
  "SNAPSHOT_MUTATION = ''mutation PersistLumenState($input: VariableCollectionUpsertInput!) { variableCollectionUpsert(input: $input) }''"

definition DEPLOY_MUTATION :: string where
  "DEPLOY_MUTATION = ''mutation DeployLumenUpdate($serviceId: String!, $environmentId: String!, $commitSha: String!) { serviceInstanceDeployV2(serviceId: $serviceId, environmentId: $environmentId, commitSha: $commitSha) }''"

definition upsert_input :: "environ \<Rightarrow> body \<Rightarrow> body" where
  "upsert_input env variables = [(''input'', JObj [(''projectId'', JStr (env_value env ''RAILWAY_PROJECT_ID'')),
     (''environmentId'', JStr (env_value env ''RAILWAY_ENVIRONMENT_ID'')), (''serviceId'', JStr (env_value env ''RAILWAY_SERVICE_ID'')),
     (''variables'', JObj variables), (''skipDeploys'', JBool True), (''replace'', JBool False)])]"

text \<open>\<open>(repo_info.get("parent") or {}).get("full_name")\<close>.\<close>

definition parent_name :: "body \<Rightarrow> update_error + string" where
  "parent_name info =
     and_then (as_object (or_else (jget info ''parent'') (JObj []))) (\<lambda>p. Inr (text_or_empty (jget p ''full_name'')))"

definition official :: "string \<Rightarrow> bool" where
  "official fork \<longleftrightarrow> lower fork = lower UPSTREAM_REPOSITORY"

definition direct_fork :: "string \<Rightarrow> string \<Rightarrow> body \<Rightarrow> bool" where
  "direct_fork fork parent info \<longleftrightarrow> official fork \<or> truthy (jget info ''fork'') \<and> lower parent = lower UPSTREAM_REPOSITORY"

record credentials =
  cr_github :: string
  cr_railway :: string
  cr_fork :: string
  cr_branch :: string

definition asked_credentials :: "environ \<Rightarrow> body \<Rightarrow> update_error + credentials" where
  "asked_credentials env data =
     (let cur = setup_status env;
          gh = strip (text_or_empty (jget data ''github_token'')); rw = strip (text_or_empty (jget data ''railway_token'')) in
      if \<not> su_context cur then Inl (Update_Error ''Railway project, service, or environment context is unavailable'' 400)
      else if su_locked cur \<and> \<not> truthy (jget data ''confirm_override'')
        then Inl (Update_Error ''Protected credentials are locked; confirm the replacement warning first'' 409)
      else and_then (valid_token ''GitHub'' (if gh \<noteq> [] then gh else github_token env)) (\<lambda>g.
        and_then (valid_token ''Railway'' (if rw \<noteq> [] then rw else railway_token env)) (\<lambda>r.
        and_then (repository ''Fork repository'' (text_or_empty (or_else (jget data ''fork_repo'') (JStr (su_fork cur))))) (\<lambda>f.
        and_then (git_branch (text_or_empty (or_else (jget data ''branch'') (JStr (su_branch cur))))) (\<lambda>b.
        Inr \<lparr>cr_github = g, cr_railway = r, cr_fork = f, cr_branch = b\<rparr>)))))"

definition checked_repository :: "string \<Rightarrow> body \<Rightarrow> update_error + unit" where
  "checked_repository fork info = and_then (parent_name info) (\<lambda>parent.
     if lower (text_or_empty (jget info ''full_name'')) \<noteq> lower fork
       then Inl (Update_Error ''GitHub token cannot access the selected repository'' 403)
     else if \<not> direct_fork fork parent info
       then Inl (Update_Error ''Selected repository is not the official source or its direct fork'' 400)
     else Inr ())"

definition saved_variables :: "environ \<Rightarrow> credentials \<Rightarrow> (string, string) dict" where
  "saved_variables env c =
     [(''LUMEN_UPSTREAM_REPO'', UPSTREAM_REPOSITORY), (''LUMEN_FORK_REPO'', cr_fork c), (''LUMEN_GITHUB_TOKEN'', cr_github c),
      (''LUMEN_RAILWAY_TOKEN'', cr_railway c), (''RAILWAY_GIT_BRANCH'', cr_branch c),
      (''LUMEN_CREDENTIAL_SOURCE'',
        if credential_source env \<in> {''installer'', ''environment'', ''manual'', ''manual_override''}
        then ''manual_override'' else ''manual'')]"

definition json_strings :: "(string, string) dict \<Rightarrow> body" where
  "json_strings d = map (\<lambda>(k, v). (k, JStr v)) d"

definition env_set :: "(string, string) dict \<Rightarrow> environ \<Rightarrow> environ" where
  "env_set vs env = fold (\<lambda>(k, v). AList.update k v) vs env"

definition store_credentials :: "(string, string) dict \<Rightarrow> update_setup io" where
  "store_credentials vs g =
     (let h = g\<lparr>n_env := env_set vs (n_env g), n_cache := None\<rparr> in (Inr (setup_status (n_env h)), h))"

definition save_setup :: "(string \<Rightarrow> json option) \<Rightarrow> json \<Rightarrow> update_setup io" where
  "save_setup parse data g =
     (let env = n_env g in
      case asked_credentials env (case data of JObj d \<Rightarrow> d | _ \<Rightarrow> []) of
        Inl e \<Rightarrow> (Inl e, g)
      | Inr c \<Rightarrow>
          io_bind (github parse ''GET'' (''/repos/'' @ cr_fork c) None (cr_github c)) (\<lambda>info.
          io_bind (io_result (checked_repository (cr_fork c) info)) (\<lambda>u.
          io_bind (railway parse IDENTITY_QUERY [] (cr_railway c)) (\<lambda>me.
          io_bind (railway parse SAVE_MUTATION (upsert_input env (json_strings (saved_variables env c))) (cr_railway c)) (\<lambda>r.
          store_credentials (saved_variables env c))))) g)"

section \<open>Versions\<close>

type_synonym version = "nat \<times> nat \<times> nat"

text \<open>\<open>(\d+)\.(\d+)(?:\.(\d+))?\<close> at the start of a text, then the first place it fits that does not follow a digit.\<close>

definition version_at :: "string \<Rightarrow> version option" where
  "version_at s =
     (let a = takeWhile is_decimal s; r = dropWhile is_decimal s; b = takeWhile is_decimal (tl r); q = dropWhile is_decimal (tl r);
          c = (if q \<noteq> [] \<and> hd q = CHR ''.'' then takeWhile is_decimal (tl q) else []) in
      if a = [] \<or> r = [] \<or> hd r \<noteq> CHR ''.'' \<or> b = [] then None
      else Some (digits_val a, digits_val b, if c = [] then 0 else digits_val c))"

fun version_search :: "bool \<Rightarrow> string \<Rightarrow> version option" where
  "version_search after_digit [] = None"
| "version_search after_digit (c # s) =
     (case (if after_digit then None else version_at (c # s)) of
        Some v \<Rightarrow> Some v | None \<Rightarrow> version_search (is_decimal c) s)"

definition version_tuple :: "string \<Rightarrow> update_error + version" where
  "version_tuple value = (case version_search False value of
     None \<Rightarrow> Inl (Update_Error ''Latest release tag does not contain a valid version'' 502) | Some v \<Rightarrow> Inr v)"

definition version_text :: "version \<Rightarrow> string" where
  "version_text v = (case v of (a, b, c) \<Rightarrow> join ''.'' [show_nat a, show_nat b, show_nat c])"

section \<open>The latest release\<close>

definition fresh_cache :: "rat \<Rightarrow> gateway \<Rightarrow> release option" where
  "fresh_cache now g = (case n_cache g of None \<Rightarrow> None | Some (t0, v) \<Rightarrow> if now - t0 < CHECK_SECONDS then Some v else None)"

definition release_value :: "environ \<Rightarrow> body \<Rightarrow> update_error + release" where
  "release_value env info =
     (let tag = text_or_empty (or_else (jget info ''tag_name'') (jget info ''name'')) in
      and_then (version_tuple tag) (\<lambda>v. and_then (version_tuple (version_text v)) (\<lambda>w. and_then (version_tuple CURRENT_VERSION) (\<lambda>cur.
        Inr \<lparr>re_setup = setup_status env, re_latest = version_text v, re_tag = tag, re_available = cur < w,
             re_url = text_or_empty (jget info ''html_url''), re_published = text_or_empty (jget info ''published_at'')\<rparr>))))"

definition keep_release :: "rat \<Rightarrow> release \<Rightarrow> release io" where
  "keep_release now v g = (Inr v, g\<lparr>n_cache := Some (now, v)\<rparr>)"

definition check_latest :: "(string \<Rightarrow> json option) \<Rightarrow> bool \<Rightarrow> rat \<Rightarrow> release io" where
  "check_latest parse force now g = (case (if force then None else fresh_cache now g) of
     Some v \<Rightarrow> (Inr v, g)
   | None \<Rightarrow>
       io_bind (github parse ''GET'' (''/repos/'' @ UPSTREAM_REPOSITORY @ ''/releases/latest'') None (github_token (n_env g)))
         (\<lambda>info h. io_bind (io_result (release_value (n_env h) info)) (keep_release now) h) g)"

section \<open>Deployment\<close>

text \<open>\<open>urllib.parse.quote(text, safe="")\<close> on code points below 256.\<close>

definition quote_all :: "string \<Rightarrow> string" where
  "quote_all s = quote_points [] (points s)"

definition is_sha :: "string \<Rightarrow> bool" where
  "is_sha s \<longleftrightarrow> length s = 40 \<and> list_all (\<lambda>c. is_decimal c \<or> ord c \<in> {65..70} \<or> ord c \<in> {97..102}) s"

datatype applied = Already_Current release | Started string string json

definition configured_target :: "environ \<Rightarrow> update_error + string \<times> string" where
  "configured_target env =
     (let st = setup_status env in
      if \<not> su_configured st then Inl (Update_Error ''Complete update credentials in Settings first'' 400)
      else and_then (repository ''Fork repository'' (su_fork st)) (\<lambda>f. and_then (git_branch (su_branch st)) (\<lambda>b. Inr (f, b))))"

definition allowed_source :: "string \<Rightarrow> body \<Rightarrow> update_error + unit" where
  "allowed_source fork info = and_then (parent_name info) (\<lambda>parent.
     if direct_fork fork parent info then Inr ()
     else Inl (Update_Error ''Configured repository is not a fork of the official source'' 400))"

definition merge_upstream :: "(string \<Rightarrow> json option) \<Rightarrow> string \<Rightarrow> string \<Rightarrow> string \<Rightarrow> unit io" where
  "merge_upstream parse fork branch token =
     (if official fork then io_result (Inr ())
      else io_bind (call parse \<lparr>cl_url = GITHUB_API @ ''/repos/'' @ fork @ ''/merge-upstream'', cl_method = ''POST'', cl_token = token,
                               cl_payload = Some (JObj [(''branch'', JStr branch)])\<rparr>) (\<lambda>j. io_result (Inr ())))"

definition commit_sha :: "body \<Rightarrow> update_error + string" where
  "commit_sha info =
     (let sha = text_or_empty (jget info ''sha'') in
      if is_sha sha then Inr sha else Inl (Update_Error ''GitHub did not return a valid branch commit'' 502))"

text \<open>Everything up to the commit that will be deployed.\<close>

definition find_commit :: "(string \<Rightarrow> json option) \<Rightarrow> environ \<Rightarrow> string \<Rightarrow> string \<Rightarrow> string io" where
  "find_commit parse env fork branch =
     io_bind (github parse ''GET'' (''/repos/'' @ fork) None (github_token env)) (\<lambda>info.
     io_bind (io_result (allowed_source fork info)) (\<lambda>u.
     io_bind (merge_upstream parse fork branch (github_token env)) (\<lambda>v.
     io_bind (github parse ''GET'' (''/repos/'' @ fork @ ''/commits/'' @ quote_all branch) None (github_token env)) (\<lambda>c.
     io_result (commit_sha c)))))"

definition persist_snapshot :: "(string \<Rightarrow> json option) \<Rightarrow> environ \<Rightarrow> string \<Rightarrow> unit io" where
  "persist_snapshot parse env snapshot =
     (if snapshot = [] then io_result (Inr ())
      else io_bind (railway parse SNAPSHOT_MUTATION (upsert_input env [(''LUMEN_STATE_SNAPSHOT_B64'', JStr snapshot)]) (railway_token env))
             (\<lambda>r. io_result (Inr ())))"

definition deploy_variables :: "environ \<Rightarrow> string \<Rightarrow> body" where
  "deploy_variables env sha = [(''serviceId'', JStr (env_value env ''RAILWAY_SERVICE_ID'')),
     (''environmentId'', JStr (env_value env ''RAILWAY_ENVIRONMENT_ID'')), (''commitSha'', JStr sha)]"

definition worth_retry :: "update_error \<Rightarrow> bool" where
  "worth_retry e = (case e of Update_Error m n \<Rightarrow> contains ''commit'' (lower m) | Crashed \<Rightarrow> False)"

text \<open>\<open>n\<close> attempts are left; a refusal that mentions the commit is tried again.\<close>

primrec deploy :: "(string \<Rightarrow> json option) \<Rightarrow> environ \<Rightarrow> string \<Rightarrow> nat \<Rightarrow> body io" where
  "deploy parse env sha 0 g = (Inl (Update_Error ''Railway deployment failed'' 502), g)"
| "deploy parse env sha (Suc n) g =
     (case io_bind (railway parse DEPLOY_MUTATION (deploy_variables env sha) (railway_token env)) (\<lambda>j. io_result (as_object j)) g of
        (Inr d, h) \<Rightarrow> (Inr d, h)
      | (Inl e, h) \<Rightarrow> if 0 < n \<and> worth_retry e then deploy parse env sha n h else (Inl e, h))"

definition apply_latest :: "(string \<Rightarrow> json option) \<Rightarrow> rat \<Rightarrow> string \<Rightarrow> applied io" where
  "apply_latest parse now snapshot g =
     (let env = n_env g in
      case configured_target env of
        Inl e \<Rightarrow> (Inl e, g)
      | Inr (fork, branch) \<Rightarrow>
          io_bind (check_latest parse True now) (\<lambda>latest.
            if \<not> re_available latest then io_result (Inr (Already_Current latest))
            else io_bind (find_commit parse env fork branch) (\<lambda>sha.
                 io_bind (persist_snapshot parse env snapshot) (\<lambda>u.
                 io_bind (deploy parse env sha 3) (\<lambda>d.
                 io_result (Inr (Started (re_latest latest) (take 12 sha) (jget d ''serviceInstanceDeployV2''))))))) g)"

section \<open>Calls and what they leave behind\<close>

definition did :: "gateway \<Rightarrow> api_call list \<Rightarrow> gateway \<Rightarrow> bool" where
  "did g cs h \<longleftrightarrow> n_env h = n_env g \<and> n_sent h = n_sent g @ cs"

lemma did_Nil [simp]: "did g [] g"
  by (simp add: did_def)

lemma did_trans: "did g cs h \<Longrightarrow> did h ds k \<Longrightarrow> did g (cs @ ds) k"
  by (simp add: did_def)

lemma bind_cases:
  assumes "io_bind m f g = (r, h)"
  obtains e where "m g = (Inl e, h)" "r = Inl e" | x k where "m g = (Inr x, k)" "f x k = (r, h)"
  using assms by (auto simp: io_bind_def split: prod.splits sum.splits)

lemma result_eq [simp]: "io_result x g = (r, h) \<longleftrightarrow> r = x \<and> h = g"
  by (auto simp: io_result_def)

lemma call_did: "call parse c g = (r, h) \<Longrightarrow> did g [c] h"
  by (auto simp: call_def did_def split: list.splits)

lemma call_ok: "call parse c g = (Inr j, h) \<Longrightarrow> \<exists>q. n_replies g = q # n_replies h \<and> request_json parse q = Inr j"
  by (auto simp: call_def split: list.splits)

definition github_call :: "string \<Rightarrow> string \<Rightarrow> json option \<Rightarrow> string \<Rightarrow> api_call" where
  "github_call method route payload token = \<lparr>cl_url = GITHUB_API @ route, cl_method = method, cl_token = token, cl_payload = payload\<rparr>"

definition railway_call :: "string \<Rightarrow> body \<Rightarrow> string \<Rightarrow> api_call" where
  "railway_call gql variables token = \<lparr>cl_url = RAILWAY_GRAPHQL, cl_method = ''POST'', cl_token = token,
     cl_payload = Some (railway_payload gql variables)\<rparr>"

lemma github_did: "github parse method route payload token g = (r, h) \<Longrightarrow> did g [github_call method route payload token] h"
  unfolding github_def github_call_def by (elim bind_cases) (auto dest: call_did)

lemma github_ok: "github parse method route payload token g = (Inr d, h) \<Longrightarrow>
    \<exists>q. n_replies g = q # n_replies h \<and> request_json parse q = Inr (JObj d)"
  unfolding github_def by (elim bind_cases) (auto dest!: call_ok simp: as_object_def split: json.splits)

lemma railway_did: "railway parse gql variables token g = (r, h) \<Longrightarrow> did g [railway_call gql variables token] h"
  unfolding railway_def railway_call_def by (elim bind_cases) (auto dest: call_did)

text \<open>An answer with which Railway took the request: an object of JSON without errors.\<close>

definition railway_accepts :: "(string \<Rightarrow> json option) \<Rightarrow> reply \<Rightarrow> bool" where
  "railway_accepts parse q \<longleftrightarrow> (\<exists>d. request_json parse q = Inr (JObj d) \<and> \<not> truthy (jget d ''errors''))"

lemma railway_ok: "railway parse gql variables token g = (Inr j, h) \<Longrightarrow> \<exists>q. n_replies g = q # n_replies h \<and> railway_accepts parse q"
  unfolding railway_def
  by (elim bind_cases) (auto dest!: call_ok simp: as_object_def and_then_Inr railway_accepts_def split: json.splits if_splits)

text \<open>The official repository, or a fork of which GitHub says that the official one is its parent.\<close>

definition genuine_source :: "string \<Rightarrow> body \<Rightarrow> bool" where
  "genuine_source fork info \<longleftrightarrow> lower fork = lower UPSTREAM_REPOSITORY \<or> truthy (jget info ''fork'')
     \<and> (\<exists>p. or_else (jget info ''parent'') (JObj []) = JObj p \<and> lower (text_or_empty (jget p ''full_name'')) = lower UPSTREAM_REPOSITORY)"

lemma parent_name_eq: "parent_name info = Inr parent \<Longrightarrow> \<exists>p. or_else (jget info ''parent'') (JObj []) = JObj p
    \<and> parent = text_or_empty (jget p ''full_name'')"
  by (auto simp: parent_name_def and_then_Inr as_object_def split: json.splits)

lemma allowed_genuine: "allowed_source fork info = Inr () \<Longrightarrow> genuine_source fork info"
  by (auto simp: allowed_source_def and_then_Inr direct_fork_def official_def genuine_source_def dest!: parent_name_eq split: if_splits)

lemma checked_genuine: "checked_repository fork info = Inr () \<Longrightarrow>
    genuine_source fork info \<and> lower (text_or_empty (jget info ''full_name'')) = lower fork"
  by (auto simp: checked_repository_def and_then_Inr direct_fork_def official_def genuine_source_def dest!: parent_name_eq split: if_splits)

lemma commit_hash: "commit_sha info = Inr sha \<Longrightarrow> sha = text_or_empty (jget info ''sha'') \<and> length sha = 40
    \<and> (\<forall>c\<in>set sha. is_decimal c \<or> ord c \<in> {65..70} \<union> {97..102})"
  by (auto simp: commit_sha_def Let_def is_sha_def list_all_iff split: if_splits)

lemma call_cache: "call parse c g = (r, h) \<Longrightarrow> n_cache h = n_cache g"
  by (auto simp: call_def split: list.splits)

lemma github_cache: "github parse method route payload token g = (r, h) \<Longrightarrow> n_cache h = n_cache g"
  unfolding github_def by (elim bind_cases) (auto dest: call_cache)

lemma railway_cache: "railway parse gql variables token g = (r, h) \<Longrightarrow> n_cache h = n_cache g"
  unfolding railway_def by (elim bind_cases) (auto dest: call_cache)

lemma github_url [simp]: "cl_url (github_call method route payload token) \<noteq> RAILWAY_GRAPHQL"
  by (simp add: github_call_def GITHUB_API_def RAILWAY_GRAPHQL_def)

section \<open>Versions are read back as they are written\<close>

lemma take_digits: "takeWhile is_decimal (show_nat n @ CHR ''.'' # t) = show_nat n"
  and drop_digits: "dropWhile is_decimal (show_nat n @ CHR ''.'' # t) = CHR ''.'' # t"
proof -
  have d: "\<forall>c \<in> set (show_nat n). is_decimal c" by (auto dest: show_nat_decimal)
  have p: "\<not> is_decimal CHR ''.''" by code_simp
  show "takeWhile is_decimal (show_nat n @ CHR ''.'' # t) = show_nat n" using d p by (subst takeWhile_append2) auto
  show "dropWhile is_decimal (show_nat n @ CHR ''.'' # t) = CHR ''.'' # t" using d p by (subst dropWhile_append2) auto
qed

lemma take_all_digits: "takeWhile is_decimal (show_nat n) = show_nat n"
  by (auto simp: takeWhile_eq_all_conv dest: show_nat_decimal)

lemma version_at_text: "version_at (version_text v) = Some v"
proof -
  obtain a b c where v: "v = (a, b, c)" by (cases v) auto
  have t: "version_text v = show_nat a @ CHR ''.'' # show_nat b @ CHR ''.'' # show_nat c"
    by (simp add: version_text_def v)
  show ?thesis unfolding t
    by (simp add: version_at_def Let_def take_digits drop_digits take_all_digits digits_val_show_nat v)
qed

lemma version_round_trip: "version_search False (version_text v) = Some v"
proof (cases "version_text v")
  case Nil
  then show ?thesis by (cases v) (simp add: version_text_def)
next
  case (Cons c s)
  then show ?thesis using version_at_text[of v] by simp
qed

lemma current_version: "version_tuple CURRENT_VERSION = Inr (28, 0, 0)"
  by code_simp

text \<open>
  A release is offered exactly when the version in its tag is greater than the running one, compared
  number by number; the version shown is read back as the same numbers.
\<close>

theorem release_offered_iff_newer:
  assumes "release_value env info = Inr r"
  shows "\<exists>v. version_search False (re_tag r) = Some v \<and> version_search False (re_latest r) = Some v
    \<and> (re_available r \<longleftrightarrow> (28, 0, 0) < v)"
proof -
  obtain v where v: "version_tuple (re_tag r) = Inr v" "re_latest r = version_text v"
      "version_tuple (version_text v) = Inr w \<Longrightarrow> re_available r = ((28, 0, 0) < w)" for w
    using assms by (auto simp: release_value_def Let_def and_then_Inr current_version)
  have t: "version_tuple (version_text v) = Inr v" by (simp add: version_tuple_def version_round_trip)
  show ?thesis using v(1,2) v(3)[OF t] version_round_trip[of v] by (auto simp: version_tuple_def split: option.splits)
qed

lemma release_offered_iff_newer_witness:
  "\<exists>r. release_value [] [(''tag_name'', JStr ''Lumen v28.10'')] = Inr r \<and> re_latest r = ''28.10.0'' \<and> re_available r"
proof -
  have "map_option (\<lambda>r. (re_latest r, re_tag r)) (ok_value (release_value [] [(''tag_name'', JStr ''Lumen v28.10'')]))
      = Some (''28.10.0'', ''Lumen v28.10'')" by code_simp
  then obtain r where r: "release_value [] [(''tag_name'', JStr ''Lumen v28.10'')] = Inr r" "re_latest r = ''28.10.0''"
    by auto
  have v: "version_search False ''28.10.0'' = Some (28, 10, 0)" by code_simp
  have "re_available r" using release_offered_iff_newer[OF r(1)] unfolding r(2) v by auto
  then show ?thesis using r by blast
qed

section \<open>Deploying\<close>

definition release_call :: "environ \<Rightarrow> api_call" where
  "release_call env = github_call ''GET'' (''/repos/'' @ UPSTREAM_REPOSITORY @ ''/releases/latest'') None (github_token env)"

definition repo_call :: "string \<Rightarrow> string \<Rightarrow> api_call" where
  "repo_call fork token = github_call ''GET'' (''/repos/'' @ fork) None token"

definition merge_calls :: "environ \<Rightarrow> string \<Rightarrow> string \<Rightarrow> api_call list" where
  "merge_calls env fork branch =
     (if official fork then []
      else [github_call ''POST'' (''/repos/'' @ fork @ ''/merge-upstream'') (Some (JObj [(''branch'', JStr branch)])) (github_token env)])"

definition commit_call :: "environ \<Rightarrow> string \<Rightarrow> string \<Rightarrow> api_call" where
  "commit_call env fork branch = github_call ''GET'' (''/repos/'' @ fork @ ''/commits/'' @ quote_all branch) None (github_token env)"

definition snapshot_calls :: "environ \<Rightarrow> string \<Rightarrow> api_call list" where
  "snapshot_calls env snapshot = (if snapshot = [] then []
     else [railway_call SNAPSHOT_MUTATION (upsert_input env [(''LUMEN_STATE_SNAPSHOT_B64'', JStr snapshot)]) (railway_token env)])"

definition deploy_call :: "environ \<Rightarrow> string \<Rightarrow> api_call" where
  "deploy_call env sha = railway_call DEPLOY_MUTATION (deploy_variables env sha) (railway_token env)"

lemma check_forced:
  assumes "check_latest parse True now g = (r, h)"
  shows "did g [release_call (n_env g)] h"
    and "r = Inr v \<Longrightarrow> \<exists>q info. n_replies g = q # n_replies h \<and> request_json parse q = Inr (JObj info)
      \<and> release_value (n_env g) info = Inr v"
proof -
  let ?m = "github parse ''GET'' (''/repos/'' @ UPSTREAM_REPOSITORY @ ''/releases/latest'') None (github_token (n_env g))"
  obtain x k where k: "?m g = (x, k)" by force
  have d: "did g [release_call (n_env g)] k" using github_did[OF k] by (simp add: release_call_def)
  have e: "n_env k = n_env g" using d by (simp add: did_def)
  have h: "h = k \<or> (\<exists>v. h = k\<lparr>n_cache := Some (now, v)\<rparr>)"
    using assms k by (auto simp: check_latest_def io_bind_def io_result_def keep_release_def split: sum.splits)
  then show "did g [release_call (n_env g)] h" using d by (auto simp: did_def)
  show "\<exists>q info. n_replies g = q # n_replies h \<and> request_json parse q = Inr (JObj info) \<and> release_value (n_env g) info = Inr v"
    if rv: "r = Inr v"
  proof -
    obtain info where i: "x = Inr info" "release_value (n_env k) info = Inr v" "n_replies h = n_replies k"
      using assms k rv by (auto simp: check_latest_def io_bind_def io_result_def keep_release_def split: sum.splits)
    then show ?thesis using github_ok[OF k[unfolded i(1)]] i(2) e by auto
  qed
qed

lemma merge_did:
  assumes "merge_upstream parse fork branch (github_token env) g = (r, h)"
  shows "\<exists>cs. did g cs h \<and> (\<forall>c \<in> set cs. cl_url c \<noteq> RAILWAY_GRAPHQL)
    \<and> (r = Inr u \<longrightarrow> cs = merge_calls env fork branch \<and> (\<exists>qs. n_replies g = qs @ n_replies h))"
proof (cases "official fork")
  case True
  then show ?thesis using assms by (intro exI[of _ "[]"]) (simp add: merge_upstream_def merge_calls_def)
next
  case False
  let ?c = "github_call ''POST'' (''/repos/'' @ fork @ ''/merge-upstream'') (Some (JObj [(''branch'', JStr branch)])) (github_token env)"
  obtain x k where k: "call parse ?c g = (x, k)" by force
  have "did g [?c] k" by (rule call_did[OF k])
  moreover have "h = k \<and> (r = Inr u \<longrightarrow> (\<exists>j. x = Inr j))"
    using assms k False by (auto simp: merge_upstream_def github_call_def io_bind_def split: sum.splits)
  ultimately show ?thesis using call_ok[of parse ?c g _ k] k False
    by (intro exI[of _ "[?c]"]) (auto simp: merge_calls_def)
qed

text \<open>What the commit that will be deployed rests on.\<close>

definition commit_found :: "(string \<Rightarrow> json option) \<Rightarrow> string \<Rightarrow> reply list \<Rightarrow> string \<Rightarrow> reply list \<Rightarrow> bool" where
  "commit_found parse fork qs sha rest \<longleftrightarrow> (\<exists>q1 mid q2 info c. qs = q1 # mid @ q2 # rest
     \<and> request_json parse q1 = Inr (JObj info) \<and> genuine_source fork info
     \<and> request_json parse q2 = Inr (JObj c) \<and> sha = text_or_empty (jget c ''sha'') \<and> length sha = 40
     \<and> (\<forall>x\<in>set sha. is_decimal x \<or> ord x \<in> {65..70} \<union> {97..102}))"

text \<open>The snapshot, when there is one, is stored: the next answer is an acceptance.\<close>

definition snapshot_stored :: "(string \<Rightarrow> json option) \<Rightarrow> string \<Rightarrow> reply list \<Rightarrow> bool" where
  "snapshot_stored parse snapshot qs \<longleftrightarrow> snapshot = [] \<or> (\<exists>q rest. qs = q # rest \<and> railway_accepts parse q)"

lemma find_commit_did:
  assumes "find_commit parse env fork branch g = (r, h)"
  shows "\<exists>cs. did g cs h \<and> (\<forall>c \<in> set cs. cl_url c \<noteq> RAILWAY_GRAPHQL)
    \<and> (\<forall>sha. r = Inr sha \<longrightarrow> cs = repo_call fork (github_token env) # merge_calls env fork branch @ [commit_call env fork branch]
          \<and> commit_found parse fork (n_replies g) sha (n_replies h))"
  using assms unfolding find_commit_def
proof (elim bind_cases, goal_cases)
  case (1 e)
  then show ?case using github_did by (fastforce simp: repo_call_def)
next
  case (2 info k e)
  then show ?case using github_did[of parse _ _ _ _ g _ k] by (intro exI[of _ "[repo_call fork (github_token env)]"]) (auto simp: repo_call_def)
next
  case (3 info k u k2 e)
  then have m: "merge_upstream parse fork branch (github_token env) k = (Inl e, h)" by simp
  have a: "did g [repo_call fork (github_token env)] k" using 3(1) github_did by (force simp: repo_call_def)
  obtain cs where "did k cs h" "\<forall>c \<in> set cs. cl_url c \<noteq> RAILWAY_GRAPHQL" using merge_did[OF m] by blast
  then show ?case using did_trans[OF a] 3 by (intro exI[of _ "[repo_call fork (github_token env)] @ cs"]) (auto simp: repo_call_def)
next
  case (4 info k u k2 v k3 e)
  then have m: "merge_upstream parse fork branch (github_token env) k = (Inr v, k3)" by simp
  have a: "did g [repo_call fork (github_token env)] k" using 4(1) github_did by (force simp: repo_call_def)
  have b: "did k3 [commit_call env fork branch] h" using 4(4) github_did by (force simp: commit_call_def)
  obtain cs where "did k cs k3" "\<forall>c \<in> set cs. cl_url c \<noteq> RAILWAY_GRAPHQL" using merge_did[OF m] by blast
  then show ?case using did_trans[OF did_trans[OF a] b] 4(5)
    by (intro exI[of _ "([repo_call fork (github_token env)] @ cs) @ [commit_call env fork branch]"]) (auto simp: repo_call_def commit_call_def)
next
  case (5 info k u k2 v k3 c k4)
  then have m: "merge_upstream parse fork branch (github_token env) k = (Inr v, k3)" and k: "h = k4" "r = commit_sha c" "allowed_source fork info = Inr ()"
    by auto
  have a: "did g [repo_call fork (github_token env)] k" using 5(1) github_did by (force simp: repo_call_def)
  have b: "did k3 [commit_call env fork branch] h" using 5(4) github_did k(1) by (force simp: commit_call_def)
  obtain qs where cs: "did k (merge_calls env fork branch) k3" "\<forall>c \<in> set (merge_calls env fork branch). cl_url c \<noteq> RAILWAY_GRAPHQL"
      "n_replies k = qs @ n_replies k3" using merge_did[OF m, of v] by auto
  have "commit_found parse fork (n_replies g) sha (n_replies h)" if "r = Inr sha" for sha
    using github_ok[OF 5(1)] github_ok[OF 5(4)] cs(3) allowed_genuine[OF k(3)] commit_hash[of c sha] k(1,2) that
    unfolding commit_found_def by (metis append.assoc)
  then show ?case using did_trans[OF did_trans[OF a cs(1)] b] cs(2)
    by (intro exI[of _ "([repo_call fork (github_token env)] @ merge_calls env fork branch) @ [commit_call env fork branch]"])
       (auto simp: repo_call_def commit_call_def)
qed

lemma persist_did: "persist_snapshot parse env snapshot g = (r, h) \<Longrightarrow> did g (snapshot_calls env snapshot) h"
  unfolding persist_snapshot_def snapshot_calls_def
  by (cases "snapshot = []") (auto elim!: bind_cases dest: railway_did)

lemma persist_stored: "persist_snapshot parse env snapshot g = (Inr u, h) \<Longrightarrow> snapshot_stored parse snapshot (n_replies g)"
  unfolding persist_snapshot_def snapshot_stored_def
  by (cases "snapshot = []") (auto elim!: bind_cases dest!: railway_ok)

lemma deploy_did: "deploy parse env sha n g = (r, h) \<Longrightarrow> \<exists>k \<le> n. did g (replicate k (deploy_call env sha)) h \<and> (r = Inr d \<longrightarrow> 0 < k)"
proof (induction n arbitrary: g)
  case 0
  then show ?case by auto
next
  case (Suc n)
  obtain x k where x: "io_bind (railway parse DEPLOY_MUTATION (deploy_variables env sha) (railway_token env)) (\<lambda>j. io_result (as_object j)) g = (x, k)"
    by force
  have one: "did g [deploy_call env sha] k" using x by (auto elim!: bind_cases dest: railway_did simp: deploy_call_def)
  show ?case
  proof (cases "\<exists>e. x = Inl e \<and> 0 < n \<and> worth_retry e")
    case True
    then have "deploy parse env sha n k = (r, h)" using Suc.prems x by auto
    from Suc.IH[OF this] obtain j where j: "j \<le> n" "did k (replicate j (deploy_call env sha)) h" by blast
    then show ?thesis using did_trans[OF one j(2)] by (intro exI[of _ "Suc j"]) simp
  next
    case False
    then have "h = k" using Suc.prems x by (auto split: sum.splits if_splits)
    then show ?thesis using one by (intro exI[of _ "1"]) simp
  qed
qed

definition before_deploy :: "environ \<Rightarrow> string \<Rightarrow> string \<Rightarrow> api_call list" where
  "before_deploy env fork branch = release_call env # repo_call fork (github_token env) # merge_calls env fork branch @ [commit_call env fork branch]"

definition after_commit :: "(string \<Rightarrow> json option) \<Rightarrow> environ \<Rightarrow> string \<Rightarrow> string \<Rightarrow> string \<Rightarrow> applied io" where
  "after_commit parse env snapshot shown sha =
     io_bind (persist_snapshot parse env snapshot) (\<lambda>u. io_bind (deploy parse env sha 3) (\<lambda>d.
       io_result (Inr (Started shown (take 12 sha) (jget d ''serviceInstanceDeployV2'')))))"

lemma after_commit_did:
  assumes "after_commit parse env snapshot shown sha g = (r, h)"
  shows "\<exists>n \<le> 3. did g (snapshot_calls env snapshot @ replicate n (deploy_call env sha)) h
    \<and> (0 < n \<longrightarrow> snapshot_stored parse snapshot (n_replies g))
    \<and> (\<forall>v c d. r = Inr (Started v c d) \<longrightarrow> v = shown \<and> c = take 12 sha \<and> 0 < n)"
  using assms unfolding after_commit_def
proof (elim bind_cases)
  fix e assume "persist_snapshot parse env snapshot g = (Inl e, h)" "r = Inl e"
  then show ?thesis using persist_did by (intro exI[of _ 0]) auto
next
  fix u k e assume k: "persist_snapshot parse env snapshot g = (Inr u, k)" "deploy parse env sha 3 k = (Inl e, h)" "r = Inl e"
  then show ?thesis using deploy_did[OF k(2), of undefined] did_trans[OF persist_did[OF k(1)]] persist_stored[OF k(1)] by auto
next
  fix u k d k2 assume k: "persist_snapshot parse env snapshot g = (Inr u, k)" "deploy parse env sha 3 k = (Inr d, k2)"
    "io_result (Inr (Started shown (take 12 sha) (jget d ''serviceInstanceDeployV2''))) k2 = (r, h)"
  then show ?thesis using deploy_did[OF k(2), of d] did_trans[OF persist_did[OF k(1)]] persist_stored[OF k(1)] by auto
qed

lemma commit_stage:
  assumes "io_bind (find_commit parse env fork branch) (after_commit parse env snapshot shown) g = (r, h)"
  shows "(\<exists>cs. did g cs h \<and> (\<forall>c \<in> set cs. cl_url c \<noteq> RAILWAY_GRAPHQL) \<and> (\<exists>e. r = Inl e)) \<or>
    (\<exists>sha n rest. commit_found parse fork (n_replies g) sha rest \<and> n \<le> 3
      \<and> (0 < n \<longrightarrow> snapshot_stored parse snapshot rest)
      \<and> did g (repo_call fork (github_token env) # merge_calls env fork branch @ [commit_call env fork branch]
               @ snapshot_calls env snapshot @ replicate n (deploy_call env sha)) h
      \<and> (\<forall>v c d. r = Inr (Started v c d) \<longrightarrow> v = shown \<and> c = take 12 sha \<and> 0 < n))"
  using assms
proof (cases rule: bind_cases)
  case (1 e)
  then show ?thesis using find_commit_did[OF 1(1)] by auto
next
  case (2 sha k)
  obtain n where n: "n \<le> 3" "did k (snapshot_calls env snapshot @ replicate n (deploy_call env sha)) h"
      "\<forall>v c d. r = Inr (Started v c d) \<longrightarrow> v = shown \<and> c = take 12 sha \<and> 0 < n"
      "0 < n \<longrightarrow> snapshot_stored parse snapshot (n_replies k)"
    using after_commit_did[OF 2(2)] by blast
  have f: "did g (repo_call fork (github_token env) # merge_calls env fork branch @ [commit_call env fork branch]) k"
      "commit_found parse fork (n_replies g) sha (n_replies k)" using find_commit_did[OF 2(1)] by auto
  moreover have "did g (repo_call fork (github_token env) # merge_calls env fork branch @ [commit_call env fork branch]
      @ snapshot_calls env snapshot @ replicate n (deploy_call env sha)) h" using did_trans[OF f(1) n(2)] by simp
  ultimately show ?thesis using n(1,3,4) by blast
qed

lemma offered_newer: "release_value env info = Inr r \<Longrightarrow> re_available r \<Longrightarrow>
    \<exists>v. version_search False (re_tag r) = Some v \<and> (28, 0, 0) < v"
  using release_offered_iff_newer by blast

text \<open>
  C10. Railway hears of an update only after GitHub answered everything before: the configured repository
  is the official one or GitHub names the official one as its parent, the latest release is newer than the
  running version, and the commit is the head of the configured branch after the merge, a full hash. A
  deployment is asked for only when Railway accepted the snapshot of the state (answered without errors), if
  there is one; then at most three deployments of exactly that commit are asked for. The environment is
  untouched.
\<close>

theorem update_deploys_checked_commit:
  assumes "apply_latest parse now snapshot g = (r, h)"
  shows "\<exists>cs. n_env h = n_env g \<and> n_sent h = n_sent g @ cs \<and>
    ((\<forall>c \<in> set cs. cl_url c \<noteq> RAILWAY_GRAPHQL) \<and> (\<forall>v c d. r \<noteq> Inr (Started v c d)) \<or>
     (\<exists>fork branch latest new sha n q info qs rest. configured_target (n_env g) = Inr (fork, branch)
        \<and> n_replies g = q # qs \<and> request_json parse q = Inr (JObj info) \<and> release_value (n_env g) info = Inr latest
        \<and> version_search False (re_tag latest) = Some new \<and> (28, 0, 0) < new
        \<and> commit_found parse fork qs sha rest \<and> n \<le> 3
        \<and> (0 < n \<longrightarrow> snapshot_stored parse snapshot rest)
        \<and> cs = before_deploy (n_env g) fork branch @ snapshot_calls (n_env g) snapshot @ replicate n (deploy_call (n_env g) sha)
        \<and> (\<forall>v c d. r = Inr (Started v c d) \<longrightarrow> v = re_latest latest \<and> c = take 12 sha \<and> 0 < n)))"
proof (cases "configured_target (n_env g)")
  case (Inl e)
  then show ?thesis using assms by (intro exI[of _ "[]"]) (auto simp: apply_latest_def)
next
  case (Inr fb)
  obtain fork branch where fb: "fb = (fork, branch)" by force
  let ?env = "n_env g"
  have run: "io_bind (check_latest parse True now) (\<lambda>latest. if \<not> re_available latest then io_result (Inr (Already_Current latest))
      else io_bind (find_commit parse ?env fork branch) (after_commit parse ?env snapshot (re_latest latest))) g = (r, h)"
    using assms Inr fb unfolding after_commit_def[abs_def] by (simp add: apply_latest_def Let_def)
  show ?thesis
  proof (cases rule: bind_cases[OF run])
    case (1 e)
    then show ?thesis using check_forced(1)[OF 1(1)] by (intro exI[of _ "[release_call ?env]"]) (auto simp: did_def release_call_def)
  next
    case (2 latest k)
    note c = check_forced(1)[OF 2(1)]
    obtain q info where q: "n_replies g = q # n_replies k" "request_json parse q = Inr (JObj info)" "release_value ?env info = Inr latest"
      using check_forced(2)[OF 2(1)] by blast
    show ?thesis
    proof (cases "re_available latest")
      case False
      then show ?thesis using 2 c by (intro exI[of _ "[release_call ?env]"]) (auto simp: did_def release_call_def)
    next
      case True
      then have s: "io_bind (find_commit parse ?env fork branch) (after_commit parse ?env snapshot (re_latest latest)) k = (r, h)"
        using 2(2) by simp
      show ?thesis
      proof (cases "\<exists>cs. did k cs h \<and> (\<forall>c \<in> set cs. cl_url c \<noteq> RAILWAY_GRAPHQL) \<and> (\<exists>e. r = Inl e)")
        case True
        then obtain cs where cs: "did k cs h" "\<forall>c \<in> set cs. cl_url c \<noteq> RAILWAY_GRAPHQL" "\<exists>e. r = Inl e" by blast
        have "cl_url (release_call ?env) \<noteq> RAILWAY_GRAPHQL" by (simp add: release_call_def)
        then show ?thesis using did_trans[OF c cs(1)] cs(2,3) unfolding did_def by (intro exI[of _ "[release_call ?env] @ cs"]) auto
      next
        case False
        then obtain sha n rest where d: "commit_found parse fork (n_replies k) sha rest" "n \<le> 3"
            "0 < n \<longrightarrow> snapshot_stored parse snapshot rest"
            "did k (repo_call fork (github_token ?env) # merge_calls ?env fork branch @ [commit_call ?env fork branch]
               @ snapshot_calls ?env snapshot @ replicate n (deploy_call ?env sha)) h"
            "\<forall>v c d. r = Inr (Started v c d) \<longrightarrow> v = re_latest latest \<and> c = take 12 sha \<and> 0 < n"
          using commit_stage[OF s] by blast
        obtain new where new: "version_search False (re_tag latest) = Some new" "(28, 0, 0) < new"
          using offered_newer[OF q(3) True] by blast
        let ?cs = "before_deploy ?env fork branch @ snapshot_calls ?env snapshot @ replicate n (deploy_call ?env sha)"
        have "n_env h = ?env" "n_sent h = n_sent g @ ?cs"
          using did_trans[OF c d(4)] by (simp_all add: did_def before_deploy_def)
        moreover have "configured_target ?env = Inr (fork, branch)" using Inr fb by simp
        ultimately show ?thesis using d(1-3,5) q new by blast
      qed
    qed
  qed
qed

definition sample_parse :: "string \<Rightarrow> json option" where
  "sample_parse raw = map_of [(''rel'', JObj [(''tag_name'', JStr ''v28.10'')]),
     (''repo'', JObj [(''full_name'', JStr UPSTREAM_REPOSITORY)]),
     (''head'', JObj [(''sha'', JStr (replicate 40 CHR ''a''))]),
     (''done'', JObj [(''data'', JObj [(''serviceInstanceDeployV2'', JStr ''d1'')])])] raw"

definition sample_environ :: environ where
  "sample_environ = [(''RAILWAY_PROJECT_ID'', ''p''), (''RAILWAY_SERVICE_ID'', ''s''), (''RAILWAY_ENVIRONMENT_ID'', ''e''),
     (''LUMEN_FORK_REPO'', UPSTREAM_REPOSITORY), (''LUMEN_GITHUB_TOKEN'', ''github-token-of-20-chars''),
     (''LUMEN_RAILWAY_TOKEN'', ''railway-token-of-20-chars'')]"

definition sample_gateway :: "string list \<Rightarrow> gateway" where
  "sample_gateway rs = \<lparr>n_env = sample_environ, n_replies = map Answer rs, n_sent = [], n_cache = None\<rparr>"

lemma update_deploys_checked_commit_witness:
  "\<exists>early sha n. n_sent (snd (apply_latest sample_parse 0 ''snap'' (sample_gateway [''rel'', ''repo'', ''head'', ''done'', ''done''])))
     = early @ snapshot_calls sample_environ ''snap'' @ replicate n (deploy_call sample_environ sha) \<and> length sha = 40 \<and> 0 < n \<and> n \<le> 3"
proof -
  let ?g = "sample_gateway [''rel'', ''repo'', ''head'', ''done'', ''done'']"
  obtain r h where rh: "apply_latest sample_parse 0 ''snap'' ?g = (r, h)" by force
  have "fst (apply_latest sample_parse 0 ''snap'' ?g) = Inr (Started ''28.10.0'' (replicate 12 CHR ''a'') (JStr ''d1''))" by code_simp
  then have r: "r = Inr (Started ''28.10.0'' (replicate 12 CHR ''a'') (JStr ''d1''))" using rh by simp
  have g: "n_env ?g = sample_environ" "n_sent ?g = []" by (simp_all add: sample_gateway_def)
  from update_deploys_checked_commit[OF rh] r rh show ?thesis unfolding g commit_found_def by fastforce
qed

section \<open>Credentials\<close>

lemma asked_credentials_ok:
  assumes "asked_credentials env data = Inr c"
  shows "su_context (setup_status env)" "su_locked (setup_status env) \<longrightarrow> truthy (jget data ''confirm_override'')"
    "strip (cr_github c) = cr_github c" "cr_github c \<noteq> []" "strip (cr_railway c) = cr_railway c" "cr_railway c \<noteq> []"
    "repo_shape (cr_fork c)" "strip (cr_branch c) = cr_branch c" "cr_branch c \<noteq> []"
    "20 \<le> length (cr_github c)" "20 \<le> length (cr_railway c)"
proof -
  have t: "valid_token f v = Inr t \<Longrightarrow> strip t = t \<and> t \<noteq> [] \<and> 20 \<le> length t" for f v t
    by (auto simp: valid_token_def Let_def split: if_splits)
  have b: "git_branch v = Inr t \<Longrightarrow> strip t = t \<and> t \<noteq> []" for v t by (auto simp: git_branch_def Let_def split: if_splits)
  have r: "repository f v = Inr t \<Longrightarrow> repo_shape t" for f v t by (auto simp: repository_def Let_def split: if_splits)
  obtain g w f n where c: "c = \<lparr>cr_github = g, cr_railway = w, cr_fork = f, cr_branch = n\<rparr>"
      "\<exists>x. valid_token ''GitHub'' x = Inr g" "\<exists>x. valid_token ''Railway'' x = Inr w"
      "\<exists>x. repository ''Fork repository'' x = Inr f" "\<exists>x. git_branch x = Inr n"
      "su_context (setup_status env)" "su_locked (setup_status env) \<longrightarrow> truthy (jget data ''confirm_override'')"
    using assms by (simp add: asked_credentials_def Let_def and_then_Inr split: if_split_asm) blast+
  show "su_context (setup_status env)" "su_locked (setup_status env) \<longrightarrow> truthy (jget data ''confirm_override'')" by (rule c(6), rule c(7))
  show "strip (cr_github c) = cr_github c" "cr_github c \<noteq> []" "strip (cr_railway c) = cr_railway c" "cr_railway c \<noteq> []"
    "20 \<le> length (cr_github c)" "20 \<le> length (cr_railway c)"
    using c(1-3) t by auto
  show "repo_shape (cr_fork c)" using c(1,4) r by auto
  show "strip (cr_branch c) = cr_branch c" "cr_branch c \<noteq> []" using c(1,5) b by auto
qed

lemma repo_shape_strip: "repo_shape f \<Longrightarrow> strip f = f \<and> f \<noteq> []"
proof -
  assume f: "repo_shape f"
  then obtain a b where ab: "split_char CHR ''/'' f = [a, b]" "a \<noteq> []" "list_all repo_char a" "list_all repo_char b"
    by (auto simp: repo_shape_def split: list.splits)
  have e: "f = a @ ''/'' @ b" using join_split_char[of "CHR ''/''" f] ab(1) by simp
  have "\<not> is_space c" if "repo_char c" for c
    using that is_decimal_ne[of c] by (auto simp: repo_char_def is_ascii_letter_def is_space_def Let_def)
  moreover have "\<not> is_space CHR ''/''" by code_simp
  ultimately have "strip f = f" using ab(3,4) unfolding e by (intro strip_no_space) (auto simp: list_all_iff)
  then show ?thesis using e ab(2) by simp
qed

lemma saved_status:
  assumes "asked_credentials env data = Inr c"
  shows "let st = setup_status (env_set (saved_variables env c) env) in
    su_configured st \<and> su_fork st = cr_fork c \<and> su_branch st = cr_branch c"
proof -
  note a = asked_credentials_ok[OF assms]
  let ?env = "env_set (saved_variables env c) env"
  have e: "env_value ?env ''LUMEN_GITHUB_TOKEN'' = cr_github c" "env_value ?env ''LUMEN_RAILWAY_TOKEN'' = cr_railway c"
    "env_value ?env ''LUMEN_FORK_REPO'' = cr_fork c" "env_value ?env ''RAILWAY_GIT_BRANCH'' = cr_branch c"
    "env_value ?env ''RAILWAY_PROJECT_ID'' = env_value env ''RAILWAY_PROJECT_ID''"
    "env_value ?env ''RAILWAY_SERVICE_ID'' = env_value env ''RAILWAY_SERVICE_ID''"
    "env_value ?env ''RAILWAY_ENVIRONMENT_ID'' = env_value env ''RAILWAY_ENVIRONMENT_ID''"
    by (simp_all add: env_value_def env_set_def saved_variables_def)
  show ?thesis using a repo_shape_strip[OF a(7)]
    by (simp add: setup_status_def Let_def github_token_def railway_token_def detected_fork_def e)
qed

lemma saved_values:
  "env_value (env_set (saved_variables env c) env) ''LUMEN_GITHUB_TOKEN'' = cr_github c"
  "env_value (env_set (saved_variables env c) env) ''LUMEN_RAILWAY_TOKEN'' = cr_railway c"
  by (simp_all add: env_value_def env_set_def saved_variables_def)

text \<open>
  C11. Saved credentials have the length of tokens, the shape of a repository and a branch; GitHub
  answered with the repository that was asked for, the official one or one it names a fork of it; and Railway
  accepted both the identity of the token and the stored variables (it answered without errors) before the
  running process takes them over. Afterwards the updater is configured with exactly them. An error, Railway's
  refusal included, leaves the environment as it was, and locked credentials are not even sent anywhere
  without the confirmation.
\<close>

theorem credentials_saved_after_acceptance:
  assumes "save_setup parse (JObj data) g = (r, h)"
  shows "case r of
      Inl e \<Rightarrow> n_env h = n_env g \<and> n_cache h = n_cache g
        \<and> (su_locked (setup_status (n_env g)) \<and> \<not> truthy (jget data ''confirm_override'') \<longrightarrow> h = g)
    | Inr st \<Rightarrow> \<exists>c info q q2 q3. asked_credentials (n_env g) data = Inr c
        \<and> 20 \<le> length (cr_github c) \<and> 20 \<le> length (cr_railway c) \<and> repo_shape (cr_fork c) \<and> cr_branch c \<noteq> []
        \<and> (su_locked (setup_status (n_env g)) \<longrightarrow> truthy (jget data ''confirm_override''))
        \<and> n_replies g = q # q2 # q3 # n_replies h \<and> request_json parse q = Inr (JObj info)
        \<and> lower (text_or_empty (jget info ''full_name'')) = lower (cr_fork c) \<and> genuine_source (cr_fork c) info
        \<and> railway_accepts parse q2 \<and> railway_accepts parse q3
        \<and> n_sent h = n_sent g @ [repo_call (cr_fork c) (cr_github c), railway_call IDENTITY_QUERY [] (cr_railway c),
            railway_call SAVE_MUTATION (upsert_input (n_env g) (json_strings (saved_variables (n_env g) c))) (cr_railway c)]
        \<and> n_env h = env_set (saved_variables (n_env g) c) (n_env g) \<and> st = setup_status (n_env h)
        \<and> env_value (n_env h) ''LUMEN_GITHUB_TOKEN'' = cr_github c \<and> env_value (n_env h) ''LUMEN_RAILWAY_TOKEN'' = cr_railway c
        \<and> su_configured st \<and> su_fork st = cr_fork c \<and> su_branch st = cr_branch c"
proof (cases "asked_credentials (n_env g) data")
  case (Inl e)
  then show ?thesis using assms by (auto simp: save_setup_def)
next
  case (Inr c)
  note ok = asked_credentials_ok[OF Inr]
  let ?vs = "saved_variables (n_env g) c"
  let ?id = "railway parse IDENTITY_QUERY [] (cr_railway c)"
  let ?up = "railway parse SAVE_MUTATION (upsert_input (n_env g) (json_strings ?vs)) (cr_railway c)"
  have run: "io_bind (github parse ''GET'' (''/repos/'' @ cr_fork c) None (cr_github c)) (\<lambda>info.
      io_bind (io_result (checked_repository (cr_fork c) info)) (\<lambda>u. io_bind ?id (\<lambda>me. io_bind ?up (\<lambda>r. store_credentials ?vs)))) g = (r, h)"
    using assms Inr by (simp add: save_setup_def Let_def)
  show ?thesis
  proof (cases rule: bind_cases[OF run])
    case (1 e)
    then show ?thesis using ok(2) github_did[OF 1(1)] github_cache[OF 1(1)] by (auto simp: did_def)
  next
    case (2 info k)
    note g1 = github_did[OF 2(1)] github_cache[OF 2(1)] github_ok[OF 2(1)]
    show ?thesis
    proof (cases rule: bind_cases[OF 2(2)])
      case (1 e)
      then show ?thesis using ok(2) g1 by (auto simp: did_def)
    next
      case (2 u k1)
      then have k1: "k1 = k" "checked_repository (cr_fork c) info = Inr ()" by auto
      show ?thesis
      proof (cases rule: bind_cases[OF 2(2)])
        case (1 e)
        then show ?thesis using ok(2) g1 k1 railway_did[OF 1(1)] railway_cache[OF 1(1)] by (auto simp: did_def)
      next
        case (2 me k2)
        note g2 = railway_did[OF 2(1)] railway_cache[OF 2(1)] and a2 = railway_ok[OF 2(1)]
        show ?thesis
        proof (cases rule: bind_cases[OF 2(2)])
          case (1 e)
          then show ?thesis using ok(2) g1 g2 k1 railway_did[OF 1(1)] railway_cache[OF 1(1)] by (auto simp: did_def)
        next
          case (2 x k3)
          note g3 = railway_did[OF 2(1)] and a3 = railway_ok[OF 2(1)]
          have h: "h = k3\<lparr>n_env := env_set ?vs (n_env k3), n_cache := None\<rparr>" "r = Inr (setup_status (n_env h))"
            using 2(2) by (auto simp: store_credentials_def Let_def)
          have e: "n_env h = env_set ?vs (n_env g)" using g1(1) g2(1) g3 k1 h(1) by (simp add: did_def)
          have sent: "n_sent h = n_sent g @ [repo_call (cr_fork c) (cr_github c), railway_call IDENTITY_QUERY [] (cr_railway c),
              railway_call SAVE_MUTATION (upsert_input (n_env g) (json_strings ?vs)) (cr_railway c)]"
            using g1(1) g2(1) g3 k1 h(1) by (simp add: did_def repo_call_def)
          obtain q q2 q3 where q: "n_replies g = q # q2 # q3 # n_replies h" "request_json parse q = Inr (JObj info)"
              "railway_accepts parse q2" "railway_accepts parse q3"
            using g1(3) a2 a3 h(1) k1(1) by auto
          have "setup_status (n_env h) = setup_status (env_set ?vs (n_env g))" using e by simp
          then show ?thesis using h(2) e sent q checked_genuine[OF k1(2)] Inr ok(2,7,9,10,11) saved_status[OF Inr]
              saved_values[of "n_env g" c]
            by (auto simp: Let_def)
        qed
      qed
    qed
  qed
qed

lemma credentials_saved_after_acceptance_witness:
  "let data = [(''confirm_override'', JBool True)]; g = sample_gateway [''repo'', ''done'', ''done''] in
   \<exists>st c. fst (save_setup sample_parse (JObj data) g) = Inr st \<and> asked_credentials (n_env g) data = Inr c \<and> su_configured st"
proof -
  let ?d = "[(''confirm_override'', JBool True)]" and ?g = "sample_gateway [''repo'', ''done'', ''done'']"
  obtain r h where rh: "save_setup sample_parse (JObj ?d) ?g = (r, h)" by force
  have "ok_value (fst (save_setup sample_parse (JObj ?d) ?g)) \<noteq> None" by code_simp
  then obtain st where r: "r = Inr st" using rh by (cases r) auto
  from credentials_saved_after_acceptance[OF rh] show ?thesis unfolding Let_def rh r fst_conv sum.case by blast
qed

text \<open>
  The format check of a repository accepts \<open>..\<close> as its owner, so that the address of a call leaves \<open>/repos/\<close>.
\<close>

lemma dots_repository_accepted: "repository ''Fork repository'' ''../user'' = Inr ''../user''"
  by code_simp

end
