(* ===== verification/Dialing.thy ===== *)
theory Dialing
  imports Proxy_Url Complex_Main "HOL-Library.Multiset"
begin

text \<open>
  Direct connections (\<open>relay_vless.py\<close>): addresses of a name with the cache of the resolver, the order
  in which both families are tried, the memory of good and failed routes, the race of the attempts, and
  the window of the write buffer. The resolver of the system and the outcome of every attempt are
  arguments; sharing one running lookup between callers is left out. Times are rationals.
\<close>

section \<open>Addresses\<close>

datatype family = Inet | Inet6 | Other_Family nat

record sockaddr =
  sa_host :: string
  sa_port :: nat
  sa_flow :: nat
  sa_scope :: nat

type_synonym address = "family \<times> sockaddr"

record resolver =
  rs_pton4 :: "string \<Rightarrow> bool"
  rs_pton6 :: "string \<Rightarrow> bool"
  rs_scoped :: "string \<Rightarrow> nat \<Rightarrow> sockaddr option"
  rs_info :: "string \<Rightarrow> nat \<Rightarrow> address list option"

definition plain_address :: "string \<Rightarrow> nat \<Rightarrow> sockaddr" where
  "plain_address host port = \<lparr>sa_host = host, sa_port = port, sa_flow = 0, sa_scope = 0\<rparr>"

definition numeric_address :: "resolver \<Rightarrow> string \<Rightarrow> nat \<Rightarrow> address list option" where
  "numeric_address rs host port =
     (let bare = (if starts_with ''['' host \<and> ends_with '']'' host then butlast (tl host) else host);
          plain = before CHR ''%'' bare in
      if rs_pton4 rs plain then Some [(Inet, plain_address plain port)]
      else if rs_pton6 rs plain then
        (case (if CHR ''%'' \<in> set bare then rs_scoped rs bare port else None) of
           Some a \<Rightarrow> Some [(Inet6, a)] | None \<Rightarrow> Some [(Inet6, plain_address plain port)])
      else None)"

definition sockaddr_identity :: "address \<Rightarrow> family \<times> string \<times> nat \<times> nat" where
  "sockaddr_identity a = (fst a, sa_host (snd a), sa_port (snd a), if fst a = Inet6 then sa_scope (snd a) else 0)"

text \<open>The loop of \<open>_do_resolve\<close>: other families and repeated endpoints are skipped.\<close>

fun keep_new :: "(family \<times> string \<times> nat \<times> nat) list \<Rightarrow> address list \<Rightarrow> address list" where
  "keep_new seen [] = []"
| "keep_new seen (a # as) =
     (if fst a \<noteq> Inet \<and> fst a \<noteq> Inet6 then keep_new seen as
      else if sockaddr_identity a \<in> set seen then keep_new seen as
      else a # keep_new (sockaddr_identity a # seen) as)"

definition do_resolve :: "resolver \<Rightarrow> string \<Rightarrow> nat \<Rightarrow> address list option" where
  "do_resolve rs host port = (case numeric_address rs host port of
     Some n \<Rightarrow> Some n | None \<Rightarrow> map_option (keep_new []) (rs_info rs host port))"

section \<open>The order of the attempts\<close>

text \<open>One from each queue as long as both have any.\<close>

fun alternate :: "'a list \<Rightarrow> 'a list \<Rightarrow> 'a list" where
  "alternate [] ys = ys"
| "alternate (x # xs) [] = x # xs"
| "alternate (x # xs) (y # ys) = x # y # alternate xs ys"

definition prefer_first :: "'a option \<Rightarrow> 'a list \<Rightarrow> 'a list" where
  "prefer_first p xs = (case p of None \<Rightarrow> xs | Some a \<Rightarrow> if a \<in> set xs then a # remove1 a xs else xs)"

definition interleave_families :: "address list \<Rightarrow> address option \<Rightarrow> address list" where
  "interleave_families addresses preferred = (case prefer_first preferred addresses of
     [] \<Rightarrow> []
   | a # as \<Rightarrow>
      (let first = fst a; second = (if first = Inet6 then Inet else Inet6) in
       alternate (filter (\<lambda>x. fst x = first) (a # as)) (filter (\<lambda>x. fst x = second) (a # as))))"

section \<open>What is remembered\<close>

type_synonym target_key = "string \<times> nat"
type_synonym candidate = "target_key \<times> family \<times> string \<times> nat \<times> nat"

record route_health =
  rh_ewma :: rat
  rh_failures :: nat
  rh_until :: rat

record routes =
  ro_dns :: "(target_key, rat \<times> address list) dict"
  ro_route :: "(target_key, rat \<times> address) dict"
  ro_health :: "(candidate, route_health) dict"

definition DNS_TTL :: rat where "DNS_TTL = 300"
definition ROUTE_TTL :: rat where "ROUTE_TTL = 1800"
definition DNS_CACHE_MAX :: nat where "DNS_CACHE_MAX = 4096"

definition remember_dns :: "rat \<Rightarrow> target_key \<Rightarrow> address list \<Rightarrow> routes \<Rightarrow> routes" where
  "remember_dns now key found r =
     (let s = (if DNS_CACHE_MAX \<le> length (ro_dns r) then r\<lparr>ro_dns := [], ro_route := [], ro_health := []\<rparr> else r) in
      s\<lparr>ro_dns := AList.update key (now + DNS_TTL, found) (ro_dns s)\<rparr>)"

definition preferred_route :: "rat \<Rightarrow> target_key \<Rightarrow> routes \<Rightarrow> address option" where
  "preferred_route now key r = (case map_of (ro_route r) key of
     None \<Rightarrow> None | Some (expiry, a) \<Rightarrow> if expiry > now then Some a else None)"

definition resolve :: "resolver \<Rightarrow> rat \<Rightarrow> string \<Rightarrow> nat \<Rightarrow> routes \<Rightarrow> address list option \<times> routes" where
  "resolve rs now host port r =
     (let key = (host, port);
          hit = (case map_of (ro_dns r) key of None \<Rightarrow> None | Some (expiry, as) \<Rightarrow> if expiry > now then Some as else None) in
      case hit of
        Some as \<Rightarrow> (Some (interleave_families as (preferred_route now key r)), r)
      | None \<Rightarrow>
         (case do_resolve rs host port of
            None \<Rightarrow> (None, r)
          | Some as \<Rightarrow> (let s = remember_dns now key as r in (Some (interleave_families as (preferred_route now key s)), s))))"

definition candidate_key :: "target_key \<Rightarrow> address \<Rightarrow> candidate" where
  "candidate_key key a = (key, sockaddr_identity a)"

definition record_route_success :: "rat \<Rightarrow> target_key \<Rightarrow> address \<Rightarrow> rat \<Rightarrow> routes \<Rightarrow> routes" where
  "record_route_success now key a ms r =
     (let ewma = (case map_of (ro_health r) (candidate_key key a) of
            None \<Rightarrow> ms | Some old \<Rightarrow> 7 / 10 * rh_ewma old + 3 / 10 * ms) in
      r\<lparr>ro_health := AList.update (candidate_key key a) \<lparr>rh_ewma = ewma, rh_failures = 0, rh_until = 0\<rparr> (ro_health r),
        ro_route := AList.update key (now + ROUTE_TTL, a) (ro_route r)\<rparr>)"

definition route_cooldown :: "nat \<Rightarrow> rat" where
  "route_cooldown failures = min (10 * 2 ^ (failures - 1)) 300"

definition record_route_failure :: "rat \<Rightarrow> target_key \<Rightarrow> address \<Rightarrow> routes \<Rightarrow> routes" where
  "record_route_failure now key a r =
     (let old = (case map_of (ro_health r) (candidate_key key a) of
            None \<Rightarrow> \<lparr>rh_ewma = 9999, rh_failures = 0, rh_until = 0\<rparr> | Some h \<Rightarrow> h);
          failures = min (rh_failures old + 1) 8 in
      r\<lparr>ro_health := AList.update (candidate_key key a)
          \<lparr>rh_ewma = rh_ewma old, rh_failures = failures, rh_until = now + route_cooldown failures\<rparr> (ro_health r)\<rparr>)"

section \<open>When each attempt starts\<close>

definition PARALLEL_CONNECT :: nat where "PARALLEL_CONNECT = 6"
definition STAGGER :: rat where "STAGGER = 1 / 20"

definition cooling :: "rat \<Rightarrow> target_key \<Rightarrow> routes \<Rightarrow> address \<Rightarrow> bool" where
  "cooling now key r a = (case map_of (ro_health r) (candidate_key key a) of None \<Rightarrow> False | Some h \<Rightarrow> rh_until h > now)"

fun schedule_from :: "(address \<Rightarrow> bool) \<Rightarrow> family list \<Rightarrow> nat \<Rightarrow> address list \<Rightarrow> (rat \<times> address) list" where
  "schedule_from failing seen extra [] = []"
| "schedule_from failing seen extra (a # as) =
     (let fresh = fst a \<notin> set seen;
          extra' = (if fresh then extra else extra + 1);
          delay = (if fresh then 0 else STAGGER * of_nat extra');
          late = (if failing a then max delay (STAGGER * 2) else delay) in
      (late, a) # schedule_from failing (if fresh then fst a # seen else seen) extra' as)"

definition connection_schedule :: "rat \<Rightarrow> target_key \<Rightarrow> routes \<Rightarrow> address list \<Rightarrow> (rat \<times> address) list" where
  "connection_schedule now key r addresses = schedule_from (cooling now key r) [] 0 (take PARALLEL_CONNECT addresses)"

section \<open>The race\<close>

text \<open>An attempt opens a connection after some milliseconds, or fails. A wakeup is what is done at that moment; none is a timeout.\<close>

datatype attempt = Opened address rat | Refused_By address

fun opened_by :: "attempt \<Rightarrow> (address \<times> rat) option" where
  "opened_by (Opened a ms) = Some (a, ms)"
| "opened_by (Refused_By a) = None"

definition opened :: "attempt list \<Rightarrow> (address \<times> rat) list" where
  "opened as = List.map_filter opened_by as"

datatype race_end = Winner address rat | Race_Timeout | All_Failed

text \<open>The loop: the end of the race, and the connections of the last wakeup that are closed at once.\<close>

fun race :: "attempt list list \<Rightarrow> race_end \<times> (address \<times> rat) list" where
  "race [] = (All_Failed, [])"
| "race (ended # later) =
     (if ended = [] then (Race_Timeout, [])
      else (case sort_key snd (opened ended) of
          [] \<Rightarrow> race later
        | (a, ms) # rest \<Rightarrow> (Winner a ms, rest)))"

fun wakeups_used :: "attempt list list \<Rightarrow> attempt list list" where
  "wakeups_used [] = []"
| "wakeups_used (ended # later) = (if ended = [] then [] else if opened ended = [] then ended # wakeups_used later else [ended])"

definition fail_all :: "rat \<Rightarrow> target_key \<Rightarrow> attempt list \<Rightarrow> routes \<Rightarrow> routes" where
  "fail_all now key as = fold (\<lambda>x. case x of Refused_By a \<Rightarrow> record_route_failure now key a | Opened a ms \<Rightarrow> id) as"

text \<open>
  \<open>_open_upstream\<close> with two or more addresses: \<open>late\<close> is how the attempts end that are still running when the race is
  over. The connections closed are those of the losers and all late ones.
\<close>

definition open_race :: "rat \<Rightarrow> target_key \<Rightarrow> attempt list list \<Rightarrow> attempt list \<Rightarrow> routes \<Rightarrow>
    race_end \<times> (address \<times> rat) list \<times> routes" where
  "open_race now key wakeups late r =
     (let tried = fail_all now key (concat (wakeups_used wakeups) @ late) r in
      case race wakeups of (e, losers) \<Rightarrow>
        (e, losers @ opened late, (case e of Winner a ms \<Rightarrow> record_route_success now key a ms tried | _ \<Rightarrow> tried)))"

text \<open>One address: no race.\<close>

definition open_single :: "rat \<Rightarrow> target_key \<Rightarrow> attempt \<Rightarrow> routes \<Rightarrow> race_end \<times> routes" where
  "open_single now key x r = (case x of
     Opened a ms \<Rightarrow> (Winner a ms, record_route_success now key a ms r)
   | Refused_By a \<Rightarrow> (All_Failed, record_route_failure now key a r))"

datatype upstream = By_System | Tried race_end

text \<open>
  \<open>_open_upstream\<close>: without addresses the name is left to the system; \<open>single\<close> is the outcome for one address. One
  clock reading stands for those taken during the race.
\<close>

definition open_upstream :: "resolver \<Rightarrow> rat \<Rightarrow> string \<Rightarrow> nat \<Rightarrow> (address \<Rightarrow> attempt) \<Rightarrow>
    ((rat \<times> address) list \<Rightarrow> attempt list list \<times> attempt list) \<Rightarrow> routes \<Rightarrow> upstream \<times> (address \<times> rat) list \<times> routes" where
  "open_upstream rs now host port single runs r = (case resolve rs now host port r of
     (Some [a], s) \<Rightarrow> (case open_single now (host, port) (single a) s of (e, t) \<Rightarrow> (Tried e, [], t))
   | (Some (a # b # as), s) \<Rightarrow>
      (case runs (connection_schedule now (host, port) s (a # b # as)) of (wakeups, late) \<Rightarrow>
        (case open_race now (host, port) wakeups late s of (e, shut, t) \<Rightarrow> (Tried e, shut, t)))
   | (_, s) \<Rightarrow> (By_System, [], s))"

section \<open>The window of the write buffer\<close>

record flow = fl_high :: int  fl_max :: int

definition WRITE_HW_MIN :: int where "WRITE_HW_MIN = 512 * 1024"
definition WRITE_HW_MAX :: int where "WRITE_HW_MAX = 64 * 1024 * 1024"

definition new_flow :: "int \<Rightarrow> int \<Rightarrow> flow" where
  "new_flow high high_max =
     (let m = min WRITE_HW_MAX (max WRITE_HW_MIN high_max) in \<lparr>fl_high = min m (max WRITE_HW_MIN high), fl_max = m\<rparr>)"

text \<open>\<open>observe\<close>: the new state and the limits given to the transport.\<close>

definition observe :: "rat \<Rightarrow> flow \<Rightarrow> flow \<times> int \<times> int" where
  "observe drain_ms f =
     (let high = (if drain_ms \<le> 2 then min (fl_high f * 3 div 2 + 64 * 1024) (fl_max f)
                  else if 30 \<le> drain_ms then max (fl_high f div 2) WRITE_HW_MIN
                  else fl_high f) in
      (f\<lparr>fl_high := high\<rparr>, high, max (high div 4) (64 * 1024)))"

section \<open>The order is a fair one\<close>

lemma alternate_mset: "mset (alternate xs ys) = mset xs + mset ys"
  by (induction xs ys rule: alternate.induct) auto

lemma alternate_filter:
  "(\<And>x. x \<in> set xs \<Longrightarrow> P x) \<Longrightarrow> (\<And>y. y \<in> set ys \<Longrightarrow> \<not> P y) \<Longrightarrow>
    filter P (alternate xs ys) = xs \<and> filter (\<lambda>x. \<not> P x) (alternate xs ys) = ys"
proof (induction xs ys rule: alternate.induct)
  case (1 ys)
  then show ?case by (auto simp: filter_empty_conv filter_id_conv)
next
  case (2 x xs)
  then show ?case by (auto simp: filter_empty_conv filter_id_conv)
next
  case (3 x xs y ys)
  then show ?case by auto
qed

lemma prefer_first_mset [simp]: "mset (prefer_first p xs) = mset xs"
  by (auto simp: prefer_first_def split: option.split)

lemma prefer_first_set [simp]: "set (prefer_first p xs) = set xs"
  using mset_eq_setD[OF prefer_first_mset] .

definition dual_stack :: "address list \<Rightarrow> bool" where
  "dual_stack as \<longleftrightarrow> list_all (\<lambda>a. fst a = Inet \<or> fst a = Inet6) as"

lemma interleave_parts:
  assumes "dual_stack as" "prefer_first p as = a # bs"
  shows "interleave_families as p = alternate (filter (\<lambda>x. fst x = fst a) (a # bs)) (filter (\<lambda>x. fst x \<noteq> fst a) (a # bs))"
proof -
  have fam: "fst x = Inet \<or> fst x = Inet6" if "x \<in> set (a # bs)" for x
    using assms that prefer_first_set[of p as] by (auto simp: dual_stack_def list_all_iff)
  have "filter (\<lambda>x. fst x = (if fst a = Inet6 then Inet else Inet6)) (a # bs) = filter (\<lambda>x. fst x \<noteq> fst a) (a # bs)"
  proof (rule filter_cong[OF refl])
    fix x assume "x \<in> set (a # bs)"
    then show "(fst x = (if fst a = Inet6 then Inet else Inet6)) = (fst x \<noteq> fst a)" using fam[of x] fam[of a] by (cases "fst a") auto
  qed
  then show ?thesis using assms(2) by (simp only: interleave_families_def list.case Let_def)
qed

text \<open>
  The order of the attempts tries each address exactly once, starts with the remembered winner, keeps the
  order of the system within a family, and puts the other family second whenever there is one.
\<close>

theorem interleave_fair:
  assumes "dual_stack as"
  shows "mset (interleave_families as p) = mset as
    \<and> (\<forall>f. filter (\<lambda>x. fst x = f) (interleave_families as p) = filter (\<lambda>x. fst x = f) (prefer_first p as))
    \<and> (case prefer_first p as of [] \<Rightarrow> True | a # bs \<Rightarrow> hd (interleave_families as p) = a
        \<and> ((\<exists>b \<in> set as. fst b \<noteq> fst a) \<longrightarrow> 1 < length as \<and> fst (interleave_families as p ! 1) \<noteq> fst a))"
proof (cases "prefer_first p as")
  case Nil
  then have "as = []" using prefer_first_set[of p as] by simp
  then show ?thesis using Nil by (simp add: interleave_families_def)
next
  case (Cons a bs)
  let ?x = "filter (\<lambda>x. fst x = fst a) (a # bs)" and ?y = "filter (\<lambda>x. fst x \<noteq> fst a) (a # bs)"
  note i = interleave_parts[OF assms Cons]
  have m: "mset as = mset (a # bs)" using Cons prefer_first_mset[of p as] by simp
  have one: "mset (interleave_families as p) = mset as"
    unfolding i alternate_mset m using multiset_partition[of "mset (a # bs)" "\<lambda>x. fst x = fst a"] by simp
  have parts: "filter (\<lambda>x. fst x = fst a) (alternate ?x ?y) = ?x \<and> filter (\<lambda>x. \<not> fst x = fst a) (alternate ?x ?y) = ?y"
    by (rule alternate_filter) auto
  have two: "filter (\<lambda>x. fst x = f) (alternate ?x ?y) = filter (\<lambda>x. fst x = f) (a # bs)" for f
  proof (cases "f = fst a")
    case True
    then show ?thesis using parts by simp
  next
    case False
    then have "filter (\<lambda>x. fst x = f) zs = filter (\<lambda>x. fst x = f) (filter (\<lambda>x. \<not> fst x = fst a) zs)" for zs :: "address list"
      by (simp add: filter_filter) (metis (no_types, lifting) filter_cong)
    then show ?thesis using parts by metis
  qed
  have three: "hd (alternate ?x ?y) = a" by (cases ?y) (simp_all split: list.split)
  have "1 < length as \<and> fst (alternate ?x ?y ! 1) \<noteq> fst a" if "\<exists>b \<in> set as. fst b \<noteq> fst a"
  proof -
    have "?y \<noteq> []" using that mset_eq_setD[OF m] by (auto simp: filter_empty_conv)
    then obtain y ys where y: "?y = y # ys" by (cases ?y) auto
    have "y \<in> set ?y" unfolding y by simp
    then have "fst y \<noteq> fst a" "y \<in> set bs" by auto
    moreover have "alternate ?x ?y ! 1 = y" unfolding y by simp
    moreover have "1 < length (a # bs)" using \<open>y \<in> set bs\<close> by (cases bs) auto
    moreover have "length as = length (a # bs)" using m by (metis size_mset)
    ultimately show ?thesis by simp
  qed
  then show ?thesis using one two three unfolding i Cons by simp
qed

lemma interleave_fair_witness:
  "let a = (\<lambda>f h. (f, plain_address h 443)); as = [a Inet6 ''::1'', a Inet6 ''::2'', a Inet ''1.1.1.1''] in
   map fst (interleave_families as (Some (a Inet ''1.1.1.1''))) = [Inet, Inet6, Inet6] \<and> mset (interleave_families as (Some (a Inet ''1.1.1.1''))) = mset as"
proof -
  let ?a = "\<lambda>f h. (f, plain_address h 443)"
  let ?as = "[?a Inet6 ''::1'', ?a Inet6 ''::2'', ?a Inet ''1.1.1.1'']"
  have "dual_stack ?as" by (simp add: dual_stack_def)
  then have "mset (interleave_families ?as (Some (?a Inet ''1.1.1.1''))) = mset ?as" using interleave_fair by blast
  moreover have "map fst (interleave_families ?as (Some (?a Inet ''1.1.1.1''))) = [Inet, Inet6, Inet6]" by code_simp
  ultimately show ?thesis by (simp add: Let_def)
qed

section \<open>Both families start\<close>

lemma schedule_addresses: "map snd (schedule_from failing seen extra as) = as"
  by (induction failing seen extra as rule: schedule_from.induct) (simp_all add: Let_def)

text \<open>The first address of a family starts at once, or after two staggers when it failed lately.\<close>

lemma first_of_family:
  "a \<in> set as \<Longrightarrow> fst a \<notin> set seen \<Longrightarrow>
   \<exists>d b. (d, b) \<in> set (schedule_from failing seen extra as) \<and> fst b = fst a \<and> d \<le> STAGGER * 2 \<and> (\<not> failing b \<longrightarrow> d = 0)"
proof (induction as arbitrary: seen extra)
  case (Cons c as)
  show ?case
  proof (cases "fst c = fst a")
    case True
    then have "fst c \<notin> set seen" using Cons.prems(2) by simp
    then show ?thesis using True
      by (intro exI[of _ "if failing c then max 0 (STAGGER * 2) else 0"] exI[of _ c]) (auto simp: Let_def STAGGER_def)
  next
    case False
    then have "a \<in> set as" using Cons.prems(1) by auto
    moreover have "fst a \<notin> set (if fst c \<notin> set seen then fst c # seen else seen)" using False Cons.prems(2) by auto
    ultimately obtain d b where db: "(d, b) \<in> set (schedule_from failing (if fst c \<notin> set seen then fst c # seen else seen)
          (if fst c \<notin> set seen then extra else extra + 1) as)" "fst b = fst a" "d \<le> STAGGER * 2" "\<not> failing b \<longrightarrow> d = 0"
      using Cons.IH by blast
    have "set (schedule_from failing (if fst c \<notin> set seen then fst c # seen else seen)
          (if fst c \<notin> set seen then extra else extra + 1) as) \<subseteq> set (schedule_from failing seen extra (c # as))"
      by (simp only: schedule_from.simps Let_def) auto
    then show ?thesis using db by blast
  qed
qed simp

text \<open>
  Whatever is remembered about them, at most six addresses are tried, each once, and every family the
  name has is among them: its first attempt starts at once, or a tenth of a second later when that
  address failed lately.
\<close>

theorem both_families_started:
  assumes "dual_stack as"
  shows "let s = connection_schedule now key r (interleave_families as p) in
    length s = min 6 (length as) \<and> mset (map snd s) \<subseteq># mset as
    \<and> (\<forall>f \<in> fst ` set as. \<exists>d a. (d, a) \<in> set s \<and> fst a = f \<and> d \<le> 1 / 10 \<and> (\<not> cooling now key r a \<longrightarrow> d = 0))"
proof -
  let ?out = "interleave_families as p" and ?n = "take PARALLEL_CONNECT (interleave_families as p)"
  note fair = interleave_fair[OF assms, of p]
  have m: "mset ?out = mset as" using fair by blast
  then have l: "length ?out = length as" "set ?out = set as" by (metis size_mset, metis set_mset_mset)
  have "mset ?n + mset (drop PARALLEL_CONNECT ?out) = mset as" using m by (metis append_take_drop_id mset_append)
  then have sub: "mset ?n \<subseteq># mset as" by (metis mset_subset_eq_add_left)
  have early: "\<exists>x \<in> set ?n. fst x = f" if f: "f \<in> fst ` set as" for f
  proof (cases "prefer_first p as")
    case Nil
    then show ?thesis using f prefer_first_set[of p as] by simp
  next
    case (Cons a bs)
    show ?thesis
    proof (cases "f = fst a")
      case True
      have "?out \<noteq> []" using f l by auto
      then have "hd ?out \<in> set ?n" by (cases ?out) (simp_all add: PARALLEL_CONNECT_def)
      moreover have "fst (hd ?out) = f" using fair Cons True by simp
      ultimately show ?thesis by blast
    next
      case False
      then have n: "1 < length ?out" "fst (?out ! 1) \<noteq> fst a" using f fair Cons l by auto
      have "length ?n > 1" using n(1) by (simp add: PARALLEL_CONNECT_def)
      then have "?n ! 1 \<in> set ?n" by (rule nth_mem)
      then have s: "?out ! 1 \<in> set ?n" by (simp add: PARALLEL_CONNECT_def)
      have fam: "g = Inet \<or> g = Inet6" if "g \<in> fst ` set as" for g using assms that by (auto simp: dual_stack_def list_all_iff)
      have "?out ! 1 \<in> set as" using in_set_takeD[OF s] l(2) by blast
      moreover have "a \<in> set as" using Cons prefer_first_set[of p as] by (metis list.set_intros(1))
      ultimately have "fst (?out ! 1) = Inet \<or> fst (?out ! 1) = Inet6" "fst a = Inet \<or> fst a = Inet6" using fam by blast+
      then have "fst (?out ! 1) = f" using n(2) False fam[OF f] by metis
      then show ?thesis using s by blast
    qed
  qed
  have start: "\<exists>d a. (d, a) \<in> set (connection_schedule now key r ?out) \<and> fst a = f \<and> d \<le> 1 / 10
      \<and> (\<not> cooling now key r a \<longrightarrow> d = 0)" if f: "f \<in> fst ` set as" for f
  proof -
    obtain x where "x \<in> set ?n" "fst x = f" using early[OF f] by blast
    then show ?thesis using first_of_family[of x ?n "[]" "cooling now key r" 0]
      by (auto simp: connection_schedule_def STAGGER_def)
  qed
  have e: "map snd (connection_schedule now key r ?out) = ?n" by (simp add: connection_schedule_def schedule_addresses)
  then have "mset (map snd (connection_schedule now key r ?out)) \<subseteq># mset as" using sub by (simp only: e)
  moreover have "length (connection_schedule now key r ?out) = min 6 (length as)"
    using arg_cong[OF e, of length] l(1) by (simp add: PARALLEL_CONNECT_def min.commute)
  ultimately show ?thesis unfolding Let_def using start by blast
qed

lemma both_families_started_witness:
  "\<exists>d a. (d, a) \<in> set (connection_schedule 0 (''h'', 443) \<lparr>ro_dns = [], ro_route = [], ro_health = []\<rparr>
      (interleave_families [(Inet6, plain_address ''::1'' 443), (Inet, plain_address ''1.1.1.1'' 443)] None)) \<and> fst a = Inet \<and> d = 0"
proof -
  let ?as = "[(Inet6, plain_address ''::1'' 443), (Inet, plain_address ''1.1.1.1'' 443)]"
  let ?r = "\<lparr>ro_dns = [], ro_route = [], ro_health = []\<rparr> :: routes"
  have d: "dual_stack ?as" by (simp add: dual_stack_def)
  have "Inet \<in> fst ` set ?as" by simp
  then obtain d a where "(d, a) \<in> set (connection_schedule 0 (''h'', 443) ?r (interleave_families ?as None))"
      "fst a = Inet" "\<not> cooling 0 (''h'', 443) ?r a \<longrightarrow> d = 0"
    using both_families_started[OF d, of 0 "(''h'', 443)" ?r None] unfolding Let_def by blast
  moreover from this have "d = 0" by (simp add: cooling_def)
  ultimately show ?thesis by blast
qed

text \<open>
  The comment says that failed routes are never tried ahead of a healthy family. Below every IPv6 address and the
  first two IPv4 addresses failed lately, and the one healthy address starts last.
\<close>

lemma failed_routes_ahead:
  "let a = (\<lambda>f h. (f, plain_address h 443));
       r = fold (\<lambda>x. record_route_failure 0 (''h'', 443) x) [a Inet6 ''1'', a Inet ''2'', a Inet6 ''3'', a Inet ''4'', a Inet6 ''5'']
             \<lparr>ro_dns = [], ro_route = [], ro_health = []\<rparr>
   in map fst (connection_schedule 0 (''h'', 443) r [a Inet6 ''1'', a Inet ''2'', a Inet6 ''3'', a Inet ''4'', a Inet6 ''5'', a Inet ''6''])
      = [1 / 10, 1 / 10, 1 / 10, 1 / 10, 3 / 20, 1 / 5]"
  by code_simp

section \<open>One connection is kept\<close>

lemma opened_append: "opened (xs @ ys) = opened xs @ opened ys"
  by (simp add: opened_def List.map_filter_def)

lemma race_accounts:
  "race ws = (e, losers) \<Longrightarrow> (case e of
      Winner a ms \<Rightarrow> mset (opened (concat (wakeups_used ws))) = add_mset (a, ms) (mset losers) \<and> (\<forall>x \<in> set losers. ms \<le> snd x)
    | _ \<Rightarrow> losers = [] \<and> opened (concat (wakeups_used ws)) = [])"
proof (induction ws arbitrary: e losers rule: race.induct)
  case 1
  then show ?case by (auto simp: opened_def)
next
  case (2 ended later)
  have IH: "case e of Winner a ms \<Rightarrow> mset (opened (concat (wakeups_used later))) = add_mset (a, ms) (mset losers) \<and> (\<forall>x \<in> set losers. ms \<le> snd x)
        | _ \<Rightarrow> losers = [] \<and> opened (concat (wakeups_used later)) = []"
    if "ended \<noteq> []" "opened ended = []" "race later = (e, losers)"
    using 2(1)[of e losers] that by simp
  show ?case
  proof (cases "ended = [] \<or> opened ended = []")
    case True
    then consider "ended = []" | "ended \<noteq> []" "opened ended = []" by blast
    then show ?thesis
    proof cases
      case 1
      then show ?thesis using 2(2) by (auto simp: opened_def)
    next
      case dull: 2
      then have r: "race later = (e, losers)" using 2(2) by simp
      have w: "opened (concat (wakeups_used (ended # later))) = opened (concat (wakeups_used later))" using dull by (simp add: opened_append)
      show ?thesis unfolding w by (rule IH[OF dull r])
    qed
  next
    case False
    then obtain a ms rest where s: "sort_key snd (opened ended) = (a, ms) # rest"
      by (cases "sort_key snd (opened ended)") (auto dest: arg_cong[where f = length])
    have m: "mset (opened ended) = add_mset (a, ms) (mset rest)" using arg_cong[OF s, of mset] by simp
    have "sorted (map snd ((a, ms) # rest))" using sorted_sort_key[of snd "opened ended"] unfolding s .
    then show ?thesis using 2 False s m by auto
  qed
qed

text \<open>
  C19. Of all connections a race opens, exactly one is kept, the fastest of its moment, and every other is
  closed; when the race fails none is left open. Only the kept one is remembered as the good route.
\<close>

theorem race_keeps_one:
  assumes "open_race now key wakeups late r = (e, shut, s)"
  shows "case e of
      Winner a ms \<Rightarrow> mset (opened (concat (wakeups_used wakeups) @ late)) = add_mset (a, ms) (mset shut)
        \<and> (\<forall>x \<in> set (snd (race wakeups)). ms \<le> snd x) \<and> preferred_route now key s = Some a
    | _ \<Rightarrow> mset (opened (concat (wakeups_used wakeups) @ late)) = mset shut \<and> ro_route s = ro_route r"
proof -
  obtain x losers where x: "race wakeups = (x, losers)" by force
  have keep: "ro_route (fail_all now key as q) = ro_route q" for as q
    by (induction as arbitrary: q) (auto simp: fail_all_def record_route_failure_def Let_def split: attempt.split)
  have "e = x" "shut = losers @ opened late" using assms x by (auto simp: open_race_def Let_def)
  then show ?thesis using race_accounts[OF x] assms x
    by (auto simp: open_race_def Let_def opened_append keep record_route_success_def preferred_route_def ROUTE_TTL_def split: race_end.splits)
qed

lemma race_keeps_one_witness:
  "let a = (Inet, plain_address ''1.1.1.1'' 443); b = (Inet6, plain_address ''::1'' 443) in
   fst (open_race 0 (''h'', 443) [[Refused_By a], [Opened b 7, Opened a 5]] [] \<lparr>ro_dns = [], ro_route = [], ro_health = []\<rparr>) = Winner a 5
   \<and> mset (fst (snd (open_race 0 (''h'', 443) [[Refused_By a], [Opened b 7, Opened a 5]] [] \<lparr>ro_dns = [], ro_route = [], ro_health = []\<rparr>))) = {#(b, 7)#}"
proof -
  let ?a = "(Inet, plain_address ''1.1.1.1'' 443)" and ?b = "(Inet6, plain_address ''::1'' 443)"
  let ?w = "[[Refused_By ?a], [Opened ?b 7, Opened ?a 5]]" and ?r = "\<lparr>ro_dns = [], ro_route = [], ro_health = []\<rparr> :: routes"
  obtain e shut s where run: "open_race 0 (''h'', 443) ?w [] ?r = (e, shut, s)" by (metis prod_cases3)
  have "fst (open_race 0 (''h'', 443) ?w [] ?r) = Winner ?a 5" by code_simp
  then have e: "e = Winner ?a 5" using run by simp
  have "opened (concat (wakeups_used ?w) @ []) = [(?b, 7), (?a, 5)]" by (simp add: opened_def List.map_filter_def)
  then have "mset shut = {#(?b, 7)#}" using race_keeps_one[OF run] unfolding e by (simp add: add_mset_commute)
  then show ?thesis using run e by (simp add: Let_def)
qed

section \<open>The window stays within its bounds\<close>

definition flow_ok :: "flow \<Rightarrow> bool" where
  "flow_ok f \<longleftrightarrow> WRITE_HW_MIN \<le> fl_high f \<and> fl_high f \<le> fl_max f \<and> fl_max f \<le> WRITE_HW_MAX"

lemma new_flow_ok: "flow_ok (new_flow h m)"
  by (auto simp: flow_ok_def new_flow_def Let_def WRITE_HW_MIN_def WRITE_HW_MAX_def)

lemma observe_ok:
  assumes "flow_ok f"
  shows "flow_ok (fst (observe ms f)) \<and> fst (snd (observe ms f)) = fl_high (fst (observe ms f))
    \<and> snd (snd (observe ms f)) \<le> fst (snd (observe ms f))"
  using assms unfolding observe_def Let_def flow_ok_def WRITE_HW_MIN_def by auto

end
