(* ===== verification/Relay_Loops.thy ===== *)
theory Relay_Loops
  imports Accounting Dialing Text_Codecs
begin

text \<open>
  The two loops that move the bytes of a session (\<open>relay_vless.py\<close>): \<open>relay_client_to_tcp\<close> with its bursts
  and its write window, \<open>_read_stream_chunk\<close> over the buffer of asyncio's \<open>StreamReader\<close>,
  \<open>relay_tcp_to_client\<close>, and how a session ends once one of them is done. What the event loop brings
  while a coroutine waits is a list of turns; clocks, the table of configurations and the fate of a
  write are in the rounds of a schedule. The fallback for other Python implementations and the copying
  of buffers are left out.
\<close>

definition READ_MIN :: nat where "READ_MIN = 128 * 1024"
definition READ_MAX :: nat where "READ_MAX = 8 * 1024 * 1024"
definition BULK_TRIGGER :: nat where "BULK_TRIGGER = 128 * 1024"
definition BULK_STREAK_TRIGGER :: nat where "BULK_STREAK_TRIGGER = 2"
definition BURST_MESSAGES :: nat where "BURST_MESSAGES = 32"
definition BURST_BYTES :: nat where "BURST_BYTES = 4 * 1024 * 1024"

definition speed_limited :: "links \<Rightarrow> string \<Rightarrow> bool" where
  "speed_limited ls uid = (case map_of ls uid of None \<Rightarrow> False | Some l \<Rightarrow> 0 < l_speed l)"

section \<open>Reading from the target\<close>

datatype feed = Bytes_In "nat list" | Eof_In | Error_In

record reader =
  rd_buffer :: "nat list"
  rd_eof :: bool
  rd_error :: bool

fun fed :: "feed \<Rightarrow> reader \<Rightarrow> reader" where
  "fed (Bytes_In b) r = r\<lparr>rd_buffer := rd_buffer r @ b\<rparr>"
| "fed Eof_In r = r\<lparr>rd_eof := True\<rparr>"
| "fed Error_In r = r\<lparr>rd_error := True\<rparr>"

type_synonym turns = "feed list list"

fun wakes :: "feed \<Rightarrow> bool" where
  "wakes (Bytes_In b) = (b \<noteq> [])"
| "wakes Eof_In = True"
| "wakes Error_In = True"

text \<open>\<open>_wait_for_data\<close>: the first event that wakes the reader decides whether it raises; the rest of
  the turn still arrives before the reader runs again.\<close>

fun awaited :: "turns \<Rightarrow> reader \<Rightarrow> (bool \<times> reader \<times> turns) option" where
  "awaited [] r = None"
| "awaited (t # ts) r = (case find wakes t of
     None \<Rightarrow> awaited ts (fold fed t r) | Some e \<Rightarrow> Some (e = Error_In, fold fed t r, ts))"

datatype chunk = Chunk "nat list" | Read_Error | Asleep

definition coalesced :: "bool \<Rightarrow> reader \<Rightarrow> turns \<Rightarrow> reader \<times> turns" where
  "coalesced one_turn r ts =
     (if one_turn \<and> length (rd_buffer r) < READ_MIN \<and> \<not> rd_eof r
      then (case ts of [] \<Rightarrow> (r, []) | t # us \<Rightarrow> (fold fed t r, us)) else (r, ts))"

definition take_chunk :: "nat \<Rightarrow> reader \<times> turns \<Rightarrow> chunk \<times> reader \<times> turns" where
  "take_chunk max_bytes rt = (case rt of (r, ts) \<Rightarrow>
     (let count = min (length (rd_buffer r)) max_bytes
      in (Chunk (take count (rd_buffer r)), r\<lparr>rd_buffer := drop count (rd_buffer r)\<rparr>, ts)))"

definition read_stream_chunk :: "nat \<Rightarrow> bool \<Rightarrow> turns \<Rightarrow> reader \<Rightarrow> chunk \<times> reader \<times> turns" where
  "read_stream_chunk max_bytes one_turn ts r =
     (if rd_error r then (Read_Error, r, ts)
      else (case (if rd_buffer r = [] \<and> \<not> rd_eof r then awaited ts r else Some (False, r, ts)) of
          None \<Rightarrow> (Asleep, r, [])
        | Some (bad, s, us) \<Rightarrow>
           if bad then (Read_Error, s, us) else take_chunk max_bytes (coalesced one_turn s us)))"

section \<open>From the target to the client\<close>

datatype relay_end = At_Eof | Refused | Broken | Running

text \<open>What a round of the loop meets: the clock of \<open>stage\<close>, the configurations, how many turns pass
  while it commits, throttles and sends, and whether sending succeeds.\<close>

record round =
  ro_clock :: rat
  ro_links :: links
  ro_gap :: nat
  ro_sent :: bool

record 's down =
  dn_reader :: reader
  dn_turns :: turns
  dn_gate :: gate
  dn_backend :: 's
  dn_streak :: nat
  dn_ticks :: nat
  dn_limited :: bool
  dn_counted :: "nat list"
  dn_throttled :: "nat list"
  dn_frames :: "nat list list"

definition next_streak :: "nat \<Rightarrow> nat \<Rightarrow> nat" where
  "next_streak n streak = (if BULK_TRIGGER \<le> n then min (streak + 1) (BULK_STREAK_TRIGGER + 2)
     else if n < READ_MIN div 4 then streak - 1 else streak)"

definition pass_turns :: "nat \<Rightarrow> 's down \<Rightarrow> 's down" where
  "pass_turns k d = d\<lparr>dn_reader := fold fed (concat (take k (dn_turns d))) (dn_reader d), dn_turns := drop k (dn_turns d)\<rparr>"

text \<open>\<open>stage\<close> and, when a batch is full, \<open>commit\<close>.\<close>

definition account :: "(int \<Rightarrow> 's \<Rightarrow> bool \<times> 's) \<Rightarrow> rat \<Rightarrow> nat \<Rightarrow> gate \<Rightarrow> 's \<Rightarrow> bool \<times> gate \<times> 's" where
  "account consume now n g s = (case stage now (int n) g of (amount, h) \<Rightarrow>
     if amount < 0 then (False, h, s) else if amount \<noteq> 0 then commit consume amount h s else (True, h, s))"

definition refreshed :: "string \<Rightarrow> links \<Rightarrow> nat \<Rightarrow> bool \<Rightarrow> bool" where
  "refreshed uid ls ticks limited = (if ticks mod 128 = 0 then speed_limited ls uid else limited)"

definition down_frame :: "(int \<Rightarrow> 's \<Rightarrow> bool \<times> 's) \<Rightarrow> string \<Rightarrow> round \<Rightarrow> nat list \<Rightarrow> 's down \<Rightarrow> relay_end option \<times> 's down" where
  "down_frame consume uid ro b d =
     (case account consume (ro_clock ro) (length b) (dn_gate d) (dn_backend d) of (ok, g, s) \<Rightarrow>
       (let d1 = d\<lparr>dn_gate := g, dn_backend := s, dn_streak := next_streak (length b) (dn_streak d)\<rparr> in
        if \<not> ok then (Some Refused, d1)
        else (let limited = refreshed uid (ro_links ro) (dn_ticks d + 1) (dn_limited d);
                  d2 = pass_turns (ro_gap ro) (d1\<lparr>dn_ticks := dn_ticks d + 1, dn_limited := limited,
                         dn_throttled := dn_throttled d @ (if limited then [length b] else []),
                         dn_counted := dn_counted d @ [length b]\<rparr>)
              in if ro_sent ro then (None, d2\<lparr>dn_frames := dn_frames d @ [b]\<rparr>) else (Some Broken, d2))))"

definition down_round :: "(int \<Rightarrow> 's \<Rightarrow> bool \<times> 's) \<Rightarrow> string \<Rightarrow> round \<Rightarrow> 's down \<Rightarrow> relay_end option \<times> 's down" where
  "down_round consume uid ro d =
     (case read_stream_chunk READ_MAX (BULK_STREAK_TRIGGER \<le> dn_streak d) (dn_turns d) (dn_reader d) of (c, r, ts) \<Rightarrow>
       (let d1 = d\<lparr>dn_reader := r, dn_turns := ts\<rparr> in
        case c of
          Asleep \<Rightarrow> (Some Running, d1)
        | Read_Error \<Rightarrow> (Some Broken, d1)
        | Chunk b \<Rightarrow> if b = [] then (Some At_Eof, d1) else down_frame consume uid ro b d1))"

fun down_loop :: "(int \<Rightarrow> 's \<Rightarrow> bool \<times> 's) \<Rightarrow> string \<Rightarrow> round list \<Rightarrow> 's down \<Rightarrow> relay_end \<times> 's down" where
  "down_loop consume uid [] d = (Running, d)"
| "down_loop consume uid (ro # ros) d = (case down_round consume uid ro d of
     (Some e, d1) \<Rightarrow> (e, d1) | (None, d1) \<Rightarrow> down_loop consume uid ros d1)"

definition flushed :: "(int \<Rightarrow> 's \<Rightarrow> bool \<times> 's) \<Rightarrow> 's down \<Rightarrow> 's down" where
  "flushed consume d = (case flush consume (dn_gate d) (dn_backend d) of (r, g, s) \<Rightarrow> d\<lparr>dn_gate := g, dn_backend := s\<rparr>)"

text \<open>\<open>greeting\<close>: whether the two bytes of the VLESS response could be sent. A loop that is cancelled
  runs its \<open>finally\<close> block too: its rounds are then those it got.\<close>

definition relay_tcp_to_client :: "(int \<Rightarrow> 's \<Rightarrow> bool \<times> 's) \<Rightarrow> string \<Rightarrow> rat \<Rightarrow> links \<Rightarrow> bool \<Rightarrow> round list \<Rightarrow> turns \<Rightarrow>
    reader \<Rightarrow> 's \<Rightarrow> relay_end \<times> 's down" where
  "relay_tcp_to_client consume uid now ls greeting ros ts r s =
     (let d = \<lparr>dn_reader = r, dn_turns = ts, dn_gate = new_gate now (map_of ls uid), dn_backend = s, dn_streak = 0, dn_ticks = 0,
               dn_limited = speed_limited ls uid, dn_counted = [], dn_throttled = [], dn_frames = []\<rparr> in
      if \<not> greeting then (Broken, flushed consume d)
      else (case down_loop consume uid ros (d\<lparr>dn_frames := [[0, 0]]\<rparr>) of (e, f) \<Rightarrow> (e, flushed consume f)))"

section \<open>From the client to the target\<close>

datatype up_message = Gone | Lost | Message "nat list option" "string option"

definition content :: "nat list option \<Rightarrow> string option \<Rightarrow> nat list" where
  "content b t = (case b of Some x \<Rightarrow> x
     | None \<Rightarrow> (case t of None \<Rightarrow> [] | Some s \<Rightarrow> concat (map utf8_point (points s))))"

text \<open>\<open>Gone\<close> is a disconnect message, \<open>Lost\<close> a receive that raises. A round: the next message, and whether \<open>receive_nowait\<close> already finds it; the clock, the
  configurations; what the write buffer holds after the message, how long a drain takes and whether it raises.\<close>

record up_round =
  ur_message :: up_message
  ur_ready :: bool
  ur_clock :: rat
  ur_links :: links
  ur_buffered :: int
  ur_drain_ms :: rat
  ur_drained :: bool

record 's up =
  up_gate :: gate
  up_backend :: 's
  up_flow :: flow
  up_ticks :: nat
  up_limited :: bool
  up_waiting :: bool
  up_messages :: nat
  up_bytes :: nat
  up_counted :: "nat list"
  up_throttled :: "nat list"
  up_written :: "nat list list"

text \<open>After a message: a full write buffer is drained; else the burst goes on while it is small, the
  configuration is not limited and a message is ready.\<close>

definition after_message :: "up_round \<Rightarrow> 's up \<Rightarrow> relay_end option \<times> 's up" where
  "after_message ro u =
     (if fl_high (up_flow u) \<le> ur_buffered ro then
        (if ur_drained ro then (None, u\<lparr>up_flow := fst (observe (ur_drain_ms ro) (up_flow u)), up_waiting := True\<rparr>) else (Some Broken, u))
      else (None, u\<lparr>up_waiting := (up_limited u \<or> BURST_MESSAGES \<le> up_messages u \<or> BURST_BYTES \<le> up_bytes u)\<rparr>))"

definition up_data :: "(int \<Rightarrow> 's \<Rightarrow> bool \<times> 's) \<Rightarrow> string \<Rightarrow> up_round \<Rightarrow> nat list \<Rightarrow> 's up \<Rightarrow> relay_end option \<times> 's up" where
  "up_data consume uid ro b u =
     (if b = [] then after_message ro u
      else (case account consume (ur_clock ro) (length b) (up_gate u) (up_backend u) of (ok, g, s) \<Rightarrow>
        (let u1 = u\<lparr>up_gate := g, up_backend := s\<rparr> in
         if \<not> ok then (Some Refused, u1)
         else (let limited = refreshed uid (ur_links ro) (up_ticks u + 1) (up_limited u)
               in after_message ro (u1\<lparr>up_ticks := up_ticks u + 1, up_limited := limited,
                    up_throttled := up_throttled u @ (if limited then [length b] else []),
                    up_counted := up_counted u @ [length b], up_written := up_written u @ [b], up_bytes := up_bytes u + length b\<rparr>)))))"

definition up_step :: "(int \<Rightarrow> 's \<Rightarrow> bool \<times> 's) \<Rightarrow> string \<Rightarrow> up_round \<Rightarrow> 's up \<Rightarrow> relay_end option \<times> 's up" where
  "up_step consume uid ro u =
     (let fresh = (up_waiting u \<or> \<not> ur_ready ro);
          u1 = u\<lparr>up_messages := (if fresh then 1 else up_messages u + 1), up_bytes := (if fresh then 0 else up_bytes u)\<rparr> in
      case ur_message ro of Gone \<Rightarrow> (Some At_Eof, u1) | Lost \<Rightarrow> (Some Broken, u1) | Message b t \<Rightarrow> up_data consume uid ro (content b t) u1)"

fun up_loop :: "(int \<Rightarrow> 's \<Rightarrow> bool \<times> 's) \<Rightarrow> string \<Rightarrow> up_round list \<Rightarrow> 's up \<Rightarrow> relay_end \<times> 's up" where
  "up_loop consume uid [] u = (Running, u)"
| "up_loop consume uid (ro # ros) u = (case up_step consume uid ro u of
     (Some e, v) \<Rightarrow> (e, v) | (None, v) \<Rightarrow> up_loop consume uid ros v)"

text \<open>The \<open>finally\<close> block flushes the gate and closes the sending side of the target connection.\<close>

datatype to_target = Wrote "nat list" | Half_Closed

definition relay_client_to_tcp :: "(int \<Rightarrow> 's \<Rightarrow> bool \<times> 's) \<Rightarrow> string \<Rightarrow> rat \<Rightarrow> links \<Rightarrow> int \<Rightarrow> int \<Rightarrow> up_round list \<Rightarrow> 's \<Rightarrow>
    relay_end \<times> to_target list \<times> 's up" where
  "relay_client_to_tcp consume uid now ls high high_max ros s =
     (case up_loop consume uid ros \<lparr>up_gate = new_gate now (map_of ls uid), up_backend = s, up_flow = new_flow high high_max,
         up_ticks = 0, up_limited = speed_limited ls uid, up_waiting = True, up_messages = 0, up_bytes = 0,
         up_counted = [], up_throttled = [], up_written = []\<rparr> of (e, u) \<Rightarrow>
       (case flush consume (up_gate u) (up_backend u) of (r, g, t) \<Rightarrow>
         (e, map Wrote (up_written u) @ [Half_Closed], u\<lparr>up_gate := g, up_backend := t\<rparr>)))"

section \<open>The end of a session\<close>

text \<open>
  \<open>_run_vless_session\<close> waits for the first of the two loops. The download goes on after the upload only for
  Raw TCP, and only for so long; \<open>k\<close> is the number of rounds it got before it is cancelled.
\<close>

datatype first_done = Upload_First | Download_First | Both_Done

definition download_rounds :: "bool \<Rightarrow> first_done \<Rightarrow> bool \<Rightarrow> nat \<Rightarrow> round list \<Rightarrow> round list" where
  "download_rounds half_close first in_time k ros = (case first of
     Upload_First \<Rightarrow> if half_close \<and> in_time then ros else take k ros | _ \<Rightarrow> ros)"

section \<open>Nothing is lost in the buffer\<close>

fun bytes_in :: "feed \<Rightarrow> nat list" where
  "bytes_in (Bytes_In b) = b" | "bytes_in Eof_In = []" | "bytes_in Error_In = []"

definition supplied :: "turns \<Rightarrow> nat list" where
  "supplied ts = concat (map bytes_in (concat ts))"

lemma supplied_simps [simp]: "supplied [] = []" "supplied (t # ts) = concat (map bytes_in t) @ supplied ts"
  by (simp_all add: supplied_def)

lemma fed_buffer [simp]: "rd_buffer (fold fed t r) = rd_buffer r @ concat (map bytes_in t)"
proof (induction t arbitrary: r)
  case (Cons e t)
  then show ?case by (cases e) simp_all
qed simp

lemma fed_eof [simp]: "rd_eof (fold fed t r) \<longleftrightarrow> rd_eof r \<or> Eof_In \<in> set t"
proof (induction t arbitrary: r)
  case (Cons e t)
  then show ?case by (cases e) auto
qed simp

lemma asleep_turn: "find wakes t = None \<Longrightarrow> concat (map bytes_in t) = [] \<and> fold fed t r = r"
proof (induction t arbitrary: r)
  case (Cons e t)
  then show ?case by (cases e) (auto split: if_splits)
qed simp

lemma woken_turn: "find wakes t = Some e \<Longrightarrow> e \<noteq> Error_In \<Longrightarrow> concat (map bytes_in t) \<noteq> [] \<or> Eof_In \<in> set t"
proof (induction t)
  case (Cons f t)
  then show ?case by (cases f) (auto split: if_splits)
qed simp

lemma awaited_spec:
  "awaited ts r = Some (bad, s, us) \<Longrightarrow>
    rd_buffer s @ supplied us = rd_buffer r @ supplied ts \<and> (\<not> bad \<longrightarrow> rd_buffer s \<noteq> [] \<or> rd_eof s)"
proof (induction ts arbitrary: r)
  case (Cons t ts)
  show ?case
  proof (cases "find wakes t")
    case None
    then have "awaited ts r = Some (bad, s, us)" "concat (map bytes_in t) = []" using Cons.prems asleep_turn [OF None, of r] by simp_all
    then show ?thesis using Cons.IH [of r] by simp
  next
    case (Some e)
    then show ?thesis using Cons.prems woken_turn [OF Some] by auto
  qed
qed simp

lemma awaited_none: "awaited ts r = None \<Longrightarrow> supplied ts = []"
proof (induction ts arbitrary: r)
  case (Cons t ts)
  then show ?case using asleep_turn [of t r] by (cases "find wakes t") auto
qed simp

lemma coalesced_spec:
  "coalesced o1 r ts = (s, us) \<Longrightarrow> rd_buffer s @ supplied us = rd_buffer r @ supplied ts
    \<and> (rd_buffer r \<noteq> [] \<or> rd_eof r \<longrightarrow> rd_buffer s \<noteq> [] \<or> rd_eof s)"
  by (auto simp: coalesced_def split: if_splits list.splits)

lemma read_spec:
  assumes "read_stream_chunk m o1 ts r = (c, s, us)" "0 < m"
  shows "rd_buffer r @ supplied ts = (case c of Chunk b \<Rightarrow> b | _ \<Rightarrow> []) @ rd_buffer s @ supplied us"
    "c = Chunk b \<Longrightarrow> length b \<le> m" "c = Chunk [] \<Longrightarrow> rd_buffer s = [] \<and> rd_eof s"
proof -
  have taken: "rd_buffer v @ supplied vs = b @ rd_buffer s @ supplied us \<and> c = Chunk b \<and> length b \<le> m \<and> (b = [] \<longrightarrow> rd_buffer v = [] \<and> rd_buffer s = [])
      \<and> rd_eof s = rd_eof v"
    if "take_chunk m (v, vs) = (c, s, us)" "b = take (min (length (rd_buffer v)) m) (rd_buffer v)" for v vs b
    using that assms(2) by (auto simp: take_chunk_def Let_def min_def split: if_splits)
  let ?w = "if rd_buffer r = [] \<and> \<not> rd_eof r then awaited ts r else Some (False, r, ts)"
  have "rd_buffer r @ supplied ts = (case c of Chunk b \<Rightarrow> b | _ \<Rightarrow> []) @ rd_buffer s @ supplied us
     \<and> (\<forall>b. c = Chunk b \<longrightarrow> length b \<le> m) \<and> (c = Chunk [] \<longrightarrow> rd_buffer s = [] \<and> rd_eof s)"
  proof (cases "rd_error r \<or> ?w = None")
    case True
    then show ?thesis using assms(1) awaited_none [of ts r] by (auto simp: read_stream_chunk_def split: if_splits)
  next
    case False
    then obtain bad v vs where w: "?w = Some (bad, v, vs)" by auto
    have v: "rd_buffer v @ supplied vs = rd_buffer r @ supplied ts" "\<not> bad \<Longrightarrow> rd_buffer v \<noteq> [] \<or> rd_eof v"
      using w awaited_spec [of ts r bad v vs] by (auto split: if_splits)
    show ?thesis
    proof (cases bad)
      case True
      then show ?thesis using assms(1) False w v by (simp add: read_stream_chunk_def)
    next
      case good: False
      obtain y ys where y: "coalesced o1 v vs = (y, ys)" by fastforce
      have t: "take_chunk m (y, ys) = (c, s, us)" using assms(1) False w good y by (simp add: read_stream_chunk_def)
      show ?thesis using taken [OF t refl] coalesced_spec [OF y] v good by auto
    qed
  qed
  then show "rd_buffer r @ supplied ts = (case c of Chunk b \<Rightarrow> b | _ \<Rightarrow> []) @ rd_buffer s @ supplied us"
    "c = Chunk b \<Longrightarrow> length b \<le> m" "c = Chunk [] \<Longrightarrow> rd_buffer s = [] \<and> rd_eof s" by blast+
qed

section \<open>What the client receives\<close>

definition unsent :: "'s down \<Rightarrow> nat list" where
  "unsent d = rd_buffer (dn_reader d) @ supplied (dn_turns d)"

lemma supplied_pass: "concat (map bytes_in (concat (take k ts))) @ supplied (drop k ts) = supplied ts"
  by (metis append_take_drop_id concat_append map_append supplied_def)

lemma pass_same [simp]: "unsent (pass_turns k d) = unsent d" "dn_gate (pass_turns k d) = dn_gate d"
  "dn_backend (pass_turns k d) = dn_backend d" "dn_counted (pass_turns k d) = dn_counted d"
  "dn_frames (pass_turns k d) = dn_frames d" "dn_ticks (pass_turns k d) = dn_ticks d"
  "dn_limited (pass_turns k d) = dn_limited d" "dn_throttled (pass_turns k d) = dn_throttled d"
  "dn_streak (pass_turns k d) = dn_streak d"
  by (simp_all add: pass_turns_def unsent_def supplied_pass)

lemma unsent_frames [simp]: "unsent (d\<lparr>dn_frames := x\<rparr>) = unsent d" "unsent (d\<lparr>dn_counted := y\<rparr>) = unsent d"
  "unsent (d\<lparr>dn_throttled := y\<rparr>) = unsent d" "unsent (d\<lparr>dn_limited := z\<rparr>) = unsent d" "unsent (d\<lparr>dn_ticks := k\<rparr>) = unsent d"
  "unsent (d\<lparr>dn_streak := k\<rparr>) = unsent d" "unsent (d\<lparr>dn_gate := g\<rparr>) = unsent d" "unsent (d\<lparr>dn_backend := s\<rparr>) = unsent d"
  by (simp_all add: unsent_def)

text \<open>One frame: what is counted, what the gate becomes, and what was sent.\<close>

lemma frame_spec:
  assumes "down_frame consume uid ro b d = (o1, f)"
  obtains ok where "account consume (ro_clock ro) (length b) (dn_gate d) (dn_backend d) = (ok, dn_gate f, dn_backend f)"
    "\<not> ok \<Longrightarrow> o1 = Some Refused \<and> dn_counted f = dn_counted d \<and> dn_frames f = dn_frames d"
    "ok \<Longrightarrow> dn_counted f = dn_counted d @ [length b] \<and> unsent f = unsent d
       \<and> (o1 = None \<and> dn_frames f = dn_frames d @ [b] \<or> o1 = Some Broken \<and> dn_frames f = dn_frames d)"
proof -
  obtain ok g s where a: "account consume (ro_clock ro) (length b) (dn_gate d) (dn_backend d) = (ok, g, s)" by (metis prod_cases3)
  show thesis by (rule that [of ok]) (use assms a in \<open>auto simp: down_frame_def Let_def split: if_splits\<close>)
qed

text \<open>The frames of a loop against the plain loop of the accounting.\<close>

lemma relay_step: "0 < n \<Longrightarrow> account consume now n g s = (ok, h, t) \<Longrightarrow>
    relay consume ((now, n) # fs) g s = (if ok then (case relay consume fs h t of (out, g1, s1) \<Rightarrow> (n # out, g1, s1)) else ([], h, t))"
  by (auto simp: account_def split: prod.splits if_splits)

definition moved_down :: "(int \<Rightarrow> 's \<Rightarrow> bool \<times> 's) \<Rightarrow> 's down \<Rightarrow> relay_end \<Rightarrow> 's down \<Rightarrow> nat list list \<Rightarrow> nat list \<Rightarrow> bool" where
  "moved_down consume d e f bs x \<longleftrightarrow> dn_frames f = dn_frames d @ bs \<and> (\<forall>b \<in> set bs. b \<noteq> [] \<and> length b \<le> READ_MAX)
     \<and> dn_counted f = dn_counted d @ map length bs @ x \<and> (e \<noteq> Broken \<longrightarrow> x = []) \<and> (\<forall>n \<in> set x. n \<le> READ_MAX) \<and> length x \<le> 1
     \<and> (\<exists>rest. unsent d = concat bs @ rest \<and> (e = At_Eof \<longrightarrow> rest = supplied (dn_turns f) \<and> rd_eof (dn_reader f)))
     \<and> (\<exists>fs. relay consume fs (dn_gate d) (dn_backend d) = (map length bs @ x, dn_gate f, dn_backend f))"

lemma moved_stop: "dn_frames f = dn_frames d \<Longrightarrow> dn_counted f = dn_counted d \<Longrightarrow> dn_gate f = dn_gate d \<Longrightarrow> dn_backend f = dn_backend d \<Longrightarrow>
    (e = At_Eof \<Longrightarrow> unsent d = supplied (dn_turns f) \<and> rd_eof (dn_reader f)) \<Longrightarrow> moved_down consume d e f [] []"
  by (auto simp: moved_down_def intro: exI [of _ "[]"])

lemma moved_next:
  assumes "0 < length b" "length b \<le> READ_MAX" "unsent d = b @ unsent d1" "dn_frames d1 = dn_frames d @ [b]" "dn_counted d1 = dn_counted d @ [length b]"
    and a: "account consume now (length b) (dn_gate d) (dn_backend d) = (True, dn_gate d1, dn_backend d1)"
    and m: "moved_down consume d1 e f bs x"
  shows "moved_down consume d e f (b # bs) x"
proof -
  from m obtain fs where fs: "relay consume fs (dn_gate d1) (dn_backend d1) = (map length bs @ x, dn_gate f, dn_backend f)"
    by (auto simp: moved_down_def)
  have "relay consume ((now, length b) # fs) (dn_gate d) (dn_backend d) = (map length (b # bs) @ x, dn_gate f, dn_backend f)"
    using relay_step [OF assms(1) a, of fs] fs by simp
  then show ?thesis using m assms(1-5) unfolding moved_down_def by (auto simp del: relay.simps)
qed

lemma round_moves:
  assumes "down_round consume uid ro d = (o1, f)"
  shows "(o1 = None \<and> (\<exists>b. 0 < length b \<and> length b \<le> READ_MAX \<and> unsent d = b @ unsent f \<and> dn_frames f = dn_frames d @ [b]
        \<and> dn_counted f = dn_counted d @ [length b]
        \<and> account consume (ro_clock ro) (length b) (dn_gate d) (dn_backend d) = (True, dn_gate f, dn_backend f)))
    \<or> (\<exists>e x. o1 = Some e \<and> moved_down consume d e f [] x)"
proof -
  obtain c r ts where rd: "read_stream_chunk READ_MAX (BULK_STREAK_TRIGGER \<le> dn_streak d) (dn_turns d) (dn_reader d) = (c, r, ts)"
    by (metis prod_cases3)
  note sp = read_spec [OF rd]
  let ?d = "d\<lparr>dn_reader := r, dn_turns := ts\<rparr>"
  have pos: "0 < READ_MAX" by (simp add: READ_MAX_def)
  have un: "unsent d = (case c of Chunk b \<Rightarrow> b | _ \<Rightarrow> []) @ unsent ?d" using sp(1) [OF pos] by (simp add: unsent_def)
  show ?thesis
  proof (cases "\<exists>b. c = Chunk b \<and> b \<noteq> []")
    case False
    then have "o1 \<noteq> None" "f = ?d" using assms rd by (auto simp: down_round_def Let_def split: chunk.splits)
    moreover have "moved_down consume d e ?d [] []" if "o1 = Some e" for e
      by (rule moved_stop) (use that assms rd False un sp(3) [OF pos] in \<open>auto simp: down_round_def Let_def unsent_def split: chunk.splits\<close>)
    ultimately show ?thesis by blast
  next
    case True
    then obtain b where b: "c = Chunk b" "b \<noteq> []" by blast
    then have fr: "down_frame consume uid ro b ?d = (o1, f)" using assms rd by (simp add: down_round_def)
    have len: "0 < length b" "length b \<le> READ_MAX" using b sp(2) [OF pos] by auto
    from fr obtain ok where a: "account consume (ro_clock ro) (length b) (dn_gate d) (dn_backend d) = (ok, dn_gate f, dn_backend f)"
      and no: "\<not> ok \<Longrightarrow> o1 = Some Refused \<and> dn_counted f = dn_counted d \<and> dn_frames f = dn_frames d"
      and yes: "ok \<Longrightarrow> dn_counted f = dn_counted d @ [length b] \<and> unsent f = unsent ?d
         \<and> (o1 = None \<and> dn_frames f = dn_frames d @ [b] \<or> o1 = Some Broken \<and> dn_frames f = dn_frames d)"
      by (rule frame_spec) simp
    have rs: "relay consume [(ro_clock ro, length b)] (dn_gate d) (dn_backend d) = (if ok then [length b] else [], dn_gate f, dn_backend f)"
      unfolding relay_step [OF len(1) a] by simp
    show ?thesis
    proof (cases "ok \<and> o1 = None")
      case True
      then show ?thesis using yes len un b(1) a by auto
    next
      case False
      have "moved_down consume d (the o1) f [] (if ok then [length b] else [])" "o1 \<noteq> None"
        using False no yes len rs unfolding moved_down_def by (auto simp del: relay.simps split: if_splits intro!: exI [of _ "[(ro_clock ro, length b)]"])
      then show ?thesis by auto
    qed
  qed
qed

lemma loop_moves: "down_loop consume uid ros d = (e, f) \<Longrightarrow> \<exists>bs x. moved_down consume d e f bs x"
proof (induction ros arbitrary: d)
  case Nil
  then have "moved_down consume d e f [] []" by (intro moved_stop) auto
  then show ?case by blast
next
  case (Cons ro ros)
  obtain o1 d1 where r: "down_round consume uid ro d = (o1, d1)" by fastforce
  from round_moves [OF r] show ?case
  proof (elim disjE conjE exE)
    fix b
    assume n: "o1 = None" and b: "0 < length b" "length b \<le> READ_MAX" "unsent d = b @ unsent d1" "dn_frames d1 = dn_frames d @ [b]"
      "dn_counted d1 = dn_counted d @ [length b]"
      "account consume (ro_clock ro) (length b) (dn_gate d) (dn_backend d) = (True, dn_gate d1, dn_backend d1)"
    have "down_loop consume uid ros d1 = (e, f)" using Cons.prems r n by simp
    from Cons.IH [OF this] moved_next [OF b] show ?case by blast
  next
    fix e1 x
    assume "o1 = Some e1" "moved_down consume d e1 d1 [] x"
    then show ?case using Cons.prems r by auto
  qed
qed

lemma flush_same [simp]: "dn_reader (flushed c d) = dn_reader d" "dn_turns (flushed c d) = dn_turns d" "dn_counted (flushed c d) = dn_counted d"
  "dn_throttled (flushed c d) = dn_throttled d" "dn_frames (flushed c d) = dn_frames d"
  by (simp_all add: flushed_def split: prod.split)

lemma flush_session: "relay consume fs (new_gate now l) s = (out, dn_gate f, dn_backend f) \<Longrightarrow>
    \<exists>fine. relay_session consume now l fs s = (out, fine, dn_backend (flushed consume f))"
  by (auto simp: relay_session_def flushed_def split: prod.split)

text \<open>
  C22. What a client receives is what the target sent: after the two bytes of the response the frames
  are, in order and without a gap, a prefix of the bytes that arrived; when the target closes the
  connection it is all of them. That also holds for a Raw TCP client that has closed its own side, as long
  as the target ends in time. The counted volume is that of the frames, up to one frame whose sending
  failed, and misses less than one batch.
\<close>

theorem download_exact:
  assumes "relay_tcp_to_client (check_and_use i uid) uid now (w_links w) True (download_rounds half_close first in_time k ros) ts r w = (e, d)"
  shows "\<exists>bs x rest. dn_frames d = [0, 0] # bs \<and> (\<forall>b \<in> set bs. b \<noteq> [] \<and> length b \<le> READ_MAX)
    \<and> rd_buffer r @ supplied ts = concat bs @ rest \<and> (e = At_Eof \<longrightarrow> rest = supplied (dn_turns d) \<and> rd_eof (dn_reader d))
    \<and> dn_counted d = map length bs @ x \<and> (e \<noteq> Broken \<longrightarrow> x = []) \<and> length x \<le> 1
    \<and> used_of uid (dn_backend d) \<le> used_of uid w + int (sum_list (dn_counted d))
    \<and> used_of uid w + int (sum_list (dn_counted d)) - used_of uid (dn_backend d) < 8388608 + 1
    \<and> ((half_close \<and> in_time \<or> first \<noteq> Upload_First)
        \<and> fst (relay_tcp_to_client (check_and_use i uid) uid now (w_links w) True ros ts r w) = At_Eof \<longrightarrow> e = At_Eof)"
proof -
  define d0 where "d0 = \<lparr>dn_reader = r, dn_turns = ts, dn_gate = new_gate now (map_of (w_links w) uid), dn_backend = w, dn_streak = 0,
    dn_ticks = 0, dn_limited = speed_limited (w_links w) uid, dn_counted = [], dn_throttled = [], dn_frames = [[0, 0]]\<rparr>"
  define rs where "rs = download_rounds half_close first in_time k ros"
  have whole: "half_close \<and> in_time \<or> first \<noteq> Upload_First \<Longrightarrow> rs = ros" by (auto simp: rs_def download_rounds_def split: first_done.split)
  obtain f where l: "down_loop (check_and_use i uid) uid rs d0 = (e, f)" and d: "d = flushed (check_and_use i uid) f"
    using assms by (auto simp: relay_tcp_to_client_def d0_def rs_def split: prod.splits)
  have till: "(half_close \<and> in_time \<or> first \<noteq> Upload_First)
      \<and> fst (relay_tcp_to_client (check_and_use i uid) uid now (w_links w) True ros ts r w) = At_Eof \<longrightarrow> e = At_Eof"
    using assms whole by (auto simp: rs_def)
  from loop_moves [OF l] obtain bs x where m: "moved_down (check_and_use i uid) d0 e f bs x" by blast
  then obtain fs where "relay (check_and_use i uid) fs (new_gate now (map_of (w_links w) uid)) w = (map length bs @ x, dn_gate f, dn_backend f)"
    by (auto simp: moved_down_def d0_def)
  from flush_session [OF this] obtain fine where
    "relay_session (check_and_use i uid) now (map_of (w_links w) uid) fs w = (map length bs @ x, fine, dn_backend d)" by (auto simp: d)
  note c = counted.session_counts [OF this]
  have mb: "max_batch (new_gate now (map_of (w_links w) uid)) \<le> 8388608"
    by (simp add: new_gate_def Let_def QUOTA_METERED_MAX_BATCH_def QUOTA_UNLIMITED_MAX_BATCH_def)
  have cnt: "dn_counted d = map length bs @ x" and frames: "dn_frames d = [0, 0] # bs"
    using m by (simp_all add: moved_down_def d0_def d)
  from m obtain rest where rest: "unsent d0 = concat bs @ rest" "e = At_Eof \<longrightarrow> rest = supplied (dn_turns f) \<and> rd_eof (dn_reader f)"
    by (auto simp: moved_down_def)
  have sizes: "\<forall>b \<in> set bs. b \<noteq> [] \<and> length b \<le> READ_MAX" "e \<noteq> Broken \<longrightarrow> x = []" "length x \<le> 1"
    using m by (simp_all add: moved_down_def)
  have un: "unsent d0 = rd_buffer r @ supplied ts" by (simp add: unsent_def d0_def)
  show ?thesis
    by (rule exI [of _ bs], rule exI [of _ x], rule exI [of _ rest])
       (use cnt frames rest [unfolded un] sizes c mb till in \<open>simp add: d\<close>)
qed

section \<open>What the target receives\<close>

definition payload :: "up_round \<Rightarrow> nat list" where
  "payload ro = (case ur_message ro of Message b t \<Rightarrow> content b t | _ \<Rightarrow> [])"

lemma after_same: "after_message ro u = (o1, v) \<Longrightarrow> up_written v = up_written u \<and> up_counted v = up_counted u \<and> up_throttled v = up_throttled u
    \<and> up_gate v = up_gate u \<and> up_backend v = up_backend u \<and> up_ticks v = up_ticks u \<and> up_limited v = up_limited u
    \<and> up_messages v = up_messages u \<and> up_bytes v = up_bytes u \<and> (o1 = None \<or> o1 = Some Broken)
    \<and> (o1 = None \<and> \<not> up_waiting v \<longrightarrow> up_messages v < BURST_MESSAGES \<and> up_bytes v < BURST_BYTES)"
  by (auto simp: after_message_def split: if_splits)

lemma step_spec:
  assumes "up_step consume uid ro u = (o1, v)"
  shows "(\<exists>b t. ur_message ro = Message b t) \<and> (o1 = None \<or> o1 = Some Broken)
      \<and> up_written v = up_written u @ filter (\<lambda>b. b \<noteq> []) [payload ro]
      \<and> up_counted v = up_counted u @ map length (filter (\<lambda>b. b \<noteq> []) [payload ro])
      \<and> (if payload ro = [] then up_gate v = up_gate u \<and> up_backend v = up_backend u
         else account consume (ur_clock ro) (length (payload ro)) (up_gate u) (up_backend u) = (True, up_gate v, up_backend v))
    \<or> (\<exists>e. o1 = Some e \<and> e \<noteq> Running \<and> (e = At_Eof \<longleftrightarrow> ur_message ro = Gone) \<and> up_written v = up_written u \<and> up_counted v = up_counted u
        \<and> (\<exists>fs. relay consume fs (up_gate u) (up_backend u) = ([], up_gate v, up_backend v)))"
proof -
  define u1 where "u1 = u\<lparr>up_messages := (if up_waiting u \<or> \<not> ur_ready ro then 1 else up_messages u + 1),
      up_bytes := (if up_waiting u \<or> \<not> ur_ready ro then 0 else up_bytes u)\<rparr>"
  have same: "up_written u1 = up_written u" "up_counted u1 = up_counted u" "up_gate u1 = up_gate u" "up_backend u1 = up_backend u"
    by (simp_all add: u1_def)
  have stop: "\<exists>fs. relay consume fs (up_gate u) (up_backend u) = ([], up_gate u, up_backend u)" by (rule exI [of _ "[]"]) simp
  show ?thesis
  proof (cases "ur_message ro")
    case (Message bb t)
    define b where "b = content bb t"
    have p: "payload ro = b" by (simp add: payload_def Message b_def)
    have d: "up_data consume uid ro b u1 = (o1, v)" using assms by (simp add: up_step_def Let_def u1_def Message b_def)
    show ?thesis
    proof (cases "b = []")
      case True
      then show ?thesis using d after_same [of ro u1 o1 v] same by (simp add: up_data_def Message p)
    next
      case False
      obtain ok g s where a: "account consume (ur_clock ro) (length b) (up_gate u) (up_backend u) = (ok, g, s)" by (metis prod_cases3)
      show ?thesis
      proof (cases ok)
        case True
        obtain u2 where u2: "after_message ro u2 = (o1, v)" "up_written u2 = up_written u @ [b]" "up_counted u2 = up_counted u @ [length b]"
            "up_gate u2 = g" "up_backend u2 = s"
          using d False a True same by (simp add: up_data_def Let_def)
        show ?thesis using after_same [OF u2(1)] u2 a True False p Message by simp
      next
        case no: False
        have "relay consume [(ur_clock ro, length b)] (up_gate u) (up_backend u) = ([], g, s)"
          using False no by (subst relay_step [OF _ a]) simp_all
        then have "\<exists>fs. relay consume fs (up_gate u) (up_backend u) = ([], g, s)" by (rule exI)
        moreover have "o1 = Some Refused" "v = u1\<lparr>up_gate := g, up_backend := s\<rparr>"
          using d False a no same by (simp_all add: up_data_def Let_def)
        ultimately show ?thesis using same Message by (intro disjI2) simp
      qed
    qed
  qed (use assms stop same in \<open>auto simp: up_step_def Let_def u1_def [symmetric]\<close>)
qed

definition moved_up :: "(int \<Rightarrow> 's \<Rightarrow> bool \<times> 's) \<Rightarrow> up_round list \<Rightarrow> 's up \<Rightarrow> relay_end \<Rightarrow> 's up \<Rightarrow> nat \<Rightarrow> bool" where
  "moved_up consume ros u e v k \<longleftrightarrow> k \<le> length ros \<and> (\<forall>j < k. ur_message (ros ! j) \<noteq> Gone)
     \<and> (e = At_Eof \<longrightarrow> k < length ros \<and> ur_message (ros ! k) = Gone) \<and> (e = Running \<longrightarrow> k = length ros)
     \<and> (let bs = filter (\<lambda>b. b \<noteq> []) (map payload (take k ros)) in
         up_written v = up_written u @ bs \<and> up_counted v = up_counted u @ map length bs
         \<and> (\<exists>fs. relay consume fs (up_gate u) (up_backend u) = (map length bs, up_gate v, up_backend v)))"

lemma up_next:
  assumes "ur_message ro \<noteq> Gone" "up_written u1 = up_written u @ filter (\<lambda>b. b \<noteq> []) [payload ro]"
    "up_counted u1 = up_counted u @ map length (filter (\<lambda>b. b \<noteq> []) [payload ro])"
    and a: "if payload ro = [] then up_gate u1 = up_gate u \<and> up_backend u1 = up_backend u
         else account consume (ur_clock ro) (length (payload ro)) (up_gate u) (up_backend u) = (True, up_gate u1, up_backend u1)"
    and m: "moved_up consume ros u1 e v k"
  shows "moved_up consume (ro # ros) u e v (Suc k)"
proof -
  define bs where "bs = filter (\<lambda>b. b \<noteq> []) (map payload (take k ros))"
  from m obtain fs where fs: "relay consume fs (up_gate u1) (up_backend u1) = (map length bs, up_gate v, up_backend v)"
    by (auto simp: moved_up_def bs_def Let_def)
  have "\<exists>fs. relay consume fs (up_gate u) (up_backend u) = (map length (filter (\<lambda>b. b \<noteq> []) [payload ro] @ bs), up_gate v, up_backend v)"
  proof (cases "payload ro = []")
    case False
    then have "relay consume ((ur_clock ro, length (payload ro)) # fs) (up_gate u) (up_backend u)
        = (map length (filter (\<lambda>b. b \<noteq> []) [payload ro] @ bs), up_gate v, up_backend v)"
      using relay_step [of "length (payload ro)" consume "ur_clock ro" "up_gate u" "up_backend u" True _ _ fs] a fs by simp
    then show ?thesis by blast
  qed (use a fs in auto)
  then show ?thesis using m assms(1-3) unfolding moved_up_def Let_def bs_def by (auto simp: nth_Cons split: nat.split)
qed

lemma up_moves: "up_loop consume uid ros u = (e, v) \<Longrightarrow> \<exists>k. moved_up consume ros u e v k"
proof (induction ros arbitrary: u)
  case Nil
  then have "moved_up consume [] u e v 0" by (auto simp: moved_up_def intro: exI [of _ "[]"])
  then show ?case by blast
next
  case (Cons ro ros)
  obtain o1 u1 where s: "up_step consume uid ro u = (o1, u1)" by fastforce
  show ?case
  proof (cases o1)
    case None
    then have "up_loop consume uid ros u1 = (e, v)" using Cons.prems s by simp
    from Cons.IH [OF this] obtain k where k: "moved_up consume ros u1 e v k" by blast
    have "moved_up consume (ro # ros) u e v (Suc k)"
      by (rule up_next [OF _ _ _ _ k]) (use step_spec [OF s] None in auto)
    then show ?thesis by blast
  next
    case (Some e1)
    then have ev: "e1 = e" "u1 = v" using Cons.prems s by simp_all
    have z: "moved_up consume ros' v Broken v 0" for ros' by (auto simp: moved_up_def intro: exI [of _ "[]"])
    from step_spec [OF s] consider
        (last) "e = Broken" "moved_up consume (ro # ros) u Broken v (Suc 0)"
      | (stop) "e \<noteq> Running" "e = At_Eof \<longleftrightarrow> ur_message ro = Gone" "up_written v = up_written u" "up_counted v = up_counted u"
          "\<exists>fs. relay consume fs (up_gate u) (up_backend u) = ([], up_gate v, up_backend v)"
      using up_next [OF _ _ _ _ z] Some ev by fastforce
    then show ?thesis
    proof cases
      case last
      then show ?thesis by blast
    next
      case stop
      then have "moved_up consume (ro # ros) u e v 0" by (auto simp: moved_up_def)
      then show ?thesis by blast
    qed
  qed
qed

text \<open>
  C23. What the target receives is what the client sent: the contents of the messages in order, each once,
  up to the disconnect, a refusal of the quota or a broken connection, and then the end of the stream.
  The counted volume is exactly what was written, less at most one batch.
\<close>

theorem upload_exact:
  assumes "relay_client_to_tcp (check_and_use i uid) uid now (w_links w) high high_max ros w = (e, out, u)"
  shows "\<exists>k. out = map Wrote (filter (\<lambda>b. b \<noteq> []) (map payload (take k ros))) @ [Half_Closed] \<and> k \<le> length ros
    \<and> (\<forall>j < k. ur_message (ros ! j) \<noteq> Gone) \<and> (e = At_Eof \<longrightarrow> k < length ros \<and> ur_message (ros ! k) = Gone)
    \<and> (e = Running \<longrightarrow> k = length ros)
    \<and> (let sent = int (sum_list (map (\<lambda>ro. length (payload ro)) (take k ros))) in
        used_of uid (up_backend u) \<le> used_of uid w + sent \<and> used_of uid w + sent - used_of uid (up_backend u) < 8388608 + 1)"
proof -
  define u0 where "u0 = \<lparr>up_gate = new_gate now (map_of (w_links w) uid), up_backend = w, up_flow = new_flow high high_max,
         up_ticks = 0, up_limited = speed_limited (w_links w) uid, up_waiting = True, up_messages = 0, up_bytes = 0,
         up_counted = [], up_throttled = [], up_written = []\<rparr>"
  obtain v where l: "up_loop (check_and_use i uid) uid ros u0 = (e, v)" and o: "out = map Wrote (up_written v) @ [Half_Closed]"
    and u: "up_backend u = snd (snd (flush (check_and_use i uid) (up_gate v) (up_backend v)))"
    using assms by (auto simp: relay_client_to_tcp_def u0_def split: prod.splits)
  from up_moves [OF l] obtain k where m: "moved_up (check_and_use i uid) ros u0 e v k" by blast
  define bs where "bs = filter (\<lambda>b. b \<noteq> []) (map payload (take k ros))"
  from m obtain fs where fs: "relay (check_and_use i uid) fs (new_gate now (map_of (w_links w) uid)) w = (map length bs, up_gate v, up_backend v)"
    by (auto simp: moved_up_def bs_def Let_def u0_def)
  have "\<exists>fine. relay_session (check_and_use i uid) now (map_of (w_links w) uid) fs w = (map length bs, fine, up_backend u)"
    using fs u by (auto simp: relay_session_def split: prod.split)
  then obtain fine where rs: "relay_session (check_and_use i uid) now (map_of (w_links w) uid) fs w = (map length bs, fine, up_backend u)" ..
  note c = counted.session_counts [OF rs]
  have "sum_list (map length (filter (\<lambda>b. b \<noteq> []) (map payload xs))) = sum_list (map (\<lambda>ro. length (payload ro)) xs)" for xs
    by (induction xs) auto
  then have sum: "sum_list (map length bs) = sum_list (map (\<lambda>ro. length (payload ro)) (take k ros))" by (simp add: bs_def)
  have "max_batch (new_gate now (map_of (w_links w) uid)) \<le> 8388608"
    by (simp add: new_gate_def Let_def QUOTA_METERED_MAX_BATCH_def QUOTA_UNLIMITED_MAX_BATCH_def)
  moreover have "up_written v = bs" using m by (simp add: moved_up_def bs_def Let_def u0_def)
  ultimately show ?thesis using c m o unfolding sum
    by (intro exI [of _ k]) (auto simp: moved_up_def bs_def Let_def)
qed

section \<open>Limits are honoured\<close>

definition honours :: "nat \<Rightarrow> bool \<Rightarrow> nat list \<Rightarrow> nat list \<Rightarrow> bool" where
  "honours ticks limited counted throttled \<longleftrightarrow> length counted = ticks \<and> ticks \<le> length throttled + 127 \<and> (limited \<or> ticks < 128)"

lemma honours_next:
  assumes "honours ticks limited c t" "speed_limited ls uid" "l = refreshed uid ls (ticks + 1) limited"
  shows "honours (ticks + 1) l (c @ [n]) (t @ (if l then [n] else []))"
proof (cases "ticks < 127 \<or> limited")
  case True
  then show ?thesis using assms by (auto simp: honours_def refreshed_def)
next
  case False
  then have "ticks = 127" using assms(1) by (auto simp: honours_def)
  then show ?thesis using assms by (simp add: honours_def refreshed_def)
qed

lemma down_honours:
  "down_loop consume uid ros d = (e, f) \<Longrightarrow> \<forall>ro \<in> set ros. speed_limited (ro_links ro) uid \<Longrightarrow>
   honours (dn_ticks d) (dn_limited d) (dn_counted d) (dn_throttled d) \<Longrightarrow>
   honours (dn_ticks f) (dn_limited f) (dn_counted f) (dn_throttled f)
   \<and> (dn_limited d \<and> dn_throttled d = dn_counted d \<longrightarrow> dn_limited f \<and> dn_throttled f = dn_counted f)"
proof (induction ros arbitrary: d)
  case (Cons ro ros)
  obtain o1 d1 where r: "down_round consume uid ro d = (o1, d1)" by fastforce
  have lim: "speed_limited (ro_links ro) uid" using Cons.prems(2) by simp
  have "honours (dn_ticks d1) (dn_limited d1) (dn_counted d1) (dn_throttled d1)
     \<and> (dn_limited d \<and> dn_throttled d = dn_counted d \<longrightarrow> dn_limited d1 \<and> dn_throttled d1 = dn_counted d1)"
    using r Cons.prems(3) honours_next [OF Cons.prems(3) lim refl] lim
    by (auto simp: down_round_def down_frame_def Let_def refreshed_def split: prod.splits chunk.splits if_splits)
  then show ?case using Cons.IH [of d1] Cons.prems r by (cases o1) auto
qed simp

text \<open>
  A speed limit that is set while a session runs reaches its download after at most 127 frames, and one
  that was set before it holds for every frame: each of them goes through the token bucket.
\<close>

theorem new_limit_honoured:
  assumes "relay_tcp_to_client consume uid now ls greeting ros ts r s = (e, d)" "\<forall>ro \<in> set ros. speed_limited (ro_links ro) uid"
  shows "length (dn_counted d) \<le> length (dn_throttled d) + 127 \<and> (speed_limited ls uid \<longrightarrow> dn_throttled d = dn_counted d)"
proof -
  define d0 where "d0 = \<lparr>dn_reader = r, dn_turns = ts, dn_gate = new_gate now (map_of ls uid), dn_backend = s, dn_streak = 0,
    dn_ticks = 0, dn_limited = speed_limited ls uid, dn_counted = [], dn_throttled = [], dn_frames = [[0, 0]]\<rparr>"
  show ?thesis
  proof (cases greeting)
    case True
    obtain f where l: "down_loop consume uid ros d0 = (e, f)" and d: "d = flushed consume f"
      using assms(1) True by (auto simp: relay_tcp_to_client_def d0_def split: prod.splits)
    have "honours (dn_ticks d0) (dn_limited d0) (dn_counted d0) (dn_throttled d0)" by (simp add: honours_def d0_def)
    from down_honours [OF l assms(2) this] show ?thesis by (auto simp: d honours_def d0_def)
  next
    case False
    then show ?thesis using assms(1) by (auto simp: relay_tcp_to_client_def)
  qed
qed

text \<open>The upload never takes more than a burst of ready messages without giving way, and its window stays in bounds.\<close>

definition burst_ok :: "'s up \<Rightarrow> bool" where
  "burst_ok u \<longleftrightarrow> flow_ok (up_flow u) \<and> (\<not> up_waiting u \<longrightarrow> up_messages u < BURST_MESSAGES \<and> up_bytes u < BURST_BYTES)"

lemma burst_step: "burst_ok u \<Longrightarrow> up_step consume uid ro u = (o1, v) \<Longrightarrow> up_messages v \<le> BURST_MESSAGES \<and> (o1 = None \<longrightarrow> burst_ok v)"
proof -
  assume b: "burst_ok u" and s: "up_step consume uid ro u = (o1, v)"
  have flow: "flow_ok (up_flow x) \<Longrightarrow> after_message ro x = (p, y) \<Longrightarrow> flow_ok (up_flow y)" for x p and y :: "'a up"
    using observe_ok [of "up_flow x" "ur_drain_ms ro"] by (auto simp: after_message_def split: if_splits)
  define u1 where "u1 = u\<lparr>up_messages := (if up_waiting u \<or> \<not> ur_ready ro then 1 else up_messages u + 1),
      up_bytes := (if up_waiting u \<or> \<not> ur_ready ro then 0 else up_bytes u)\<rparr>"
  have u1: "flow_ok (up_flow u1)" "up_messages u1 \<le> BURST_MESSAGES" using b by (auto simp: burst_ok_def u1_def BURST_MESSAGES_def)
  have after: "flow_ok (up_flow x) \<and> up_messages x \<le> BURST_MESSAGES \<Longrightarrow> after_message ro x = (o1, v) \<Longrightarrow>
      up_messages v \<le> BURST_MESSAGES \<and> (o1 = None \<longrightarrow> burst_ok v)" for x
    using flow [of x o1 v] after_same [of ro x o1 v] by (auto simp: burst_ok_def)
  show ?thesis
  proof (cases "ur_message ro")
    case (Message bb t)
    then have d: "up_data consume uid ro (content bb t) u1 = (o1, v)" using s by (simp add: up_step_def Let_def u1_def)
    show ?thesis
    proof (cases "content bb t = []")
      case True
      then show ?thesis using after [of u1] d u1 by (simp add: up_data_def)
    next
      case False
      obtain ok g w where a: "account consume (ur_clock ro) (length (content bb t)) (up_gate u1) (up_backend u1) = (ok, g, w)"
        by (metis prod_cases3)
      show ?thesis
      proof (cases ok)
        case True
        obtain y where "after_message ro y = (o1, v)" "up_flow y = up_flow u1" "up_messages y = up_messages u1"
          using d False a True by (simp add: up_data_def Let_def)
        then show ?thesis using after [of y] u1 by simp
      qed (use d False a u1 in \<open>auto simp: up_data_def Let_def\<close>)
    qed
  qed (use s u1 in \<open>auto simp: up_step_def Let_def u1_def [symmetric]\<close>)
qed

lemma burst_bounded: "up_loop consume uid ros u = (e, v) \<Longrightarrow> burst_ok u \<Longrightarrow> up_messages u \<le> BURST_MESSAGES \<Longrightarrow> up_messages v \<le> BURST_MESSAGES"
proof (induction ros arbitrary: u)
  case (Cons ro ros)
  obtain o1 u1 where s: "up_step consume uid ro u = (o1, u1)" by fastforce
  from burst_step [OF Cons.prems(2) s] show ?case using Cons.IH [of u1] Cons.prems(1) s by (cases o1) auto
qed simp

section \<open>Samples\<close>

definition sample_rounds :: "round list" where
  "sample_rounds = replicate 3 \<lparr>ro_clock = 0, ro_links = w_links sample_world, ro_gap = 1, ro_sent = True\<rparr>"

definition sample_turns :: turns where
  "sample_turns = [[Bytes_In [1, 2]], [Bytes_In [3], Eof_In]]"

definition idle_reader :: reader where
  "idle_reader = \<lparr>rd_buffer = [], rd_eof = False, rd_error = False\<rparr>"

lemma sample_download:
  "fst (relay_tcp_to_client (check_and_use sample_ingress ''u'') ''u'' 0 (w_links sample_world) True sample_rounds sample_turns idle_reader sample_world) = At_Eof"
  "dn_frames (snd (relay_tcp_to_client (check_and_use sample_ingress ''u'') ''u'' 0 (w_links sample_world) True sample_rounds sample_turns idle_reader sample_world))
    = [[0, 0], [1, 2], [3]]"
  by code_simp+

lemma download_exact_witness: "\<exists>bs rest. [[0, 0], [1, 2], [3]] = [0, 0] # bs \<and> [1, 2, 3] = concat bs @ (rest :: nat list)"
proof -
  let ?run = "relay_tcp_to_client (check_and_use sample_ingress ''u'') ''u'' 0 (w_links sample_world) True sample_rounds sample_turns idle_reader sample_world"
  have "relay_tcp_to_client (check_and_use sample_ingress ''u'') ''u'' 0 (w_links sample_world) True (download_rounds True Upload_First True 1 sample_rounds)
      sample_turns idle_reader sample_world = (fst ?run, snd ?run)" by (simp add: download_rounds_def)
  from download_exact [OF this] sample_download(2) show ?thesis
    by (auto simp: sample_turns_def idle_reader_def)
qed

lemma new_limit_honoured_witness:
  "length (dn_counted (snd (relay_tcp_to_client (check_and_use sample_ingress ''u'') ''u'' 0 (w_links sample_world) True [] [] idle_reader sample_world))) \<le> 127"
proof -
  let ?run = "relay_tcp_to_client (check_and_use sample_ingress ''u'') ''u'' 0 (w_links sample_world) True [] [] idle_reader sample_world"
  have r: "?run = (fst ?run, snd ?run)" by simp
  have "dn_throttled (snd ?run) = []" by code_simp
  then show ?thesis using new_limit_honoured [OF r] by simp
qed

definition sample_message :: "nat list \<Rightarrow> up_round" where
  "sample_message b = \<lparr>ur_message = Message (Some b) None, ur_ready = True, ur_clock = 0, ur_links = w_links sample_world, ur_buffered = 0,
     ur_drain_ms = 0, ur_drained = True\<rparr>"

lemma upload_exact_witness:
  "\<exists>k. fst (snd (relay_client_to_tcp (check_and_use sample_ingress ''u'') ''u'' 0 (w_links sample_world) 0 0
      [sample_message [7], sample_message [], sample_message [8, 9]] sample_world))
    = map Wrote (filter (\<lambda>b. b \<noteq> []) (map payload (take k [sample_message [7], sample_message [], sample_message [8, 9]]))) @ [Half_Closed]"
proof -
  let ?run = "relay_client_to_tcp (check_and_use sample_ingress ''u'') ''u'' 0 (w_links sample_world) 0 0
      [sample_message [7], sample_message [], sample_message [8, 9]] sample_world"
  have "?run = (fst ?run, fst (snd ?run), snd (snd ?run))" by simp
  from upload_exact [OF this] show ?thesis by blast
qed

end
