(* ===== verification/Exit_Probe.thy ===== *)
theory Exit_Probe
  imports Outbound Probe_Results
begin

text \<open>
  The test of an exit proxy (\<open>outbound.py\<close>): the bounded reader of an HTTP response, the measured request through
  one proxy, the identity of the exit and the result of a whole test. Bytes are characters. A stream is
  the list of segments in the order they arrive; what is cut where only matters to a read that takes
  what is there. \<open>shown\<close> is the text of a float, \<open>parse\<close> the JSON parser after decoding.
\<close>

section \<open>The reader\<close>

type_synonym stream = "string list"

fun drop_stream :: "nat \<Rightarrow> stream \<Rightarrow> stream" where
  "drop_stream n [] = []"
| "drop_stream n (s # r) = (if n < length s then drop n s # r else drop_stream (n - length s) r)"

definition read_exact :: "nat \<Rightarrow> stream \<Rightarrow> (string \<times> stream) option" where
  "read_exact n s = (if length (concat s) < n then None else Some (take n (concat s), drop_stream n s))"

definition line_length :: "string \<Rightarrow> nat" where
  "line_length t = (let n = length (takeWhile (\<lambda>c. c \<noteq> CHR 0x0A) t) in if n < length t then n + 1 else n)"

definition read_line :: "stream \<Rightarrow> string \<times> stream" where
  "read_line s = (let n = line_length (concat s) in (take n (concat s), drop_stream n s))"

fun blank_end :: "string \<Rightarrow> nat option" where
  "blank_end [] = None"
| "blank_end (c # t) = (if starts_with (CRLF @ CRLF) (c # t) then Some 4 else map_option Suc (blank_end t))"

definition read_header :: "stream \<Rightarrow> (string \<times> stream) option" where
  "read_header s = map_option (\<lambda>n. (take n (concat s), drop_stream n s)) (blank_end (concat s))"

text \<open>\<open>read(n)\<close> returns what has arrived, at most \<open>n\<close> bytes.\<close>

definition read_some :: "nat \<Rightarrow> stream \<Rightarrow> string" where
  "read_some n s = (case dropWhile (\<lambda>t. t = []) s of [] \<Rightarrow> [] | t # r \<Rightarrow> take n t)"

section \<open>An HTTP response\<close>

definition PROBE_BODY_MAX :: nat where "PROBE_BODY_MAX = 64 * 1024"

datatype http_error =
    Http_Incomplete | Http_Header_Long | Http_Bad_Length | Http_Body_Large | Http_Chunk_Header | Http_Chunk_Size
  | Http_Terminator | Http_Trailers_Long

definition header_status :: "string \<Rightarrow> int" where
  "header_status line = (case words_by blank_byte [] line of
     v # n # r \<Rightarrow> if n \<noteq> [] \<and> list_all is_decimal n then int (digits_val n) else 0 | _ \<Rightarrow> 0)"

fun header_fields :: "string list \<Rightarrow> (string, string) dict \<Rightarrow> (string, string) dict" where
  "header_fields [] d = d"
| "header_fields (l # ls) d = header_fields ls
     (if CHR '':'' \<in> set l then AList.update (lower (strip (before CHR '':'' l))) (strip (after CHR '':'' l)) d else d)"

text \<open>\<open>int(line.split(b";", 1)[0].strip(), 16)\<close> on bytes, whose white space is the ASCII one.\<close>

definition chunk_length :: "string \<Rightarrow> int option" where
  "chunk_length line =
     (let t = strip_by blank_byte (before CHR '';'' line) in
      if list_ex (\<lambda>c. is_space c \<and> \<not> blank_byte c) t then None else int16 t)"

lemma concat_drop [simp]: "concat (drop_stream n s) = drop n (concat s)"
  by (induction n s rule: drop_stream.induct) auto

lemma line_length_pos: "t \<noteq> [] \<Longrightarrow> 0 < line_length t"
  by (cases t) (auto simp: line_length_def Let_def)

lemma line_length_le: "line_length t \<le> length t"
  using length_takeWhile_le[of "\<lambda>c. c \<noteq> CHR 0x0A" t] by (simp add: line_length_def Let_def)

lemma read_line_shorter: "read_line s = (l, r) \<Longrightarrow> length (concat r) + length l = length (concat s) \<and> (concat s \<noteq> [] \<longrightarrow> l \<noteq> [])"
  using line_length_pos[of "concat s"] line_length_le[of "concat s"] by (cases "concat s = []") (auto simp: read_line_def Let_def)

lemma read_exact_rest: "read_exact n s = Some (d, r) \<Longrightarrow> length (concat r) \<le> length (concat s)"
  by (auto simp: read_exact_def split: if_splits)

lemma read_line_smaller: "read_line s = (l, r) \<Longrightarrow> l \<noteq> [] \<Longrightarrow> length (concat r) < length (concat s)"
  using read_line_shorter[of s l r] by (cases l) auto

function read_trailers :: "nat \<Rightarrow> stream \<Rightarrow> http_error + unit" where
  "read_trailers seen s = (case read_line s of (t, r) \<Rightarrow>
     if seen + length t > CONNECT_HEADER_MAX then Inl Http_Trailers_Long
     else if t = [] \<or> t = CRLF then Inr ()
     else read_trailers (seen + length t) r)"
  by auto
termination by (relation "measure (\<lambda>(n, s). length (concat s))") (auto dest: read_line_smaller[OF sym])

declare read_trailers.simps [simp del]

text \<open>The loop over the chunks; \<open>body\<close> is what was joined so far.\<close>

function read_chunks :: "string \<Rightarrow> stream \<Rightarrow> http_error + string" where
  "read_chunks body s = (case read_line s of (line, r) \<Rightarrow>
     if line = [] \<or> length line > 128 then Inl Http_Chunk_Header
     else (case chunk_length line of
         None \<Rightarrow> Inl Http_Chunk_Size
       | Some n \<Rightarrow>
          if n < 0 \<or> length body + nat n > PROBE_BODY_MAX then Inl Http_Body_Large
          else if n = 0 then and_then (read_trailers 0 r) (\<lambda>u. Inr body)
          else (case read_exact (nat n) r of
              None \<Rightarrow> Inl Http_Incomplete
            | Some (data, r2) \<Rightarrow>
               (case read_exact 2 r2 of
                  None \<Rightarrow> Inl Http_Incomplete
                | Some (mark, r3) \<Rightarrow> if mark \<noteq> CRLF then Inl Http_Terminator else read_chunks (body @ data) r3))))"
  by auto
termination
proof (relation "measure (\<lambda>(b, s). length (concat s))", simp, clarsimp, goal_cases)
  case 1
  then show ?case using read_line_smaller[OF 1(1)[symmetric]] read_exact_rest[OF 1(4)] read_exact_rest[OF 1(5)] by simp
qed

declare read_chunks.simps [simp del]

definition read_body :: "(string, string) dict \<Rightarrow> stream \<Rightarrow> http_error + string" where
  "read_body headers s = (case map_of headers ''content-length'' of
     Some t \<Rightarrow>
       (case parse_int t of
          None \<Rightarrow> Inl Http_Bad_Length
        | Some n \<Rightarrow>
           if n < 0 \<or> n > int PROBE_BODY_MAX then Inl Http_Body_Large
           else (case read_exact (nat n) s of None \<Rightarrow> Inl Http_Incomplete | Some (b, r) \<Rightarrow> Inr b))
   | None \<Rightarrow>
       if lower (case map_of headers ''transfer-encoding'' of None \<Rightarrow> [] | Some t \<Rightarrow> t) = ''chunked'' then read_chunks [] s
       else (let b = read_some (PROBE_BODY_MAX + 1) s in if length b > PROBE_BODY_MAX then Inl Http_Body_Large else Inr b))"

definition read_http_response :: "bool \<Rightarrow> stream \<Rightarrow> http_error + int \<times> (string, string) dict \<times> string" where
  "read_http_response include_body s = (case read_header s of
     None \<Rightarrow> Inl Http_Incomplete
   | Some (header, r) \<Rightarrow>
      if length header > CONNECT_HEADER_MAX then Inl Http_Header_Long
      else (let lines = crlf_lines header; headers = header_fields (tl lines) []; status = header_status (hd lines) in
        if \<not> include_body then Inr (status, headers, [])
        else and_then (read_body headers r) (\<lambda>b. Inr (status, headers, b))))"

section \<open>One request\<close>

record timing =
  tm_connect :: "rat option"
  tm_handshake :: "rat option"
  tm_total :: rat

definition error_name :: "http_error \<Rightarrow> string" where
  "error_name e = (if e = Http_Incomplete then ''IncompleteReadError'' else ''OSError'')"

definition metrics_sum :: "timing \<Rightarrow> rat" where
  "metrics_sum t = (case tm_connect t of None \<Rightarrow> 0 | Some a \<Rightarrow> a) + (case tm_handshake t of None \<Rightarrow> 0 | Some a \<Rightarrow> a)"

definition request_ms :: "timing \<Rightarrow> rat" where
  "request_ms t = max 0 (round3 (tm_total t - metrics_sum t))"

text \<open>\<open>outcome\<close> is the stream after the TLS handshake and the sent request, or the name of the exception on the way.\<close>

definition probe_https_request :: "(rat \<Rightarrow> string) \<Rightarrow> string \<Rightarrow> bool \<Rightarrow> timing \<Rightarrow> string + stream \<Rightarrow> body" where
  "probe_https_request shown host include_body t outcome =
     (let ms = (\<lambda>r. JFloat r (shown r)); part = (\<lambda>m. case m of None \<Rightarrow> JNull | Some r \<Rightarrow> ms r) in
      case and_then outcome (\<lambda>s. case read_http_response include_body s of Inl e \<Rightarrow> Inl (error_name e) | Inr x \<Rightarrow> Inr x) of
        Inr (status, headers, b) \<Rightarrow>
          [(''target'', JStr (''https://'' @ host)), (''ok'', JBool (200 \<le> status \<and> status < 400)),
           (''status'', if status = 0 then JNull else JInt status),
           (''connect_ms'', part (tm_connect t)), (''handshake_ms'', part (tm_handshake t)), (''request_ms'', ms (request_ms t)),
           (''total_ms'', ms (tm_total t)), (''latency_ms'', ms (tm_total t)), (''body'', JStr (if include_body then b else []))]
      | Inl e \<Rightarrow>
          [(''target'', JStr (''https://'' @ host)), (''ok'', JBool False), (''status'', JNull),
           (''connect_ms'', part (tm_connect t)), (''handshake_ms'', part (tm_handshake t)), (''request_ms'', ms (request_ms t)),
           (''total_ms'', ms (tm_total t)), (''latency_ms'', ms (tm_total t)), (''error'', JStr e), (''body'', JStr [])])"

section \<open>The exit\<close>

definition no_identity :: body where
  "no_identity = [(''exit_ip'', JStr []), (''exit_location'', JStr []), (''exit_country_code'', JStr [])]"

definition exit_address :: "(string \<Rightarrow> json option) \<Rightarrow> body \<Rightarrow> string option" where
  "exit_address parse r = (case parse (text_or_empty (jget r ''body'')) of
     Some (JObj d) \<Rightarrow> (let a = strip (text_or_empty (jget d ''ip'')) in if ip_address a = None then None else Some a)
   | _ \<Rightarrow> None)"

definition exit_geo :: "(string \<Rightarrow> json option) \<Rightarrow> body \<Rightarrow> string \<times> string" where
  "exit_geo parse r =
     (if \<not> truthy (jget r ''ok'') then ([], [])
      else (case parse (text_or_empty (jget r ''body'')) of
          Some (JObj d) \<Rightarrow>
            (let city = strip (text_or_empty (jget d ''city''));
                 land = strip (text_or_empty (or_else (jget d ''country_name'') (jget d ''country''))) in
             (take 160 (join '', '' (filter (\<lambda>t. t \<noteq> []) [city, land])), upper (strip (text_or_empty (jget d ''country_code'')))))
        | _ \<Rightarrow> ([], [])))"

definition exit_identity_of :: "(string \<Rightarrow> json option) \<Rightarrow> (string \<Rightarrow> string \<Rightarrow> body) \<Rightarrow> body" where
  "exit_identity_of parse fetch =
     (let i = fetch ''api.ipify.org'' ''/?format=json'' in
      if \<not> truthy (jget i ''ok'') then no_identity
      else (case exit_address parse i of
          None \<Rightarrow> no_identity
        | Some a \<Rightarrow>
            (let g = exit_geo parse (fetch ''ipapi.co'' (''/'' @ a @ ''/json/'')) in
             [(''exit_ip'', JStr a), (''exit_location'', JStr (fst g)), (''exit_country_code'', JStr (snd g))])))"

section \<open>The test of a proxy\<close>

definition TEST_TARGETS :: "string list" where "TEST_TARGETS = [''cloudflare.com'', ''google.com'']"

text \<open>\<open>check\<close> is the request without body to a target, \<open>fetch\<close> the one with a body.\<close>

definition test_proxy_record :: "(string \<Rightarrow> json option) \<Rightarrow> string \<Rightarrow> (string \<Rightarrow> body) \<Rightarrow> (string \<Rightarrow> string \<Rightarrow> body) \<Rightarrow> body" where
  "test_proxy_record parse proxy_id check fetch =
     (let results = map check TEST_TARGETS; ok = list_all (\<lambda>r. truthy (jget r ''ok'')) results in
      [(''proxy_id'', JStr proxy_id), (''ok'', JBool ok), (''checks'', JArr (map JObj results))]
        @ (if ok then exit_identity_of parse fetch else no_identity))"

section \<open>Bounded, and independent of the segments\<close>

lemma read_exact_same: "concat s = concat t \<Longrightarrow> (case read_exact n s of None \<Rightarrow> read_exact n t = None
    | Some (d, r) \<Rightarrow> \<exists>r'. read_exact n t = Some (d, r') \<and> concat r = concat r')"
  by (auto simp: read_exact_def)

lemma read_line_same: "concat s = concat t \<Longrightarrow> fst (read_line s) = fst (read_line t) \<and> concat (snd (read_line s)) = concat (snd (read_line t))"
  by (simp add: read_line_def Let_def)

lemma trailers_same: "concat s = concat t \<Longrightarrow> read_trailers n s = read_trailers n t"
proof (induction n s arbitrary: t rule: read_trailers.induct)
  case (1 n s)
  obtain l r l' r' where lr: "read_line s = (l, r)" "read_line t = (l', r')" by force
  have e: "l' = l" "concat r = concat r'" using read_line_same[OF 1(2)] lr by simp_all
  show ?case
  proof (cases "n + length l > CONNECT_HEADER_MAX \<or> l = [] \<or> l = CRLF")
    case True
    then show ?thesis by (subst (1 2) read_trailers.simps) (auto simp: lr e(1))
  next
    case False
    then have "read_trailers (n + length l) r = read_trailers (n + length l) r'" using 1(1)[OF lr(1)[symmetric] _ _ e(2)] by auto
    then show ?thesis using False by (subst (1 2) read_trailers.simps) (simp add: lr e(1))
  qed
qed

lemma chunks_same: "concat s = concat t \<Longrightarrow> read_chunks body s = read_chunks body t"
proof (induction body s arbitrary: t rule: read_chunks.induct)
  case (1 body s)
  obtain l r l' r' where lr: "read_line s = (l, r)" "read_line t = (l', r')" by force
  have e: "l' = l" "concat r = concat r'" using read_line_same[OF 1(2)] lr by simp_all
  show ?case
  proof (cases "l = [] \<or> length l > 128 \<or> chunk_length l = None \<or> the (chunk_length l) < 0
      \<or> length body + nat (the (chunk_length l)) > PROBE_BODY_MAX \<or> the (chunk_length l) = 0")
    case True
    then show ?thesis by (subst (1 2) read_chunks.simps) (auto simp: lr e(1) trailers_same[OF e(2)] split: option.splits)
  next
    case False
    then obtain n where n: "l \<noteq> []" "\<not> length l > 128" "chunk_length l = Some n" "\<not> n < 0" "\<not> length body + nat n > PROBE_BODY_MAX" "n \<noteq> 0"
      by auto
    show ?thesis
    proof (cases "read_exact (nat n) r")
      case None
      then show ?thesis using n read_exact_same[OF e(2), of "nat n"] by (subst (1 2) read_chunks.simps) (simp add: lr e(1))
    next
      case (Some p)
      obtain d r2 where p: "p = (d, r2)" by force
      then obtain r2' where d: "read_exact (nat n) r' = Some (d, r2')" "concat r2 = concat r2'"
        using read_exact_same[OF e(2), of "nat n"] Some by auto
      show ?thesis
      proof (cases "read_exact 2 r2")
        case None
        then show ?thesis using n Some p d(1) read_exact_same[OF d(2), of 2] by (subst (1 2) read_chunks.simps) (simp add: lr e(1))
      next
        case (Some q)
        obtain m r3 where q: "q = (m, r3)" by force
        then obtain r3' where m: "read_exact 2 r2' = Some (m, r3')" "concat r3 = concat r3'"
          using read_exact_same[OF d(2), of 2] Some by auto
        have "m = CRLF \<Longrightarrow> read_chunks (body @ d) r3 = read_chunks (body @ d) r3'"
          using 1(1)[OF lr(1)[symmetric] _ n(3) _ n(6) \<open>read_exact (nat n) r = Some p\<close> p[symmetric] Some q[symmetric] _ m(2)] n by auto
        then show ?thesis using n \<open>read_exact (nat n) r = Some p\<close> Some p q d(1) m(1)
          by (subst (1 2) read_chunks.simps) (simp add: lr e(1))
      qed
    qed
  qed
qed

lemma chunks_bounded: "read_chunks body s = Inr b \<Longrightarrow> length body \<le> PROBE_BODY_MAX \<Longrightarrow> length b \<le> PROBE_BODY_MAX"
proof (induction body s rule: read_chunks.induct)
  case (1 body s)
  obtain l r where lr: "read_line s = (l, r)" by force
  obtain n where n: "\<not> (l = [] \<or> 128 < length l)" "chunk_length l = Some n" "\<not> (n < 0 \<or> PROBE_BODY_MAX < length body + nat n)"
    using 1(2) by (subst (asm) read_chunks.simps) (auto simp: lr split: if_splits option.splits)
  show ?case
  proof (cases "n = 0")
    case True
    then have "b = body" using 1(2) n by (subst (asm) read_chunks.simps) (auto simp: lr and_then_Inr)
    then show ?thesis using 1(3) by simp
  next
    case False
    obtain d r2 m r3 where x: "read_exact (nat n) r = Some (d, r2)" "read_exact 2 r2 = Some (m, r3)" "m = CRLF" "read_chunks (body @ d) r3 = Inr b"
      using 1(2) n False by (subst (asm) read_chunks.simps) (auto simp: lr split: if_splits option.splits)
    have "length (body @ d) \<le> PROBE_BODY_MAX" using x(1) n(3) by (auto simp: read_exact_def split: if_splits)
    then show ?thesis using 1(1)[OF lr[symmetric] n False x(1) refl x(2) refl] x(3,4) by simp
  qed
qed

lemma read_some_le: "length (read_some n s) \<le> n"
  by (simp add: read_some_def split: list.split)

definition self_delimited :: "(string, string) dict \<Rightarrow> bool" where
  "self_delimited headers \<longleftrightarrow> map_of headers ''content-length'' \<noteq> None
     \<or> lower (case map_of headers ''transfer-encoding'' of None \<Rightarrow> [] | Some t \<Rightarrow> t) = ''chunked''"

lemma body_same: "concat s = concat t \<Longrightarrow> self_delimited headers \<Longrightarrow> read_body headers s = read_body headers t"
  using chunks_same[of s t "[]"] by (auto simp: read_body_def self_delimited_def read_exact_def split: option.split)

lemma body_bounded: "read_body headers s = Inr b \<Longrightarrow> length b \<le> PROBE_BODY_MAX"
  using chunks_bounded[of "[]" s b] by (auto simp: read_body_def read_exact_def Let_def split: option.splits if_splits)

text \<open>
  C20. Reading a response ends for every stream, and what it returns is bounded: a body of at most 64 KiB from
  a header of at most 32 KiB. When the response says where it ends, by its length or by chunks, or
  no body is asked for, the segments in which it arrives make no difference.
\<close>

theorem response_bounded:
  assumes "read_http_response incl s = Inr (status, headers, b)"
  shows "length b \<le> PROBE_BODY_MAX \<and> (\<exists>n. blank_end (concat s) = Some n \<and> n \<le> CONNECT_HEADER_MAX) \<and> (\<not> incl \<longrightarrow> b = [])
    \<and> (\<forall>t. concat t = concat s \<and> (incl \<longrightarrow> self_delimited headers) \<longrightarrow> read_http_response incl t = Inr (status, headers, b))"
proof -
  obtain h r where h: "read_header s = Some (h, r)" "\<not> length h > CONNECT_HEADER_MAX"
    using assms by (auto simp: read_http_response_def split: option.splits if_splits)
  obtain n where n: "blank_end (concat s) = Some n" "h = take n (concat s)" "r = drop_stream n s"
    using h(1) by (auto simp: read_header_def)
  have le: "blank_end u = Some k \<Longrightarrow> k \<le> length u" for u k
  proof (induction u arbitrary: k)
    case (Cons c u)
    show ?case
    proof (cases "starts_with (CRLF @ CRLF) (c # u)")
      case True
      then have "take 4 (c # u) = CRLF @ CRLF" by (simp add: starts_with_def CRLF_def numeral_eq_Suc)
      then have "length (take 4 (c # u)) = 4" by (simp add: CRLF_def)
      then show ?thesis using Cons.prems True by simp
    qed (use Cons in auto)
  qed simp
  have hn: "length h = n" using n le[OF n(1)] by simp
  have b: "if incl then read_body headers r = Inr b else b = []" "headers = header_fields (tl (crlf_lines h)) []" "status = header_status (hd (crlf_lines h))"
    using assms h by (auto simp: read_http_response_def Let_def and_then_Inr split: if_splits)
  have "read_http_response incl t = Inr (status, headers, b)" if t: "concat t = concat s" "incl \<longrightarrow> self_delimited headers" for t
  proof -
    have "read_header t = Some (h, drop_stream n t)" using n t(1) by (simp add: read_header_def)
    moreover have "incl \<Longrightarrow> read_body headers (drop_stream n t) = Inr b"
      using b(1) body_same[of "drop_stream n t" r headers] t n(3) by simp
    ultimately show ?thesis using h(2) b by (simp add: read_http_response_def Let_def)
  qed
  moreover have "length b \<le> PROBE_BODY_MAX" using b(1) body_bounded[of headers r b] by (cases incl) auto
  ultimately show ?thesis using n(1) h(2) hn b(1) by (intro conjI) auto
qed

definition sample_response :: string where
  "sample_response = ''HTTP/1.1 200 OK'' @ CRLF @ ''Transfer-Encoding: chunked'' @ CRLF @ CRLF @ ''5;x'' @ CRLF @ ''hello'' @ CRLF @ ''0'' @ CRLF @ CRLF"

lemma response_bounded_witness:
  "read_http_response True [take 7 sample_response, drop 7 sample_response] = Inr (200, [(''transfer-encoding'', ''chunked'')], ''hello'')"
proof -
  have "read_http_response True [sample_response] = Inr (200, [(''transfer-encoding'', ''chunked'')], ''hello'')" by code_simp
  moreover have "self_delimited [(''transfer-encoding'', ''chunked'')]" by code_simp
  moreover have "concat [take 7 sample_response, drop 7 sample_response] = concat [sample_response]" by simp
  ultimately show ?thesis using response_bounded by blast
qed

text \<open>
  A body that only the end of the connection delimits is read once, so that its second segment is lost, although the
  comment calls this a safe fallback.
\<close>

lemma close_delimited_cut:
  "read_http_response True [''HTTP/1.1 200 OK'' @ CRLF @ CRLF @ ''{'', ''}''] = Inr (200, [], ''{'')"
  by code_simp

section \<open>What a test shows is kept\<close>

lemma probe_target [simp]: "jget (probe_https_request shown host incl t outcome) ''target'' = JStr (''https://'' @ host)"
  by (simp add: probe_https_request_def Let_def jget_def split: sum.split)

lemma identity_keys: "exit_identity_of parse fetch = no_identity \<or>
    (\<exists>a l c. ip_address a \<noteq> None \<and> length l \<le> 160 \<and> exit_identity_of parse fetch
      = [(''exit_ip'', JStr a), (''exit_location'', JStr l), (''exit_country_code'', JStr c)])"
proof -
  have "exit_address parse r = Some a \<Longrightarrow> ip_address a \<noteq> None" for r a
    by (auto simp: exit_address_def Let_def split: option.splits json.splits if_splits)
  moreover have "length (fst (exit_geo parse r)) \<le> 160" for r
    by (simp add: exit_geo_def Let_def split: option.split json.split)
  ultimately show ?thesis by (auto simp: exit_identity_of_def Let_def split: option.split)
qed

lemma test_keys:
  "jget (test_proxy_record parse pid' check fetch) ''proxy_id'' = JStr pid'"
  "jget (test_proxy_record parse pid' check fetch) ''ok'' = JBool (list_all (\<lambda>r. truthy (jget r ''ok'')) (map check TEST_TARGETS))"
  "jget (test_proxy_record parse pid' check fetch) ''checks'' = JArr (map JObj (map check TEST_TARGETS))"
  by (simp_all add: test_proxy_record_def Let_def jget_def)

text \<open>
  What a test of a proxy returns is always accepted by the cleaning before it is kept, unless a score cannot be
  computed, and it is kept as healthy exactly when both targets answered through that proxy. The
  identity of the exit is asked for only then, and the address shown is an address.
\<close>

theorem test_result_kept:
  assumes "strip pid' = pid'" "pid' \<noteq> []"
    and "\<And>h. jget (check h) ''target'' = JStr (''https://'' @ h)"
  shows "let r = test_proxy_record parse pid' check fetch; good = list_all (\<lambda>h. truthy (jget (check h) ''ok'')) TEST_TARGETS in
    (case sanitize_proxy_test_result shown f (JStr pid') (JObj r) of
       Safe safe \<Rightarrow> (jget safe ''overall_status'' = JStr ''healthy'' \<longleftrightarrow> good)
     | Rejected \<Rightarrow> False
     | Raised \<Rightarrow> good)
    \<and> (text_or_empty (jget r ''exit_ip'') = [] \<or> good \<and> ip_address (text_or_empty (jget r ''exit_ip'')) \<noteq> None)"
proof -
  define r where "r = test_proxy_record parse pid' check fetch"
  define good where "good = list_all (\<lambda>h. truthy (jget (check h) ''ok'')) TEST_TARGETS"
  note k = test_keys[of parse pid' check fetch, folded r_def]
  have ok: "jget r ''ok'' = JBool good" using k(2) by (simp add: good_def list_all_iff)
  have items: "loop_items (jget r ''checks'') = Some [JObj (check ''cloudflare.com''), JObj (check ''google.com'')]"
    using k(3) by (simp add: loop_items_def TEST_TARGETS_def)
  define c where "c = clean_check shown f ''https://cloudflare.com'' (check ''cloudflare.com'')"
  define d where "d = clean_check shown f ''https://google.com'' (check ''google.com'')"
  have found: "by_target shown f [] [JObj (check ''cloudflare.com''), JObj (check ''google.com'')]
      = [(''https://cloudflare.com'', c), (''https://google.com'', d)]"
    by (simp add: assms(3) Let_def REQUIRED_TARGETS_def c_def d_def)
  have keep: "truthy (jget c ''ok'') = truthy (jget (check ''cloudflare.com'') ''ok'')"
    "truthy (jget d ''ok'') = truthy (jget (check ''google.com'') ''ok'')" by (simp_all add: clean_check_keys c_def d_def)
  have g: "probe_ok r \<and> truthy (jget c ''ok'') \<and> truthy (jget d ''ok'') \<longleftrightarrow> good"
    by (auto simp: keep good_def TEST_TARGETS_def probe_ok_def ok)
  have gl: "(probe_ok r \<and> list_all (\<lambda>x. truthy (jget x ''ok'')) [c, d]) = good" using g by simp
  have m: "map (\<lambda>t. the (map_of [(''https://cloudflare.com'', c), (''https://google.com'', d)] t)) REQUIRED_TARGETS = [c, d]"
    and all: "list_all (\<lambda>t. map_of [(''https://cloudflare.com'', c), (''https://google.com'', d)] t \<noteq> None) REQUIRED_TARGETS"
    by (simp_all add: REQUIRED_TARGETS_def)
  define safe where "safe = assemble pid' r [c, d] good (clean_counts (jget r ''sample_count'') (jget r ''success_count'') good)"
  have s: "sanitize_proxy_test_result shown f (JStr pid') (JObj r) = (if \<not> good then Safe (safe @ [(''score'', JInt 0)])
      else (case performance_score f safe of None \<Rightarrow> Raised | Some sc \<Rightarrow> Safe (safe @ [(''score'', JInt sc)])))"
    unfolding sanitize_proxy_test_result_def Let_def fields.simps option.case text_or_empty_JStr k(1) items found m gl assms(1) eqTrueI[OF all]
      safe_def[symmetric]
    using assms(2) by simp
  have "jget (safe @ x) ''overall_status'' = JStr (if good then ''healthy'' else ''unhealthy'')" for x
    by (simp add: safe_def assemble_def jget_def)
  then have "case sanitize_proxy_test_result shown f (JStr pid') (JObj r) of
       Safe safe \<Rightarrow> (jget safe ''overall_status'' = JStr ''healthy'' \<longleftrightarrow> good) | Rejected \<Rightarrow> False | Raised \<Rightarrow> good"
    unfolding s by (cases good) (simp_all split: option.split)
  moreover have "text_or_empty (jget r ''exit_ip'') = [] \<or> good \<and> ip_address (text_or_empty (jget r ''exit_ip'')) \<noteq> None"
  proof (cases good)
    case True
    then show ?thesis using identity_keys[of parse fetch] ok k(2)
      by (auto simp: r_def test_proxy_record_def Let_def jget_def no_identity_def)
  next
    case False
    then show ?thesis using ok k(2) by (auto simp: r_def test_proxy_record_def Let_def jget_def no_identity_def)
  qed
  ultimately show ?thesis unfolding Let_def r_def[symmetric] good_def[symmetric] by (rule conjI)
qed

lemma test_result_kept_witness:
  "case sanitize_proxy_test_result (\<lambda>r. []) (\<lambda>t. None) (JStr ''p'') (JObj (test_proxy_record (\<lambda>t. None) ''p''
      (\<lambda>h. probe_https_request (\<lambda>r. []) h False \<lparr>tm_connect = Some 20, tm_handshake = Some 30, tm_total = 90\<rparr>
         (Inr [''HTTP/1.1 301 Moved'' @ CRLF @ CRLF])) (\<lambda>h q. []))) of
     Safe safe \<Rightarrow> jget safe ''overall_status'' = JStr ''healthy'' | _ \<Rightarrow> False"
proof -
  let ?check = "\<lambda>h. probe_https_request (\<lambda>r. []) h False \<lparr>tm_connect = Some 20, tm_handshake = Some 30, tm_total = 90\<rparr>
         (Inr [''HTTP/1.1 301 Moved'' @ CRLF @ CRLF])"
  let ?s = "sanitize_proxy_test_result (\<lambda>r. []) (\<lambda>t. None) (JStr ''p'') (JObj (test_proxy_record (\<lambda>t. None) ''p'' ?check (\<lambda>h q. [])))"
  have 1: "strip ''p'' = ''p''" by code_simp
  have good: "list_all (\<lambda>h. truthy (jget (?check h) ''ok'')) TEST_TARGETS" by code_simp
  have "(case ?s of Raised \<Rightarrow> True | _ \<Rightarrow> False) = False" by code_simp
  then show ?thesis
    using test_result_kept[OF 1, of ?check "\<lambda>t. None" "\<lambda>h q. []" "\<lambda>r. []" "\<lambda>t. None"] good
    by (cases ?s) (simp_all add: Let_def)
qed

end
