(* ===== verification/Spec2Isabelle.thy ===== *)
theory Spec2Isabelle
  imports Bot_Privacy Membership Sessions Scan_Queue Restore Psiphon_Session Updater Relay_Loops Exit_Probe Subscriptions
begin

text \<open>
  A verification library for the Lumen relay panel, a Python program that hands out VLESS configurations,
  relays their traffic, directly or through exit proxies, sells them in a Telegram shop and updates
  itself. The development models its own logic; every theory opens with what it holds.

  \<^bold>\<open>Parts and how they interact.\<close> The panel (\<open>main.py\<close>) keeps configurations and groups, decides the exit of a
  session and stores its state in a file. The relay (\<open>relay_vless.py\<close>) reads the header of a session, asks
  the panel whether and where it may go, dials directly or through a proxy (\<open>outbound.py\<close>), and counts what
  it forwards through the limiter (\<open>speed_limit.py\<close>). Exits come from the proxy repository
  (\<open>proxy_repository.py\<close>) and its tests (\<open>proxy_performance.py\<close> and the scan of \<open>main.py\<close>). Transports and
  Raw TCP (\<open>transports.py\<close>, \<open>raw_tcp.py\<close>) say under which address a configuration is reached. The Psiphon route
  (\<open>psiphon/\<close>, \<open>relay_psiphon.py\<close>) supervises an external Core and lends its tunnel to sessions. The shop
  (\<open>telegram_bot.py\<close>) sells configurations. The updater (\<open>updater.py\<close>) talks to GitHub and Railway.

  \<^bold>\<open>Shared theories.\<close>
  \<^item> Prelude: dictionaries as association lists in insertion order, results as sums, clamping, and the locale of
    step machines, which every machine below interprets for its invariant.
  \<^item> Py_Text, Net_Address, Json: strings as \<open>char list\<close> (code points below 256), \<open>int\<close> and \<open>str\<close>, the \<open>ipaddress\<close>
    module with its printers, JSON values with \<open>dict.get\<close> and truth.

  \<^bold>\<open>The panel.\<close>
  \<^item> Config_Address, Raw_Tcp, Transports, Countries: addresses and TLS names, the Raw TCP deployment read from the
    environment and its listener, the registry of transports, the table of countries.
  \<^item> Proxy_Url, Proxy_Repository, Performance, Probe_Results, Scan_Queue: proxies, their parser and cache, scores,
    kept test results, and the queue of the scans with its single worker.
  \<^item> Links, Registry, Link_Forms, Membership, Uuid: the records, permission, every operation on LINKS and SUBS, the
    handlers of the forms, and the agreement of both sides of a membership.
  \<^item> Exit_Routing: receipts of tests, Multi-Location tables, the choice of the exit.
  \<^item> Text_Codecs, Share_Links, Subscriptions: percent escapes and base64; the address a client imports for a
    configuration; the subscriptions, the public page of a group and the guarded HTTP proxy.
  \<^item> Sessions: panel sessions and the guard of every endpoint.
  \<^item> Persistence, Restore: the state file as effects on a disk that a crash may cut short, the snapshot, and what is
    taken from a stored state.

  \<^bold>\<open>The relay.\<close>
  \<^item> Vless_Header, Turbo_Ws: the header from any cutting into messages, the receive queue of the WebSocket protocol.
  \<^item> Speed_Limit, Accounting: token buckets, the quota gate, counting of the volume.
  \<^item> Outbound, Exit_Probe: the exchanges with an exit proxy, the one allowed route, the test of a proxy.
  \<^item> Dialing: resolver cache, order and race of direct connections, the write window.
  \<^item> Vless_Session: a session from admission to cleanup, and the interleaving of sessions.
  \<^item> Relay_Loops: the two loops that move the bytes, over the buffer of the reader and the turns of the event loop.

  \<^bold>\<open>Psiphon.\<close>
  \<^item> Psiphon_Config, Psiphon_State, Psiphon_Manager: settings, the derived configuration of the Core, the stored
    history, and the supervisor as a state machine whose phase is where its task stands.
  \<^item> Psiphon_Health, Psiphon_Session: the loopback client and the probe, and sessions interleaved with the supervisor.

  \<^bold>\<open>The shop and the updater.\<close>
  \<^item> Store, Store_Safety, Store_Ledger, Store_Codes, Shop_Laws: users, wallets, orders, gift and discount codes; the
    step relation of the shop, its ledger and its invariants, and the laws that follow.
  \<^item> Shop_Service, Shop_Bot, Bot_Laws, Bot_Privacy: what a paid order does to the panel, the assignment of exits, the dialogues,
    messages and buttons of the bot, the refinement (every update of the bot is a sequence of steps of the shop),
    what is left of an order that could not be delivered, and what an ordinary customer cannot change.
  \<^item> Updater: settings, calls with their errors, saving of credentials, the version check and the deployment.

  \<^bold>\<open>How the code is modelled.\<close> A handler is a function from the state to a result and a new state; what it awaits (network,
  clock, files, random values) is an argument. Code that runs under one lock or without an await is one step;
  steps of different tasks interleave freely in the step relations (shop, sessions, scans, supervisor, listener).
  Exceptions are values of a sum type with one constructor or text per raise. Floats are rationals with the rounding
  of the code; the time of the process is an argument and not assumed to be monotonic unless a theorem says so.

  \<^bold>\<open>Where a step is coarser than the code.\<close> Four handlers are one step although the code awaits inside.
  \<open>run_vless_session\<close> takes admission, charge and route together; the address limit is checked and taken without an
  await, and the interleaving of sessions is that of these steps. \<open>api_change_password\<close> takes the guard, the body of
  the request and the write together; in the code a sign-out that arrives between them is undone by the write, which
  keeps the token of the request. \<open>stop_active\<close> includes the wait for the process, but no lease is given from its first
  assignment on. A session of the Psiphon route always gives its lease back; in the code a cancellation during
  \<open>wait_closed\<close> passes over the release. \<open>launch\<close> has the errors of the operating system and of the files, not the last
  branch for any other exception, and \<open>stop_scan\<close> of the shutdown is defined but no event of the scan runs.

  \<^bold>\<open>What the lemmas show.\<close> Invariants of every reachable state (wallet ledger, promotion limits, membership, address
  limit, leases, scan worker, Raw TCP slots); what a customer cannot touch and what a failed order leaves; fail-closed behaviour (exit selection, sessions, tables from disk, the
  Psiphon route, the guard of endpoints); crash safety of the state file; refinement and equivalence (header from any
  cutting, two SOCKS clients, a test and what is kept of it); bounds (speed, responses, histories); termination and
  liveness (throttle, scans, giving up); round trips (identifiers, names, receipts, histories, versions, share links and subscriptions as a client reads them).

  \<^bold>\<open>Fuel and bounds.\<close> Loops are structural or end by a measure, with three exceptions. A slice of at most 64 KiB waits at
  most 257 turns for its bucket, which is what a bucket at its lowest rate needs when no timer is late and nobody else
  drains it; late timers need fewer. A scan takes its pending countries plus two turns. The supervisor gives up after twice the allowed attempts
  less one turns, since every attempt but the last is followed by a pause.

  \<^bold>\<open>Not modelled.\<close> The HTML pages and keyboards (texts), socket options and congestion control, TLS,
  the choice of the fast WebSocket hooks, the signed S3 request, the texts and
  keyboards of the bot, its store file and its calls to Telegram, logging, the periodic tasks that only sleep and call, the Railway installer (another
  language) and the vendored Psiphon Core. Unicode above code point 255 is outside the model of strings.
\<close>

end
